(* ===== verification/Orm_Prelude.thy ===== *)
theory Orm_Prelude
  imports Main "HOL-Library.Word" "HOL-Library.AList" "HOL-Library.Multiset" "HOL-Library.Sublist"
begin

text \<open>
  Shared vocabulary of the development: the results of Go functions (an error return
  or a panic, or a value), Go maps as association lists with the iteration order of a
  range loop as a parameter, and the functions of the Go packages strings and strconv
  that the source calls.  Strings are lists of bytes (type \<^typ>\<open>char\<close>), as Go's are.
\<close>

named_theorems res_simps \<open>equations of the result monad\<close>
named_theorems gomap_simps \<open>lookups in updated Go maps\<close>
named_theorems str_simps \<open>facts about the string functions\<close>

section \<open>Machine integers and bytes\<close>

type_synonym int32 = "32 word"
type_synonym int64 = "64 word"
type_synonym bytes = "8 word list"

section \<open>Results: values, error returns and panics\<close>

text \<open>
  \<open>Err m\<close> is a non-nil error return with message \<open>m\<close>, \<open>Panic m\<close> a run-time panic.
\<close>

datatype go_err = Err string | Panic string

type_synonym 'a res = "go_err + 'a"

definition rbind :: "'a res \<Rightarrow> ('a \<Rightarrow> 'b res) \<Rightarrow> 'b res" where
  "rbind m f = (case m of Inl e \<Rightarrow> Inl e | Inr x \<Rightarrow> f x)"

lemma rbind_simps [simp, res_simps]:
  "rbind (Inl e) f = Inl e"
  "rbind (Inr x) f = f x"
  by (simp_all add: rbind_def)

lemma rbind_cong [fundef_cong]:
  "m = m' \<Longrightarrow> (\<And>x. m' = Inr x \<Longrightarrow> f x = g x) \<Longrightarrow> rbind m f = rbind m' g"
  by (cases m') simp_all

lemma rbind_eq_Inr: "rbind m f = Inr y \<longleftrightarrow> (\<exists>x. m = Inr x \<and> f x = Inr y)"
  by (cases m) simp_all

lemma rbind_eq_Inl: "rbind m f = Inl e \<longleftrightarrow> m = Inl e \<or> (\<exists>x. m = Inr x \<and> f x = Inl e)"
  by (cases m) auto

text \<open>A loop that stops at the first error.\<close>

fun mfold :: "('s \<Rightarrow> 'a \<Rightarrow> 's res) \<Rightarrow> 's \<Rightarrow> 'a list \<Rightarrow> 's res" where
  "mfold f s [] = Inr s"
| "mfold f s (x # xs) = rbind (f s x) (\<lambda>s'. mfold f s' xs)"

lemma mfold_eqI: "\<forall>s. \<forall>x \<in> set xs. f s x = g s x \<Longrightarrow> mfold f s xs = mfold g s xs"
proof (induction xs arbitrary: s)
  case (Cons x xs)
  have "f s x = g s x" using Cons.prems by simp
  moreover have "mfold f s' xs = mfold g s' xs" for s'
    by (rule Cons.IH) (simp add: Cons.prems)
  ultimately show ?case by (simp add: rbind_def split: sum.split)
qed simp

lemma mfold_cong [fundef_cong]:
  "xs = ys \<Longrightarrow> s = t \<Longrightarrow> (\<And>s x. x \<in> set ys \<Longrightarrow> f s x = g s x) \<Longrightarrow> mfold f s xs = mfold g t ys"
  by (simp only:, rule mfold_eqI) blast

lemma mfold_append: "mfold f s (xs @ ys) = rbind (mfold f s xs) (\<lambda>t. mfold f t ys)"
proof (induction xs arbitrary: s)
  case (Cons x xs)
  then show ?case by (cases "f s x") simp_all
qed simp

lemma mfold_Inr_fold:
  "(\<And>s x. x \<in> set xs \<Longrightarrow> f s x = Inr (g x s)) \<Longrightarrow> mfold f s xs = Inr (fold g xs s)"
  by (induction xs arbitrary: s) simp_all

lemma mfold_invariant:
  assumes "mfold f s xs = Inr t" "P s"
    and "\<And>s x t. P s \<Longrightarrow> x \<in> set xs \<Longrightarrow> f s x = Inr t \<Longrightarrow> P t"
  shows "P t"
  using assms(1,2) assms(3)
proof (induction xs arbitrary: s)
  case (Cons x xs)
  from Cons.prems(1) obtain s' where s': "f s x = Inr s'" "mfold f s' xs = Inr t"
    by (auto simp: rbind_eq_Inr)
  from s'(1) have "P s'" by (rule Cons.prems(3) [OF Cons.prems(2), rotated]) simp
  with s'(2) show ?case
    by (rule Cons.IH) (rule Cons.prems(3), simp_all)
qed simp

section \<open>Go maps and range loops\<close>

text \<open>
  A Go map is an association list with distinct keys.  Go leaves the order in which a
  range loop visits the entries open and may choose it anew for every loop; the order
  is a function on the list of keys, a parameter of every definition that ranges over
  a map.  Properties assume no more of it than \<open>is_order\<close>: each key once.
\<close>

type_synonym ('k, 'v) gomap = "('k \<times> 'v) list"

definition gkeys :: "('k, 'v) gomap \<Rightarrow> 'k list" where
  "gkeys m = map fst m"

definition range_loop :: "('k list \<Rightarrow> 'k list) \<Rightarrow> ('k, 'v) gomap \<Rightarrow> ('k \<times> 'v) list" where
  "range_loop ord m = List.map_filter (\<lambda>k. map_option (Pair k) (map_of m k)) (ord (gkeys m))"

definition is_order :: "('k list \<Rightarrow> 'k list) \<Rightarrow> bool" where
  "is_order ord \<longleftrightarrow> (\<forall>ks. mset (ord ks) = mset ks)"

lemma is_order_id [simp]: "is_order (\<lambda>ks. ks)"
  by (simp add: is_order_def)

lemma is_order_rev [simp]: "is_order rev"
  by (simp add: is_order_def)

lemma range_loop_in:
  "(k, v) \<in> set (range_loop ord m) \<Longrightarrow> (k, v) \<in> set m"
  by (auto simp: range_loop_def List.map_filter_def dest: map_of_SomeD)

lemma set_range_loop:
  assumes "is_order ord" "distinct (gkeys m)"
  shows "set (range_loop ord m) = set m"
proof -
  from assms(1) have s: "set (ord (gkeys m)) = set (gkeys m)"
    by (metis is_order_def set_mset_mset)
  show ?thesis
  proof
    show "set (range_loop ord m) \<subseteq> set m"
      using range_loop_in by fastforce
    show "set m \<subseteq> set (range_loop ord m)"
    proof
      fix p assume p: "p \<in> set m"
      obtain k v where kv: "p = (k, v)" by (cases p)
      with p have "map_of m k = Some v" "k \<in> set (ord (gkeys m))"
        using assms(2) s by (force simp: gkeys_def)+
      then show "p \<in> set (range_loop ord m)"
        using kv by (force simp: range_loop_def List.map_filter_def image_iff)
    qed
  qed
qed

lemma map_fst_range_loop:
  assumes "is_order ord"
  shows "map fst (range_loop ord m) = ord (gkeys m)"
proof -
  have "map fst (List.map_filter (\<lambda>k. map_option (Pair k) (map_of m k)) ks) = ks"
    if "set ks \<subseteq> set (gkeys m)" for ks
    using that
  proof (induction ks)
    case (Cons k ks)
    then have "k \<in> fst ` set m" by (simp add: gkeys_def)
    then obtain v where "map_of m k = Some v"
      using map_of_eq_None_iff [of m k] by (cases "map_of m k") auto
    with Cons show ?case by (simp add: List.map_filter_simps)
  qed (simp add: List.map_filter_simps)
  moreover have "set (ord (gkeys m)) = set (gkeys m)"
    using assms by (metis is_order_def set_mset_mset)
  ultimately show ?thesis
    by (simp add: range_loop_def)
qed

lemma distinct_range_loop:
  assumes "is_order ord" "distinct (gkeys m)"
  shows "distinct (map fst (range_loop ord m))"
  by (metis assms is_order_def map_fst_range_loop mset_eq_imp_distinct_iff)

lemma mset_range_loop:
  assumes "is_order ord" "distinct (gkeys m)"
  shows "mset (range_loop ord m) = mset m"
proof -
  have "distinct (range_loop ord m)" "distinct m"
    using distinct_range_loop [OF assms] assms(2) by (auto simp: gkeys_def distinct_map)
  then show ?thesis
    using set_range_loop [OF assms] by (simp add: set_eq_iff_mset_eq_distinct)
qed

lemma map_of_range_loop:
  assumes "is_order ord" "distinct (gkeys m)"
  shows "map_of (range_loop ord m) = map_of m"
  using set_range_loop [OF assms] distinct_range_loop [OF assms] assms(2)
  by (simp add: gkeys_def map_of_inject_set)

lemma length_range_loop:
  assumes "is_order ord" "distinct (gkeys m)"
  shows "length (range_loop ord m) = length m"
  using mset_range_loop [OF assms] by (metis size_mset)

lemma map_of_update [gomap_simps]:
  "map_of (AList.update k v m) k' = (if k' = k then Some v else map_of m k')"
  by (simp add: AList.update_conv')

lemma distinct_gkeys_update: "distinct (gkeys m) \<Longrightarrow> distinct (gkeys (AList.update k v m))"
  unfolding gkeys_def by (rule AList.distinct_update)

lemma in_AList_update: "p \<in> set (AList.update k v m) \<Longrightarrow> p = (k, v) \<or> p \<in> set m"
  by (induction m) (auto split: if_splits)

lemma set_gkeys_update: "set (gkeys (AList.update k v m)) = insert k (set (gkeys m))"
  by (induction m) (auto simp: gkeys_def)

section \<open>Strings\<close>

text \<open>strings.Index and strings.LastIndex for a one-byte pattern; \<open>-1\<close> when absent.\<close>

fun str_index :: "char \<Rightarrow> string \<Rightarrow> int" where
  "str_index c [] = -1"
| "str_index c (x # xs) =
     (if x = c then 0 else if str_index c xs < 0 then -1 else str_index c xs + 1)"

fun str_last_index :: "char \<Rightarrow> string \<Rightarrow> int" where
  "str_last_index c [] = -1"
| "str_last_index c (x # xs) =
     (if 0 \<le> str_last_index c xs then str_last_index c xs + 1 else if x = c then 0 else -1)"

text \<open>The slice expression \<open>s[lo:hi]\<close>, which panics out of bounds.\<close>

definition go_slice :: "'a list \<Rightarrow> int \<Rightarrow> int \<Rightarrow> 'a list res" where
  "go_slice s lo hi =
     (if 0 \<le> lo \<and> lo \<le> hi \<and> hi \<le> int (length s)
      then Inr (take (nat hi - nat lo) (drop (nat lo) s))
      else Inl (Panic ''slice bounds out of range''))"

text \<open>strings.Contains.\<close>

fun str_contains :: "string \<Rightarrow> string \<Rightarrow> bool" where
  "str_contains [] t = (t = [])"
| "str_contains (x # xs) t = (prefix t (x # xs) \<or> str_contains xs t)"

text \<open>strings.ToLower and strings.ToUpper on ASCII letters; other bytes are left alone.\<close>

definition char_lower :: "char \<Rightarrow> char" where
  "char_lower c = (let n = of_char c :: nat in if 65 \<le> n \<and> n \<le> 90 then char_of (n + 32) else c)"

definition char_upper :: "char \<Rightarrow> char" where
  "char_upper c = (let n = of_char c :: nat in if 97 \<le> n \<and> n \<le> 122 then char_of (n - 32) else c)"

definition to_lower :: "string \<Rightarrow> string" where
  "to_lower = map char_lower"

definition to_upper :: "string \<Rightarrow> string" where
  "to_upper = map char_upper"

text \<open>Items separated by commas: the loops that write a comma before all but the first item.\<close>

fun comma_sep :: "string \<Rightarrow> string list \<Rightarrow> string" where
  "comma_sep sep [] = []"
| "comma_sep sep [x] = x"
| "comma_sep sep (x # y # xs) = x @ sep @ comma_sep sep (y # xs)"

text \<open>
  The source writes such lists with a flag \<open>first\<close>; \<open>join_loop\<close> is that loop, over a buffer.
\<close>

fun join_loop :: "string \<Rightarrow> bool \<Rightarrow> string list \<Rightarrow> string \<Rightarrow> string" where
  "join_loop sep first [] buf = buf"
| "join_loop sep first (x # xs) buf =
     join_loop sep False xs ((if first then buf else buf @ sep) @ x)"

lemma join_loop_False: "join_loop sep False xs buf = buf @ concat (map (\<lambda>x. sep @ x) xs)"
  by (induction xs arbitrary: buf) simp_all

lemma comma_sep_Cons: "comma_sep sep (x # xs) = x @ concat (map (\<lambda>y. sep @ y) xs)"
proof (induction xs arbitrary: x)
  case Nil
  then show ?case by simp
next
  case (Cons y ys)
  then show ?case by simp
qed

lemma join_loop_True [str_simps]: "join_loop sep True xs buf = buf @ comma_sep sep xs"
  by (cases xs) (simp_all add: join_loop_False comma_sep_Cons del: comma_sep.simps(3))

text \<open>strconv.Itoa and strconv.Atoi (decimal, 64 bits).\<close>

definition digit :: "nat \<Rightarrow> char" where
  "digit d = char_of (48 + d)"

fun nat_str :: "nat \<Rightarrow> string" where
  "nat_str n = (if n < 10 then [digit n] else nat_str (n div 10) @ [digit (n mod 10)])"

declare nat_str.simps [simp del]

definition itoa :: "int \<Rightarrow> string" where
  "itoa i = (if i < 0 then CHR ''-'' # nat_str (nat (- i)) else nat_str (nat i))"

definition is_digit :: "char \<Rightarrow> bool" where
  "is_digit c \<longleftrightarrow> 48 \<le> (of_char c :: nat) \<and> (of_char c :: nat) \<le> 57"

definition digit_val :: "char \<Rightarrow> nat" where
  "digit_val c = of_char c - 48"

definition digits_val :: "string \<Rightarrow> nat" where
  "digits_val = foldl (\<lambda>n c. 10 * n + digit_val c) 0"

definition parse_int64 :: "string \<Rightarrow> int option" where
  "parse_int64 s =
     (let neg = (s \<noteq> [] \<and> hd s = CHR ''-'');
          ds = (if s \<noteq> [] \<and> (hd s = CHR ''-'' \<or> hd s = CHR ''+'') then tl s else s)
      in if ds = [] \<or> \<not> list_all is_digit ds then None
         else let i = (if neg then - int (digits_val ds) else int (digits_val ds))
              in if - (2 ^ 63) \<le> i \<and> i < 2 ^ 63 then Some i else None)"

definition atoi :: "string \<Rightarrow> int res" where
  "atoi s = (case parse_int64 s of
               Some i \<Rightarrow> Inr i
             | None \<Rightarrow> Inl (Err (''strconv.Atoi: parsing '' @ s)))"

subsection \<open>Facts about the string functions\<close>

lemma str_index_absent [str_simps]: "c \<notin> set s \<Longrightarrow> str_index c s = -1"
  by (induction s) auto

lemma str_last_index_absent [str_simps]: "c \<notin> set s \<Longrightarrow> str_last_index c s = -1"
  by (induction s) auto

lemma str_index_first [str_simps]: "c \<notin> set s \<Longrightarrow> str_index c (s @ c # t) = int (length s)"
  by (induction s) auto

lemma str_last_index_last [str_simps]:
  "c \<notin> set t \<Longrightarrow> str_last_index c (s @ c # t) = int (length s)"
  by (induction s) (auto simp: str_last_index_absent)

lemma str_last_index_ge: "-1 \<le> str_last_index c s"
  by (induction s) auto

lemma go_slice_Inr:
  "go_slice s lo hi = Inr t \<longleftrightarrow>
     0 \<le> lo \<and> lo \<le> hi \<and> hi \<le> int (length s) \<and> t = take (nat hi - nat lo) (drop (nat lo) s)"
  by (auto simp: go_slice_def)

lemma str_contains_sublist: "str_contains s t \<longleftrightarrow> sublist t s"
proof (induction s)
  case Nil
  then show ?case by simp
next
  case (Cons x xs)
  then show ?case by (simp add: sublist_Cons_right)
qed

lemma str_contains_prefix: "prefix t s \<Longrightarrow> str_contains s t"
  by (simp add: str_contains_sublist prefix_imp_sublist)

lemma of_char_digit: "d < 10 \<Longrightarrow> (of_char (digit d) :: nat) = 48 + d"
  by (simp add: digit_def)

lemma is_digit_digit [simp]: "d < 10 \<Longrightarrow> is_digit (digit d)"
  by (simp add: is_digit_def of_char_digit)

lemma digit_val_digit [simp]: "d < 10 \<Longrightarrow> digit_val (digit d) = d"
  by (simp add: digit_val_def of_char_digit)

lemma digits_val_snoc: "digits_val (s @ [c]) = 10 * digits_val s + digit_val c"
  by (simp add: digits_val_def)

lemma nat_str_digits: "list_all is_digit (nat_str n) \<and> nat_str n \<noteq> [] \<and> digits_val (nat_str n) = n"
proof (induction n rule: nat_str.induct)
  case (1 n)
  show ?case
  proof (cases "n < 10")
    case True
    then show ?thesis by (subst (1 2 3) nat_str.simps) (simp add: digits_val_def)
  next
    case False
    with 1 have IH: "list_all is_digit (nat_str (n div 10))" "digits_val (nat_str (n div 10)) = n div 10"
      by simp_all
    from False have e: "nat_str n = nat_str (n div 10) @ [digit (n mod 10)]"
      by (subst nat_str.simps) simp
    show ?thesis unfolding e using IH by (simp add: digits_val_snoc)
  qed
qed

lemma nat_str_no_sign: "hd (nat_str n) \<noteq> CHR ''-''" "hd (nat_str n) \<noteq> CHR ''+''"
proof -
  have "is_digit (hd (nat_str n))"
    using nat_str_digits [of n] by (cases "nat_str n") auto
  then show "hd (nat_str n) \<noteq> CHR ''-''" "hd (nat_str n) \<noteq> CHR ''+''"
    by (auto simp: is_digit_def)
qed

lemma atoi_nat_str [str_simps]: "n < 2 ^ 63 \<Longrightarrow> atoi (nat_str n) = Inr (int n)"
  using nat_str_digits [of n] nat_str_no_sign [of n]
  by (simp add: atoi_def parse_int64_def Let_def)

lemma nat_str_inj: "nat_str m = nat_str n \<Longrightarrow> m = n"
  by (metis nat_str_digits)

lemma digit_not_special: "is_digit c \<Longrightarrow> c \<noteq> CHR ''['' \<and> c \<noteq> CHR '']''"
  by (auto simp: is_digit_def)

lemma nat_str_no_brackets [simp]:
  "CHR ''['' \<notin> set (nat_str n)" "CHR '']'' \<notin> set (nat_str n)"
  using nat_str_digits [of n] digit_not_special by (auto simp: list_all_iff)

end
