(* ===== verification/Go_Value.thy ===== *)
theory Go_Value
  imports Orm_Prelude
begin

text \<open>
  The values and types the program sees through package reflect, the type nodes of the
  introspector (\<open>l8reflect.L8Node\<close>, the fields of it the source reads), the actions,
  and the resources the program calls: third-party code, collected in a record of
  functions that is an argument of every definition using it.
\<close>

section \<open>Actions\<close>

datatype action = POST | PUT | PATCH | DELETE | GET

instantiation action :: enum
begin

definition enum_action :: "action list" where
  "enum_action = [POST, PUT, PATCH, DELETE, GET]"

definition enum_all_action :: "(action \<Rightarrow> bool) \<Rightarrow> bool" where
  "enum_all_action P \<longleftrightarrow> P POST \<and> P PUT \<and> P PATCH \<and> P DELETE \<and> P GET"

definition enum_ex_action :: "(action \<Rightarrow> bool) \<Rightarrow> bool" where
  "enum_ex_action P \<longleftrightarrow> P POST \<or> P PUT \<or> P PATCH \<or> P DELETE \<or> P GET"

instance
proof
  show "(UNIV :: action set) = set enum_class.enum"
    by (auto simp: enum_action_def) (metis action.exhaust)
  show "distinct (enum_class.enum :: action list)"
    by (simp add: enum_action_def)
  show "enum_class.enum_all P \<longleftrightarrow> Ball UNIV P" for P :: "action \<Rightarrow> bool"
    by (auto simp: enum_all_action_def) (metis action.exhaust)
  show "enum_class.enum_ex P \<longleftrightarrow> Bex UNIV P" for P :: "action \<Rightarrow> bool"
    by (auto simp: enum_ex_action_def) (metis action.exhaust)
qed

end

section \<open>Types and values\<close>

datatype gkind = KInvalid | KBool | KInt32 | KInt64 | KFloat32 | KFloat64 | KString
  | KPtr | KStruct | KSlice | KMap

text \<open>\<open>TNamed k n\<close> is the basic or struct type named \<open>n\<close>; an enum is \<open>TNamed KInt32 n\<close>.\<close>

datatype gtyp = TNamed gkind string | TPtr gtyp | TSlice gtyp | TMap gtyp gtyp

text \<open>
  A value carries its type.  Floats are their IEEE bits; a nil pointer, slice or map is
  \<^const>\<open>None\<close>; the entries of a struct are its fields in declaration order.
\<close>

datatype gval =
    GBool bool
  | GInt32 string int32
  | GInt64 int64
  | GFloat32 int32
  | GFloat64 int64
  | GString string
  | GPtr gtyp "gval option"
  | GStruct string "(string \<times> gval) list"
  | GSlice gtyp "gval list option"
  | GMap gtyp gtyp "(gval \<times> gval) list option"

fun type_of :: "gval \<Rightarrow> gtyp" where
  "type_of (GBool b) = TNamed KBool ''bool''"
| "type_of (GInt32 n w) = TNamed KInt32 n"
| "type_of (GInt64 w) = TNamed KInt64 ''int64''"
| "type_of (GFloat32 w) = TNamed KFloat32 ''float32''"
| "type_of (GFloat64 w) = TNamed KFloat64 ''float64''"
| "type_of (GString s) = TNamed KString ''string''"
| "type_of (GPtr t v) = TPtr t"
| "type_of (GStruct n fs) = TNamed KStruct n"
| "type_of (GSlice t xs) = TSlice t"
| "type_of (GMap k t m) = TMap k t"

fun kind_of_typ :: "gtyp \<Rightarrow> gkind" where
  "kind_of_typ (TNamed k n) = k"
| "kind_of_typ (TPtr t) = KPtr"
| "kind_of_typ (TSlice t) = KSlice"
| "kind_of_typ (TMap k t) = KMap"

text \<open>A \<open>reflect.Value\<close>: \<^const>\<open>None\<close> is the invalid one, of a nil interface.\<close>

type_synonym rvalue = "gval option"

fun kind_of :: "rvalue \<Rightarrow> gkind" where
  "kind_of None = KInvalid"
| "kind_of (Some v) = kind_of_typ (type_of v)"

text \<open>\<open>Value.Elem\<close> on a pointer, as the source calls it: only under a test of the kind.\<close>

fun deref :: "rvalue \<Rightarrow> rvalue" where
  "deref (Some (GPtr t v)) = v"
| "deref v = v"

text \<open>\<open>Value.FieldByName\<close>, \<open>MapKeys\<close>, \<open>Len\<close> and \<open>IsZero\<close>; the wrong kind panics.\<close>

fun field_by_name :: "string \<Rightarrow> gval \<Rightarrow> rvalue res" where
  "field_by_name n (GStruct tn fs) = Inr (map_of fs n)"
| "field_by_name n v = Inl (Panic ''reflect: call of FieldByName on non-struct Value'')"

fun map_entries :: "gval \<Rightarrow> (gval \<times> gval) list res" where
  "map_entries (GMap k t None) = Inr []"
| "map_entries (GMap k t (Some m)) = Inr m"
| "map_entries v = Inl (Panic ''reflect: call of MapKeys on non-map Value'')"

fun slice_elems :: "gval \<Rightarrow> gval list res" where
  "slice_elems (GSlice t None) = Inr []"
| "slice_elems (GSlice t (Some xs)) = Inr xs"
| "slice_elems v = Inl (Panic ''reflect: call of Len on non-slice Value'')"

fun is_zero :: "gval \<Rightarrow> bool" where
  "is_zero (GBool b) = (\<not> b)"
| "is_zero (GInt32 n w) = (w = 0)"
| "is_zero (GInt64 w) = (w = 0)"
| "is_zero (GFloat32 w) = (w = 0)"
| "is_zero (GFloat64 w) = (w = 0)"
| "is_zero (GString s) = (s = [])"
| "is_zero (GPtr t v) = (v = None)"
| "is_zero (GStruct n fs) = (\<forall>p \<in> set fs. is_zero (snd p))"
| "is_zero (GSlice t xs) = (xs = None)"
| "is_zero (GMap k t m) = (m = None)"

text \<open>\<open>Value.Set\<close> on a field of a struct: the field exists and has exactly the value's type.\<close>

fun set_assoc :: "string \<Rightarrow> gval \<Rightarrow> (string \<times> gval) list \<Rightarrow> (string \<times> gval) list" where
  "set_assoc n x [] = []"
| "set_assoc n x ((m, y) # fs) = (if m = n then (m, x) # fs else (m, y) # set_assoc n x fs)"

definition set_field :: "string \<Rightarrow> gval \<Rightarrow> gval \<Rightarrow> gval res" where
  "set_field n x v =
     (case v of
        GStruct tn fs \<Rightarrow>
          (case map_of fs n of
             None \<Rightarrow> Inl (Panic ''reflect: Set on zero Value'')
           | Some y \<Rightarrow>
               if type_of x = type_of y then Inr (GStruct tn (set_assoc n x fs))
               else Inl (Panic ''reflect.Set: value is not assignable''))
      | _ \<Rightarrow> Inl (Panic ''reflect: call of FieldByName on non-struct Value''))"

section \<open>Type nodes\<close>

text \<open>
  \<open>L8Node\<close> with the fields the source reads.  \<open>Attributes\<close> is a Go map from attribute
  names to nodes.  A node is a finite tree: the types handled have no recursive attributes.
\<close>

datatype l8node = L8Node
  (TypeName: string) (FieldName: string) (IsStruct: bool) (IsMap: bool) (IsSlice: bool)
  (KeyTypeName: string) (Attributes: "(string, l8node) gomap")

lemma size_Attributes: "(a, m) \<in> set (Attributes n) \<Longrightarrow> size m < size n"
proof (cases n)
  case (L8Node tn fn s mp sl k as)
  assume "(a, m) \<in> set (Attributes n)"
  with L8Node have "(a, m) \<in> set as" by simp
  then have "size m \<le> size_list (size_prod (\<lambda>_. 0) size) as"
    by (induction as) auto
  with L8Node show ?thesis by simp
qed

text \<open>IORM.go: the types kept in the time series database.\<close>

definition IsTimeSeriesType :: "string \<Rightarrow> bool" where
  "IsTimeSeriesType typeName \<longleftrightarrow> typeName = ''L8TimeSeriesPoint''"

definition scalar_attr :: "string \<times> l8node \<Rightarrow> bool" where
  "scalar_attr p \<longleftrightarrow> \<not> IsStruct (snd p)"

definition sub_attr :: "string \<times> l8node \<Rightarrow> bool" where
  "sub_attr p \<longleftrightarrow> IsStruct (snd p) \<and> \<not> IsTimeSeriesType (TypeName (snd p))"

definition ts_attr :: "string \<times> l8node \<Rightarrow> bool" where
  "ts_attr p \<longleftrightarrow> IsStruct (snd p) \<and> IsTimeSeriesType (TypeName (snd p))"

lemma attr_pair_simps [simp]:
  "scalar_attr (a, n) \<longleftrightarrow> \<not> IsStruct n"
  "sub_attr (a, n) \<longleftrightarrow> IsStruct n \<and> \<not> IsTimeSeriesType (TypeName n)"
  "ts_attr (a, n) \<longleftrightarrow> IsStruct n \<and> IsTimeSeriesType (TypeName n)"
  by (simp_all add: scalar_attr_def sub_attr_def ts_attr_def)

lemmas attr_defs = scalar_attr_def sub_attr_def ts_attr_def

section \<open>The resources\<close>

text \<open>
  Third-party operations, all parameters of the model: the primary key decorator of a
  value (\<open>\<open>PrimaryKeyDecoratorFromValue\<close>\<close>), the serialiser (\<open>object.NewEncode/NewDecode\<close>),
  the string forms of package l8utils strings (\<open>ToString\<close> without and with type prefixes,
  \<open>FromString\<close>), the registry (\<open>Info\<close>, \<open>NewInstance\<close>), the introspector (\<open>Node\<close>,
  \<open>Inspect\<close>, the non-unique decorator), and the range order of each loop, which is named by a
  tag and by the key the loop works under.
\<close>

record env =
  primaryKeyOf :: "l8node \<Rightarrow> gval \<Rightarrow> string"
  enc :: "gval \<Rightarrow> bytes res"
  dec :: "bytes \<Rightarrow> rvalue res"
  toStr :: "gval \<Rightarrow> string"
  toStrTyped :: "gval \<Rightarrow> string"
  fromStr :: "string \<Rightarrow> gval res"
  infoType :: "string \<Rightarrow> gtyp res"
  newInstance :: "string \<Rightarrow> gval res"
  nodeOf :: "string \<Rightarrow> l8node option"
  inspect :: "gval \<Rightarrow> l8node res"
  nonUnique :: "l8node \<Rightarrow> string list res"
  rng :: "string \<times> string \<Rightarrow> string list \<Rightarrow> string list"
  krng :: "string \<times> string \<Rightarrow> gval list \<Rightarrow> gval list"

text \<open>What the language promises of range loops.\<close>

definition orders_ok :: "'a env_scheme \<Rightarrow> bool" where
  "orders_ok E \<longleftrightarrow> (\<forall>tag. is_order (rng E tag)) \<and> (\<forall>tag. is_order (krng E tag))"

lemma orders_okD: "orders_ok E \<Longrightarrow> is_order (rng E tag)" "orders_ok E \<Longrightarrow> is_order (krng E tag)"
  by (auto simp: orders_ok_def simp del: split_paired_All)

end
