(* ===== verification/Rel_Data.thy ===== *)
theory Rel_Data
  imports Go_Value
begin

text \<open>
  The relational intermediate format (types/l8orms/orms.pb.go) and the operations on it:
  keys, columns, and the nested store of rows.  A row is stored under its table, the key
  of its parent and the attribute of the parent it belongs to.  The locale \<open>row_store\<close>
  is the contract of that store; both ways the code fills it (convert.TableAndRowsCreate
  with append, and Postgres.addRowToTable) are interpretations of it.
\<close>

section \<open>The messages\<close>

record L8OrmRow =
  ParentKey :: string
  RecKey :: string
  ColumnValues :: "(int32, bytes) gomap"

record L8OrmAttributeRows =
  Rows :: "L8OrmRow list option"

record L8OrmInstanceRows =
  AttributeRows :: "(string, L8OrmAttributeRows) gomap option"

record L8OrmTable =
  Name :: string
  Columns :: "(string, int32) gomap option"
  InstanceRows :: "(string, L8OrmInstanceRows) gomap option"

record L8TSDBNotification =
  PropertyId :: string
  Point :: "gval option"

record L8OrmRData =
  Tables :: "(string, L8OrmTable) gomap"
  RootTypeName :: string
  TsData :: "L8TSDBNotification list"

definition new_table :: "string \<Rightarrow> L8OrmTable" where
  "new_table n = \<lparr>Name = n, Columns = None, InstanceRows = None\<rparr>"

definition new_rdata :: "string \<Rightarrow> L8OrmRData" where
  "new_rdata root = \<lparr>Tables = [], RootTypeName = root, TsData = []\<rparr>"

section \<open>Keys\<close>

text \<open>ConvertTo.go, KeyForRow: the key under which the children of a row are stored.\<close>

definition KeyForRow :: "L8OrmRow \<Rightarrow> string" where
  "KeyForRow row = ParentKey row @ RecKey row"

text \<open>Read.go, nameOfField: the attribute name in front of the bracket of a RecKey.\<close>

definition nameOfField :: "string \<Rightarrow> string" where
  "nameOfField recKey =
     (let index = str_index CHR ''['' recKey
      in if index = -1 then recKey else take (nat index) recKey)"

definition bracketed :: "string \<Rightarrow> string \<Rightarrow> string" where
  "bracketed field key = field @ ''['' @ key @ '']''"

definition plain :: "string \<Rightarrow> bool" where
  "plain s \<longleftrightarrow> CHR ''['' \<notin> set s \<and> CHR '']'' \<notin> set s"

lemma plain_nat_str [simp]: "plain (nat_str n)"
  by (simp add: plain_def)

lemma plain_Nil [simp]: "plain []"
  by (simp add: plain_def)

lemma nameOfField_bracketed:
  assumes "CHR ''['' \<notin> set field"
  shows "nameOfField (bracketed field key) = field"
  using str_index_first [OF assms, of "key @ '']''"]
  by (simp add: nameOfField_def bracketed_def Let_def)

text \<open>Splitting a path of bracketed keys at its first component is unambiguous.\<close>

lemma append_sep_eq:
  assumes "c \<notin> set xs" "c \<notin> set ys" "xs @ c # us = ys @ c # vs"
  shows "xs = ys \<and> us = vs"
  using assms
proof (induction xs arbitrary: ys)
  case Nil
  from Nil.prems(2,3) have "ys = []" by (cases ys) simp_all
  with Nil.prems(3) show ?case by simp
next
  case (Cons x xs)
  from Cons.prems(1,3) obtain y ys' where ys: "ys = y # ys'" by (cases ys) simp_all
  with Cons.prems have "xs = ys' \<and> us = vs" by (intro Cons.IH) auto
  with Cons.prems(3) ys show ?case by simp
qed

lemma bracketed_append_eq:
  assumes "plain f" "plain g" "plain k" "plain j"
    and "bracketed f k @ u = bracketed g j @ v"
  shows "f = g \<and> k = j \<and> u = v"
proof -
  have "f @ CHR ''['' # (k @ CHR '']'' # u) = g @ CHR ''['' # (j @ CHR '']'' # v)"
    using assms(5) by (simp add: bracketed_def)
  with assms(1,2) have 1: "f = g \<and> k @ CHR '']'' # u = j @ CHR '']'' # v"
    unfolding plain_def by (intro append_sep_eq) simp_all
  with assms(3,4) have "k = j \<and> u = v"
    unfolding plain_def by (intro append_sep_eq [of "CHR '']''"]) simp_all
  with 1 show ?thesis by simp
qed

corollary bracketed_inject:
  "plain f \<Longrightarrow> plain g \<Longrightarrow> plain k \<Longrightarrow> plain j \<Longrightarrow> bracketed f k = bracketed g j \<longleftrightarrow> f = g \<and> k = j"
  using bracketed_append_eq [of f g k j "[]" "[]"] by auto

lemma bracketed_not_Nil [simp]: "bracketed f k \<noteq> []"
  by (simp add: bracketed_def)

section \<open>The store of rows\<close>

text \<open>
  The pointer found or made for a path of the nested maps is the entry at that path: the
  code never deletes an entry.  \<open>ensure_rows\<close> makes the missing levels of one table,
  \<open>append_rows\<close> appends through the pointer.
\<close>

definition ensure_rows :: "string \<Rightarrow> string \<Rightarrow> L8OrmTable \<Rightarrow> L8OrmTable" where
  "ensure_rows parentKey field table =
     (let instances = (case InstanceRows table of None \<Rightarrow> [] | Some m \<Rightarrow> m);
          instanceRows = (case map_of instances parentKey of
                            None \<Rightarrow> \<lparr>AttributeRows = None\<rparr> | Some r \<Rightarrow> r);
          attributes = (case AttributeRows instanceRows of None \<Rightarrow> [] | Some m \<Rightarrow> m);
          attributeRows = (case map_of attributes field of
                             None \<Rightarrow> \<lparr>Rows = None\<rparr> | Some r \<Rightarrow> r);
          attributeRows = (case Rows attributeRows of
                             None \<Rightarrow> attributeRows\<lparr>Rows := Some []\<rparr> | Some _ \<Rightarrow> attributeRows)
      in table\<lparr>InstanceRows := Some (AList.update parentKey
           (instanceRows\<lparr>AttributeRows := Some (AList.update field attributeRows attributes)\<rparr>)
           instances)\<rparr>)"

definition rows_in :: "L8OrmTable \<Rightarrow> string \<Rightarrow> string \<Rightarrow> L8OrmRow list option" where
  "rows_in table parentKey field =
     Option.bind (InstanceRows table) (\<lambda>instances.
     Option.bind (map_of instances parentKey) (\<lambda>instanceRows.
     Option.bind (AttributeRows instanceRows) (\<lambda>attributes.
     Option.bind (map_of attributes field) Rows)))"

definition append_rows :: "string \<Rightarrow> string \<Rightarrow> L8OrmRow \<Rightarrow> L8OrmTable \<Rightarrow> L8OrmTable" where
  "append_rows parentKey field row table =
     table\<lparr>InstanceRows := map_option (\<lambda>instances.
        case map_of instances parentKey of None \<Rightarrow> instances | Some instanceRows \<Rightarrow>
          AList.update parentKey (instanceRows\<lparr>AttributeRows := map_option (\<lambda>attributes.
             case map_of attributes field of None \<Rightarrow> attributes | Some attributeRows \<Rightarrow>
               AList.update field (attributeRows\<lparr>Rows :=
                  Some ((case Rows attributeRows of None \<Rightarrow> [] | Some rs \<Rightarrow> rs) @ [row])\<rparr>) attributes)
             (AttributeRows instanceRows)\<rparr>) instances)
        (InstanceRows table)\<rparr>"

text \<open>Read.go, addRowToTable (ReadRelational repeats the same statements inline).\<close>

definition addRowToTable :: "L8OrmTable \<Rightarrow> L8OrmRow \<Rightarrow> L8OrmTable" where
  "addRowToTable table row =
     (let fldName = nameOfField (RecKey row)
      in append_rows (ParentKey row) fldName row (ensure_rows (ParentKey row) fldName table))"

text \<open>ConvertTo.go, TableAndRowsCreate: the levels made for a node under a parent key.\<close>

definition TableAndRowsCreate :: "l8node \<Rightarrow> L8OrmRData \<Rightarrow> string \<Rightarrow> L8OrmRData" where
  "TableAndRowsCreate node data parentKey =
     (let table = (case map_of (Tables data) (TypeName node) of
                     None \<Rightarrow> new_table (TypeName node) | Some t \<Rightarrow> t)
      in data\<lparr>Tables := AList.update (TypeName node)
            (ensure_rows parentKey (FieldName node) table) (Tables data)\<rparr>)"

text \<open>An update through the table pointer of a node.\<close>

definition on_table :: "string \<Rightarrow> (L8OrmTable \<Rightarrow> L8OrmTable) \<Rightarrow> L8OrmRData \<Rightarrow> L8OrmRData" where
  "on_table tn f data =
     (case map_of (Tables data) tn of
        None \<Rightarrow> data
      | Some t \<Rightarrow> data\<lparr>Tables := AList.update tn (f t) (Tables data)\<rparr>)"

text \<open>ConvertTo.go, \<open>attributeRows.Rows = append(attributeRows.Rows, row)\<close>.\<close>

definition append_row :: "l8node \<Rightarrow> string \<Rightarrow> L8OrmRow \<Rightarrow> L8OrmRData \<Rightarrow> L8OrmRData" where
  "append_row node parentKey row =
     on_table (TypeName node) (append_rows parentKey (FieldName node) row)"

text \<open>ConvertFrom.go, TableAndRowsGet.\<close>

definition TableAndRowsGet ::
    "l8node \<Rightarrow> L8OrmRData \<Rightarrow> string \<Rightarrow> (L8OrmTable \<times> L8OrmRow list) option" where
  "TableAndRowsGet node data parentKey =
     (case map_of (Tables data) (TypeName node) of
        None \<Rightarrow> None
      | Some table \<Rightarrow>
        (case InstanceRows table of
           None \<Rightarrow> None
         | Some instances \<Rightarrow>
           (case map_of instances parentKey of
              None \<Rightarrow> None
            | Some instanceRows \<Rightarrow>
              (case AttributeRows instanceRows of
                 None \<Rightarrow> None
               | Some attributes \<Rightarrow>
                 (case map_of attributes (FieldName node) of
                    None \<Rightarrow> None
                  | Some attributeRows \<Rightarrow>
                    (case Rows attributeRows of
                       None \<Rightarrow> None
                     | Some rows \<Rightarrow> Some (table, rows)))))))"

subsection \<open>Reading the store\<close>

definition rows_at :: "L8OrmRData \<Rightarrow> string \<Rightarrow> string \<Rightarrow> string \<Rightarrow> L8OrmRow list option" where
  "rows_at data tn parentKey field =
     Option.bind (map_of (Tables data) tn) (\<lambda>t. rows_in t parentKey field)"

definition columns_at :: "L8OrmRData \<Rightarrow> string \<Rightarrow> (string, int32) gomap option" where
  "columns_at data tn = Option.bind (map_of (Tables data) tn) Columns"

lemma TableAndRowsGet_rows:
  "TableAndRowsGet node data parentKey =
     (case rows_at data (TypeName node) parentKey (FieldName node) of
        None \<Rightarrow> None | Some rows \<Rightarrow> Some (the (map_of (Tables data) (TypeName node)), rows))"
  by (auto simp: TableAndRowsGet_def rows_at_def rows_in_def split: option.splits)

lemma rows_in_new_table [simp]: "rows_in (new_table n) pk f = None"
  by (simp add: rows_in_def new_table_def)

lemma rows_in_ensure:
  "rows_in (ensure_rows pk f t) pk' f' =
     (if pk' = pk \<and> f' = f then Some (case rows_in t pk f of None \<Rightarrow> [] | Some rs \<Rightarrow> rs)
      else rows_in t pk' f')"
  by (auto simp: rows_in_def ensure_rows_def Let_def map_of_update split: option.splits)

lemma rows_in_append:
  assumes "rows_in t pk f = Some rs"
  shows "rows_in (append_rows pk f r t) pk' f' =
     (if pk' = pk \<and> f' = f then Some (rs @ [r]) else rows_in t pk' f')"
  using assms
  by (auto simp: rows_in_def append_rows_def map_of_update split: option.splits bind_splits)

lemma Columns_ensure_rows [simp]: "Columns (ensure_rows pk f t) = Columns t"
  by (simp add: ensure_rows_def Let_def)

lemma Columns_append_rows [simp]: "Columns (append_rows pk f r t) = Columns t"
  by (simp add: append_rows_def)

lemma Columns_addRowToTable [simp]: "Columns (addRowToTable t r) = Columns t"
  by (simp add: addRowToTable_def Let_def)

section \<open>The contract of the row store\<close>

text \<open>
  A store holds, for every location, the rows added there, oldest first, and adding at
  one location leaves the others alone.
\<close>

locale row_store =
  fixes add :: "'loc \<Rightarrow> 'row \<Rightarrow> 'd \<Rightarrow> 'd"
    and rows :: "'d \<Rightarrow> 'loc \<Rightarrow> 'row list"
  assumes rows_add: "rows (add l r d) l' = (if l' = l then rows d l @ [r] else rows d l')"
begin

definition add_all :: "('loc \<times> 'row) list \<Rightarrow> 'd \<Rightarrow> 'd" where
  "add_all lrs d = fold (\<lambda>(l, r) d. add l r d) lrs d"

lemma add_all_simps:
  "add_all [] d = d"
  "add_all (lr # lrs) d = add_all lrs (add (fst lr) (snd lr) d)"
  by (simp_all add: add_all_def split: prod.split)

lemma rows_add_all: "rows (add_all lrs d) l = rows d l @ map snd (filter (\<lambda>lr. fst lr = l) lrs)"
  by (induction lrs arbitrary: d) (auto simp: add_all_simps rows_add)

lemma rows_add_all_frame: "l \<notin> fst ` set lrs \<Longrightarrow> rows (add_all lrs d) l = rows d l"
proof -
  assume "l \<notin> fst ` set lrs"
  then have "filter (\<lambda>lr. fst lr = l) lrs = []"
    by (auto simp: filter_empty_conv)
  then show ?thesis by (simp add: rows_add_all)
qed

text \<open>The order of additions matters only within one location.\<close>

lemma rows_add_all_perm:
  assumes "\<And>l. filter (\<lambda>lr. fst lr = l) lrs = filter (\<lambda>lr. fst lr = l) lrs'"
  shows "rows (add_all lrs d) = rows (add_all lrs' d)"
  using assms by (simp add: fun_eq_iff rows_add_all)

end

definition rows_list :: "L8OrmTable \<Rightarrow> string \<times> string \<Rightarrow> L8OrmRow list" where
  "rows_list t l = (case rows_in t (fst l) (snd l) of None \<Rightarrow> [] | Some rs \<Rightarrow> rs)"

definition add_row_at :: "string \<times> string \<Rightarrow> L8OrmRow \<Rightarrow> L8OrmTable \<Rightarrow> L8OrmTable" where
  "add_row_at l r t = append_rows (fst l) (snd l) r (ensure_rows (fst l) (snd l) t)"

lemma rows_in_add_row_at:
  "rows_in (add_row_at l r t) pk f =
     (if (pk, f) = l then Some (rows_list t l @ [r]) else rows_in t pk f)"
proof -
  have "rows_in (ensure_rows (fst l) (snd l) t) (fst l) (snd l) = Some (rows_list t l)"
    by (simp add: rows_in_ensure rows_list_def)
  from rows_in_append [OF this] show ?thesis
    by (cases l) (auto simp: add_row_at_def rows_in_ensure)
qed

lemma addRowToTable_add_row_at:
  "addRowToTable t r = add_row_at (ParentKey r, nameOfField (RecKey r)) r t"
  by (simp add: addRowToTable_def add_row_at_def Let_def)

interpretation table_store: row_store add_row_at rows_list
  by unfold_locales (auto simp: rows_list_def rows_in_add_row_at)

text \<open>The whole of the relational data as a store: locations are table, parent key and field.\<close>

type_synonym location = "string \<times> string \<times> string"

definition loc_of :: "l8node \<Rightarrow> string \<Rightarrow> location" where
  "loc_of node parentKey = (TypeName node, parentKey, FieldName node)"

definition data_rows :: "L8OrmRData \<Rightarrow> location \<Rightarrow> L8OrmRow list" where
  "data_rows d l = (case l of (tn, pk, f) \<Rightarrow>
     (case rows_at d tn pk f of None \<Rightarrow> [] | Some rs \<Rightarrow> rs))"

definition add_data_row :: "location \<Rightarrow> L8OrmRow \<Rightarrow> L8OrmRData \<Rightarrow> L8OrmRData" where
  "add_data_row l r d = (case l of (tn, pk, f) \<Rightarrow>
     d\<lparr>Tables := AList.update tn
         (add_row_at (pk, f) r (case map_of (Tables d) tn of None \<Rightarrow> new_table tn | Some t \<Rightarrow> t))
         (Tables d)\<rparr>)"

lemma rows_at_add_data_row:
  "rows_at (add_data_row l r d) tn pk f =
     (if (tn, pk, f) = l then Some (data_rows d l @ [r]) else rows_at d tn pk f)"
  by (cases l)
    (auto simp: add_data_row_def rows_at_def map_of_update rows_in_add_row_at data_rows_def
       rows_list_def split: option.splits)

interpretation data_store: row_store add_data_row data_rows
  by unfold_locales (auto simp: data_rows_def rows_at_add_data_row split: prod.splits)

section \<open>Columns\<close>

text \<open>Utils.go, SetColumns: the scalar attributes, numbered from 1 in range order, once.\<close>

definition number_columns :: "(string \<times> l8node) list \<Rightarrow> (string, int32) gomap" where
  "number_columns attrs =
     fold (\<lambda>(attrName, attrNode) cols.
             if IsStruct attrNode then cols
             else AList.update attrName (of_nat (length cols + 1)) cols) attrs []"

definition SetColumns :: "'a env_scheme \<Rightarrow> l8node \<Rightarrow> L8OrmTable \<Rightarrow> L8OrmTable" where
  "SetColumns E node table =
     (case Columns table of
        None \<Rightarrow> table\<lparr>Columns := Some (number_columns
                  (range_loop (rng E (''SetColumns'', Name table)) (Attributes node)))\<rparr>
      | Some _ \<Rightarrow> table)"

text \<open>Utils.go, addColumn.\<close>

definition addColumn :: "L8OrmTable \<Rightarrow> string \<Rightarrow> L8OrmTable" where
  "addColumn table attrName =
     (let cols = (case Columns table of None \<Rightarrow> [] | Some c \<Rightarrow> c)
      in table\<lparr>Columns := Some (AList.update attrName (of_nat (length cols + 1)) cols)\<rparr>)"

text \<open>Reading \<open>table.Columns[name]\<close>: an absent column reads as index 0.\<close>

definition column_index :: "(string, int32) gomap option \<Rightarrow> string \<Rightarrow> int32" where
  "column_index cols n =
     (case Option.bind cols (\<lambda>c. map_of c n) of None \<Rightarrow> 0 | Some i \<Rightarrow> i)"

lemma update_new: "k \<notin> fst ` set m \<Longrightarrow> AList.update k v m = m @ [(k, v)]"
  by (induction m) auto

lemma number_columns_acc:
  assumes "distinct (map fst attrs)" "fst ` set attrs \<inter> fst ` set acc = {}"
  shows "fold (\<lambda>(attrName, attrNode) cols.
             if IsStruct attrNode then cols
             else AList.update attrName (of_nat (length cols + 1)) cols) attrs acc =
         (acc :: (string, int32) gomap) @ zip (map fst (filter scalar_attr attrs))
           (map of_nat [Suc (length acc)..<Suc (length acc) + length (filter scalar_attr attrs)])"
  using assms
proof (induction attrs arbitrary: acc)
  case (Cons p attrs)
  obtain a n where p: "p = (a, n)" by (cases p)
  have new: "AList.update a v acc = acc @ [(a, v)]" for v
    using Cons.prems(2) p by (intro update_new) auto
  show ?case
  proof (cases "IsStruct n")
    case True
    with Cons p show ?thesis by simp
  next
    case False
    let ?n = "length (filter scalar_attr attrs)"
    have "[Suc (length acc)..<Suc (length acc) + Suc ?n] =
        Suc (length acc) # [Suc (Suc (length acc))..<Suc (Suc (length acc)) + ?n]"
      by (subst upt_conv_Cons) simp_all
    moreover have "fst ` set attrs \<inter> fst ` set (acc @ [(a, of_nat (length acc + 1) :: int32)]) = {}"
      using Cons.prems p by auto
    ultimately show ?thesis
      using False Cons.IH [of "acc @ [(a, of_nat (length acc + 1))]"] Cons.prems(1) p new
      by (simp del: upt_Suc upt.simps)
  qed
qed simp

lemma number_columns_zip:
  assumes "distinct (map fst attrs)"
  shows "number_columns attrs =
     zip (map fst (filter scalar_attr attrs)) (map of_nat [1..<Suc (length (filter scalar_attr attrs))])"
  using number_columns_acc [OF assms, of "[]"] by (simp add: number_columns_def del: upt_Suc)

end
