(* ===== verification/Convert_From.thy ===== *)
theory Convert_From
  imports Convert_To
begin

text \<open>
  convert/ConvertFrom.go: rebuilding Go objects from relational data.  \<open>convertFrom\<close> and
  the body of its loop over the rows, \<open>convert_row\<close>, recurse on the type node.
\<close>

section \<open>Definitions\<close>

text \<open>
  What \<open>convertFrom\<close> returns as an interface value: nil, the ordered instances of a root
  query, the map from record keys to instances, or a typed slice or map.
\<close>

datatype cf_result = CNil | COrdered "gval list" | CRows "(string, gval) gomap" | CVal gval

text \<open>The text between the last brackets of a record key.\<close>

definition bracket_text :: "string \<Rightarrow> string res" where
  "bracket_text key =
     (let index1 = str_last_index CHR ''['' key;
          index2 = str_last_index CHR '']'' key
      in go_slice key (index1 + 1) index2)"

definition GetMapIndex :: "'a env_scheme \<Rightarrow> string \<Rightarrow> gval res" where
  "GetMapIndex E mapKey = rbind (bracket_text mapKey) (fromStr E)"

definition GetSliceIndex :: "string \<Rightarrow> int res" where
  "GetSliceIndex sliceKey = rbind (bracket_text sliceKey) atoi"

text \<open>\<open>reflect.Value.Int\<close>, and \<open>SetInt\<close> on a field of kind Int32, which truncates.\<close>

fun value_int :: "rvalue \<Rightarrow> int res" where
  "value_int (Some (GInt32 n w)) = Inr (sint w)"
| "value_int (Some (GInt64 w)) = Inr (sint w)"
| "value_int v = Inl (Panic ''reflect: call of Int on wrong kind'')"

fun reflect_string :: "rvalue \<Rightarrow> string" where
  "reflect_string (Some (GString s)) = s"
| "reflect_string v = ''<Value>''"

fun to_int32_list :: "string \<Rightarrow> gval list \<Rightarrow> gval list res" where
  "to_int32_list n [] = Inr []"
| "to_int32_list n (x # xs) =
     rbind (value_int (Some x)) (\<lambda>i. rbind (to_int32_list n xs) (\<lambda>ys. Inr (GInt32 n (of_int i) # ys)))"

text \<open>
  SetValueFromRow: \<open>value\<close> is the struct behind the instance pointer.  The field keeps its
  type: an int32 kind takes any integer, a slice of an int32 kind takes any integer slice.
\<close>

definition converted_field :: "gval \<Rightarrow> rvalue \<Rightarrow> gval res" where
  "converted_field field v =
     (if kind_of (Some field) = KInt32 then
        rbind (value_int v) (\<lambda>i. Inr (GInt32 (typ_name (type_of field)) (of_int i)))
      else if kind_of v = kind_of (Some field) then
        (case (field, v) of
           (GSlice t _, Some (GSlice u ys)) \<Rightarrow>
             if u \<noteq> t \<and> kind_of_typ t = KInt32 then
               rbind (to_int32_list (typ_name t) (case ys of None \<Rightarrow> [] | Some l \<Rightarrow> l))
                 (\<lambda>zs. Inr (GSlice t (Some zs)))
             else Inr (GSlice u ys)
         | (_, Some x) \<Rightarrow> Inr x
         | (_, None) \<Rightarrow> Inl (Panic ''reflect.Set: zero Value''))
      else if kind_of v \<noteq> KString \<or> reflect_string v \<noteq> []
      then Inl (Panic (''Not set'' @ reflect_string v))
      else Inr field)"

definition SetValueFromRow ::
    "'a env_scheme \<Rightarrow> int32 \<Rightarrow> string \<Rightarrow> L8OrmRow \<Rightarrow> gval \<Rightarrow> gval res" where
  "SetValueFromRow E colIndex attrName row value =
     rbind (field_by_name attrName value) (\<lambda>fieldValue.
       case map_of (ColumnValues row) colIndex of
         None \<Rightarrow> Inr value
       | Some data \<Rightarrow>
           if data = [] then Inr value
           else rbind (dec E data) (\<lambda>v.
             case fieldValue of
               Some field \<Rightarrow>
                 rbind (converted_field field v) (\<lambda>x. set_field attrName x value)
             | None \<Rightarrow>
                 if kind_of v = KInvalid then Inl (Panic ''reflect: Set on zero Value'')
                 else if kind_of v \<noteq> KString \<or> reflect_string v \<noteq> []
                 then Inl (Panic (''Not set'' @ reflect_string v))
                 else Inr value))"

text \<open>SetValueFromSubTable: a single struct is taken out of the map of rows.\<close>

definition SetValueFromSubTable ::
    "'a env_scheme \<Rightarrow> string \<Rightarrow> cf_result \<Rightarrow> gval \<Rightarrow> gval res" where
  "SetValueFromSubTable E attrName i value =
     (case i of
        CNil \<Rightarrow> Inr value
      | COrdered xs \<Rightarrow> Inl (Panic ''reflect.Set: value is not assignable'')
      | CRows rows \<Rightarrow>
          rbind (field_by_name attrName value) (\<lambda>fieldValue.
            if kind_of fieldValue \<noteq> KMap then
              (case range_loop (rng E (''SetValueFromSubTable'', attrName)) rows of
                 [] \<Rightarrow> Inl (Panic ''index out of range'')
               | (k, x) # _ \<Rightarrow> set_field attrName x value)
            else Inl (Panic ''reflect.Set: value is not assignable''))
      | CVal x \<Rightarrow>
          rbind (field_by_name attrName value) (\<lambda>fieldValue.
            case x of
              GMap kt vt m \<Rightarrow>
                if kind_of fieldValue \<noteq> KMap then
                  (case range_loop (krng E (''SetValueFromSubTable'', attrName))
                          (case m of None \<Rightarrow> [] | Some es \<Rightarrow> es) of
                     [] \<Rightarrow> Inl (Panic ''index out of range'')
                   | (k, y) # _ \<Rightarrow> set_field attrName y value)
                else set_field attrName x value
            | _ \<Rightarrow> set_field attrName x value))"

definition convertRowsToSlice ::
    "'a env_scheme \<Rightarrow> (string, gval) gomap \<Rightarrow> l8node \<Rightarrow> gval res" where
  "convertRowsToSlice E rows node =
     rbind (infoType E (TypeName node)) (\<lambda>t.
     rbind (mfold (\<lambda>slice (key, value).
              rbind (GetSliceIndex key) (\<lambda>index.
                if 0 \<le> index \<and> index < int (length slice) then
                  (if type_of value = TPtr t then Inr (slice[nat index := value])
                   else Inl (Panic ''reflect.Set: value is not assignable''))
                else Inl (Panic ''reflect: slice index out of range'')))
            (replicate (length rows) (GPtr t None))
            (range_loop (rng E (''convertRowsToSlice'', FieldName node)) rows))
       (\<lambda>slice. Inr (GSlice (TPtr t) (Some slice))))"

definition convertRowsToMap ::
    "'a env_scheme \<Rightarrow> (string, gval) gomap \<Rightarrow> l8node \<Rightarrow> gval res" where
  "convertRowsToMap E rows node =
     rbind (infoType E (TypeName node)) (\<lambda>t.
     rbind (infoType E (KeyTypeName node)) (\<lambda>kt.
     rbind (mfold (\<lambda>newMap (key, value).
              rbind (GetMapIndex E key) (\<lambda>index.
                if type_of index = kt \<and> type_of value = TPtr t
                then Inr (AList.update index value newMap)
                else Inl (Panic ''reflect.SetMapIndex: value is not assignable'')))
            [] (range_loop (rng E (''convertRowsToMap'', FieldName node)) rows))
       (\<lambda>newMap. Inr (GMap kt (TPtr t) (Some newMap)))))"

text \<open>An error of \<open>convertRowsToMap\<close> is turned into a panic.\<close>

fun must :: "'b res \<Rightarrow> 'b res" where
  "must (Inl (Err m)) = Inl (Panic m)"
| "must r = r"

function convertFrom ::
    "'a env_scheme \<Rightarrow> l8node \<Rightarrow> string \<Rightarrow> L8OrmRData \<Rightarrow> cf_result res"
  and convert_row ::
    "'a env_scheme \<Rightarrow> l8node \<Rightarrow> (string, int32) gomap option \<Rightarrow> L8OrmRData \<Rightarrow> L8OrmRow \<Rightarrow> gval res"
where
  "convertFrom E node parentKey data =
     (case TableAndRowsGet node data parentKey of
        None \<Rightarrow> Inr CNil
      | Some (table, attributeRows) \<Rightarrow>
          rbind (infoType E (TypeName node)) (\<lambda>_.
          rbind (mfold (\<lambda>(rows, orderedInstances) row.
                   rbind (convert_row E node (Columns table) data row) (\<lambda>instance.
                     Inr (AList.update (RecKey row) instance rows, orderedInstances @ [instance])))
                 ([], []) attributeRows)
            (\<lambda>(rows, orderedInstances).
               if IsSlice node then rbind (convertRowsToSlice E rows node) (\<lambda>v. Inr (CVal v))
               else if IsMap node then
                 rbind (must (convertRowsToMap E rows node)) (\<lambda>v. Inr (CVal v))
               else if parentKey = [] then Inr (COrdered orderedInstances)
               else Inr (CRows rows))))"
| "convert_row E node cols data row =
     rbind (newInstance E (TypeName node)) (\<lambda>instance.
       case instance of
         GPtr t (Some value) \<Rightarrow>
           rbind (mfold (\<lambda>value (attrName, attrNode).
                    if IsStruct attrNode then Inr value
                    else case Option.bind cols (\<lambda>c. map_of c attrName) of
                           None \<Rightarrow> Inr value
                         | Some colIndex \<Rightarrow> SetValueFromRow E colIndex attrName row value)
                  value
                  (range_loop (rng E (''convertFrom:attributes'', KeyForRow row))
                     (Attributes node)))
             (\<lambda>value.
           rbind (mfold (\<lambda>value (attrName, attrNode).
                    rbind (convertFrom E attrNode (KeyForRow row) data) (\<lambda>v.
                      SetValueFromSubTable E attrName v value))
                  value
                  (range_loop (rng E (''convertFrom:subTables'', KeyForRow row))
                     (filter sub_attr (Attributes node))))
             (\<lambda>value. Inr (GPtr t (Some value))))
       | _ \<Rightarrow> Inl (Panic ''reflect: call of Elem on wrong kind''))"
  by pat_completeness auto
termination
proof (relation "measure (case_sum (\<lambda>(E, node, pk, data). 2 * size node + 1)
                                   (\<lambda>(E, node, cols, data, row). 2 * size node))", goal_cases)
  case 1
  show ?case by simp
next
  case 2
  then show ?case by simp
next
  case 3
  then show ?case by (auto dest!: range_loop_in size_Attributes)
qed

declare convertFrom.simps [simp del] convert_row.simps [simp del]

text \<open>
  ConvertFrom: the query result carries the response and the metadata of the read.
\<close>

definition ConvertFrom :: "'a env_scheme \<Rightarrow> L8OrmRData \<Rightarrow> 'm \<Rightarrow> (cf_result \<times> 'm) res" where
  "ConvertFrom E data metadata =
     (case nodeOf E (RootTypeName data) of
        None \<Rightarrow> Inl (Err (''No node for type '' @ RootTypeName data))
      | Some node \<Rightarrow>
          rbind (convertFrom E node [] data) (\<lambda>resp. Inr (resp, metadata)))"

end
