(* ===== verification/Convert_Frame.thy ===== *)
theory Convert_Frame
  imports Convert_From
begin

text \<open>
  What a conversion can change.  \<open>evolves S d d'\<close> says that \<open>d'\<close> differs from \<open>d\<close> in the
  rows of the locations in \<open>S\<close> only, and that no column map of a table has been replaced.
  A call of \<open>convertTo\<close> evolves the data inside its footprint: the location of its own row
  and the locations whose parent key starts with the key of that row.
\<close>

section \<open>Evolution of relational data\<close>

definition evolves :: "location set \<Rightarrow> L8OrmRData \<Rightarrow> L8OrmRData \<Rightarrow> bool" where
  "evolves S d d' \<longleftrightarrow>
     (\<forall>tn pk f. (tn, pk, f) \<notin> S \<longrightarrow> rows_at d' tn pk f = rows_at d tn pk f) \<and>
     (\<forall>tn c. columns_at d tn = Some c \<longrightarrow> columns_at d' tn = Some c) \<and>
     RootTypeName d' = RootTypeName d"

definition below :: "string \<Rightarrow> location set" where
  "below p = {(tn, pk, f). prefix p pk}"

lemma evolves_refl [simp, intro]: "evolves S d d"
  by (simp add: evolves_def)

lemma evolves_trans [trans]: "evolves S d d' \<Longrightarrow> evolves S d' d'' \<Longrightarrow> evolves S d d''"
  by (simp add: evolves_def)

lemma evolves_mono: "evolves S d d' \<Longrightarrow> S \<subseteq> S' \<Longrightarrow> evolves S' d d'"
  unfolding evolves_def by blast

lemma evolves_rows: "evolves S d d' \<Longrightarrow> (tn, pk, f) \<notin> S \<Longrightarrow> rows_at d' tn pk f = rows_at d tn pk f"
  by (simp add: evolves_def)

lemma evolves_columns: "evolves S d d' \<Longrightarrow> columns_at d tn = Some c \<Longrightarrow> columns_at d' tn = Some c"
  by (simp add: evolves_def)

lemma evolves_root: "evolves S d d' \<Longrightarrow> RootTypeName d' = RootTypeName d"
  by (simp add: evolves_def)

lemma below_mono: "prefix p q \<Longrightarrow> below q \<subseteq> below p"
  unfolding below_def by (auto intro: prefix_order.trans)

lemma in_below [simp]: "(tn, pk, f) \<in> below p \<longleftrightarrow> prefix p pk"
  by (simp add: below_def)

text \<open>A loop of evolving steps evolves.\<close>

lemma mfold_evolves:
  assumes "mfold f d xs = Inr d'"
    and "\<And>d x d'. x \<in> set xs \<Longrightarrow> f d x = Inr d' \<Longrightarrow> evolves S d d'"
  shows "evolves S d d'"
proof -
  have "evolves S d d" by simp
  with assms(1) show ?thesis
    by (rule mfold_invariant) (blast intro: evolves_trans assms(2))
qed

section \<open>The steps of convertTo\<close>

lemma rows_at_on_table:
  "(\<And>t. rows_in (f t) = rows_in t) \<Longrightarrow> rows_at (on_table tn f d) = rows_at d"
  by (auto simp: fun_eq_iff rows_at_def on_table_def map_of_update split: option.splits)

lemma rows_in_SetColumns [simp]: "rows_in (SetColumns E node t) = rows_in t"
  by (auto simp: fun_eq_iff SetColumns_def rows_in_def split: option.splits)

lemma rows_at_TableAndRowsCreate:
  "rows_at (TableAndRowsCreate node d pk) tn pk' f =
     (if (tn, pk', f) = loc_of node pk then Some (data_rows d (loc_of node pk))
      else rows_at d tn pk' f)"
  by (auto simp: TableAndRowsCreate_def rows_at_def map_of_update rows_in_ensure loc_of_def
      data_rows_def Let_def split: option.splits)

lemma rows_at_open_table:
  "rows_at (open_table E node pk d) tn pk' f =
     (if (tn, pk', f) = loc_of node pk then Some (data_rows d (loc_of node pk))
      else rows_at d tn pk' f)"
  by (simp add: open_table_def rows_at_on_table rows_at_TableAndRowsCreate)

definition opened_columns ::
    "'a env_scheme \<Rightarrow> l8node \<Rightarrow> L8OrmRData \<Rightarrow> (string, int32) gomap option" where
  "opened_columns E node d = columns_at (open_table E node [] d) (TypeName node)"

lemma columns_at_TableAndRowsCreate [simp]:
  "columns_at (TableAndRowsCreate node d pk) tn = columns_at d tn"
  by (auto simp: TableAndRowsCreate_def columns_at_def map_of_update new_table_def Let_def
      split: option.splits)

lemma map_of_TableAndRowsCreate:
  "\<exists>t. map_of (Tables (TableAndRowsCreate node d pk)) (TypeName node) = Some t"
  by (simp add: TableAndRowsCreate_def map_of_update Let_def)

lemma columns_at_open_table:
  "\<exists>tag. columns_at (open_table E node pk d) tn =
     (if tn = TypeName node
      then Some (case columns_at d tn of
                   Some c \<Rightarrow> c
                 | None \<Rightarrow> number_columns (range_loop (rng E tag) (Attributes node)))
      else columns_at d tn)"
proof -
  obtain t where t: "map_of (Tables (TableAndRowsCreate node d pk)) (TypeName node) = Some t"
    using map_of_TableAndRowsCreate by blast
  have c: "columns_at d (TypeName node) = Columns t"
    using columns_at_TableAndRowsCreate [of node d pk "TypeName node"] t by (simp add: columns_at_def)
  show ?thesis
  proof (cases "tn = TypeName node")
    case True
    have "columns_at (open_table E node pk d) tn = Columns (SetColumns E node t)"
      using t True by (simp add: open_table_def columns_at_def on_table_def map_of_update)
    then show ?thesis
      using c True by (auto simp: SetColumns_def split: option.splits)
  next
    case False
    then have "columns_at (open_table E node pk d) tn =
        columns_at (TableAndRowsCreate node d pk) tn"
      using t by (simp add: open_table_def columns_at_def on_table_def map_of_update)
    with False show ?thesis by simp
  qed
qed

lemma RootTypeName_open_table [simp]: "RootTypeName (open_table E node pk d) = RootTypeName d"
  by (simp add: open_table_def on_table_def TableAndRowsCreate_def Let_def split: option.split)

lemma RootTypeName_append_row [simp]: "RootTypeName (append_row node pk r d) = RootTypeName d"
  by (simp add: append_row_def on_table_def split: option.split)

lemma evolves_open_table: "evolves {loc_of node pk} d (open_table E node pk d)"
  unfolding evolves_def
proof (intro conjI allI impI)
  fix tn c assume "columns_at d tn = Some c"
  then show "columns_at (open_table E node pk d) tn = Some c"
    using columns_at_open_table [of E node pk d tn] by (auto split: if_splits)
qed (simp_all add: rows_at_open_table)

lemma rows_at_append_row:
  assumes "rows_at d (TypeName node) pk (FieldName node) = Some rs"
  shows "rows_at (append_row node pk r d) tn pk' f =
     (if (tn, pk', f) = loc_of node pk then Some (rs @ [r]) else rows_at d tn pk' f)"
proof -
  from assms obtain t where t: "map_of (Tables d) (TypeName node) = Some t"
    "rows_in t pk (FieldName node) = Some rs"
    by (auto simp: rows_at_def split: bind_splits)
  from t show ?thesis
    by (auto simp: append_row_def on_table_def rows_at_def map_of_update rows_in_append [OF t(2)]
        loc_of_def)
qed

lemma columns_at_append_row [simp]: "columns_at (append_row node pk r d) = columns_at d"
  by (auto simp: fun_eq_iff append_row_def on_table_def columns_at_def map_of_update
      split: option.splits)

lemma rows_at_append_row_other:
  "(tn, pk', f) \<noteq> loc_of node pk \<Longrightarrow>
     rows_at (append_row node pk r d) tn pk' f = rows_at d tn pk' f"
proof -
  assume "(tn, pk', f) \<noteq> loc_of node pk"
  then have "rows_in (append_rows pk (FieldName node) r t) pk' f = rows_in t pk' f"
    if "tn = TypeName node" for t
    using that by (auto simp: rows_in_def append_rows_def map_of_update loc_of_def
        split: option.splits bind_splits)
  then show ?thesis
    by (auto simp: append_row_def on_table_def rows_at_def map_of_update split: option.splits)
qed

lemma evolves_append_row: "evolves {loc_of node pk} d (append_row node pk r d)"
  by (simp add: evolves_def rows_at_append_row_other)

lemma rows_at_TsData [simp]: "rows_at (d\<lparr>TsData := x\<rparr>) = rows_at d"
  by (simp add: fun_eq_iff rows_at_def)

lemma columns_at_TsData [simp]: "columns_at (d\<lparr>TsData := x\<rparr>) = columns_at d"
  by (simp add: fun_eq_iff columns_at_def)

lemma extractTsData_frame:
  "extractTsData E v node a d = Inr d' \<Longrightarrow>
     rows_at d' = rows_at d \<and> columns_at d' = columns_at d \<and> RootTypeName d' = RootTypeName d"
  by (auto simp: extractTsData_def rbind_eq_Inr Let_def split: option.splits if_splits)

lemma convert_attr_frame:
  "convert_attr E action v node (d, row) attr = Inr (d', row') \<Longrightarrow>
     rows_at d' = rows_at d \<and> columns_at d' = columns_at d \<and> RootTypeName d' = RootTypeName d \<and>
     ParentKey row' = ParentKey row \<and> RecKey row' = RecKey row"
  by (cases attr)
    (auto simp: convert_attr_def rbind_eq_Inr SetValueToRow_def Let_def
       dest: extractTsData_frame split: option.splits if_splits)

lemma convert_attrs_frame:
  assumes "mfold (convert_attr E action v node) (d, row) attrs = Inr (d', row')"
  shows "rows_at d' = rows_at d \<and> columns_at d' = columns_at d \<and> RootTypeName d' = RootTypeName d \<and>
     ParentKey row' = ParentKey row \<and> RecKey row' = RecKey row"
proof -
  let ?P = "\<lambda>(d', row'). rows_at d' = rows_at d \<and> columns_at d' = columns_at d \<and> RootTypeName d' = RootTypeName d \<and>
     ParentKey row' = ParentKey row \<and> RecKey row' = RecKey row"
  have "?P (d', row')"
    by (rule mfold_invariant [OF assms, where P = ?P]) (auto dest: convert_attr_frame)
  then show ?thesis by simp
qed

section \<open>The footprint of convertTo\<close>

text \<open>One round of the second loop of \<open>convertTo\<close>.\<close>

definition convert_sub ::
    "'a env_scheme \<Rightarrow> action \<Rightarrow> gval \<Rightarrow> string \<Rightarrow> L8OrmRData \<Rightarrow> string \<times> l8node \<Rightarrow> L8OrmRData res"
where
  "convert_sub E action v key data attr =
     (case attr of (attrName, attrNode) \<Rightarrow>
        rbind (field_by_name attrName v) (\<lambda>fieldValue.
          case fieldValue of
            None \<Rightarrow> Inr data
          | Some f \<Rightarrow>
              if IsMap attrNode then
                rbind (map_entries f) (\<lambda>entries.
                  mfold (\<lambda>data (mapKey, mapValue).
                    convertTo E action (Some mapValue) key (toStrTyped E mapKey) attrNode data)
                    data (range_loop (krng E (''convertTo:keys'', key @ attrName)) entries))
              else if IsSlice attrNode then
                rbind (slice_elems f) (\<lambda>elems.
                  mfold (\<lambda>data (i, sliceValue).
                    convertTo E action (Some sliceValue) key (nat_str i) attrNode data)
                    data (List.enumerate 0 elems))
              else convertTo E action (Some f) key [] attrNode data))"

lemma convertTo_unfold:
  "convertTo E action val parentKey myKey node data =
     (case deref val of
        None \<Rightarrow> Inr data
      | Some v \<Rightarrow>
          rbind (mfold (convert_attr E action v node)
                   (open_table E node parentKey data, start_row E node v parentKey myKey)
                   (range_loop (rng E (''convertTo:attributes'', parentKey @ myKey))
                      (Attributes node)))
            (\<lambda>(data, row).
          rbind (mfold (convert_sub E action v (KeyForRow row)) data
                   (range_loop (rng E (''convertTo:subTables'', parentKey @ myKey))
                      (filter sub_attr (Attributes node))))
            (\<lambda>data. Inr (append_row node parentKey row data))))"
  unfolding convert_sub_def
  by (subst convertTo.simps) (simp add: case_prod_beta cong: option.case_cong)

definition footprint :: "'a env_scheme \<Rightarrow> rvalue \<Rightarrow> string \<Rightarrow> string \<Rightarrow> l8node \<Rightarrow> location set" where
  "footprint E val pk mk node =
     (case deref val of
        None \<Rightarrow> {}
      | Some v \<Rightarrow> insert (loc_of node pk) (below (pk @ RecKeyOf E node v mk)))"

text \<open>The conversion of a sub-attribute stays below the key of the row it belongs to.\<close>

lemma footprint_below: "footprint E val key mk node \<subseteq> below key"
  by (auto simp: footprint_def loc_of_def below_def split: option.splits
      intro: prefix_order.trans [OF prefixI [OF refl]])

lemma convertTo_cases:
  assumes "convertTo E action val pk mk node d = Inr d'" "deref val = Some v"
  obtains d1 row d2 where
    "mfold (convert_attr E action v node) (open_table E node pk d, start_row E node v pk mk)
       (range_loop (rng E (''convertTo:attributes'', pk @ mk)) (Attributes node)) = Inr (d1, row)"
    "mfold (convert_sub E action v (KeyForRow row)) d1
       (range_loop (rng E (''convertTo:subTables'', pk @ mk))
          (filter sub_attr (Attributes node))) = Inr d2"
    "d' = append_row node pk row d2"
    "rows_at d1 = rows_at (open_table E node pk d)"
    "columns_at d1 = columns_at (open_table E node pk d)" "RootTypeName d1 = RootTypeName d"
    "ParentKey row = pk" "RecKey row = RecKeyOf E node v mk"
    "KeyForRow row = pk @ RecKeyOf E node v mk"
proof -
  from assms obtain d1 row d2 where
    1: "mfold (convert_attr E action v node) (open_table E node pk d, start_row E node v pk mk)
       (range_loop (rng E (''convertTo:attributes'', pk @ mk)) (Attributes node)) = Inr (d1, row)"
    and 2: "mfold (convert_sub E action v (KeyForRow row)) d1
       (range_loop (rng E (''convertTo:subTables'', pk @ mk))
          (filter sub_attr (Attributes node))) = Inr d2"
    and 3: "d' = append_row node pk row d2"
    by (subst (asm) convertTo_unfold) (auto simp: rbind_eq_Inr)
  from convert_attrs_frame [OF 1] have
    4: "rows_at d1 = rows_at (open_table E node pk d)" "columns_at d1 = columns_at (open_table E node pk d)"
      "RootTypeName d1 = RootTypeName d" "ParentKey row = pk" "RecKey row = RecKeyOf E node v mk"
    by (simp_all add: start_row_def)
  then have "KeyForRow row = pk @ RecKeyOf E node v mk" by (simp add: KeyForRow_def)
  with 1 2 3 4 show ?thesis by (rule that)
qed

lemma convert_sub_evolves:
  assumes "\<And>val mk d d'. convertTo E action val key mk node d = Inr d' \<Longrightarrow>
             evolves (footprint E val key mk node) d d'"
    and "convert_sub E action v key d (a, node) = Inr d'"
  shows "evolves (below key) d d'"
proof -
  have step: "evolves (below key) d d'"
    if "convertTo E action val key mk node d = Inr d'" for val mk d d'
    using assms(1) [OF that] footprint_below by (rule evolves_mono)
  from assms(2) show ?thesis
    by (auto simp: convert_sub_def rbind_eq_Inr step split: option.splits if_splits
        elim!: mfold_evolves)
qed

lemma convertTo_evolves:
  "convertTo E action val pk mk node d = Inr d' \<Longrightarrow> evolves (footprint E val pk mk node) d d'"
proof (induction node arbitrary: val pk mk d d' rule: measure_induct_rule [where f = size])
  case (less node)
  show ?case
  proof (cases "deref val")
    case None
    with less.prems show ?thesis by (subst (asm) convertTo_unfold) simp
  next
    case (Some v)
    let ?key = "pk @ RecKeyOf E node v mk" and ?S = "footprint E val pk mk node"
    from less.prems Some obtain d1 row d2 where
      sub: "mfold (convert_sub E action v (KeyForRow row)) d1
         (range_loop (rng E (''convertTo:subTables'', pk @ mk))
            (filter sub_attr (Attributes node))) = Inr d2"
      and d': "d' = append_row node pk row d2"
      and d1: "rows_at d1 = rows_at (open_table E node pk d)"
        "columns_at d1 = columns_at (open_table E node pk d)" "RootTypeName d1 = RootTypeName d"
      and row: "KeyForRow row = ?key"
      by (rule convertTo_cases) blast
    have "evolves (below ?key) d1 d2"
      using sub
    proof (rule mfold_evolves)
      fix d x d' assume "x \<in> set (range_loop (rng E (''convertTo:subTables'', pk @ mk))
            (filter sub_attr (Attributes node)))"
      moreover obtain a m where x: "x = (a, m)" by (cases x)
      ultimately have "size m < size node"
        by (auto dest!: range_loop_in size_Attributes)
      moreover assume "convert_sub E action v (KeyForRow row) d x = Inr d'"
      ultimately show "evolves (below ?key) d d'"
        unfolding x row by (intro convert_sub_evolves) (auto intro: less.IH)
    qed
    then have "evolves ?S d1 d2"
      by (rule evolves_mono) (simp add: footprint_def Some subset_insertI)
    moreover have "evolves ?S d d1"
      using evolves_open_table [of node pk d E] d1
      by (simp add: evolves_def footprint_def Some)
    moreover have "evolves ?S d2 d'"
      unfolding d' by (rule evolves_mono [OF evolves_append_row]) (simp add: footprint_def Some)
    ultimately show ?thesis by (blast intro: evolves_trans)
  qed
qed

end
