(* ===== verification/Convert_Inv.thy ===== *)
theory Convert_Inv
  imports Convert_Frame
begin

text \<open>
  Invariants of relational data under conversion (every stored row names its location,
  every table with rows has its columns, every column map covers its type), and the frame
  of reading: rebuilding an object depends only on the rows below its key.
\<close>

section \<open>Well-formed type trees\<close>

text \<open>The nodes of a type that become tables.\<close>

fun nodes_of :: "l8node \<Rightarrow> l8node list" where
  "nodes_of (L8Node tn fn s m sl k attrs) =
     L8Node tn fn s m sl k attrs #
       concat (map (\<lambda>p. if sub_attr p then nodes_of (snd p) else []) attrs)"

lemma nodes_of_self [simp]: "n \<in> set (nodes_of n)"
  by (cases n) simp

lemma nodes_of_sub: "(a, x) \<in> set (Attributes n) \<Longrightarrow> sub_attr (a, x) \<Longrightarrow> set (nodes_of x) \<subseteq> set (nodes_of n)"
  by (cases n) auto

lemma nodes_of_closed:
  "m \<in> set (nodes_of n) \<Longrightarrow> (a, x) \<in> set (Attributes m) \<Longrightarrow> sub_attr (a, x) \<Longrightarrow> x \<in> set (nodes_of n)"
proof (induction n rule: nodes_of.induct)
  case (1 tn fn s mp sl k attrs)
  show ?case
  proof (cases "m = L8Node tn fn s mp sl k attrs")
    case True
    with 1 show ?thesis by (auto intro!: bexI [of _ "(a, x)"])
  next
    case False
    with "1.prems"(1) obtain p where p: "p \<in> set attrs" "sub_attr p" "m \<in> set (nodes_of (snd p))"
      by (auto split: if_splits)
    then have "x \<in> set (nodes_of (snd p))"
      using 1 by blast
    with p show ?thesis by (auto intro!: bexI [of _ p])
  qed
qed

definition scalar_names :: "l8node \<Rightarrow> string list" where
  "scalar_names n = map fst (filter scalar_attr (Attributes n))"

text \<open>
  What the introspector gives: distinct attribute names without brackets, each attribute
  node named after its attribute, fewer than \<open>2 ^ 32\<close> of them.
\<close>

definition wf_node :: "l8node \<Rightarrow> bool" where
  "wf_node n \<longleftrightarrow>
     distinct (gkeys (Attributes n)) \<and>
     (\<forall>p \<in> set (Attributes n). plain (fst p) \<and> FieldName (snd p) = fst p) \<and>
     length (Attributes n) < 2 ^ 32"

definition wf_tree :: "l8node \<Rightarrow> bool" where
  "wf_tree root \<longleftrightarrow>
     (\<forall>n \<in> set (nodes_of root). wf_node n) \<and>
     (\<forall>n \<in> set (nodes_of root). \<forall>m \<in> set (nodes_of root).
        TypeName n = TypeName m \<longrightarrow> set (scalar_names n) = set (scalar_names m))"

text \<open>A column map that gives every scalar attribute of a node a column of its own.\<close>

definition good_columns :: "l8node \<Rightarrow> (string, int32) gomap \<Rightarrow> bool" where
  "good_columns n c \<longleftrightarrow>
     None \<notin> set (map (map_of c) (scalar_names n)) \<and> inj_on (map_of c) (set (scalar_names n))"

lemma of_nat_word32_inj: "m < 2 ^ 32 \<Longrightarrow> n < 2 ^ 32 \<Longrightarrow> (of_nat m :: int32) = of_nat n \<longleftrightarrow> m = n"
  by (simp add: word_of_nat_eq_iff take_bit_nat_eq_self)

lemma number_columns_lookup:
  assumes "distinct (map fst attrs)" "length attrs < 2 ^ 32"
  shows "set (map fst (filter scalar_attr attrs)) \<subseteq> dom (map_of (number_columns attrs))"
    and "inj_on (map_of (number_columns attrs)) (set (map fst (filter scalar_attr attrs)))"
proof -
  let ?names = "map fst (filter scalar_attr attrs)"
  let ?cols = "map of_nat [1..<Suc (length ?names)] :: int32 list"
  have len: "length ?cols = length ?names" by (simp del: upt_Suc)
  have d: "distinct ?names" using assms(1) by (rule distinct_map_filter)
  have le: "length ?names \<le> length attrs" by simp
  have nth: "map_of (number_columns attrs) (?names ! i) = Some (of_nat (Suc i))"
    if "i < length ?names" for i
    using that map_of_zip_nth [OF len [symmetric] d, of i] number_columns_zip [OF assms(1)]
    by (simp del: upt_Suc)
  show "set ?names \<subseteq> dom (map_of (number_columns attrs))"
  proof
    fix a assume "a \<in> set ?names"
    then obtain i where "i < length ?names" "?names ! i = a"
      by (auto simp only: in_set_conv_nth)
    with nth [of i] show "a \<in> dom (map_of (number_columns attrs))" by auto
  qed
  show "inj_on (map_of (number_columns attrs)) (set ?names)"
  proof (rule inj_onI)
    fix a b assume "a \<in> set ?names" "b \<in> set ?names"
      and eq: "map_of (number_columns attrs) a = map_of (number_columns attrs) b"
    then obtain i j where i: "i < length ?names" "?names ! i = a"
      and j: "j < length ?names" "?names ! j = b"
      by (auto simp only: in_set_conv_nth)
    from eq nth [OF i(1)] nth [OF j(1)] i(2) j(2)
    have "(of_nat (Suc i) :: int32) = of_nat (Suc j)" by (simp only: option.inject)
    moreover have "Suc i < 2 ^ 32" "Suc j < 2 ^ 32"
      using i(1) j(1) le assms(2) by linarith+
    ultimately have "i = j" using of_nat_word32_inj by blast
    with i j show "a = b" by simp
  qed
qed

lemma good_columns_fresh:
  assumes "is_order ord" "wf_node n" "set (scalar_names m) = set (scalar_names n)"
  shows "good_columns m (number_columns (range_loop ord (Attributes n)))"
proof -
  let ?attrs = "range_loop ord (Attributes n)"
  from assms(2) have d: "distinct (gkeys (Attributes n))" by (simp add: wf_node_def)
  have 1: "distinct (map fst ?attrs)" using assms(1) d by (rule distinct_range_loop)
  have 2: "length ?attrs < 2 ^ 32"
    using assms(2) length_range_loop [OF assms(1) d] by (simp add: wf_node_def)
  have "set (map fst (filter scalar_attr ?attrs)) = set (scalar_names n)"
    using set_range_loop [OF assms(1) d] by (auto simp: scalar_names_def)
  with number_columns_lookup [OF 1 2] assms(3) show ?thesis
    by (auto simp: good_columns_def)
qed

section \<open>The invariant\<close>

definition store_inv :: "l8node list \<Rightarrow> L8OrmRData \<Rightarrow> bool" where
  "store_inv N d \<longleftrightarrow>
     (\<forall>tn pk f rs. rows_at d tn pk f = Some rs \<longrightarrow>
        columns_at d tn \<noteq> None \<and> (\<forall>r \<in> set rs. ParentKey r = pk)) \<and>
     (\<forall>n \<in> set N. \<forall>c. columns_at d (TypeName n) = Some c \<longrightarrow> good_columns n c)"

lemma store_inv_rows:
  "store_inv N d \<Longrightarrow> rows_at d tn pk f = Some rs \<Longrightarrow> \<exists>c. columns_at d tn = Some c"
  "store_inv N d \<Longrightarrow> rows_at d tn pk f = Some rs \<Longrightarrow> r \<in> set rs \<Longrightarrow> ParentKey r = pk"
  by (auto simp: store_inv_def)

lemma store_inv_columns:
  "store_inv N d \<Longrightarrow> n \<in> set N \<Longrightarrow> columns_at d (TypeName n) = Some c \<Longrightarrow> good_columns n c"
  by (simp add: store_inv_def)

lemma store_inv_cong:
  "rows_at d' = rows_at d \<Longrightarrow> columns_at d' = columns_at d \<Longrightarrow> store_inv N d' = store_inv N d"
  by (simp add: store_inv_def)

lemma store_inv_new [simp]: "store_inv N (new_rdata root)"
  by (simp add: store_inv_def new_rdata_def rows_at_def columns_at_def)

lemma columns_at_open_own: "\<exists>c. columns_at (open_table E node pk d) (TypeName node) = Some c"
  using columns_at_open_table [of E node pk d "TypeName node"] by auto

lemma store_inv_open_table:
  assumes "orders_ok E" "wf_tree root" "node \<in> set (nodes_of root)" "store_inv (nodes_of root) d"
  shows "store_inv (nodes_of root) (open_table E node pk d)"
  unfolding store_inv_def
proof (intro conjI allI impI ballI)
  fix tn pk' f rs assume r: "rows_at (open_table E node pk d) tn pk' f = Some rs"
  show "columns_at (open_table E node pk d) tn \<noteq> None"
  proof (cases "tn = TypeName node")
    case True
    then show ?thesis using columns_at_open_own [of E node pk d] by simp
  next
    case False
    with r have "rows_at d tn pk' f = Some rs"
      by (auto simp: rows_at_open_table loc_of_def split: if_splits)
    then obtain c where "columns_at d tn = Some c"
      using store_inv_rows(1) [OF assms(4)] by blast
    then show ?thesis
      using evolves_columns [OF evolves_open_table] by fastforce
  qed
  fix x assume "x \<in> set rs"
  with r show "ParentKey x = pk'"
    using store_inv_rows(2) [OF assms(4)]
    by (auto simp: rows_at_open_table data_rows_def loc_of_def split: if_splits option.splits)
next
  fix n c assume n: "n \<in> set (nodes_of root)"
    and c: "columns_at (open_table E node pk d) (TypeName n) = Some c"
  obtain tag where tag: "columns_at (open_table E node pk d) (TypeName n) =
     (if TypeName n = TypeName node
      then Some (case columns_at d (TypeName n) of Some c \<Rightarrow> c
                 | None \<Rightarrow> number_columns (range_loop (rng E tag) (Attributes node)))
      else columns_at d (TypeName n))"
    using columns_at_open_table by blast
  show "good_columns n c"
  proof (cases "columns_at d (TypeName n) = None \<and> TypeName n = TypeName node")
    case True
    then have "columns_at d (TypeName node) = None" by metis
    with True have "c = number_columns (range_loop (rng E tag) (Attributes node))"
      using c tag by simp
    moreover have "wf_node node" "set (scalar_names n) = set (scalar_names node)"
      using assms(2,3) n True unfolding wf_tree_def by blast+
    ultimately show ?thesis
      using good_columns_fresh orders_okD(1) [OF assms(1)] by blast
  next
    case False
    then have "columns_at d (TypeName n) = Some c"
      using c tag by (auto split: if_splits option.splits)
    then show ?thesis using assms(4) n by (rule store_inv_columns [rotated 2])
  qed
qed

lemma store_inv_append_row:
  assumes "store_inv N d" "ParentKey r = pk"
    and "rows_at d (TypeName node) pk (FieldName node) = Some rs"
  shows "store_inv N (append_row node pk r d)"
  using assms store_inv_rows [OF assms(1) assms(3)]
  by (auto simp: store_inv_def rows_at_append_row [OF assms(3)] loc_of_def split: if_splits)

section \<open>Invariants of conversions\<close>

text \<open>The values of a sub-attribute that are converted on their own.\<close>

definition sub_values :: "l8node \<Rightarrow> gval \<Rightarrow> gval list" where
  "sub_values x f =
     (if IsMap x then (case map_entries f of Inr es \<Rightarrow> map snd es | Inl e \<Rightarrow> [])
      else if IsSlice x then (case slice_elems f of Inr xs \<Rightarrow> xs | Inl e \<Rightarrow> [])
      else [f])"

lemma convert_sub_invariant:
  assumes "convert_sub E action v key d (a, x) = Inr d'" "I d"
    and "\<And>f w mk d d'. field_by_name a v = Inr (Some f) \<Longrightarrow> w \<in> set (sub_values x f) \<Longrightarrow>
       convertTo E action (Some w) key mk x d = Inr d' \<Longrightarrow> I d \<Longrightarrow> I d'"
  shows "I d'"
proof -
  obtain fv where fv: "field_by_name a v = Inr fv" using assms(1) by (auto simp: convert_sub_def rbind_eq_Inr)
  show ?thesis
  proof (cases fv)
    case None
    with assms(1,2) fv show ?thesis by (simp add: convert_sub_def)
  next
    case (Some f)
    note step = assms(3) [OF fv [unfolded Some]]
    consider es where "IsMap x" "map_entries f = Inr es" | xs where "\<not> IsMap x" "IsSlice x" "slice_elems f = Inr xs"
      | "\<not> IsMap x" "\<not> IsSlice x"
      using assms(1) fv Some by (auto simp: convert_sub_def rbind_eq_Inr split: if_splits)
    then show ?thesis
    proof cases
      case 1
      have "mfold (\<lambda>data (mapKey, mapValue). convertTo E action (Some mapValue) key (toStrTyped E mapKey) x data) d
          (range_loop (krng E (''convertTo:keys'', key @ a)) es) = Inr d'"
        using assms(1) fv Some 1 by (simp add: convert_sub_def)
      then show ?thesis using assms(2)
      proof (rule mfold_invariant [where P = I])
        fix d e d' assume I: "I d" and e: "e \<in> set (range_loop (krng E (''convertTo:keys'', key @ a)) es)"
          and c: "(case e of (mapKey, mapValue) \<Rightarrow> convertTo E action (Some mapValue) key (toStrTyped E mapKey) x d) = Inr d'"
        have "e \<in> set es" by (cases e) (use e in \<open>blast dest: range_loop_in\<close>)
        then have "snd e \<in> set (sub_values x f)" using 1 by (auto simp: sub_values_def)
        with I c show "I d'" by (cases e) (auto intro: step)
      qed
    next
      case 2
      have "mfold (\<lambda>data (i, sliceValue). convertTo E action (Some sliceValue) key (nat_str i) x data) d
          (List.enumerate 0 xs) = Inr d'"
        using assms(1) fv Some 2 by (simp add: convert_sub_def)
      then show ?thesis using assms(2)
      proof (rule mfold_invariant)
        fix d e d' assume I: "I d" and e: "e \<in> set (List.enumerate 0 xs)"
          and c: "(case e of (i, sliceValue) \<Rightarrow> convertTo E action (Some sliceValue) key (nat_str i) x d) = Inr d'"
        have "snd e \<in> set (sub_values x f)" using e 2 by (auto simp: sub_values_def in_set_enumerate_eq) (metis nth_mem)
        with I c show "I d'" by (cases e) (auto intro: step)
      qed
    next
      case 3
      then have "f \<in> set (sub_values x f)" "convertTo E action (Some f) key [] x d = Inr d'"
        using assms(1) fv Some by (simp_all add: convert_sub_def sub_values_def)
      then show ?thesis using assms(2) by (rule step)
    qed
  qed
qed

text \<open>
  What every conversion keeps: a property of the data kept by opening a table for a value and
  by appending its row.  \<open>V\<close> holds of the values that are converted, \<open>R\<close> of their rows.
\<close>

lemma convertTo_invariant:
  fixes root :: l8node
  defines "N \<equiv> set (nodes_of root)"
  assumes opened: "\<And>m pk mk v d d1 row. m \<in> N \<Longrightarrow> V m v \<Longrightarrow> I d \<Longrightarrow>
        mfold (convert_attr E action v m) (open_table E m pk d, start_row E m v pk mk)
          (range_loop (rng E (''convertTo:attributes'', pk @ mk)) (Attributes m)) = Inr (d1, row) \<Longrightarrow>
        I d1 \<and> (\<forall>c. columns_at d1 (TypeName m) = Some c \<longrightarrow> R m c row)"
    and appended: "\<And>m pk row d rs c. m \<in> N \<Longrightarrow> I d \<Longrightarrow> R m c row \<Longrightarrow> columns_at d (TypeName m) = Some c \<Longrightarrow>
        rows_at d (TypeName m) pk (FieldName m) = Some rs \<Longrightarrow> ParentKey row = pk \<Longrightarrow> I (append_row m pk row d)"
    and parts: "\<And>m v a x f w u. m \<in> N \<Longrightarrow> V m v \<Longrightarrow> (a, x) \<in> set (Attributes m) \<Longrightarrow> sub_attr (a, x) \<Longrightarrow>
        field_by_name a v = Inr (Some f) \<Longrightarrow> w \<in> set (sub_values x f) \<Longrightarrow> deref (Some w) = Some u \<Longrightarrow> V x u"
  shows "convertTo E action val pk mk node d = Inr d' \<Longrightarrow> node \<in> N \<Longrightarrow>
     (\<And>v. deref val = Some v \<Longrightarrow> V node v) \<Longrightarrow> I d \<Longrightarrow> I d'"
proof (induction node arbitrary: val pk mk d d' rule: measure_induct_rule [where f = size])
  case (less node)
  show ?case
  proof (cases "deref val")
    case None
    with less.prems show ?thesis by (subst (asm) convertTo_unfold) simp
  next
    case (Some v)
    let ?ss = "range_loop (rng E (''convertTo:subTables'', pk @ mk)) (filter sub_attr (Attributes node))"
    from less.prems(1) Some obtain d1 row d2 where
      attrs: "mfold (convert_attr E action v node) (open_table E node pk d, start_row E node v pk mk)
         (range_loop (rng E (''convertTo:attributes'', pk @ mk)) (Attributes node)) = Inr (d1, row)"
      and sub: "mfold (convert_sub E action v (KeyForRow row)) d1 ?ss = Inr d2"
      and d': "d' = append_row node pk row d2"
      and d1: "rows_at d1 = rows_at (open_table E node pk d)"
        "columns_at d1 = columns_at (open_table E node pk d)"
      and row: "ParentKey row = pk" "KeyForRow row = pk @ RecKeyOf E node v mk"
      by (rule convertTo_cases) blast
    obtain c where c: "columns_at d1 (TypeName node) = Some c"
      using columns_at_open_own d1(2) by metis
    have V: "V node v" using less.prems(3) Some by blast
    have I1: "I d1" "R node c row" using opened [OF less.prems(2) V less.prems(4) attrs] c by blast+
    have step: "I d'" if "I d" "x \<in> set ?ss" "convert_sub E action v (KeyForRow row) d x = Inr d'" for d x d'
    proof -
      obtain a m where x: "x = (a, m)" by (cases x)
      with that(2) have am: "(a, m) \<in> set (Attributes node)" "sub_attr (a, m)"
        by (auto dest!: range_loop_in)
      have m: "m \<in> N" using nodes_of_closed [OF less.prems(2) [unfolded N_def] am] by (simp add: N_def)
      show ?thesis
        by (rule convert_sub_invariant [OF that(3) [unfolded x], where I = I, OF that(1)],
            rule less.IH [OF size_Attributes [OF am(1)] _ m])
          (use parts [OF less.prems(2) V am] in blast)+
    qed
    have I2: "I d2" using sub I1(1) by (rule mfold_invariant) (rule step)
    have ev: "evolves (below (KeyForRow row)) d1 d2"
      using sub by (rule mfold_evolves)
        (auto dest!: range_loop_in intro!: convert_sub_evolves convertTo_evolves)
    have "(TypeName node, pk, FieldName node) \<notin> below (KeyForRow row)"
      using row(2) by (simp add: RecKeyOf_def Let_def)
    moreover have "rows_at d1 (TypeName node) pk (FieldName node) \<noteq> None"
      using d1(1) by (simp add: rows_at_open_table loc_of_def)
    ultimately obtain rs where "rows_at d2 (TypeName node) pk (FieldName node) = Some rs"
      using evolves_rows [OF ev] by fastforce
    then show ?thesis
      unfolding d' using appended [OF less.prems(2) I2 I1(2) evolves_columns [OF ev c] _ row(1)] by blast
  qed
qed

text \<open>A conversion keeps the invariant of every type tree its node belongs to.\<close>

lemma convertTo_store_inv:
  assumes "orders_ok E" "wf_tree root"
  shows "convertTo E action val pk mk node d = Inr d' \<Longrightarrow> node \<in> set (nodes_of root) \<Longrightarrow>
     store_inv (nodes_of root) d \<Longrightarrow> store_inv (nodes_of root) d'"
proof (rule convertTo_invariant [where V = "\<lambda>m v. True" and R = "\<lambda>m c r. True" and I = "store_inv (nodes_of root)"])
  fix m pk mk v d d1 row
  assume m: "m \<in> set (nodes_of root)" "store_inv (nodes_of root) d"
    and "mfold (convert_attr E action v m) (open_table E m pk d, start_row E m v pk mk)
      (range_loop (rng E (''convertTo:attributes'', pk @ mk)) (Attributes m)) = Inr (d1, row)"
  from convert_attrs_frame [OF this(3)] store_inv_open_table [OF assms m]
  show "store_inv (nodes_of root) d1 \<and> (\<forall>c. columns_at d1 (TypeName m) = Some c \<longrightarrow> True)"
    using store_inv_cong by blast
next
  fix m pk d rs c and row :: L8OrmRow
  assume "store_inv (nodes_of root) d" "rows_at d (TypeName m) pk (FieldName m) = Some rs" "ParentKey row = pk"
  then show "store_inv (nodes_of root) (append_row m pk row d)" by (intro store_inv_append_row)
qed simp_all

end
