(* ===== verification/Convert_Roundtrip.thy ===== *)
theory Convert_Roundtrip
  imports Convert_Inv
begin

text \<open>
  The round trip of the two conversions: relational data built from objects that conform
  to their type is read back to the same objects, whatever orders the range loops take.
\<close>

section \<open>The frame of reading\<close>

definition read_rows ::
    "'a env_scheme \<Rightarrow> l8node \<Rightarrow> (string, int32) gomap option \<Rightarrow> L8OrmRData \<Rightarrow> L8OrmRow list
     \<Rightarrow> ((string, gval) gomap \<times> gval list) res" where
  "read_rows E node cols data rs =
     mfold (\<lambda>(rows, orderedInstances) row.
       rbind (convert_row E node cols data row) (\<lambda>instance.
         Inr (AList.update (RecKey row) instance rows, orderedInstances @ [instance])))
       ([], []) rs"

definition finish_rows ::
    "'a env_scheme \<Rightarrow> l8node \<Rightarrow> string \<Rightarrow> (string, gval) gomap \<times> gval list \<Rightarrow> cf_result res" where
  "finish_rows E node parentKey p =
     (case p of (rows, orderedInstances) \<Rightarrow>
        if IsSlice node then rbind (convertRowsToSlice E rows node) (\<lambda>v. Inr (CVal v))
        else if IsMap node then rbind (must (convertRowsToMap E rows node)) (\<lambda>v. Inr (CVal v))
        else if parentKey = [] then Inr (COrdered orderedInstances)
        else Inr (CRows rows))"

definition read_attr ::
    "'a env_scheme \<Rightarrow> (string, int32) gomap option \<Rightarrow> L8OrmRow \<Rightarrow> gval \<Rightarrow> string \<times> l8node \<Rightarrow> gval res"
where
  "read_attr E cols row v attr =
     (case attr of (attrName, attrNode) \<Rightarrow>
        if IsStruct attrNode then Inr v
        else case Option.bind cols (\<lambda>c. map_of c attrName) of
               None \<Rightarrow> Inr v
             | Some colIndex \<Rightarrow> SetValueFromRow E colIndex attrName row v)"

definition read_sub ::
    "'a env_scheme \<Rightarrow> string \<Rightarrow> L8OrmRData \<Rightarrow> gval \<Rightarrow> string \<times> l8node \<Rightarrow> gval res" where
  "read_sub E key data v attr =
     (case attr of (attrName, attrNode) \<Rightarrow>
        rbind (convertFrom E attrNode key data) (\<lambda>r. SetValueFromSubTable E attrName r v))"

lemma convertFrom_unfold:
  "convertFrom E node parentKey data =
     (case rows_at data (TypeName node) parentKey (FieldName node) of
        None \<Rightarrow> Inr CNil
      | Some rs \<Rightarrow>
          rbind (infoType E (TypeName node)) (\<lambda>_.
          rbind (read_rows E node (columns_at data (TypeName node)) data rs)
            (finish_rows E node parentKey)))"
proof (cases "rows_at data (TypeName node) parentKey (FieldName node)")
  case None
  then show ?thesis by (subst convertFrom.simps) (simp add: TableAndRowsGet_rows)
next
  case (Some rs)
  then obtain t where "map_of (Tables data) (TypeName node) = Some t"
    by (auto simp: rows_at_def split: bind_splits)
  with Some show ?thesis
    by (subst convertFrom.simps)
      (simp add: TableAndRowsGet_rows columns_at_def read_rows_def finish_rows_def [abs_def])
qed

lemma convert_row_unfold:
  "convert_row E node cols data row =
     rbind (newInstance E (TypeName node)) (\<lambda>instance.
       case instance of
         GPtr t (Some v) \<Rightarrow>
           rbind (mfold (read_attr E cols row) v
                  (range_loop (rng E (''convertFrom:attributes'', KeyForRow row)) (Attributes node)))
             (\<lambda>v.
           rbind (mfold (read_sub E (KeyForRow row) data) v
                  (range_loop (rng E (''convertFrom:subTables'', KeyForRow row))
                     (filter sub_attr (Attributes node))))
             (\<lambda>v. Inr (GPtr t (Some v))))
       | _ \<Rightarrow> Inl (Panic ''reflect: call of Elem on wrong kind''))"
  unfolding read_attr_def [abs_def] read_sub_def [abs_def] by (rule convert_row.simps)

lemma KeyForRow_prefix: "prefix (ParentKey r) (KeyForRow r)"
  by (simp add: KeyForRow_def)

text \<open>
  Reading a row depends on the data below its key only, and reading a node under a parent
  key on the rows found there and the data below their keys.
\<close>

lemma convertFrom_cong:
  assumes "store_inv N d1" "evolves S d1 d2" "loc_of node pk \<notin> S"
    and "\<And>cols rs r. rows_at d1 (TypeName node) pk (FieldName node) = Some rs \<Longrightarrow> r \<in> set rs \<Longrightarrow>
           convert_row E node cols d2 r = convert_row E node cols d1 r"
  shows "convertFrom E node pk d2 = convertFrom E node pk d1"
proof -
  have rows: "rows_at d2 (TypeName node) pk (FieldName node) =
      rows_at d1 (TypeName node) pk (FieldName node)"
    using assms(2,3) by (simp add: evolves_rows loc_of_def)
  show ?thesis
  proof (cases "rows_at d1 (TypeName node) pk (FieldName node)")
    case None
    with rows show ?thesis by (simp add: convertFrom_unfold)
  next
    case (Some rs)
    then obtain c where c: "columns_at d1 (TypeName node) = Some c"
      using store_inv_rows(1) [OF assms(1)] by blast
    with assms(2) have "columns_at d2 (TypeName node) = Some c" by (rule evolves_columns)
    moreover have "read_rows E node (Some c) d2 rs = read_rows E node (Some c) d1 rs"
      unfolding read_rows_def using assms(4) [OF Some]
      by (intro mfold_eqI) (simp split: prod.split)
    ultimately show ?thesis
      using Some rows c by (simp add: convertFrom_unfold)
  qed
qed

lemma convert_row_frame:
  assumes "store_inv N d1" "evolves S d1 d2"
  shows "S \<inter> below (KeyForRow r) = {} \<Longrightarrow> convert_row E node cols d2 r = convert_row E node cols d1 r"
proof (induction node arbitrary: r cols rule: measure_induct_rule [where f = size])
  case (less node)
  let ?key = "KeyForRow r"
  have sub: "convertFrom E m ?key d2 = convertFrom E m ?key d1"
    if m: "(a, m) \<in> set (Attributes node)" for a m
  proof (rule convertFrom_cong [OF assms])
    show "loc_of m ?key \<notin> S" using less.prems by (auto simp: loc_of_def below_def)
    fix cols rs x assume rs: "rows_at d1 (TypeName m) ?key (FieldName m) = Some rs" "x \<in> set rs"
    then have "ParentKey x = ?key" using store_inv_rows(2) [OF assms(1)] by blast
    then have "below (KeyForRow x) \<subseteq> below ?key"
      using KeyForRow_prefix [of x] by (simp add: below_mono)
    with less.prems have "S \<inter> below (KeyForRow x) = {}" by blast
    then show "convert_row E m cols d2 x = convert_row E m cols d1 x"
      by (rule less.IH [OF size_Attributes [OF m]])
  qed
  have "mfold (read_sub E ?key d2) v (range_loop (rng E (''convertFrom:subTables'', ?key))
            (filter sub_attr (Attributes node))) =
        mfold (read_sub E ?key d1) v (range_loop (rng E (''convertFrom:subTables'', ?key))
            (filter sub_attr (Attributes node)))" for v
    by (rule mfold_eqI) (auto simp: read_sub_def sub dest!: range_loop_in)
  then show ?case unfolding convert_row_unfold by (simp only:)
qed

corollary convertFrom_frame:
  assumes "store_inv N d1" "evolves S d1 d2" "loc_of node pk \<notin> S"
    and "\<And>rs r. rows_at d1 (TypeName node) pk (FieldName node) = Some rs \<Longrightarrow> r \<in> set rs \<Longrightarrow>
           S \<inter> below (KeyForRow r) = {}"
  shows "convertFrom E node pk d2 = convertFrom E node pk d1"
  using assms(1-3)
  by (rule convertFrom_cong) (rule convert_row_frame [OF assms(1,2)], rule assms(4))

section \<open>Conforming values\<close>

text \<open>A scalar value that survives serialisation, up to the field's own type.\<close>

definition round_trips :: "'a env_scheme \<Rightarrow> gval \<Rightarrow> bool" where
  "round_trips E f =
     (case enc E f of
        Inl _ \<Rightarrow> False
      | Inr b \<Rightarrow> b \<noteq> [] \<and>
          (case dec E b of
             Inl _ \<Rightarrow> False
           | Inr v \<Rightarrow> converted_field f v = Inr f \<and>
                      (kind_of v = KString \<longrightarrow> kind_of (Some f) = KString)))"

fun is_nil_slice :: "gval \<Rightarrow> bool" where
  "is_nil_slice (GSlice t None) = True"
| "is_nil_slice _ = False"

definition nil_value :: "gval \<Rightarrow> bool" where
  "nil_value z = (case z of GPtr _ None \<Rightarrow> True | GSlice _ None \<Rightarrow> True
                  | GMap _ _ None \<Rightarrow> True | _ \<Rightarrow> False)"

text \<open>The instance the registry makes fits the struct: same fields, same types, and the
  values outside the attributes, with nil in the sub-table fields.\<close>

definition fits_instance ::
    "'a env_scheme \<Rightarrow> l8node \<Rightarrow> (string \<times> gval) list \<Rightarrow> bool" where
  "fits_instance E n fs =
     (case newInstance E (TypeName n) of
        Inr (GPtr t (Some (GStruct tn zs))) \<Rightarrow>
          t = TNamed KStruct (TypeName n) \<and> tn = TypeName n \<and>
          map fst zs = map fst fs \<and> map (type_of \<circ> snd) zs = map (type_of \<circ> snd) fs \<and>
          (\<forall>a \<in> set (map fst fs). a \<notin> set (gkeys (Attributes n)) \<longrightarrow> map_of zs a = map_of fs a) \<and>
          (\<forall>p \<in> set (Attributes n). \<not> scalar_attr p \<longrightarrow>
             (case map_of zs (fst p) of None \<Rightarrow> False | Some z \<Rightarrow> nil_value z))
      | _ \<Rightarrow> False)"

definition struct_of :: "gval \<Rightarrow> gval" where
  "struct_of y = (case y of GPtr t (Some s) \<Rightarrow> s | _ \<Rightarrow> y)"

definition key_ok :: "'a env_scheme \<Rightarrow> gtyp \<Rightarrow> gval \<Rightarrow> bool" where
  "key_ok E kt k \<longleftrightarrow> type_of k = kt \<and> plain (toStrTyped E k) \<and> fromStr E (toStrTyped E k) = Inr k"

text \<open>
  \<open>conf E n y\<close>: \<open>y\<close> is a pointer to a struct of the type of node \<open>n\<close> with, recursively,
  scalars that survive serialisation, sub-structs behind pointers, non-nil elements without
  primary keys in slices and maps (which are nil rather than empty), and readable map keys.
\<close>

function conf :: "'a env_scheme \<Rightarrow> l8node \<Rightarrow> gval \<Rightarrow> bool" where
  "conf E n y =
     (case y of
        GPtr t (Some (GStruct tn fs)) \<Rightarrow>
          t = TNamed KStruct (TypeName n) \<and> tn = TypeName n \<and> infoType E tn = Inr t \<and>
          distinct (map fst fs) \<and> fits_instance E n fs \<and>
          (\<forall>p \<in> set (Attributes n).
             (case map_of fs (fst p) of
                None \<Rightarrow> False
              | Some f \<Rightarrow>
                  if scalar_attr p then round_trips E f
                  else if ts_attr p then is_nil_slice f
                  else if IsMap (snd p) then
                    (case f of
                       GMap kt vt m \<Rightarrow>
                         vt = TPtr (TNamed KStruct (TypeName (snd p))) \<and> \<not> IsSlice (snd p) \<and>
                         infoType E (KeyTypeName (snd p)) = Inr kt \<and>
                         (case m of None \<Rightarrow> True
                          | Some es \<Rightarrow> es \<noteq> [] \<and> distinct (gkeys es) \<and>
                              (\<forall>e \<in> set es. key_ok E kt (fst e) \<and> conf E (snd p) (snd e) \<and>
                                 primaryKeyOf E (snd p) (struct_of (snd e)) = []))
                     | _ \<Rightarrow> False)
                  else if IsSlice (snd p) then
                    (case f of
                       GSlice et xs \<Rightarrow>
                         et = TPtr (TNamed KStruct (TypeName (snd p))) \<and>
                         (case xs of None \<Rightarrow> True
                          | Some l \<Rightarrow> l \<noteq> [] \<and> length l < 2 ^ 63 \<and>
                              (\<forall>e \<in> set l. conf E (snd p) e \<and>
                                 primaryKeyOf E (snd p) (struct_of e) = []))
                     | _ \<Rightarrow> False)
                  else
                    (case f of
                       GPtr pt x \<Rightarrow>
                         pt = TNamed KStruct (TypeName (snd p)) \<and>
                         (x = None \<or> conf E (snd p) f \<and>
                            plain (toStr E (GString (primaryKeyOf E (snd p) (struct_of f)))))
                     | _ \<Rightarrow> False)))
      | _ \<Rightarrow> False)"
  by pat_completeness auto
termination
  by (relation "measure (\<lambda>(E, n, y). size n)") (auto dest!: size_Attributes)

declare conf.simps [simp del]

text \<open>
  Equality of values where Go maps are compared as maps: the entries may come back in
  another order.
\<close>

function sim :: "l8node \<Rightarrow> gval \<Rightarrow> gval \<Rightarrow> bool" where
  "sim n y y' =
     (case (y, y') of
        (GPtr t (Some (GStruct tn fs)), GPtr t' (Some (GStruct tn' fs'))) \<Rightarrow>
          t' = t \<and> tn' = tn \<and> map fst fs' = map fst fs \<and>
          (\<forall>a \<in> set (map fst fs). a \<notin> set (gkeys (Attributes n)) \<longrightarrow> map_of fs' a = map_of fs a) \<and>
          (\<forall>p \<in> set (Attributes n).
             (case (map_of fs (fst p), map_of fs' (fst p)) of
                (Some f, Some f') \<Rightarrow>
                  (case (f, f') of
                     (GMap kt vt (Some m), GMap kt' vt' (Some m')) \<Rightarrow>
                       if sub_attr p then
                         kt' = kt \<and> vt' = vt \<and> distinct (gkeys m') \<and> length m' = length m \<and>
                         (\<forall>e \<in> set m. case map_of m' (fst e) of
                            None \<Rightarrow> False | Some w \<Rightarrow> sim (snd p) (snd e) w)
                       else f' = f
                   | (GSlice et (Some l), GSlice et' (Some l')) \<Rightarrow>
                       if sub_attr p then
                         et' = et \<and> length l' = length l \<and>
                         (\<forall>e \<in> set (zip l l'). sim (snd p) (fst e) (snd e))
                       else f' = f
                   | (GPtr pt (Some x), GPtr pt' (Some x')) \<Rightarrow>
                       if sub_attr p then sim (snd p) f f' else f' = f
                   | _ \<Rightarrow> f' = f)
              | _ \<Rightarrow> False))
      | _ \<Rightarrow> False)"
  by pat_completeness auto
termination
  by (relation "measure (\<lambda>(n, y, y'). size n)") (auto dest!: size_Attributes)

declare sim.simps [simp del]

end
