(* ===== verification/Convert_Scalars.thy ===== *)
theory Convert_Scalars
  imports Convert_Roundtrip
begin

text \<open>
  The pieces of the round trip: writing and reading the scalar fields of one row, the
  conversion of a list of elements under one attribute, and the rebuilding of slices and
  maps from their rows in any order.
\<close>

section \<open>Fields of a struct\<close>

lemma map_fst_set_assoc [simp]: "map fst (set_assoc n x fs) = map fst fs"
  by (induction fs) auto

lemma map_of_set_assoc:
  "map_of (set_assoc n x fs) m = (if m = n \<and> map_of fs n \<noteq> None then Some x else map_of fs m)"
  by (induction fs) auto

lemma set_field_ok:
  "map_of fs n = Some z \<Longrightarrow> type_of x = type_of z \<Longrightarrow>
     set_field n x (GStruct tn fs) = Inr (GStruct tn (set_assoc n x fs))"
  by (simp add: set_field_def)

lemma converted_field_type:
  assumes "converted_field f v = Inr f" "kind_of v = KString \<longrightarrow> kind_of (Some f) = KString"
    and "type_of z = type_of f"
  shows "converted_field z v = Inr f"
proof (cases "kind_of (Some f) = KInt32")
  case True
  with assms show ?thesis by (simp add: converted_field_def)
next
  case False
  have "kind_of v = kind_of (Some f)"
    using assms(1,2) False by (auto simp: converted_field_def split: if_splits)
  with False assms show ?thesis
    by (cases f; cases z; cases v) (auto simp: converted_field_def split: if_splits)
qed

definition bytes_of :: "'a env_scheme \<Rightarrow> gval \<Rightarrow> bytes" where
  "bytes_of E f = (case enc E f of Inr b \<Rightarrow> b | Inl _ \<Rightarrow> [])"

lemma round_trips_enc: "round_trips E f \<Longrightarrow> enc E f = Inr (bytes_of E f) \<and> bytes_of E f \<noteq> []"
  by (auto simp: round_trips_def bytes_of_def split: sum.splits)

lemma SetValueFromRow_ok:
  assumes "round_trips E f" "map_of (ColumnValues row) i = Some (bytes_of E f)"
    and "map_of zs a = Some z" "type_of z = type_of f"
  shows "SetValueFromRow E i a row (GStruct tn zs) = Inr (GStruct tn (set_assoc a f zs))"
proof -
  from assms(1) obtain v where "bytes_of E f \<noteq> []" "dec E (bytes_of E f) = Inr v"
    "converted_field f v = Inr f" "kind_of v = KString \<longrightarrow> kind_of (Some f) = KString"
    by (auto simp: round_trips_def bytes_of_def split: sum.splits)
  with converted_field_type [of f v z] assms(2-4) show ?thesis
    by (simp add: SetValueFromRow_def set_field_ok)
qed

section \<open>Writing and reading the scalar attributes\<close>

definition col_of :: "(string, int32) gomap \<Rightarrow> string \<Rightarrow> int32" where
  "col_of c a = the (map_of c a)"

text \<open>The fields of a struct agree with the attributes: scalars encode, time series are nil.\<close>

definition attr_fields_ok :: "'a env_scheme \<Rightarrow> (string \<times> gval) list \<Rightarrow> string \<times> l8node \<Rightarrow> bool" where
  "attr_fields_ok E fs p \<longleftrightarrow>
     (case map_of fs (fst p) of
        None \<Rightarrow> False
      | Some f \<Rightarrow> (scalar_attr p \<longrightarrow> round_trips E f) \<and> (ts_attr p \<longrightarrow> is_nil_slice f))"

lemma is_nil_slice_conv: "is_nil_slice f \<longleftrightarrow> (\<exists>t. f = GSlice t None)"
  by (cases f rule: is_nil_slice.cases) auto

lemma convert_attr_step:
  assumes "columns_at d (TypeName n) = Some c" "action \<noteq> PATCH" "attr_fields_ok E fs p"
    and "scalar_attr p \<Longrightarrow> map_of c (fst p) \<noteq> None"
  shows "convert_attr E action (GStruct tn fs) n (d, row) p =
     Inr (d, if scalar_attr p
             then row\<lparr>ColumnValues := AList.update (col_of c (fst p))
                        (bytes_of E (the (map_of fs (fst p)))) (ColumnValues row)\<rparr>
             else row)"
proof -
  obtain a x where p: "p = (a, x)" by (cases p)
  from assms(3) p obtain f where f: "map_of fs a = Some f"
    "scalar_attr p \<longrightarrow> round_trips E f" "ts_attr p \<longrightarrow> is_nil_slice f"
    by (auto simp: attr_fields_ok_def split: option.splits)
  show ?thesis
  proof (cases "IsStruct x")
    case True
    with p f show ?thesis
      by (auto simp: convert_attr_def extractTsData_def is_nil_slice_conv)
  next
    case False
    with p f(2) have "enc E f = Inr (bytes_of E f)" by (simp add: round_trips_enc)
    with False p f(1) assms(1,2,4) show ?thesis
      by (auto simp: convert_attr_def SetValueToRow_def column_index_def col_of_def Let_def)
  qed
qed

lemma convert_attrs_written:
  assumes "columns_at d (TypeName n) = Some c" "action \<noteq> PATCH"
    and "\<forall>p \<in> set attrs. attr_fields_ok E fs p"
    and "\<forall>p \<in> set attrs. scalar_attr p \<longrightarrow> map_of c (fst p) \<noteq> None"
    and "inj_on (map_of c) (fst ` {p \<in> set attrs. scalar_attr p})" "distinct (map fst attrs)"
  shows "\<exists>row'. mfold (convert_attr E action (GStruct tn fs) n) (d, row) attrs = Inr (d, row') \<and>
     ParentKey row' = ParentKey row \<and> RecKey row' = RecKey row \<and>
     (\<forall>p \<in> set attrs. scalar_attr p \<longrightarrow>
        map_of (ColumnValues row') (col_of c (fst p)) = Some (bytes_of E (the (map_of fs (fst p))))) \<and>
     (\<forall>i. i \<notin> (\<lambda>p. col_of c (fst p)) ` {p \<in> set attrs. scalar_attr p} \<longrightarrow>
        map_of (ColumnValues row') i = map_of (ColumnValues row) i)"
  using assms(3-6)
proof (induction attrs arbitrary: row)
  case Nil
  then show ?case by simp
next
  case (Cons p attrs)
  define row1 where "row1 = (if scalar_attr p
      then row\<lparr>ColumnValues := AList.update (col_of c (fst p))
                 (bytes_of E (the (map_of fs (fst p)))) (ColumnValues row)\<rparr> else row)"
  have step: "convert_attr E action (GStruct tn fs) n (d, row) p = Inr (d, row1)"
    using convert_attr_step [OF assms(1,2), of E fs p tn row] Cons.prems(1,2)
    by (simp add: row1_def)
  have inj: "inj_on (map_of c) (fst ` {p \<in> set attrs. scalar_attr p})"
    using Cons.prems(3) by (rule inj_on_subset) auto
  from Cons.IH [of row1] Cons.prems inj obtain row' where
    IH: "mfold (convert_attr E action (GStruct tn fs) n) (d, row1) attrs = Inr (d, row')"
    "ParentKey row' = ParentKey row1" "RecKey row' = RecKey row1"
    "\<forall>p \<in> set attrs. scalar_attr p \<longrightarrow>
        map_of (ColumnValues row') (col_of c (fst p)) = Some (bytes_of E (the (map_of fs (fst p))))"
    "\<forall>i. i \<notin> (\<lambda>p. col_of c (fst p)) ` {p \<in> set attrs. scalar_attr p} \<longrightarrow>
        map_of (ColumnValues row') i = map_of (ColumnValues row1) i"
    by auto
  have own: "col_of c (fst p) \<notin> (\<lambda>p. col_of c (fst p)) ` {p \<in> set attrs. scalar_attr p}"
    if "scalar_attr p"
  proof
    assume "col_of c (fst p) \<in> (\<lambda>p. col_of c (fst p)) ` {p \<in> set attrs. scalar_attr p}"
    then obtain q where q: "q \<in> set attrs" "scalar_attr q" "col_of c (fst p) = col_of c (fst q)"
      by blast
    then have "map_of c (fst p) = map_of c (fst q)"
      using Cons.prems(2) that by (auto simp: col_of_def)
    then have "fst p = fst q"
      using that q by (intro inj_onD [OF Cons.prems(3)] imageI) simp_all
    with q Cons.prems(4) show False by auto
  qed
  show ?case
    using step IH own by (auto simp: row1_def map_of_update split: if_splits)
qed

lemma read_attrs_ok:
  assumes "\<forall>p \<in> set attrs. attr_fields_ok E fs p"
    and "\<forall>p \<in> set attrs. scalar_attr p \<longrightarrow> map_of c (fst p) \<noteq> None \<and>
        map_of (ColumnValues row) (col_of c (fst p)) = Some (bytes_of E (the (map_of fs (fst p))))"
    and "\<forall>a f. map_of fs a = Some f \<longrightarrow> (\<exists>z. map_of zs a = Some z \<and> type_of z = type_of f)"
    and "distinct (map fst attrs)"
  shows "\<exists>zs'. mfold (read_attr E (Some c) row) (GStruct tn zs) attrs = Inr (GStruct tn zs') \<and>
     map fst zs' = map fst zs \<and>
     (\<forall>a. map_of zs' a = (if \<exists>p \<in> set attrs. fst p = a \<and> scalar_attr p then map_of fs a else map_of zs a))"
  using assms
proof (induction attrs arbitrary: zs)
  case Nil
  then show ?case by auto
next
  case (Cons p attrs)
  from Cons.prems(1) obtain f where f: "map_of fs (fst p) = Some f"
    "scalar_attr p \<longrightarrow> round_trips E f"
    by (auto simp: attr_fields_ok_def split: option.splits)
  from Cons.prems(3) f(1) obtain z where z: "map_of zs (fst p) = Some z" "type_of z = type_of f"
    by blast
  define zs1 where "zs1 = (if scalar_attr p then set_assoc (fst p) f zs else zs)"
  have step: "read_attr E (Some c) row (GStruct tn zs) p = Inr (GStruct tn zs1)"
  proof (cases "scalar_attr p")
    case True
    with Cons.prems(2) f(1) obtain i where "map_of c (fst p) = Some i"
      "map_of (ColumnValues row) i = Some (bytes_of E f)"
      by (auto simp: col_of_def)
    with True f z show ?thesis
      by (auto simp: read_attr_def zs1_def SetValueFromRow_ok scalar_attr_def split: prod.splits)
  next
    case False
    then show ?thesis by (auto simp: read_attr_def zs1_def split: prod.splits)
  qed
  have keep: "\<forall>a f. map_of fs a = Some f \<longrightarrow> (\<exists>z. map_of zs1 a = Some z \<and> type_of z = type_of f)"
    using Cons.prems(3) f(1) by (auto simp: zs1_def map_of_set_assoc)
  have "\<forall>p \<in> set attrs. attr_fields_ok E fs p" "distinct (map fst attrs)"
    "\<forall>p \<in> set attrs. scalar_attr p \<longrightarrow> map_of c (fst p) \<noteq> None \<and>
        map_of (ColumnValues row) (col_of c (fst p)) = Some (bytes_of E (the (map_of fs (fst p))))"
    using Cons.prems(1,2,4) by auto
  from Cons.IH [OF this(1,3) keep this(2)] obtain zs' where
    zs': "mfold (read_attr E (Some c) row) (GStruct tn zs1) attrs = Inr (GStruct tn zs')"
    "map fst zs' = map fst zs1"
    "\<forall>a. map_of zs' a = (if \<exists>p \<in> set attrs. fst p = a \<and> scalar_attr p then map_of fs a else map_of zs1 a)"
    by blast
  have "map_of zs' a = (if \<exists>q \<in> set (p # attrs). fst q = a \<and> scalar_attr q then map_of fs a else map_of zs a)" for a
    using zs'(3) f(1) z(1) by (auto simp: zs1_def map_of_set_assoc)
  moreover have "mfold (read_attr E (Some c) row) (GStruct tn zs) (p # attrs) = Inr (GStruct tn zs')"
    using step zs'(1) by simp
  moreover have "map fst zs' = map fst zs"
    using zs'(2) by (simp add: zs1_def)
  ultimately show ?case by blast
qed

section \<open>Rebuilding slices and maps from their rows\<close>

lemma bracket_text_bracketed:
  assumes "plain k"
  shows "bracket_text (bracketed f k) = Inr k"
proof -
  have 1: "str_last_index CHR ''['' (bracketed f k) = int (length f)"
    using assms str_last_index_last [of "CHR ''[''" "k @ '']''" f] by (simp add: bracketed_def plain_def)
  have 2: "str_last_index CHR '']'' (bracketed f k) = int (length (f @ ''['' @ k))"
    using str_last_index_last [of "CHR '']''" "[]" "f @ ''['' @ k"] by (simp add: bracketed_def)
  show ?thesis
    unfolding bracket_text_def Let_def 1 2 go_slice_def by (simp add: bracketed_def nat_add_distrib)
qed

lemma GetSliceIndex_bracketed:
  "i < 2 ^ 63 \<Longrightarrow> GetSliceIndex (bracketed f (nat_str i)) = Inr (int i)"
  by (simp add: GetSliceIndex_def bracket_text_bracketed atoi_nat_str)

lemma GetMapIndex_bracketed:
  "key_ok E kt k \<Longrightarrow> GetMapIndex E (bracketed f (toStrTyped E k)) = Inr k"
  by (simp add: GetMapIndex_def key_ok_def bracket_text_bracketed)

lemma read_rows_ok:
  assumes "list_all2 (\<lambda>row y. convert_row E x cols d row = Inr y) rs ys"
    and "distinct (map RecKey rs)"
  shows "read_rows E x cols d rs = Inr (zip (map RecKey rs) ys, ys)"
proof -
  have "mfold (\<lambda>(rows, orderedInstances) row.
       rbind (convert_row E x cols d row) (\<lambda>instance.
         Inr (AList.update (RecKey row) instance rows, orderedInstances @ [instance])))
       (m, l) rs = Inr (m @ zip (map RecKey rs) ys, l @ ys)"
    if "set (map RecKey rs) \<inter> fst ` set m = {}" for m l
    using assms that
  proof (induction arbitrary: m l rule: list_all2_induct)
    case (Cons r rs y ys)
    have u: "AList.update (RecKey r) y m = m @ [(RecKey r, y)]"
      using Cons.prems by (intro update_new) auto
    have "set (map RecKey rs) \<inter> fst ` set (m @ [(RecKey r, y)]) = {}"
      using Cons.prems by auto
    with Cons.IH [of "m @ [(RecKey r, y)]" "l @ [y]"] Cons.hyps Cons.prems u show ?case by simp
  qed simp
  from this [of "[]" "[]"] show ?thesis by (simp add: read_rows_def)
qed

lemma distinct_gkeys_perm: "mset m = mset m' \<Longrightarrow> distinct (gkeys m') \<Longrightarrow> distinct (gkeys m)"
  unfolding gkeys_def by (metis mset_eq_imp_distinct_iff mset_map)

lemma convertRowsToSlice_ok:
  assumes "orders_ok E" "infoType E (TypeName x) = Inr t" "length ys < 2 ^ 63"
    and "\<forall>y \<in> set ys. type_of y = TPtr t"
    and perm: "mset m = mset (zip (map (\<lambda>i. bracketed a (nat_str i)) [0..<length ys]) ys)"
  shows "convertRowsToSlice E m x = Inr (GSlice (TPtr t) (Some ys))"
proof -
  let ?key = "\<lambda>i. bracketed a (nat_str i)"
  let ?rows = "zip (map ?key [0..<length ys]) ys"
  let ?f = "\<lambda>slice (key, y). rbind (GetSliceIndex key) (\<lambda>index.
                if 0 \<le> index \<and> index < int (length slice) then
                  (if type_of y = TPtr t then Inr (slice[nat index := y])
                   else Inl (Panic ''reflect.Set: value is not assignable''))
                else Inl (Panic ''reflect: slice index out of range''))"
  have inj: "?key i = ?key j \<longleftrightarrow> i = j" for i j
    using nat_str_inj by (auto simp: bracketed_def)
  have nth_key: "map ?key [0..<length ys] ! i = ?key i" if "i < length ys" for i
    using that by simp
  have rows: "(k, y) \<in> set ?rows \<longleftrightarrow> (\<exists>i < length ys. k = ?key i \<and> y = ys ! i)" for k y
    by (auto simp: set_zip) (metis nth_key)
  have "distinct (gkeys ?rows)"
    by (simp add: gkeys_def distinct_map inj_on_def inj)
  then have "distinct (gkeys m)" using perm by (rule distinct_gkeys_perm [rotated])
  then have set_es: "set (range_loop (rng E (''convertRowsToSlice'', FieldName x)) m) = set ?rows"
    using set_range_loop [OF orders_okD(1) [OF assms(1)]] mset_eq_setD [OF perm] by metis
  have len: "length m = length ys" using mset_eq_length [OF perm] by simp
  have loop: "\<exists>s'. mfold ?f s es = Inr s' \<and> length s' = length s \<and>
      (\<forall>i < length ys. s' ! i = (if ?key i \<in> fst ` set es then ys ! i else s ! i))"
    if "set es \<subseteq> set ?rows" "length s = length ys" for s es
    using that
  proof (induction es arbitrary: s)
    case (Cons e es)
    obtain k y where e: "e = (k, y)" by (cases e)
    with Cons.prems obtain i where i: "i < length ys" "k = ?key i" "y = ys ! i"
      using rows by auto
    have step: "?f s e = Inr (s[i := ys ! i])"
      using e i Cons.prems(2) assms(3,4) by (simp add: GetSliceIndex_bracketed)
    from Cons.IH [of "s[i := ys ! i]"] Cons.prems obtain s' where
      "mfold ?f (s[i := ys ! i]) es = Inr s'" "length s' = length s"
      "\<forall>j < length ys. s' ! j = (if ?key j \<in> fst ` set es then ys ! j else s[i := ys ! i] ! j)"
      by auto
    with step e i Cons.prems(2) show ?case
      by (intro exI [of _ s']) (auto simp: inj nth_list_update)
  qed simp
  from loop [of "range_loop (rng E (''convertRowsToSlice'', FieldName x)) m" "replicate (length ys) (GPtr t None)"]
  obtain s' where s': "mfold ?f (replicate (length ys) (GPtr t None))
      (range_loop (rng E (''convertRowsToSlice'', FieldName x)) m) = Inr s'" "length s' = length ys"
    "\<forall>i < length ys. s' ! i = (if ?key i \<in> fst ` set ?rows then ys ! i else replicate (length ys) (GPtr t None) ! i)"
    using set_es by auto
  have "?key i \<in> fst ` set ?rows" if "i < length ys" for i
    using that rows [of "?key i" "ys ! i"] by (force simp: image_iff)
  with s'(2,3) have "s' = ys" by (intro nth_equalityI) auto
  with s'(1) show ?thesis
    by (simp add: convertRowsToSlice_def assms(2) len)
qed

lemma convertRowsToMap_ok:
  assumes "orders_ok E" "infoType E (TypeName x) = Inr t" "infoType E (KeyTypeName x) = Inr kt"
    and "length ys = length ks" "distinct ks" "\<forall>k \<in> set ks. key_ok E kt k"
    and "\<forall>y \<in> set ys. type_of y = TPtr t"
    and perm: "mset rows = mset (zip (map (\<lambda>k. bracketed a (toStrTyped E k)) ks) ys)"
  shows "\<exists>m. convertRowsToMap E rows x = Inr (GMap kt (TPtr t) (Some m)) \<and> distinct (gkeys m) \<and> length m = length ks \<and>
     map_of m = map_of (zip ks ys)"
proof -
  let ?key = "\<lambda>k. bracketed a (toStrTyped E k)"
  let ?rows = "zip (map ?key ks) ys"
  let ?f = "\<lambda>newMap (key, y). rbind (GetMapIndex E key) (\<lambda>index.
                if type_of index = kt \<and> type_of y = TPtr t
                then Inr (AList.update index y newMap)
                else Inl (Panic ''reflect.SetMapIndex: value is not assignable''))"
  have "inj_on ?key (set ks)"
  proof (rule inj_onI)
    fix k j assume "k \<in> set ks" "j \<in> set ks" "?key k = ?key j"
    then show "k = j" using assms(6) GetMapIndex_bracketed [of E kt] by (metis sum.inject(2))
  qed
  then have "distinct (gkeys ?rows)"
    using assms(4,5) by (simp add: gkeys_def distinct_map)
  then have d: "distinct (gkeys rows)" using perm by (rule distinct_gkeys_perm [rotated])
  define es where "es = range_loop (rng E (''convertRowsToMap'', FieldName x)) rows"
  have set_es: "set es = set ?rows" and d_es: "distinct (map fst es)" and len: "length es = length ks"
    unfolding es_def using set_range_loop [OF orders_okD(1) [OF assms(1)] d]
      distinct_range_loop [OF orders_okD(1) [OF assms(1)] d]
      length_range_loop [OF orders_okD(1) [OF assms(1)] d] assms(4)
      mset_eq_setD [OF perm] mset_eq_length [OF perm] by simp_all
  have loop: "\<exists>m'. mfold ?f m es = Inr m' \<and> distinct (gkeys m') \<and> length m' = length m + length es \<and>
      set m' = set m \<union> {(k, y). (?key k, y) \<in> set es \<and> k \<in> set ks}"
    if "set es \<subseteq> set ?rows" "distinct (map fst es)" "distinct (gkeys m)"
      "\<forall>k \<in> set ks. k \<in> set (gkeys m) \<longrightarrow> ?key k \<notin> fst ` set es" for m es
    using that
  proof (induction es arbitrary: m)
    case (Cons e es)
    obtain s y where e: "e = (s, y)" by (cases e)
    have "(s, y) \<in> set ?rows" using Cons.prems(1) e by simp
    then have "s \<in> set (map ?key ks)" "y \<in> set ys"
      by (blast dest: set_zip_leftD set_zip_rightD)+
    then obtain k where k: "s = ?key k" "k \<in> set ks" "y \<in> set ys" by auto
    have new: "k \<notin> set (gkeys m)" using Cons.prems(4) e k by auto
    then have u: "AList.update k y m = m @ [(k, y)]"
      by (intro update_new) (simp add: gkeys_def)
    have step: "?f m e = Inr (m @ [(k, y)])"
      using e k assms(6,7) GetMapIndex_bracketed [of E kt k a] u by (auto simp: key_ok_def)
    have same: "j = k" if "j \<in> set ks" "?key j = ?key k" for j
      using that k(2) \<open>inj_on ?key (set ks)\<close> by (auto simp: inj_on_def)
    have "\<exists>m'. mfold ?f (m @ [(k, y)]) es = Inr m' \<and> distinct (gkeys m') \<and>
        length m' = length (m @ [(k, y)]) + length es \<and>
        set m' = set (m @ [(k, y)]) \<union> {(k, y). (?key k, y) \<in> set es \<and> k \<in> set ks}"
      using Cons.prems new e k same by (intro Cons.IH) (auto simp: gkeys_def)
    then obtain m' where m': "mfold ?f (m @ [(k, y)]) es = Inr m'" "distinct (gkeys m')"
        "length m' = length (m @ [(k, y)]) + length es"
        "set m' = set (m @ [(k, y)]) \<union> {(k, y). (?key k, y) \<in> set es \<and> k \<in> set ks}"
      by blast
    have "{(j, z). (?key j, z) \<in> set (e # es) \<and> j \<in> set ks} =
        insert (k, y) {(j, z). (?key j, z) \<in> set es \<and> j \<in> set ks}"
      using e k same by auto
    with m' step show ?case by (intro exI [of _ m']) auto
  qed auto
  from loop [of es "[]"] set_es d_es obtain m where
    m: "mfold ?f [] es = Inr m" "distinct (gkeys m)" "length m = length es"
    "set m = {(k, y). (?key k, y) \<in> set ?rows \<and> k \<in> set ks}"
    by (auto simp: gkeys_def)
  have "set m = set (zip ks ys)"
  proof -
    have "(?key k, y) \<in> set ?rows \<and> k \<in> set ks \<longleftrightarrow> (k, y) \<in> set (zip ks ys)" for k y
      using \<open>inj_on ?key (set ks)\<close> assms(4) by (force simp: in_set_zip inj_on_def)
    with m(4) show ?thesis by auto
  qed
  then have "map_of m = map_of (zip ks ys)"
    using m(2) assms(4,5) by (intro map_of_inject_set [THEN iffD2]) (simp_all add: gkeys_def)
  with m len show ?thesis
    by (auto simp: convertRowsToMap_def assms(2,3) es_def [symmetric])
qed

end
