(* ===== verification/Convert_Correct.thy ===== *)
theory Convert_Correct
  imports Convert_Scalars
begin

text \<open>
  The round trip theorem: by induction on the type node, a conversion of a conforming value
  adds one row from which the value is read back, and the sub-attributes, in whatever order
  they are converted, do not disturb each other.
\<close>

section \<open>Conformity and similarity of one field\<close>

definition sub_conf :: "'a env_scheme \<Rightarrow> string \<times> l8node \<Rightarrow> gval \<Rightarrow> bool" where
  "sub_conf E p f =
     (if IsMap (snd p) then
        (case f of
           GMap kt vt m \<Rightarrow>
             vt = TPtr (TNamed KStruct (TypeName (snd p))) \<and> \<not> IsSlice (snd p) \<and>
             infoType E (KeyTypeName (snd p)) = Inr kt \<and>
             (case m of None \<Rightarrow> True
              | Some es \<Rightarrow> es \<noteq> [] \<and> distinct (gkeys es) \<and>
                  (\<forall>e \<in> set es. key_ok E kt (fst e) \<and> conf E (snd p) (snd e) \<and>
                     primaryKeyOf E (snd p) (struct_of (snd e)) = []))
         | _ \<Rightarrow> False)
      else if IsSlice (snd p) then
        (case f of
           GSlice et xs \<Rightarrow>
             et = TPtr (TNamed KStruct (TypeName (snd p))) \<and>
             (case xs of None \<Rightarrow> True
              | Some l \<Rightarrow> l \<noteq> [] \<and> length l < 2 ^ 63 \<and>
                  (\<forall>e \<in> set l. conf E (snd p) e \<and>
                     primaryKeyOf E (snd p) (struct_of e) = []))
         | _ \<Rightarrow> False)
      else
        (case f of
           GPtr pt x \<Rightarrow>
             pt = TNamed KStruct (TypeName (snd p)) \<and>
             (x = None \<or> conf E (snd p) f \<and>
                plain (toStr E (GString (primaryKeyOf E (snd p) (struct_of f)))))
         | _ \<Rightarrow> False))"

definition field_sim :: "string \<times> l8node \<Rightarrow> gval \<Rightarrow> gval \<Rightarrow> bool" where
  "field_sim p f f' =
     (case (f, f') of
        (GMap kt vt (Some m), GMap kt' vt' (Some m')) \<Rightarrow>
          if sub_attr p then
            kt' = kt \<and> vt' = vt \<and> distinct (gkeys m') \<and> length m' = length m \<and>
            (\<forall>e \<in> set m. case map_of m' (fst e) of
               None \<Rightarrow> False | Some w \<Rightarrow> sim (snd p) (snd e) w)
          else f' = f
      | (GSlice et (Some l), GSlice et' (Some l')) \<Rightarrow>
          if sub_attr p then
            et' = et \<and> length l' = length l \<and> (\<forall>e \<in> set (zip l l'). sim (snd p) (fst e) (snd e))
          else f' = f
      | (GPtr pt (Some x), GPtr pt' (Some x')) \<Rightarrow>
          if sub_attr p then sim (snd p) f f' else f' = f
      | _ \<Rightarrow> f' = f)"

lemma conf_struct:
  "conf E n (GPtr t (Some (GStruct tn fs))) \<longleftrightarrow>
     t = TNamed KStruct (TypeName n) \<and> tn = TypeName n \<and> infoType E tn = Inr t \<and>
     distinct (map fst fs) \<and> fits_instance E n fs \<and>
     (\<forall>p \<in> set (Attributes n).
        (case map_of fs (fst p) of
           None \<Rightarrow> False
         | Some f \<Rightarrow>
             if scalar_attr p then round_trips E f
             else if ts_attr p then is_nil_slice f
             else sub_conf E p f))"
  unfolding sub_conf_def by (subst conf.simps) simp

lemma conf_shape:
  assumes "conf E n y"
  obtains fs where "y = GPtr (TNamed KStruct (TypeName n)) (Some (GStruct (TypeName n) fs))"
proof -
  from assms obtain t tn fs where y: "y = GPtr t (Some (GStruct tn fs))"
    by (subst (asm) conf.simps) (auto split: gval.splits option.splits)
  with assms have "t = TNamed KStruct (TypeName n)" "tn = TypeName n"
    by (simp_all add: conf_struct)
  with y show ?thesis using that by blast
qed

lemma sim_struct:
  "sim n (GPtr t (Some (GStruct tn fs))) (GPtr t' (Some (GStruct tn' fs'))) \<longleftrightarrow>
     t' = t \<and> tn' = tn \<and> map fst fs' = map fst fs \<and>
     (\<forall>a \<in> set (map fst fs). a \<notin> set (gkeys (Attributes n)) \<longrightarrow> map_of fs' a = map_of fs a) \<and>
     (\<forall>p \<in> set (Attributes n).
        (case (map_of fs (fst p), map_of fs' (fst p)) of
           (Some f, Some f') \<Rightarrow> field_sim p f f' | _ \<Rightarrow> False))"
  unfolding field_sim_def by (subst sim.simps) simp

lemma sim_type: "conf E n y \<Longrightarrow> sim n y y' \<Longrightarrow> type_of y' = TPtr (TNamed KStruct (TypeName n))"
proof -
  assume c: "conf E n y" and s: "sim n y y'"
  from c obtain fs where y: "y = GPtr (TNamed KStruct (TypeName n)) (Some (GStruct (TypeName n) fs))"
    by (rule conf_shape)
  with s obtain t' tn' fs' where "y' = GPtr t' (Some (GStruct tn' fs'))"
    by (subst (asm) sim.simps) (auto split: gval.splits option.splits)
  with s y show ?thesis by (simp add: sim_struct)
qed

lemma nil_value_type_eq: "nil_value z \<Longrightarrow> nil_value f \<Longrightarrow> type_of z = type_of f \<Longrightarrow> z = f"
  by (cases z; cases f) (auto simp: nil_value_def split: option.splits)

lemma field_sim_nil: "nil_value f \<Longrightarrow> field_sim p f f"
  by (cases f) (auto simp: nil_value_def field_sim_def split: option.splits)

section \<open>Regions of the store\<close>

definition region :: "string \<Rightarrow> string \<times> l8node \<Rightarrow> location set" where
  "region key p =
     insert (TypeName (snd p), key, fst p)
       {(tn, pk, f). \<exists>k. plain k \<and> prefix (key @ bracketed (fst p) k) pk}"

definition fresh :: "location set \<Rightarrow> L8OrmRData \<Rightarrow> bool" where
  "fresh S d \<longleftrightarrow> (\<forall>tn pk f. (tn, pk, f) \<in> S \<longrightarrow> rows_at d tn pk f = None)"

lemma fresh_subset: "fresh S d \<Longrightarrow> S' \<subseteq> S \<Longrightarrow> fresh S' d"
  unfolding fresh_def by blast

lemma fresh_evolves: "fresh S d \<Longrightarrow> evolves S' d d' \<Longrightarrow> S \<inter> S' = {} \<Longrightarrow> fresh S d'"
  unfolding fresh_def by (metis disjoint_iff evolves_rows)

lemma below_bracketed_disjoint:
  assumes "plain f" "plain g" "plain k" "plain j" "(f, k) \<noteq> (g, j)"
  shows "below (key @ bracketed f k) \<inter> below (key @ bracketed g j) = {}"
proof -
  have False if "prefix (key @ bracketed f k) pk" "prefix (key @ bracketed g j) pk" for pk
  proof -
    from that obtain u v where "bracketed f k @ u = bracketed g j @ v"
      by (auto simp: prefix_def)
    with assms show False using bracketed_append_eq by blast
  qed
  then show ?thesis by (auto simp: below_def)
qed

lemma loc_not_below [simp]: "(tn, key, f) \<notin> below (key @ bracketed g k)"
  by simp

lemma below_subset_region: "plain k \<Longrightarrow> below (key @ bracketed (fst p) k) \<subseteq> region key p"
  by (auto simp: below_def region_def)

lemma region_disjoint:
  assumes "plain (fst p)" "plain (fst q)" "fst p \<noteq> fst q"
  shows "region key p \<inter> region key q = {}"
proof -
  have "False" if "plain k" "plain j" "prefix (key @ bracketed (fst p) k) pk"
      "prefix (key @ bracketed (fst q) j) pk" for k j pk
    using below_bracketed_disjoint [of "fst p" "fst q" k j key] assms that
    by (auto simp: below_def)
  then show ?thesis
    using assms(3) by (auto simp: region_def)
qed

lemma region_below: "region key p \<subseteq> below key"
  by (auto simp: region_def below_def intro: prefix_order.trans [OF prefixI [OF refl]])

section \<open>Objects stored in relational data\<close>

text \<open>The elements of a field that become rows of a sub-table, with the keys of these rows.\<close>

definition elem_key :: "'a env_scheme \<Rightarrow> l8node \<Rightarrow> gval \<Rightarrow> string" where
  "elem_key E x v = (if primaryKeyOf E x v = [] then [] else toStr E (GString (primaryKeyOf E x v)))"

definition sub_elems :: "'a env_scheme \<Rightarrow> l8node \<Rightarrow> gval \<Rightarrow> (string \<times> gval) list" where
  "sub_elems E x f =
     (case f of
        GMap kt vt (Some es) \<Rightarrow> map (\<lambda>(k, y). (toStrTyped E k, y)) es
      | GSlice t (Some l) \<Rightarrow> map (\<lambda>(i, y). (nat_str i, y)) (List.enumerate 0 l)
      | GPtr t (Some v) \<Rightarrow> [(elem_key E x v, f)]
      | _ \<Rightarrow> [])"

text \<open>
  The rows at one place are those of the elements, in any order; \<open>P\<close> relates an element
  to its row.
\<close>

definition stored_elems ::
    "(l8node \<Rightarrow> gval \<Rightarrow> L8OrmRow \<Rightarrow> bool) \<Rightarrow> L8OrmRData \<Rightarrow> string \<Rightarrow> l8node \<Rightarrow> (string \<times> gval) list \<Rightarrow> bool"
where
  "stored_elems P d key x es \<longleftrightarrow>
     (\<exists>rs. list_all2 (\<lambda>w r. ParentKey r = key \<and> RecKey r = bracketed (FieldName x) (fst w) \<and> P x (snd w) r) es rs \<and>
        (if es = [] then rows_at d (TypeName x) key (FieldName x) = None
         else \<exists>rs'. rows_at d (TypeName x) key (FieldName x) = Some rs' \<and> mset rs' = mset rs))"

lemma stored_elems_mono [mono]:
  assumes "\<And>n y r. P n y r \<longrightarrow> Q n y r"
  shows "stored_elems P d key x es \<longrightarrow> stored_elems Q d key x es"
proof -
  have "list_all2 (\<lambda>w r. ParentKey r = key \<and> RecKey r = bracketed (FieldName x) (fst w) \<and> P x (snd w) r) es rs \<Longrightarrow>
      list_all2 (\<lambda>w r. ParentKey r = key \<and> RecKey r = bracketed (FieldName x) (fst w) \<and> Q x (snd w) r) es rs" for rs
    by (erule list_all2_mono) (use assms in blast)
  then show ?thesis unfolding stored_elems_def by blast
qed

text \<open>
  \<open>stored_row E d n y r\<close>: the row \<open>r\<close> of the data \<open>d\<close> holds the scalars of the object \<open>y\<close>, and
  the sub-tables hold its other fields below the key of \<open>r\<close>.
\<close>

inductive stored_row :: "'a env_scheme \<Rightarrow> L8OrmRData \<Rightarrow> l8node \<Rightarrow> gval \<Rightarrow> L8OrmRow \<Rightarrow> bool" for E d where
  stored_row:
    "columns_at d (TypeName n) = Some c \<Longrightarrow>
     \<forall>p \<in> set (Attributes n). scalar_attr p \<longrightarrow> map_of c (fst p) \<noteq> None \<and>
       map_of (ColumnValues row) (col_of c (fst p)) = Some (bytes_of E (the (map_of fs (fst p)))) \<Longrightarrow>
     \<forall>p \<in> set (Attributes n). sub_attr p \<longrightarrow>
       stored_elems (stored_row E d) d (KeyForRow row) (snd p) (sub_elems E (snd p) (the (map_of fs (fst p)))) \<Longrightarrow>
     stored_row E d n (GPtr t (Some (GStruct tn fs))) row"

inductive_simps stored_row_struct: "stored_row E d n (GPtr t (Some (GStruct tn fs))) row"

text \<open>Two stores that agree on the rows of the elements, and on what \<open>P\<close> and \<open>Q\<close> say of them.\<close>

lemma stored_elems_transfer:
  assumes "stored_elems P d key x es"
    and "rows_at d' (TypeName x) key (FieldName x) = rows_at d (TypeName x) key (FieldName x)"
    and "\<And>w r. w \<in> set es \<Longrightarrow> KeyForRow r = key @ bracketed (FieldName x) (fst w) \<Longrightarrow> P x (snd w) r \<Longrightarrow> Q x (snd w) r"
  shows "stored_elems Q d' key x es"
proof -
  obtain rs where rs: "list_all2 (\<lambda>w r. ParentKey r = key \<and> RecKey r = bracketed (FieldName x) (fst w) \<and> P x (snd w) r) es rs"
    "if es = [] then rows_at d (TypeName x) key (FieldName x) = None
     else \<exists>rs'. rows_at d (TypeName x) key (FieldName x) = Some rs' \<and> mset rs' = mset rs"
    using assms(1) unfolding stored_elems_def by blast
  have "list_all2 (\<lambda>w r. ParentKey r = key \<and> RecKey r = bracketed (FieldName x) (fst w) \<and> Q x (snd w) r) es rs"
    by (rule list.rel_mono_strong [OF rs(1)]) (auto intro!: assms(3) simp: KeyForRow_def)
  with rs(2) show ?thesis unfolding stored_elems_def assms(2) by blast
qed

lemma stored_row_frame:
  assumes "stored_row E d n y r" "evolves S d d'" "S \<inter> below (KeyForRow r) = {}"
  shows "stored_row E d' n y r"
  using assms(1,3)
proof (induction rule: stored_row.induct)
  case (stored_row n c row fs t tn)
  show ?case
  proof (rule stored_row.intros [OF evolves_columns [OF assms(2) stored_row.hyps(1)] stored_row.hyps(2)], intro ballI impI)
    fix p assume p: "p \<in> set (Attributes n)" "sub_attr p"
    let ?P = "\<lambda>n y r. stored_row E d n y r \<and> (S \<inter> below (KeyForRow r) = {} \<longrightarrow> stored_row E d' n y r)"
    have sub: "stored_elems ?P d (KeyForRow row) (snd p) (sub_elems E (snd p) (the (map_of fs (fst p))))"
      using stored_row.IH p by blast
    show "stored_elems (stored_row E d') d' (KeyForRow row) (snd p) (sub_elems E (snd p) (the (map_of fs (fst p))))"
    proof (rule stored_elems_transfer [OF sub])
      have "(TypeName (snd p), KeyForRow row, FieldName (snd p)) \<in> below (KeyForRow row)" by simp
      with stored_row.prems show "rows_at d' (TypeName (snd p)) (KeyForRow row) (FieldName (snd p)) =
          rows_at d (TypeName (snd p)) (KeyForRow row) (FieldName (snd p))"
        by (intro evolves_rows [OF assms(2)]) blast
    next
      fix w r assume r: "KeyForRow r = KeyForRow row @ bracketed (FieldName (snd p)) (fst w)" "?P (snd p) (snd w) r"
      then have "below (KeyForRow r) \<subseteq> below (KeyForRow row)" by (intro below_mono) simp
      with r(2) stored_row.prems show "stored_row E d' (snd p) (snd w) r" by blast
    qed
  qed
qed

section \<open>What a conversion promises\<close>

text \<open>
  The data meet their invariant, and the rows at one place have distinct record keys that
  name the place.
\<close>

definition tidy :: "l8node list \<Rightarrow> L8OrmRData \<Rightarrow> bool" where
  "tidy N d \<longleftrightarrow> store_inv N d \<and>
     (\<forall>tn pk f rs. rows_at d tn pk f = Some rs \<longrightarrow>
        distinct (map RecKey rs) \<and> (\<forall>r \<in> set rs. nameOfField (RecKey r) = f))"

lemma tidy_inv: "tidy N d \<Longrightarrow> store_inv N d"
  by (simp add: tidy_def)

lemma tidy_new [simp]: "tidy N (new_rdata root)"
  by (simp add: tidy_def rows_at_def) (simp add: new_rdata_def)

text \<open>There is room for the row of an object: its key is new, and nothing lies below it.\<close>

definition room_for :: "'a env_scheme \<Rightarrow> l8node \<Rightarrow> gval \<Rightarrow> string \<Rightarrow> string \<Rightarrow> L8OrmRData \<Rightarrow> bool" where
  "room_for E n y pk mk d \<longleftrightarrow>
     fresh (below (pk @ RecKeyOf E n (struct_of y) mk)) d \<and>
     RecKeyOf E n (struct_of y) mk \<notin> RecKey ` set (data_rows d (loc_of n pk))"

definition writes_row ::
    "l8node list \<Rightarrow> 'a env_scheme \<Rightarrow> action \<Rightarrow> l8node \<Rightarrow> gval \<Rightarrow> string \<Rightarrow> string \<Rightarrow> L8OrmRData \<Rightarrow> bool" where
  "writes_row N E action n y pk mk d \<longleftrightarrow>
     (\<exists>d' row. convertTo E action (Some y) pk mk n d = Inr d' \<and> tidy N d' \<and>
        rows_at d' (TypeName n) pk (FieldName n) = Some (data_rows d (loc_of n pk) @ [row]) \<and>
        ParentKey row = pk \<and> RecKey row = RecKeyOf E n (struct_of y) mk \<and> stored_row E d' n y row)"

lemma RecKeyOf_bracketed:
  "RecKeyOf E n v mk = bracketed (FieldName n) (if primaryKeyOf E n v = [] then mk else elem_key E n v)"
  by (simp add: RecKeyOf_def bracketed_def elem_key_def Let_def)

lemma footprint_eq:
  "conf E n y \<Longrightarrow> footprint E (Some y) pk mk n =
     insert (loc_of n pk) (below (pk @ RecKeyOf E n (struct_of y) mk))"
  by (erule conf_shape) (simp add: footprint_def struct_of_def)

section \<open>Elements of one attribute, one after the other\<close>

text \<open>Elements with their keys, which the conversion of each gives its row.\<close>

definition elems_ok :: "'a env_scheme \<Rightarrow> l8node \<Rightarrow> ('w \<Rightarrow> string) \<Rightarrow> ('w \<Rightarrow> string) \<Rightarrow> ('w \<Rightarrow> gval) \<Rightarrow> 'w list \<Rightarrow> bool" where
  "elems_ok E x kf mf vf ws \<longleftrightarrow> distinct (map kf ws) \<and>
     (\<forall>w \<in> set ws. plain (kf w) \<and> conf E x (vf w) \<and> RecKeyOf E x (struct_of (vf w)) (mf w) = bracketed (FieldName x) (kf w))"

definition below_keys :: "string \<Rightarrow> string \<Rightarrow> string set \<Rightarrow> location set" where
  "below_keys key a ks = (\<Union>k \<in> ks. below (key @ bracketed a k))"

lemma below_keys_insert: "below_keys key a (insert k ks) = below (key @ bracketed a k) \<union> below_keys key a ks"
  by (simp add: below_keys_def)

lemma below_keys_disjoint:
  assumes "plain a" "plain k" "\<forall>j \<in> ks. plain j" "k \<notin> ks"
  shows "below (key @ bracketed a k) \<inter> below_keys key a ks = {}"
proof -
  have "below (key @ bracketed a k) \<inter> below (key @ bracketed a j) = {}" if "j \<in> ks" for j
    using assms that by (intro below_bracketed_disjoint) auto
  then show ?thesis by (auto simp: below_keys_def simp del: in_below)
qed

lemma loc_not_below_keys [simp]: "loc_of x key \<notin> below_keys key a ks"
  by (simp add: below_keys_def loc_of_def)

lemma convert_elements:
  fixes kf mf :: "'w \<Rightarrow> string" and vf :: "'w \<Rightarrow> gval"
  assumes inv: "orders_ok E" "plain (FieldName x)"
    and rt: "\<And>y mk d. conf E x y \<Longrightarrow> tidy N d \<Longrightarrow> room_for E x y key mk d \<Longrightarrow> writes_row N E action x y key mk d"
  shows "elems_ok E x kf mf vf ws \<Longrightarrow> tidy N d \<Longrightarrow>
    fresh (below_keys key (FieldName x) (kf ` set ws)) d \<Longrightarrow>
    \<forall>w \<in> set ws. bracketed (FieldName x) (kf w) \<notin> RecKey ` set (data_rows d (loc_of x key)) \<Longrightarrow>
    \<exists>d' rs. mfold (\<lambda>d w. convertTo E action (Some (vf w)) key (mf w) x d) d ws = Inr d' \<and> tidy N d' \<and>
      evolves (insert (loc_of x key) (below_keys key (FieldName x) (kf ` set ws))) d d' \<and>
      (ws \<noteq> [] \<longrightarrow> rows_at d' (TypeName x) key (FieldName x) = Some (data_rows d (loc_of x key) @ rs)) \<and>
      list_all2 (\<lambda>w r. ParentKey r = key \<and> RecKey r = bracketed (FieldName x) (kf w) \<and> stored_row E d' x (vf w) r) ws rs"
proof (induction ws arbitrary: d)
  case Nil
  then show ?case by (auto intro!: exI [of _ d])
next
  case (Cons w ws)
  let ?a = "FieldName x"
  let ?head = "below (key @ bracketed ?a (kf w))" and ?tail = "below_keys key ?a (kf ` set ws)"
  have w: "plain (kf w)" "conf E x (vf w)" "RecKeyOf E x (struct_of (vf w)) (mf w) = bracketed ?a (kf w)"
    and ws: "elems_ok E x kf mf vf ws" "kf w \<notin> kf ` set ws" "\<forall>k \<in> kf ` set ws. plain k"
    using Cons.prems(1) by (auto simp: elems_ok_def)
  have disj: "?head \<inter> ?tail = {}"
    using inv(2) w(1) ws(3,2) by (rule below_keys_disjoint)
  have split: "below_keys key ?a (kf ` set (w # ws)) = ?head \<union> ?tail"
    by (simp add: below_keys_insert)
  have "room_for E x (vf w) key (mf w) d"
    using Cons.prems(4) fresh_subset [OF Cons.prems(3) [unfolded split]] by (simp add: room_for_def w(3))
  from rt [OF w(2) Cons.prems(2) this] obtain d1 row where d1:
    "convertTo E action (Some (vf w)) key (mf w) x d = Inr d1" "tidy N d1"
    "rows_at d1 (TypeName x) key ?a = Some (data_rows d (loc_of x key) @ [row])"
    "ParentKey row = key" "RecKey row = bracketed ?a (kf w)" "stored_row E d1 x (vf w) row"
    by (auto simp: writes_row_def w(3))
  have ev1: "evolves (insert (loc_of x key) ?head) d d1"
    using convertTo_evolves [OF d1(1)] by (simp add: footprint_eq [OF w(2)] w(3))
  have rows1: "data_rows d1 (loc_of x key) = data_rows d (loc_of x key) @ [row]"
    using d1(3) by (simp add: data_rows_def loc_of_def)
  have "?tail \<inter> insert (loc_of x key) ?head = {}" using disj by auto
  then have "fresh ?tail d1"
    using fresh_evolves [OF fresh_subset [OF Cons.prems(3) [unfolded split]] ev1] by blast
  moreover have "\<forall>v \<in> set ws. bracketed ?a (kf v) \<notin> RecKey ` set (data_rows d1 (loc_of x key))"
    using Cons.prems(4) ws(2) by (auto simp: rows1 d1(5) bracketed_def intro: rev_image_eqI)
  ultimately obtain d' rs where
    d': "mfold (\<lambda>d w. convertTo E action (Some (vf w)) key (mf w) x d) d1 ws = Inr d'" "tidy N d'"
    "evolves (insert (loc_of x key) ?tail) d1 d'"
    "ws \<noteq> [] \<longrightarrow> rows_at d' (TypeName x) key ?a = Some (data_rows d1 (loc_of x key) @ rs)"
    "list_all2 (\<lambda>w r. ParentKey r = key \<and> RecKey r = bracketed ?a (kf w) \<and> stored_row E d' x (vf w) r) ws rs"
    using Cons.IH [OF ws(1) d1(2)] by blast
  have "rows_at d' (TypeName x) key ?a = Some (data_rows d (loc_of x key) @ row # rs)"
    using d'(1,4,5) rows1 d1(3) by (cases "ws = []") auto
  moreover have "stored_row E d' x (vf w) row"
    using disj d1(4,5) by (intro stored_row_frame [OF d1(6) d'(3)]) (auto simp: KeyForRow_def loc_of_def)
  moreover have "evolves (insert (loc_of x key) (below_keys key ?a (kf ` set (w # ws)))) d d'"
    unfolding split by (rule evolves_trans [OF evolves_mono [OF ev1] evolves_mono [OF d'(3)]]) auto
  ultimately show ?case
    using d1(1,4,5) d'(1,2,5) by (intro exI [of _ d'] exI [of _ "row # rs"]) simp
qed

end
