(* ===== verification/Convert_Main.thy ===== *)
theory Convert_Main
  imports Convert_Correct
begin

text \<open>
  The writing half of the round trip: the sub-attributes of one object and, by induction on
  its node, the object itself are stored by the conversion, in the sense of \<open>stored_row\<close>.
\<close>

lemma mfold_map: "mfold f s (map g xs) = mfold (\<lambda>s x. f s (g x)) s xs"
  by (induction xs arbitrary: s) simp_all

lemma range_loop_Nil: "m = [] \<Longrightarrow> range_loop ord m = []"
  using range_loop_in [of _ _ ord m] by (cases "range_loop ord m") auto

lemma map_fst_pairs: "map fst (map (\<lambda>(i, y). (g i, y)) es) = map g (map fst es)"
  by (induction es) auto

lemma map_snd_pairs: "map snd (map (\<lambda>(i, y). (g i, y)) es) = map snd es"
  by (induction es) auto

section \<open>The elements of a sub-attribute\<close>

lemma conf_info: "conf E n y \<Longrightarrow> infoType E (TypeName n) = Inr (TNamed KStruct (TypeName n))"
proof -
  assume c: "conf E n y"
  then obtain fs where "y = GPtr (TNamed KStruct (TypeName n)) (Some (GStruct (TypeName n) fs))"
    by (rule conf_shape)
  with c show ?thesis by (simp add: conf_struct)
qed

lemma fresh_data_rows:
  "fresh (region key (a, x)) d \<Longrightarrow> FieldName x = a \<Longrightarrow> data_rows d (loc_of x key) = []"
  by (simp add: fresh_def region_def data_rows_def loc_of_def)

lemma elems_ok_pairs:
  assumes "distinct (map fst ws)"
    and "\<And>w. w \<in> set ws \<Longrightarrow> plain (fst w) \<and> conf E x (snd w) \<and> primaryKeyOf E x (struct_of (snd w)) = []"
  shows "elems_ok E x fst fst snd ws"
  using assms by (auto simp: elems_ok_def RecKeyOf_bracketed)

text \<open>The conversion of a sub-attribute converts its elements, in some order.\<close>

lemma convert_sub_elems:
  assumes "orders_ok E" "sub_conf E (a, x) f" "map_of fs a = Some f"
  shows "\<exists>ws mf. mset ws = mset (sub_elems E x f) \<and> elems_ok E x fst mf snd ws \<and>
     (\<forall>d. convert_sub E action (GStruct tn fs) key d (a, x) =
        mfold (\<lambda>d w. convertTo E action (Some (snd w)) key (mf w) x d) d ws)"
proof -
  consider kt vt m where "IsMap x" "f = GMap kt vt m" | et l where "\<not> IsMap x" "IsSlice x" "f = GSlice et l"
    | pt s where "\<not> IsMap x" "\<not> IsSlice x" "f = GPtr pt s"
    using assms(2) by (auto simp: sub_conf_def split: if_splits gval.splits)
  then show ?thesis
  proof cases
    case 1
    define es where "es = (case m of None \<Rightarrow> [] | Some es \<Rightarrow> es)"
    have es: "distinct (gkeys es)" "\<And>e. e \<in> set es \<Longrightarrow> key_ok E kt (fst e) \<and> conf E x (snd e) \<and> primaryKeyOf E x (struct_of (snd e)) = []"
      using assms(2) 1 by (auto simp: sub_conf_def es_def gkeys_def split: option.splits)
    define os where "os = range_loop (krng E (''convertTo:keys'', key @ a)) es"
    have os: "set os = set es" "distinct (map fst os)" "mset os = mset es"
      unfolding os_def using set_range_loop [OF orders_okD(2) [OF assms(1)] es(1)]
        distinct_range_loop [OF orders_okD(2) [OF assms(1)] es(1)]
        mset_range_loop [OF orders_okD(2) [OF assms(1)] es(1)] by simp_all
    define ws where "ws = map (\<lambda>(k, y). (toStrTyped E k, y)) os"
    have "inj_on (toStrTyped E) (set (map fst os))"
      by (rule inj_onI) (use es(2) os(1) in \<open>auto simp: key_ok_def\<close>, metis sum.inject(2))
    then have "distinct (map fst ws)"
      unfolding ws_def map_fst_pairs using os(2) by (subst distinct_map) simp
    then have "elems_ok E x fst fst snd ws"
      by (rule elems_ok_pairs) (use es(2) os(1) in \<open>auto simp: ws_def key_ok_def\<close>)
    moreover have "mset ws = mset (sub_elems E x f)"
      using os(3) 1(2) by (cases m) (simp_all add: ws_def sub_elems_def es_def)
    moreover have "convert_sub E action (GStruct tn fs) key d (a, x) =
        mfold (\<lambda>d w. convertTo E action (Some (snd w)) key (fst w) x d) d ws" for d
      using 1 assms(3) by (cases m)
        (simp_all add: convert_sub_def ws_def os_def es_def mfold_map case_prod_beta')
    ultimately show ?thesis by blast
  next
    case 2
    define xs where "xs = (case l of None \<Rightarrow> [] | Some xs \<Rightarrow> xs)"
    have xs: "\<And>e. e \<in> set xs \<Longrightarrow> conf E x e \<and> primaryKeyOf E x (struct_of e) = []"
      using assms(2) 2 by (auto simp: sub_conf_def xs_def split: option.splits)
    define ws where "ws = map (\<lambda>(i, y). (nat_str i, y)) (List.enumerate 0 xs)"
    have "distinct (map fst ws)"
      unfolding ws_def map_fst_pairs by (auto simp: distinct_map inj_on_def dest: nat_str_inj)
    then have "elems_ok E x fst fst snd ws"
      by (rule elems_ok_pairs) (use xs in \<open>auto simp: ws_def in_set_enumerate_eq\<close>)
    moreover have "mset ws = mset (sub_elems E x f)"
      using 2(3) by (cases l) (simp_all add: ws_def sub_elems_def xs_def)
    moreover have "convert_sub E action (GStruct tn fs) key d (a, x) =
        mfold (\<lambda>d w. convertTo E action (Some (snd w)) key (fst w) x d) d ws" for d
      using 2 assms(3) by (cases l)
        (simp_all add: convert_sub_def ws_def xs_def mfold_map case_prod_beta')
    ultimately show ?thesis by blast
  next
    case 3
    let ?ws = "sub_elems E x f"
    have "elems_ok E x fst (\<lambda>w. []) snd ?ws"
      using assms(2) 3 by (cases s)
        (auto simp: elems_ok_def sub_elems_def sub_conf_def RecKeyOf_bracketed elem_key_def struct_of_def)
    moreover have "convert_sub E action (GStruct tn fs) key d (a, x) =
        mfold (\<lambda>d w. convertTo E action (Some (snd w)) key [] x d) d ?ws" for d
    proof (cases s)
      case None
      with 3 assms(3) show ?thesis by (simp add: convert_sub_def sub_elems_def convertTo_unfold)
    next
      case (Some v)
      with 3 assms(3) show ?thesis
        by (cases "convertTo E action (Some f) key [] x d") (simp_all add: convert_sub_def sub_elems_def)
    qed
    ultimately show ?thesis by blast
  qed
qed

lemma sub_elems_ok:
  assumes "orders_ok E" "sub_conf E (a, x) f"
  shows "distinct (map fst (sub_elems E x f))"
    and "w \<in> set (sub_elems E x f) \<Longrightarrow> plain (fst w) \<and> conf E x (snd w)"
proof -
  obtain ws mf where ws: "mset ws = mset (sub_elems E x f)" "elems_ok E x fst mf snd ws"
    using convert_sub_elems [OF assms, of "[(a, f)]" POST "[]" "[]"] by auto
  have "mset (map fst ws) = mset (map fst (sub_elems E x f))" using ws(1) by simp
  then show "distinct (map fst (sub_elems E x f))"
    using ws(2) mset_eq_imp_distinct_iff unfolding elems_ok_def by blast
  show "plain (fst w) \<and> conf E x (snd w)" if "w \<in> set (sub_elems E x f)"
    using that ws(2) mset_eq_setD [OF ws(1)] unfolding elems_ok_def by blast
qed

lemma below_keys_region:
  assumes "FieldName x = a" "\<forall>k \<in> ks. plain k"
  shows "insert (loc_of x key) (below_keys key a ks) \<subseteq> region key (a, x)"
  using assms below_subset_region [of _ key "(a, x)"]
  by (fastforce simp: below_keys_def region_def loc_of_def)

definition sub_stored :: "'a env_scheme \<Rightarrow> L8OrmRData \<Rightarrow> string \<Rightarrow> string \<times> l8node \<Rightarrow> gval \<Rightarrow> bool" where
  "sub_stored E d key p f \<longleftrightarrow> stored_elems (stored_row E d) d key (snd p) (sub_elems E (snd p) f)"

text \<open>Converting one sub-attribute stores its elements in its own region.\<close>

lemma convert_sub_stored:
  assumes inv: "orders_ok E" "FieldName x = a" "plain a"
    and rt: "\<And>y mk d. conf E x y \<Longrightarrow> tidy N d \<Longrightarrow> room_for E x y key mk d \<Longrightarrow> writes_row N E action x y key mk d"
    and f: "sub_conf E (a, x) f" "map_of fs a = Some f"
    and d: "tidy N d" "fresh (region key (a, x)) d"
  shows "\<exists>d'. convert_sub E action (GStruct tn fs) key d (a, x) = Inr d' \<and> tidy N d' \<and>
     evolves (region key (a, x)) d d' \<and> sub_stored E d' key (a, x) f"
proof -
  obtain ws mf where ws: "mset ws = mset (sub_elems E x f)" "elems_ok E x fst mf snd ws"
    "convert_sub E action (GStruct tn fs) key d (a, x) =
       mfold (\<lambda>d w. convertTo E action (Some (snd w)) key (mf w) x d) d ws"
    using convert_sub_elems [OF inv(1) f] by blast
  have plain: "\<forall>k \<in> fst ` set ws. plain k" using ws(2) by (auto simp: elems_ok_def)
  note reg = below_keys_region [OF inv(2) plain, of key]
  have none: "data_rows d (loc_of x key) = []" using d(2) inv(2) by (rule fresh_data_rows)
  obtain d' rs where d': "mfold (\<lambda>d w. convertTo E action (Some (snd w)) key (mf w) x d) d ws = Inr d'" "tidy N d'"
    "evolves (insert (loc_of x key) (below_keys key a (fst ` set ws))) d d'"
    "ws \<noteq> [] \<longrightarrow> rows_at d' (TypeName x) key a = Some rs"
    "list_all2 (\<lambda>w r. ParentKey r = key \<and> RecKey r = bracketed a (fst w) \<and> stored_row E d' x (snd w) r) ws rs"
    using convert_elements [OF inv(1) _ rt ws(2) d(1)] fresh_subset [OF d(2)] reg none inv(2,3) by auto
  obtain rs' where rs': "mset rs' = mset rs"
    "list_all2 (\<lambda>w r. ParentKey r = key \<and> RecKey r = bracketed a (fst w) \<and> stored_row E d' x (snd w) r) (sub_elems E x f) rs'"
    using list_all2_reorder_left_invariance [OF d'(5) ws(1) [symmetric]] by blast
  have "sub_stored E d' key (a, x) f"
  proof (cases "ws = []")
    case True
    then have "sub_elems E x f = []" "d' = d" using ws(1) d'(1) by simp_all
    moreover have "rows_at d (TypeName x) key a = None"
      using d(2) by (simp add: fresh_def region_def)
    ultimately show ?thesis by (simp add: sub_stored_def stored_elems_def inv(2))
  next
    case False
    then have "sub_elems E x f \<noteq> []" using ws(1) by auto
    with False d'(4) rs' show ?thesis by (auto simp: sub_stored_def stored_elems_def inv(2))
  qed
  with d'(1-3) ws(3) show ?thesis using evolves_mono [OF d'(3) reg] by auto
qed

lemma sub_stored_frame:
  assumes "sub_stored E d key p f" "evolves S d d'" "S \<inter> region key p = {}" "FieldName (snd p) = fst p"
    and "\<forall>w \<in> set (sub_elems E (snd p) f). plain (fst w)"
  shows "sub_stored E d' key p f"
  unfolding sub_stored_def
proof (rule stored_elems_transfer [OF assms(1) [unfolded sub_stored_def]])
  show "rows_at d' (TypeName (snd p)) key (FieldName (snd p)) = rows_at d (TypeName (snd p)) key (FieldName (snd p))"
    using assms(3,4) by (intro evolves_rows [OF assms(2)]) (auto simp: region_def)
next
  fix w r assume w: "w \<in> set (sub_elems E (snd p) f)" "KeyForRow r = key @ bracketed (FieldName (snd p)) (fst w)"
    "stored_row E d (snd p) (snd w) r"
  then have "below (KeyForRow r) \<subseteq> region key p"
    using below_subset_region assms(4,5) by metis
  with assms(3) show "stored_row E d' (snd p) (snd w) r"
    by (intro stored_row_frame [OF w(3) assms(2)]) blast
qed

section \<open>All sub-attributes of an object\<close>

lemma distinct_fst_ConsD: "distinct (map fst (p # ps)) \<Longrightarrow> q \<in> set ps \<Longrightarrow> fst q \<noteq> fst p"
  by (metis distinct.simps(2) image_eqI list.simps(9) set_map)

definition sub_ready :: "'a env_scheme \<Rightarrow> (string \<times> gval) list \<Rightarrow> string \<times> l8node \<Rightarrow> bool" where
  "sub_ready E fs p \<longleftrightarrow> FieldName (snd p) = fst p \<and> plain (fst p) \<and>
     (\<exists>f. map_of fs (fst p) = Some f \<and> sub_conf E p f)"

lemma convert_subs_stored:
  assumes inv: "orders_ok E"
    and rt: "\<And>p y mk d. p \<in> set ps \<Longrightarrow> conf E (snd p) y \<Longrightarrow> tidy N d \<Longrightarrow> room_for E (snd p) y key mk d \<Longrightarrow>
        writes_row N E action (snd p) y key mk d"
    and ps: "\<forall>p \<in> set ps. sub_ready E fs p" "distinct (map fst ps)"
    and d: "tidy N d" "fresh (\<Union>p \<in> set ps. region key p) d"
  shows "\<exists>d'. mfold (convert_sub E action (GStruct tn fs) key) d ps = Inr d' \<and>
     tidy N d' \<and> evolves (\<Union>p \<in> set ps. region key p) d d' \<and>
     (\<forall>p \<in> set ps. sub_stored E d' key p (the (map_of fs (fst p))))"
  using rt ps d
proof (induction ps arbitrary: d)
  case Nil
  then show ?case by auto
next
  case (Cons p ps)
  let ?rest = "\<Union>p \<in> set ps. region key p"
  obtain a x where p: "p = (a, x)" by (cases p)
  obtain f where f: "FieldName x = a" "plain a" "map_of fs a = Some f" "sub_conf E (a, x) f"
    using Cons.prems(2) p by (auto simp: sub_ready_def)
  have fr: "fresh (region key (a, x)) d" using fresh_subset [OF Cons.prems(5)] p by simp
  have "\<exists>d1. convert_sub E action (GStruct tn fs) key d (a, x) = Inr d1 \<and> tidy N d1 \<and>
      evolves (region key (a, x)) d d1 \<and> sub_stored E d1 key (a, x) f"
    by (rule convert_sub_stored [OF inv f(1,2) _ f(4,3) Cons.prems(4) fr]) (use Cons.prems(1) [of p] p in simp)
  then obtain d1 where d1: "convert_sub E action (GStruct tn fs) key d p = Inr d1" "tidy N d1"
    "evolves (region key p) d d1" "sub_stored E d1 key p f" unfolding p by blast
  have disj: "region key p \<inter> ?rest = {}"
  proof -
    have "region key p \<inter> region key q = {}" if "q \<in> set ps" for q
      using Cons.prems(2) that f(2) p distinct_fst_ConsD [OF Cons.prems(3) that]
      by (intro region_disjoint) (auto simp: sub_ready_def)
    then show ?thesis by blast
  qed
  have "fresh ?rest d" using Cons.prems(5) by (rule fresh_subset) auto
  then have fr1: "fresh ?rest d1" by (rule fresh_evolves [OF _ d1(3)]) (use disj in blast)
  have "\<exists>d'. mfold (convert_sub E action (GStruct tn fs) key) d1 ps = Inr d' \<and> tidy N d' \<and>
      evolves ?rest d1 d' \<and> (\<forall>p \<in> set ps. sub_stored E d' key p (the (map_of fs (fst p))))"
    using Cons.prems(2,3) by (intro Cons.IH [OF _ _ _ d1(2) fr1] Cons.prems(1)) simp_all
  then obtain d' where
    d': "mfold (convert_sub E action (GStruct tn fs) key) d1 ps = Inr d'" "tidy N d'"
    "evolves ?rest d1 d'" "\<forall>p \<in> set ps. sub_stored E d' key p (the (map_of fs (fst p)))"
    by blast
  have "sub_stored E d' key p f"
  proof (rule sub_stored_frame [OF d1(4) d'(3)])
    show "?rest \<inter> region key p = {}" using disj by blast
    show "\<forall>w \<in> set (sub_elems E (snd p) f). plain (fst w)" using sub_elems_ok(2) [OF inv f(4)] p by simp
  qed (simp add: p f(1))
  moreover have "evolves (\<Union>q \<in> set (p # ps). region key q) d d'"
    by (rule evolves_trans [OF evolves_mono [OF d1(3)] evolves_mono [OF d'(3)]]) auto
  ultimately show ?case using d1(1) d'(1,2,4) f(3) p by simp
qed

section \<open>One object\<close>

lemma conf_attrs:
  assumes "conf E n (GPtr t (Some (GStruct tn fs)))" "p \<in> set (Attributes n)"
  shows "attr_fields_ok E fs p" "sub_attr p \<Longrightarrow> \<exists>f. map_of fs (fst p) = Some f \<and> sub_conf E p f"
  using assms by (auto simp: conf_struct attr_fields_ok_def attr_defs split: option.splits if_splits)

lemma tidy_open_table:
  assumes "orders_ok E" "wf_tree root" "n \<in> set (nodes_of root)" "tidy (nodes_of root) d"
  shows "tidy (nodes_of root) (open_table E n pk d)"
  using assms(4) store_inv_open_table [OF assms(1-3)]
  by (auto simp: tidy_def rows_at_open_table data_rows_def loc_of_def split: if_splits option.splits)

lemma tidy_append_row:
  assumes "tidy N d" "rows_at d (TypeName n) pk (FieldName n) = Some rs"
    and "ParentKey r = pk" "nameOfField (RecKey r) = FieldName n" "RecKey r \<notin> RecKey ` set rs"
  shows "tidy N (append_row n pk r d)"
  using assms(1,4,5) store_inv_append_row [OF tidy_inv [OF assms(1)] assms(3,2)] assms(2)
  by (auto simp: tidy_def rows_at_append_row [OF assms(2)] loc_of_def split: if_splits)

text \<open>The first loop fills the row with the scalars.\<close>

lemma convert_attrs_row:
  assumes inv: "orders_ok E" "action \<noteq> PATCH" "wf_node n"
    and c: "columns_at d (TypeName n) = Some c" "good_columns n c"
    and conf: "conf E n (GPtr t (Some (GStruct tn fs)))"
  shows "\<exists>row'. mfold (convert_attr E action (GStruct tn fs) n) (d, row)
       (range_loop (rng E tag) (Attributes n)) = Inr (d, row') \<and>
     ParentKey row' = ParentKey row \<and> RecKey row' = RecKey row \<and>
     (\<forall>p \<in> set (Attributes n). scalar_attr p \<longrightarrow> map_of c (fst p) \<noteq> None \<and>
        map_of (ColumnValues row') (col_of c (fst p)) = Some (bytes_of E (the (map_of fs (fst p)))))"
proof -
  let ?as = "range_loop (rng E tag) (Attributes n)"
  have dist: "distinct (gkeys (Attributes n))" using inv(3) by (simp add: wf_node_def)
  have as: "set ?as = set (Attributes n)" "distinct (map fst ?as)"
    using set_range_loop [OF orders_okD(1) [OF inv(1)] dist] distinct_range_loop [OF orders_okD(1) [OF inv(1)] dist]
    by blast+
  have names: "fst ` {p \<in> set ?as. scalar_attr p} = set (scalar_names n)"
    by (auto simp: as(1) scalar_names_def)
  have has: "map_of c (fst p) \<noteq> None" if "p \<in> set (Attributes n)" "scalar_attr p" for p
    using c(2) that by (force simp: good_columns_def scalar_names_def)
  have inj: "inj_on (map_of c) (fst ` {p \<in> set ?as. scalar_attr p})"
    using c(2) unfolding names by (simp add: good_columns_def)
  have "\<forall>p \<in> set ?as. attr_fields_ok E fs p" "\<forall>p \<in> set ?as. scalar_attr p \<longrightarrow> map_of c (fst p) \<noteq> None"
    using conf_attrs(1) [OF conf] has by (simp_all add: as(1))
  from convert_attrs_written [OF c(1) inv(2) this inj as(2), of tn row] obtain row' where
    row': "mfold (convert_attr E action (GStruct tn fs) n) (d, row) ?as = Inr (d, row')"
      "ParentKey row' = ParentKey row" "RecKey row' = RecKey row"
      "\<forall>p \<in> set ?as. scalar_attr p \<longrightarrow>
         map_of (ColumnValues row') (col_of c (fst p)) = Some (bytes_of E (the (map_of fs (fst p))))"
    by blast
  with has show ?thesis by (intro exI [of _ row']) (simp add: as(1))
qed

lemma convertTo_writes_row:
  assumes inv: "orders_ok E" "wf_tree root" "action \<noteq> PATCH"
  shows "n \<in> set (nodes_of root) \<Longrightarrow> plain (FieldName n) \<Longrightarrow> conf E n y \<Longrightarrow> tidy (nodes_of root) d \<Longrightarrow>
     room_for E n y pk mk d \<Longrightarrow> writes_row (nodes_of root) E action n y pk mk d"
proof (induction n arbitrary: y pk mk d rule: measure_induct_rule [where f = size])
  case (less n)
  let ?N = "nodes_of root"
  obtain t tn fs where y: "y = GPtr t (Some (GStruct tn fs))" "tn = TypeName n"
    using less.prems(3) by (metis conf_shape)
  let ?v = "GStruct tn fs" and ?d0 = "open_table E n pk d"
  let ?ss = "range_loop (rng E (''convertTo:subTables'', pk @ mk)) (filter sub_attr (Attributes n))"
  let ?key = "pk @ RecKeyOf E n ?v mk"
  have wf: "wf_node n" using inv(2) less.prems(1) by (simp add: wf_tree_def)
  obtain c where c: "columns_at ?d0 (TypeName n) = Some c" using columns_at_open_own by blast
  have tidy0: "tidy ?N ?d0" using inv(1,2) less.prems(1,4) by (rule tidy_open_table)
  have good: "good_columns n c" using tidy_inv [OF tidy0] less.prems(1) c by (rule store_inv_columns)
  obtain row where row: "mfold (convert_attr E action ?v n) (?d0, start_row E n ?v pk mk)
       (range_loop (rng E (''convertTo:attributes'', pk @ mk)) (Attributes n)) = Inr (?d0, row)"
    "ParentKey row = pk" "RecKey row = RecKeyOf E n ?v mk"
    "\<forall>p \<in> set (Attributes n). scalar_attr p \<longrightarrow> map_of c (fst p) \<noteq> None \<and>
        map_of (ColumnValues row) (col_of c (fst p)) = Some (bytes_of E (the (map_of fs (fst p))))"
    using convert_attrs_row [OF inv(1,3) wf c good less.prems(3) [unfolded y(1)]]
    by (metis L8OrmRow.select_convs(1,2) start_row_def)
  have key: "KeyForRow row = ?key" "\<not> prefix ?key pk"
    using row(2,3) by (auto simp: KeyForRow_def RecKeyOf_bracketed prefix_def)
  have room: "fresh (below ?key) d" "RecKey row \<notin> RecKey ` set (data_rows d (loc_of n pk))"
    using less.prems(5) row(3) by (auto simp: room_for_def y(1) struct_of_def)
  have off: "loc_of n pk \<notin> below ?key" using key(2) by (simp add: loc_of_def)
  have fresh0: "fresh (below ?key) ?d0"
    by (rule fresh_evolves [OF room(1) evolves_open_table]) (use off in blast)
  have reg: "(\<Union>p \<in> set ?ss. region ?key p) \<subseteq> below ?key" using region_below by blast
  have dist: "distinct (gkeys (filter sub_attr (Attributes n)))"
    using wf by (simp add: wf_node_def gkeys_def distinct_map_filter)
  have ss: "set ?ss = {p \<in> set (Attributes n). sub_attr p}" "distinct (map fst ?ss)"
    using set_range_loop [OF orders_okD(1) [OF inv(1)] dist] distinct_range_loop [OF orders_okD(1) [OF inv(1)] dist]
    by auto
  have ready: "\<forall>p \<in> set ?ss. sub_ready E fs p"
    using conf_attrs(2) [OF less.prems(3) [unfolded y(1)]] wf by (auto simp: ss(1) sub_ready_def wf_node_def)
  have "writes_row ?N E action (snd p) y' ?key mk' d'"
    if "p \<in> set ?ss" "conf E (snd p) y'" "tidy ?N d'" "room_for E (snd p) y' ?key mk' d'" for p y' mk' d'
  proof -
    have p: "(fst p, snd p) \<in> set (Attributes n)" "sub_attr (fst p, snd p)" using that(1) by (simp_all add: ss(1))
    moreover have "plain (FieldName (snd p))" using that(1) ready by (auto simp: sub_ready_def)
    ultimately show ?thesis
      using that(2-4) nodes_of_closed [OF less.prems(1)] by (intro less.IH size_Attributes) blast+
  qed
  from convert_subs_stored [OF inv(1) this ready ss(2) tidy0 fresh_subset [OF fresh0 reg], of tn]
  obtain d2 where d2: "mfold (convert_sub E action ?v ?key) ?d0 ?ss = Inr d2" "tidy ?N d2"
    "evolves (\<Union>p \<in> set ?ss. region ?key p) ?d0 d2"
    "\<forall>p \<in> set ?ss. sub_stored E d2 ?key p (the (map_of fs (fst p)))" by blast
  let ?d' = "append_row n pk row d2"
  have "rows_at d2 (TypeName n) pk (FieldName n) = rows_at ?d0 (TypeName n) pk (FieldName n)"
    using off reg by (intro evolves_rows [OF d2(3)]) (auto simp: loc_of_def)
  then have rows2: "rows_at d2 (TypeName n) pk (FieldName n) = Some (data_rows d (loc_of n pk))"
    by (simp add: rows_at_open_table loc_of_def)
  have "convertTo E action (Some y) pk mk n d = Inr ?d'"
    using row(1) d2(1) key(1) y(1) by (simp add: convertTo_unfold)
  moreover have "tidy ?N ?d'"
    using room(2) less.prems(2) row(2,3)
    by (intro tidy_append_row [OF d2(2) rows2]) (simp_all add: RecKeyOf_bracketed nameOfField_bracketed plain_def)
  moreover have "rows_at ?d' (TypeName n) pk (FieldName n) = Some (data_rows d (loc_of n pk) @ [row])"
    by (simp add: rows_at_append_row [OF rows2] loc_of_def)
  moreover have "stored_row E ?d' n y row"
    unfolding y(1)
  proof (rule stored_row.intros [OF _ row(4)], simp_all only: sub_stored_def [symmetric] key(1))
    show "columns_at ?d' (TypeName n) = Some c" using evolves_columns [OF d2(3) c] by simp
    show "\<forall>p \<in> set (Attributes n). sub_attr p \<longrightarrow> sub_stored E ?d' ?key p (the (map_of fs (fst p)))"
    proof (intro ballI impI)
      fix p assume "p \<in> set (Attributes n)" "sub_attr p"
      then have p: "p \<in> set ?ss" unfolding ss(1) by blast
      with ready obtain f where "map_of fs (fst p) = Some f" "sub_conf E p f" "FieldName (snd p) = fst p"
        by (auto simp: sub_ready_def)
      moreover have "{loc_of n pk} \<inter> region ?key p = {}" using off region_below by blast
      ultimately show "sub_stored E ?d' ?key p (the (map_of fs (fst p)))"
        using d2(4) p sub_elems_ok(2) [OF inv(1), of "fst p" "snd p" f]
        by (intro sub_stored_frame [OF _ evolves_append_row]) auto
    qed
  qed
  ultimately show ?case using row(2,3) by (auto simp: writes_row_def y(1) struct_of_def)
qed

end
