(* ===== verification/Convert_Read.thy ===== *)
theory Convert_Read
  imports Convert_Main
begin

text \<open>
  The reading half of the round trip: an object stored in relational data, by a conversion
  or in any other way, is read back from its row up to the order of the entries of maps.
\<close>

section \<open>Reading the rows of one place\<close>

definition rt_row :: "'a env_scheme \<Rightarrow> L8OrmRData \<Rightarrow> l8node \<Rightarrow> gval \<Rightarrow> L8OrmRow \<Rightarrow> bool" where
  "rt_row E d n y row \<longleftrightarrow>
     (\<exists>y'. convert_row E n (columns_at d (TypeName n)) d row = Inr y' \<and> sim n y y')"

text \<open>The objects read from rows, \<open>g\<close> of each.\<close>

lemma read_rows_fun:
  assumes "\<forall>r \<in> set rs. convert_row E x cols d r = Inr (g r)" "distinct (map RecKey rs)"
  shows "read_rows E x cols d rs = Inr (map (\<lambda>r. (RecKey r, g r)) rs, map g rs)"
proof -
  have "list_all2 (\<lambda>row y. convert_row E x cols d row = Inr y) rs (map g rs)"
    using assms(1) by (simp add: list_all2_map2 list_all2_same)
  from read_rows_ok [OF this assms(2)] show ?thesis
    by (simp add: zip_map_map zip_same_conv_map)
qed

text \<open>Rows of elements in any order: the objects read from them, in the order of the elements.\<close>

lemma read_elements:
  assumes el: "list_all2 (\<lambda>w r. ParentKey r = key \<and> RecKey r = bracketed a (fst w) \<and> rt_row E d x (snd w) r) es rs"
    and "distinct (map fst es)" "mset rs' = mset rs"
  obtains g where "list_all2 (\<lambda>w y. sim x (snd w) y) es (map g rs)"
    and "read_rows E x (columns_at d (TypeName x)) d rs' = Inr (map (\<lambda>r. (RecKey r, g r)) rs', map g rs')"
    and "mset (map (\<lambda>r. (RecKey r, g r)) rs') = mset (zip (map (\<lambda>w. bracketed a (fst w)) es) (map g rs))"
proof -
  define g where "g = (\<lambda>r. projr (convert_row E x (columns_at d (TypeName x)) d r))"
  have row: "convert_row E x (columns_at d (TypeName x)) d r = Inr (g r) \<and> sim x y (g r)" if "rt_row E d x y r" for y r
    using that by (auto simp: rt_row_def g_def)
  have keys: "map RecKey rs = map (\<lambda>w. bracketed a (fst w)) es"
    using el by (induction rule: list_all2_induct) simp_all
  have "distinct (map (\<lambda>w. bracketed a (fst w)) es)"
    using assms(2) by (auto simp: distinct_map inj_on_def bracketed_def)
  then have "distinct (map RecKey rs')"
    unfolding keys [symmetric] using assms(3) by (metis mset_eq_imp_distinct_iff mset_map)
  moreover have "\<forall>r \<in> set rs. convert_row E x (columns_at d (TypeName x)) d r = Inr (g r)"
    using el row by (fastforce simp: list_all2_conv_all_nth in_set_conv_nth)
  ultimately have "read_rows E x (columns_at d (TypeName x)) d rs' = Inr (map (\<lambda>r. (RecKey r, g r)) rs', map g rs')"
    using mset_eq_setD [OF assms(3)] by (intro read_rows_fun) auto
  moreover have "list_all2 (\<lambda>w y. sim x (snd w) y) es (map g rs)"
    unfolding list_all2_map2 using el by (rule list_all2_mono) (simp add: row)
  moreover have "mset (map (\<lambda>r. (RecKey r, g r)) rs') = mset (zip (map (\<lambda>w. bracketed a (fst w)) es) (map g rs))"
    unfolding keys [symmetric] using assms(3) by (simp add: zip_map_map zip_same_conv_map comp_def)
  ultimately show ?thesis by (intro that)
qed

lemma sim_shape:
  assumes "conf E n y" "sim n y y'"
  obtains u where "y' = GPtr (TNamed KStruct (TypeName n)) (Some u)"
proof -
  obtain fs where y: "y = GPtr (TNamed KStruct (TypeName n)) (Some (GStruct (TypeName n) fs))"
    using assms(1) by (rule conf_shape)
  with assms(2) obtain t u where "y' = GPtr t (Some u)"
    by (subst (asm) sim.simps) (auto split: gval.splits option.splits)
  with sim_type [OF assms] show ?thesis by (intro that [of u]) simp
qed

lemma sims_types:
  "list_all2 (\<lambda>w y. sim x (snd w) y) ws ys \<Longrightarrow> \<forall>w \<in> set ws. conf E x (snd w) \<Longrightarrow>
     \<forall>y \<in> set ys. type_of y = TPtr (TNamed KStruct (TypeName x))"
  by (induction rule: list_all2_induct) (auto intro: sim_type)

section \<open>Rebuilding one field\<close>

definition reads_back ::
    "'a env_scheme \<Rightarrow> string \<times> l8node \<Rightarrow> string \<Rightarrow> gval \<Rightarrow> L8OrmRData \<Rightarrow> bool" where
  "reads_back E p key f d \<longleftrightarrow>
     (\<exists>f'. field_sim p f f' \<and> type_of f' = type_of f \<and>
        (\<forall>tn gs z. map_of gs (fst p) = Some z \<longrightarrow> nil_value z \<longrightarrow> type_of z = type_of f \<longrightarrow>
           read_sub E key d (GStruct tn gs) p = Inr (GStruct tn (set_assoc (fst p) f' gs))))"

lemma set_assoc_same: "map_of gs a = Some z \<Longrightarrow> set_assoc a z gs = gs"
  by (induction gs) (auto split: if_splits)

lemma reads_back_nil:
  assumes "nil_value f" "rows_at d (TypeName (snd p)) key (FieldName (snd p)) = None"
  shows "reads_back E p key f d"
  unfolding reads_back_def
proof (intro exI [of _ f] conjI allI impI)
  show "field_sim p f f" using assms(1) by (rule field_sim_nil)
next
  fix tn gs z assume z: "map_of gs (fst p) = Some z" "nil_value z" "type_of z = type_of f"
  with assms(1) have "z = f" by (intro nil_value_type_eq)
  with assms(2) z show "read_sub E key d (GStruct tn gs) p = Inr (GStruct tn (set_assoc (fst p) f gs))"
    by (cases p) (simp add: read_sub_def convertFrom_unfold SetValueFromSubTable_def set_assoc_same)
qed simp

text \<open>A slice or a map that was rebuilt is set in the field.\<close>

lemma reads_back_value:
  assumes "convertFrom E x key d = Inr (CVal f')" "field_sim (a, x) f f'" "type_of f' = type_of f"
    and "kind_of (Some f) = KMap \<or> kind_of (Some f) = KSlice"
  shows "reads_back E (a, x) key f d"
  unfolding reads_back_def
proof (intro exI [of _ f'] conjI allI impI assms(2,3))
  fix tn gs z assume z: "map_of gs (fst (a, x)) = Some z" "nil_value z" "type_of z = type_of f"
  then have "set_field a f' (GStruct tn gs) = Inr (GStruct tn (set_assoc a f' gs))"
    using assms(3) by (intro set_field_ok [of gs a z]) simp_all
  with assms(1,4) z assms(3) [symmetric] show "read_sub E key d (GStruct tn gs) (a, x) =
      Inr (GStruct tn (set_assoc (fst (a, x)) f' gs))"
    by (cases f') (auto simp: read_sub_def SetValueFromSubTable_def)
qed

lemma finish_slice:
  assumes inv: "orders_ok E" "infoType E (TypeName x) = Inr t" "t = TNamed KStruct (TypeName x)"
    and a: "sub_attr (a, x)" "IsSlice x"
    and f: "sub_elems E x (GSlice (TPtr t) (Some l)) = es" "length l < 2 ^ 63" "\<forall>w \<in> set es. conf E x (snd w)"
    and ys: "list_all2 (\<lambda>w y. sim x (snd w) y) es ys"
      "mset m = mset (zip (map (\<lambda>w. bracketed a (fst w)) es) ys)"
  shows "\<exists>f'. finish_rows E x key (m, zs) = Inr (CVal f') \<and>
     field_sim (a, x) (GSlice (TPtr t) (Some l)) f' \<and> type_of f' = TSlice (TPtr t)"
proof -
  have es: "es = map (\<lambda>(i, y). (nat_str i, y)) (List.enumerate 0 l)" using f(1) by (simp add: sub_elems_def)
  have len: "length ys = length l" using list_all2_lengthD [OF ys(1)] by (simp add: es)
  have keys: "map (\<lambda>w. bracketed a (fst w)) es = map (\<lambda>i. bracketed a (nat_str i)) [0..<length ys]"
    unfolding es len by (simp add: comp_def case_prod_beta' flip: map_map [of _ fst, unfolded comp_def])
  have vals: "map snd es = l" unfolding es map_snd_pairs by simp
  have "\<forall>y \<in> set ys. type_of y = TPtr t"
    unfolding inv(3) using ys(1) f(3) by (intro sims_types [where E = E]) auto
  from convertRowsToSlice_ok [OF inv(1,2) _ this ys(2) [unfolded keys]] len f(2)
  have "convertRowsToSlice E m x = Inr (GSlice (TPtr t) (Some ys))" by simp
  moreover have "list_all2 (sim x) l ys"
    using ys(1) unfolding vals [symmetric] by (simp add: list_all2_map1)
  then have "field_sim (a, x) (GSlice (TPtr t) (Some l)) (GSlice (TPtr t) (Some ys))"
    using len a(1) by (auto simp: field_sim_def list_all2_iff)
  ultimately show ?thesis
    using a(2) by (intro exI [of _ "GSlice (TPtr t) (Some ys)"]) (simp add: finish_rows_def)
qed

lemma finish_map:
  assumes inv: "orders_ok E" "infoType E (TypeName x) = Inr t" "t = TNamed KStruct (TypeName x)"
    "infoType E (KeyTypeName x) = Inr kt"
    and a: "sub_attr (a, x)" "IsMap x" "\<not> IsSlice x"
    and f: "sub_elems E x (GMap kt (TPtr t) (Some l)) = es" "distinct (gkeys l)"
      "\<forall>e \<in> set l. key_ok E kt (fst e) \<and> conf E x (snd e)"
    and ys: "list_all2 (\<lambda>w y. sim x (snd w) y) es ys"
      "mset m = mset (zip (map (\<lambda>w. bracketed a (fst w)) es) ys)"
  shows "\<exists>f'. finish_rows E x key (m, zs) = Inr (CVal f') \<and>
     field_sim (a, x) (GMap kt (TPtr t) (Some l)) f' \<and> type_of f' = TMap kt (TPtr t)"
proof -
  have es: "es = map (\<lambda>(k, y). (toStrTyped E k, y)) l" using f(1) by (simp add: sub_elems_def)
  have len: "length ys = length (map fst l)" using list_all2_lengthD [OF ys(1)] by (simp add: es)
  have keys: "map (\<lambda>w. bracketed a (fst w)) es = map (\<lambda>k. bracketed a (toStrTyped E k)) (map fst l)"
    by (simp add: es case_prod_beta')
  have d: "distinct (map fst l)" "\<forall>k \<in> set (map fst l). key_ok E kt k"
    using f(2,3) by (auto simp: gkeys_def)
  have "\<forall>y \<in> set ys. type_of y = TPtr t"
    unfolding inv(3) using ys(1) f(3) by (intro sims_types [where E = E]) (fastforce simp: es)+
  from convertRowsToMap_ok [OF inv(1,2,4) len d this ys(2) [unfolded keys]] obtain m' where
    m': "convertRowsToMap E m x = Inr (GMap kt (TPtr t) (Some m'))"
    "distinct (gkeys m')" "length m' = length (map fst l)" "map_of m' = map_of (zip (map fst l) ys)"
    by blast
  have "\<exists>y'. map_of m' (fst e) = Some y' \<and> sim x (snd e) y'" if e: "e \<in> set l" for e
  proof -
    obtain i where i: "i < length l" "l ! i = e" using e by (auto simp: in_set_conv_nth)
    then have "map_of m' (fst e) = Some (ys ! i)"
      using map_of_zip_nth [of "map fst l" ys i] len d(1) by (simp add: m'(4))
    moreover have "sim x (snd e) (ys ! i)"
      using ys(1) i by (auto simp: list_all2_conv_all_nth es case_prod_beta)
    ultimately show ?thesis by blast
  qed
  then have "field_sim (a, x) (GMap kt (TPtr t) (Some l)) (GMap kt (TPtr t) (Some m'))"
    using m'(2,3) a(1) by (fastforce simp: field_sim_def)
  with m'(1) a(2,3) show ?thesis
    by (intro exI [of _ "GMap kt (TPtr t) (Some m')"]) (simp add: finish_rows_def)
qed

lemma reads_back_single:
  assumes "orders_ok E" "sub_attr (a, x)" "type_of f = TPtr (TNamed KStruct (TypeName x))"
    and "convertFrom E x key d = Inr (CRows [(k, y)])" "conf E x f" "sim x f y"
  shows "reads_back E (a, x) key f d"
proof -
  obtain t s where f: "f = GPtr t (Some s)" using assms(5) by (metis conf_shape)
  obtain u where u: "y = GPtr (TNamed KStruct (TypeName x)) (Some u)"
    using assms(5,6) by (rule sim_shape)
  have "range_loop ord [(k, y)] = [(k, y)]" if "is_order ord" for ord
    using mset_range_loop [OF that, of "[(k, y)]"] by (simp add: gkeys_def)
  then have "read_sub E key d (GStruct tn gs) (a, x) = Inr (GStruct tn (set_assoc a y gs))"
    if "map_of gs a = Some z" "type_of z = type_of f" for tn gs z
    using that orders_okD(1) [OF assms(1)] assms(3,4) u set_field_ok [OF that(1), of y]
    by (simp add: read_sub_def SetValueFromSubTable_def)
  moreover have "field_sim (a, x) f y"
    using f u assms(2,6) by (simp add: field_sim_def)
  ultimately show ?thesis
    using u assms(3) by (auto simp: reads_back_def intro!: exI [of _ y])
qed

lemma enumerate_eq_Nil: "List.enumerate n xs = [] \<longleftrightarrow> xs = []"
  by (cases xs) simp_all

text \<open>A field whose elements can be read back from their rows is read back.\<close>

lemma stored_reads_back:
  assumes ord: "orders_ok E" and a: "FieldName x = a" "sub_attr (a, x)" "key \<noteq> []"
    and f: "sub_conf E (a, x) f" and st: "stored_elems (rt_row E d) d key x (sub_elems E x f)"
  shows "reads_back E (a, x) key f d"
proof (cases "sub_elems E x f = []")
  case True
  then have "nil_value f"
    using f by (auto simp: sub_conf_def sub_elems_def nil_value_def enumerate_eq_Nil split: gval.splits option.splits if_splits)
  with True st show ?thesis by (intro reads_back_nil) (simp_all add: stored_elems_def)
next
  case False
  let ?es = "sub_elems E x f" and ?t = "TNamed KStruct (TypeName x)"
  have es: "distinct (map fst ?es)" "\<forall>w \<in> set ?es. conf E x (snd w)"
    using sub_elems_ok [OF ord f] by blast+
  have info: "infoType E (TypeName x) = Inr ?t"
    using False es(2) conf_info by (metis last_in_set)
  obtain rs rs' where rs: "list_all2 (\<lambda>w r. ParentKey r = key \<and> RecKey r = bracketed a (fst w) \<and> rt_row E d x (snd w) r) ?es rs"
    "rows_at d (TypeName x) key a = Some rs'" "mset rs' = mset rs"
    using st False by (auto simp: stored_elems_def a(1))
  obtain g where g: "list_all2 (\<lambda>w y. sim x (snd w) y) ?es (map g rs)"
    "read_rows E x (columns_at d (TypeName x)) d rs' = Inr (map (\<lambda>r. (RecKey r, g r)) rs', map g rs')"
    "mset (map (\<lambda>r. (RecKey r, g r)) rs') = mset (zip (map (\<lambda>w. bracketed a (fst w)) ?es) (map g rs))"
    using read_elements [OF rs(1) es(1) rs(3)] by blast
  have cf: "convertFrom E x key d = finish_rows E x key (map (\<lambda>r. (RecKey r, g r)) rs', map g rs')"
    using rs(2) g(2) info by (simp add: convertFrom_unfold a(1))
  consider kt m where "IsMap x" "f = GMap kt (TPtr ?t) (Some m)" | l where "\<not> IsMap x" "IsSlice x" "f = GSlice (TPtr ?t) (Some l)"
    | s where "\<not> IsMap x" "\<not> IsSlice x" "f = GPtr ?t (Some s)"
    using f False by (auto simp: sub_conf_def sub_elems_def split: if_splits gval.splits option.splits)
  then show ?thesis
  proof cases
    case 1
    have "\<exists>f'. finish_rows E x key (map (\<lambda>r. (RecKey r, g r)) rs', map g rs') = Inr (CVal f') \<and>
        field_sim (a, x) (GMap kt (TPtr ?t) (Some m)) f' \<and> type_of f' = TMap kt (TPtr ?t)"
      using f 1 by (intro finish_map [OF ord info refl _ a(2) 1(1) _ _ _ _ g(1,3)]) (auto simp: sub_conf_def)
    with cf 1(2) show ?thesis by (auto intro!: reads_back_value)
  next
    case 2
    have "\<exists>f'. finish_rows E x key (map (\<lambda>r. (RecKey r, g r)) rs', map g rs') = Inr (CVal f') \<and>
        field_sim (a, x) (GSlice (TPtr ?t) (Some l)) f' \<and> type_of f' = TSlice (TPtr ?t)"
      using f 2 es(2) by (intro finish_slice [OF ord info refl a(2) 2(2) _ _ _ g(1,3)]) (auto simp: sub_conf_def)
    with cf 2(3) show ?thesis by (auto intro!: reads_back_value)
  next
    case 3
    then have one: "?es = [(elem_key E x s, f)]" by (simp add: sub_elems_def)
    then obtain r where r: "rs = [r]" "rs' = [r]"
      using rs(1,3) by (auto simp: list_all2_Cons1)
    have "conf E x f" "sim x f (g r)" using es(2) g(1) by (simp_all add: one r)
    moreover have "convertFrom E x key d = Inr (CRows [(RecKey r, g r)])"
      using cf 3(1,2) a(3) by (simp add: r finish_rows_def)
    ultimately show ?thesis using 3(3) by (intro reads_back_single [OF ord a(2)]) simp_all
  qed
qed

section \<open>All fields of an object\<close>

lemma read_subs_ok:
  assumes "\<forall>p \<in> set ps. reads_back E p key (the (map_of fs (fst p))) d"
    and "\<forall>p \<in> set ps. \<exists>z. map_of gs (fst p) = Some z \<and> nil_value z \<and> type_of z = type_of (the (map_of fs (fst p)))"
    and "distinct (map fst ps)"
  shows "\<exists>gs'. mfold (read_sub E key d) (GStruct tn gs) ps = Inr (GStruct tn gs') \<and>
     map fst gs' = map fst gs \<and> (\<forall>a. a \<notin> fst ` set ps \<longrightarrow> map_of gs' a = map_of gs a) \<and>
     (\<forall>p \<in> set ps. \<exists>f'. map_of gs' (fst p) = Some f' \<and> field_sim p (the (map_of fs (fst p))) f')"
  using assms
proof (induction ps arbitrary: gs)
  case Nil
  then show ?case by auto
next
  case (Cons p ps)
  let ?f = "the (map_of fs (fst p))"
  from Cons.prems(1,2) obtain f' z where f': "field_sim p ?f f'" "map_of gs (fst p) = Some z"
    "read_sub E key d (GStruct tn gs) p = Inr (GStruct tn (set_assoc (fst p) f' gs))"
    by (auto simp: reads_back_def)
  let ?gs = "set_assoc (fst p) f' gs"
  have new: "fst q \<noteq> fst p" if "q \<in> set ps" for q
    using Cons.prems(3) that by (rule distinct_fst_ConsD)
  have "\<forall>q \<in> set ps. \<exists>z. map_of ?gs (fst q) = Some z \<and> nil_value z \<and> type_of z = type_of (the (map_of fs (fst q)))"
    using Cons.prems(2) new by (simp add: map_of_set_assoc)
  with Cons.IH [of ?gs] Cons.prems(1,3) obtain gs' where
    gs': "mfold (read_sub E key d) (GStruct tn ?gs) ps = Inr (GStruct tn gs')" "map fst gs' = map fst ?gs"
    "\<forall>a. a \<notin> fst ` set ps \<longrightarrow> map_of gs' a = map_of ?gs a"
    "\<forall>p \<in> set ps. \<exists>f'. map_of gs' (fst p) = Some f' \<and> field_sim p (the (map_of fs (fst p))) f'"
    by auto
  have "fst p \<notin> fst ` set ps" using Cons.prems(3) by simp
  with gs'(3) f'(2) have "map_of gs' (fst p) = Some f'" by (simp add: map_of_set_assoc)
  with gs' f' show ?case by (auto simp: map_of_set_assoc)
qed

lemma conf_instance:
  assumes "conf E n (GPtr t (Some (GStruct tn fs)))"
  obtains zs where "newInstance E (TypeName n) = Inr (GPtr t (Some (GStruct tn zs)))"
    and "map fst zs = map fst fs" and "map (type_of \<circ> snd) zs = map (type_of \<circ> snd) fs"
    and "\<forall>a \<in> set (map fst fs). a \<notin> set (gkeys (Attributes n)) \<longrightarrow> map_of zs a = map_of fs a"
    and "\<forall>p \<in> set (Attributes n). \<not> scalar_attr p \<longrightarrow> (\<exists>z. map_of zs (fst p) = Some z \<and> nil_value z)"
proof -
  from assms have "fits_instance E n fs" "t = TNamed KStruct (TypeName n)" "tn = TypeName n"
    by (simp_all add: conf_struct)
  moreover obtain y where y: "newInstance E (TypeName n) = Inr y"
    using calculation(1) by (cases "newInstance E (TypeName n)") (simp_all add: fits_instance_def)
  moreover obtain u v where u: "y = GPtr u (Some v)"
    using calculation(1) y by (cases y; cases "deref (Some y)") (simp_all add: fits_instance_def)
  moreover obtain tm zs where "v = GStruct tm zs"
    using calculation(1) y u by (cases v) (simp_all add: fits_instance_def)
  ultimately show ?thesis
    by (intro that [of zs]) (auto simp: fits_instance_def split: option.splits)
qed

lemma same_field_types:
  assumes "map fst zs = map fst fs" "map (type_of \<circ> snd) zs = map (type_of \<circ> snd) fs"
  shows "map_of fs a = Some f \<Longrightarrow> \<exists>z. map_of zs a = Some z \<and> type_of z = type_of f"
  using assms
proof (induction fs arbitrary: zs)
  case (Cons g fs)
  from Cons.prems(2) obtain y ys where "zs = y # ys" by (cases zs) auto
  with Cons show ?case by (cases g; cases y) (auto split: if_splits)
qed simp

lemma field_sim_other: "\<not> sub_attr p \<Longrightarrow> field_sim p f f"
  by (cases f) (auto simp: field_sim_def split: option.splits)

text \<open>The two loops over a new instance: the scalar columns, then the sub-tables.\<close>

lemma read_object:
  assumes conf: "conf E n (GPtr t (Some (GStruct tn fs)))" and ord: "orders_ok E"
    and wf: "wf_node n" "columns_at d tn = Some c"
    and cols: "\<forall>p \<in> set (Attributes n). scalar_attr p \<longrightarrow> map_of c (fst p) \<noteq> None \<and>
        map_of (ColumnValues row) (col_of c (fst p)) = Some (bytes_of E (the (map_of fs (fst p))))"
    and subs: "\<forall>p \<in> set (Attributes n). sub_attr p \<longrightarrow> reads_back E p (KeyForRow row) (the (map_of fs (fst p))) d"
  obtains zs gs where "newInstance E (TypeName n) = Inr (GPtr t (Some (GStruct tn zs)))"
    and "convert_row E n (columns_at d (TypeName n)) d row = Inr (GPtr t (Some (GStruct tn gs)))"
    and "map fst gs = map fst fs"
    and "\<And>p. p \<in> set (Attributes n) \<Longrightarrow> scalar_attr p \<Longrightarrow> map_of gs (fst p) = map_of fs (fst p)"
    and "\<And>p. p \<in> set (Attributes n) \<Longrightarrow> sub_attr p \<Longrightarrow>
        \<exists>f'. map_of gs (fst p) = Some f' \<and> field_sim p (the (map_of fs (fst p))) f'"
    and "\<And>a. \<forall>p \<in> set (Attributes n). fst p = a \<longrightarrow> \<not> scalar_attr p \<and> \<not> sub_attr p \<Longrightarrow> map_of gs a = map_of zs a"
proof -
  let ?as = "range_loop (rng E (''convertFrom:attributes'', KeyForRow row)) (Attributes n)"
  let ?ss = "range_loop (rng E (''convertFrom:subTables'', KeyForRow row)) (filter sub_attr (Attributes n))"
  have tn: "tn = TypeName n" using conf by (simp add: conf_struct)
  have dist: "distinct (gkeys (Attributes n))" "distinct (gkeys (filter sub_attr (Attributes n)))"
    using wf(1) by (simp_all add: wf_node_def gkeys_def distinct_map_filter)
  have as: "set ?as = set (Attributes n)" "distinct (map fst ?as)"
    using set_range_loop [OF orders_okD(1) [OF ord] dist(1)] distinct_range_loop [OF orders_okD(1) [OF ord] dist(1)]
    by blast+
  have ss: "set ?ss = {p \<in> set (Attributes n). sub_attr p}" "distinct (map fst ?ss)"
    using set_range_loop [OF orders_okD(1) [OF ord] dist(2)] distinct_range_loop [OF orders_okD(1) [OF ord] dist(2)]
    by auto
  obtain zs where zs: "newInstance E (TypeName n) = Inr (GPtr t (Some (GStruct tn zs)))"
    "map fst zs = map fst fs" "map (type_of \<circ> snd) zs = map (type_of \<circ> snd) fs"
    "\<forall>p \<in> set (Attributes n). \<not> scalar_attr p \<longrightarrow> (\<exists>z. map_of zs (fst p) = Some z \<and> nil_value z)"
    using conf by (rule conf_instance)
  have ty: "\<forall>a f. map_of fs a = Some f \<longrightarrow> (\<exists>z. map_of zs a = Some z \<and> type_of z = type_of f)"
    using same_field_types [OF zs(2,3)] by blast
  have "\<exists>zs'. mfold (read_attr E (Some c) row) (GStruct tn zs) ?as = Inr (GStruct tn zs') \<and>
      map fst zs' = map fst zs \<and>
      (\<forall>a. map_of zs' a = (if \<exists>p \<in> set ?as. fst p = a \<and> scalar_attr p then map_of fs a else map_of zs a))"
    using conf_attrs(1) [OF conf] cols by (intro read_attrs_ok [OF _ _ ty as(2)]) (simp_all add: as(1))
  then obtain hs where hs: "mfold (read_attr E (Some c) row) (GStruct tn zs) ?as = Inr (GStruct tn hs)"
    "map fst hs = map fst zs"
    "\<forall>a. map_of hs a = (if \<exists>p \<in> set (Attributes n). fst p = a \<and> scalar_attr p then map_of fs a else map_of zs a)"
    unfolding as(1) by blast
  have uniq: "q = p" if "p \<in> set (Attributes n)" "q \<in> set (Attributes n)" "fst q = fst p" for p q
    using that dist(1) by (auto simp: gkeys_def distinct_map dest: inj_onD)
  have "\<exists>z. map_of hs (fst p) = Some z \<and> nil_value z \<and> type_of z = type_of (the (map_of fs (fst p)))"
    if "p \<in> set ?ss" for p
  proof -
    from that have p: "p \<in> set (Attributes n)" "sub_attr p" "\<not> scalar_attr p" by (simp_all add: ss(1) attr_defs)
    then have "map_of hs (fst p) = map_of zs (fst p)" using hs(3) uniq [OF p(1)] by auto
    moreover obtain z where "map_of zs (fst p) = Some z" "nil_value z" using zs(4) p by blast
    moreover obtain f where "map_of fs (fst p) = Some f" using conf_attrs(2) [OF conf p(1,2)] by blast
    ultimately show ?thesis using ty by fastforce
  qed
  with read_subs_ok [OF _ _ ss(2), of E "KeyForRow row" fs d hs tn] subs obtain gs where
    gs: "mfold (read_sub E (KeyForRow row) d) (GStruct tn hs) ?ss = Inr (GStruct tn gs)"
    "map fst gs = map fst hs" "\<forall>a. a \<notin> fst ` set ?ss \<longrightarrow> map_of gs a = map_of hs a"
    "\<forall>p \<in> set ?ss. \<exists>f'. map_of gs (fst p) = Some f' \<and> field_sim p (the (map_of fs (fst p))) f'"
    by (auto simp: ss(1))
  have keep: "map_of gs a = map_of hs a" if "\<forall>p \<in> set (Attributes n). fst p = a \<longrightarrow> \<not> sub_attr p" for a
  proof -
    have "a \<notin> fst ` set ?ss" using that by (auto simp: ss(1))
    with gs(3) show ?thesis by blast
  qed
  show ?thesis
  proof (rule that [OF zs(1)])
    show "convert_row E n (columns_at d (TypeName n)) d row = Inr (GPtr t (Some (GStruct tn gs)))"
      using wf(2) tn zs(1) hs(1) gs(1) by (simp add: convert_row_unfold)
    show "map fst gs = map fst fs" using gs(2) hs(2) zs(2) by simp
    show "\<exists>f'. map_of gs (fst p) = Some f' \<and> field_sim p (the (map_of fs (fst p))) f'"
      if "p \<in> set (Attributes n)" "sub_attr p" for p
      using gs(4) that unfolding ss(1) by blast
    show "map_of gs (fst p) = map_of fs (fst p)" if "p \<in> set (Attributes n)" "scalar_attr p" for p
    proof -
      have "map_of hs (fst p) = map_of fs (fst p)" using hs(3) that by auto
      moreover have "\<forall>q \<in> set (Attributes n). fst q = fst p \<longrightarrow> \<not> sub_attr q"
        using uniq [OF that(1)] that(2) by (metis attr_defs(1,2))
      ultimately show ?thesis using keep by simp
    qed
    show "map_of gs a = map_of zs a" if "\<forall>p \<in> set (Attributes n). fst p = a \<longrightarrow> \<not> scalar_attr p \<and> \<not> sub_attr p" for a
      using keep [of a] that hs(3) by auto
  qed
qed

text \<open>The row read back is similar to the object.\<close>

lemma rt_row_ok:
  assumes conf: "conf E n (GPtr t (Some (GStruct tn fs)))" and ord: "orders_ok E"
    and wf: "wf_node n" "columns_at d tn = Some c"
    and cols: "\<forall>p \<in> set (Attributes n). scalar_attr p \<longrightarrow> map_of c (fst p) \<noteq> None \<and>
        map_of (ColumnValues row) (col_of c (fst p)) = Some (bytes_of E (the (map_of fs (fst p))))"
    and subs: "\<forall>p \<in> set (Attributes n). sub_attr p \<longrightarrow> reads_back E p (KeyForRow row) (the (map_of fs (fst p))) d"
  shows "rt_row E d n (GPtr t (Some (GStruct tn fs))) row"
proof (rule read_object [OF assms])
  fix zs gs
  assume gs: "newInstance E (TypeName n) = Inr (GPtr t (Some (GStruct tn zs)))"
    "convert_row E n (columns_at d (TypeName n)) d row = Inr (GPtr t (Some (GStruct tn gs)))"
    "map fst gs = map fst fs"
    "\<And>p. p \<in> set (Attributes n) \<Longrightarrow> scalar_attr p \<Longrightarrow> map_of gs (fst p) = map_of fs (fst p)"
    "\<And>p. p \<in> set (Attributes n) \<Longrightarrow> sub_attr p \<Longrightarrow>
        \<exists>f'. map_of gs (fst p) = Some f' \<and> field_sim p (the (map_of fs (fst p))) f'"
    "\<And>a. \<forall>p \<in> set (Attributes n). fst p = a \<longrightarrow> \<not> scalar_attr p \<and> \<not> sub_attr p \<Longrightarrow> map_of gs a = map_of zs a"
  obtain zs' where zs': "newInstance E (TypeName n) = Inr (GPtr t (Some (GStruct tn zs')))"
    "map fst zs' = map fst fs" "map (type_of \<circ> snd) zs' = map (type_of \<circ> snd) fs"
    "\<forall>a \<in> set (map fst fs). a \<notin> set (gkeys (Attributes n)) \<longrightarrow> map_of zs' a = map_of fs a"
    "\<forall>p \<in> set (Attributes n). \<not> scalar_attr p \<longrightarrow> (\<exists>z. map_of zs' (fst p) = Some z \<and> nil_value z)"
    using conf by (rule conf_instance)
  then have zs: "zs' = zs" using gs(1) by simp
  have other: "map_of gs a = map_of fs a" if "a \<in> set (map fst fs)" "a \<notin> set (gkeys (Attributes n))" for a
  proof -
    have "fst p \<noteq> a" if "p \<in> set (Attributes n)" for p
      using that \<open>a \<notin> set (gkeys (Attributes n))\<close> by (auto simp: gkeys_def)
    then show ?thesis using gs(6) [of a] zs'(4) that unfolding zs by metis
  qed
  have series: "map_of gs (fst p) = map_of fs (fst p)" if p: "p \<in> set (Attributes n)" "\<not> scalar_attr p" "\<not> sub_attr p" for p
  proof -
    obtain f where f: "map_of fs (fst p) = Some f" "nil_value f"
      using conf_attrs(1) [OF conf p(1)] p(2,3)
      by (auto simp: attr_fields_ok_def attr_defs is_nil_slice_conv nil_value_def split: option.splits)
    obtain z where z: "map_of zs (fst p) = Some z" "nil_value z" using zs'(5) p unfolding zs by blast
    have "type_of z = type_of f" using same_field_types [OF zs'(2,3) f(1)] z(1) unfolding zs by auto
    moreover have "map_of gs (fst p) = map_of zs (fst p)"
    proof (rule gs(6), intro ballI impI)
      fix q assume q: "q \<in> set (Attributes n)" "fst q = fst p"
      have "distinct (map fst (Attributes n))" using wf(1) by (simp add: wf_node_def gkeys_def)
      then have "q = p" using q p(1) by (metis eq_key_imp_eq_value prod.collapse)
      with p show "\<not> scalar_attr q \<and> \<not> sub_attr q" by simp
    qed
    ultimately show ?thesis using f z nil_value_type_eq by metis
  qed
  have "case (map_of fs (fst p), map_of gs (fst p)) of (Some f, Some f') \<Rightarrow> field_sim p f f' | _ \<Rightarrow> False"
    if p: "p \<in> set (Attributes n)" for p
  proof -
    obtain f where f: "map_of fs (fst p) = Some f"
      using conf_attrs(1) [OF conf p] by (auto simp: attr_fields_ok_def split: option.splits)
    show ?thesis
    proof (cases "sub_attr p")
      case True
      with gs(5) [OF p] f show ?thesis by auto
    next
      case False
      then have "map_of gs (fst p) = Some f" using gs(4) [OF p] series [OF p] f by metis
      with f field_sim_other [OF False] show ?thesis by simp
    qed
  qed
  then have "sim n (GPtr t (Some (GStruct tn fs))) (GPtr t (Some (GStruct tn gs)))"
    using gs(3) other by (simp add: sim_struct)
  with gs(2) show ?thesis by (auto simp: rt_row_def)
qed

section \<open>Stored objects are read back\<close>

lemma stored_row_reads:
  assumes ord: "orders_ok E" and wf: "wf_tree root"
  shows "stored_row E d n y row \<Longrightarrow> n \<in> set (nodes_of root) \<Longrightarrow> plain (FieldName n) \<Longrightarrow> conf E n y \<Longrightarrow>
     KeyForRow row \<noteq> [] \<Longrightarrow> rt_row E d n y row"
proof (induction rule: stored_row.induct)
  case (stored_row n c row fs t tn)
  have wfn: "wf_node n" using wf stored_row.prems(1) by (simp add: wf_tree_def)
  have tn: "tn = TypeName n" using stored_row.prems(3) by (simp add: conf_struct)
  show ?case
  proof (rule rt_row_ok [OF stored_row.prems(3) ord wfn _ stored_row.hyps(2)], simp only: tn stored_row.hyps(1), intro ballI impI)
    fix p assume p: "p \<in> set (Attributes n)" "sub_attr p"
    obtain a x where ax: "p = (a, x)" by (cases p)
    obtain f where f: "map_of fs a = Some f" "sub_conf E (a, x) f"
      using conf_attrs(2) [OF stored_row.prems(3) p] by (auto simp: ax)
    have x: "FieldName x = a" "plain a" "x \<in> set (nodes_of root)"
      using wfn p nodes_of_closed [OF stored_row.prems(1)] by (auto simp: ax wf_node_def)
    let ?key = "KeyForRow row"
    let ?P = "\<lambda>n y r. stored_row E d n y r \<and> (n \<in> set (nodes_of root) \<longrightarrow> plain (FieldName n) \<longrightarrow> conf E n y \<longrightarrow>
        KeyForRow r \<noteq> [] \<longrightarrow> rt_row E d n y r)"
    have "stored_elems ?P d ?key x (sub_elems E x f)"
      using stored_row.IH p f(1) by (fastforce simp: ax)
    then have "stored_elems (rt_row E d) d ?key x (sub_elems E x f)"
      by (rule stored_elems_transfer) (use x sub_elems_ok(2) [OF ord f(2)] in auto)
    then show "reads_back E p ?key (the (map_of fs (fst p))) d"
      using stored_reads_back [OF ord x(1) p(2) [unfolded ax] stored_row.prems(4) f(2)] f(1) by (simp add: ax)
  qed
qed

end
