(* ===== verification/Demo_Env.thy ===== *)
theory Demo_Env
  imports Convert_From "HOL-Library.Code_Target_Numeral"
begin

text \<open>
  A concrete environment and a type with every shape of attribute, at which the theorems
  are evaluated: an order with a name, a slice of lines, a map of tags and one address.
  The range loops run backwards here.
\<close>

definition demo_enc :: "gval \<Rightarrow> bytes res" where
  "demo_enc v =
     (case v of
        GString s \<Rightarrow> Inr (1 # map (\<lambda>c. word_of_nat (of_char c)) s)
      | GInt32 n w \<Rightarrow> Inr [2, ucast w]
      | _ \<Rightarrow> Inl (Err ''unsupported''))"

definition demo_dec :: "bytes \<Rightarrow> rvalue res" where
  "demo_dec b =
     (case b of
        [] \<Rightarrow> Inl (Err ''empty'')
      | t # r \<Rightarrow>
          if t = 1 then Inr (Some (GString (map (\<lambda>w. char_of (unat w)) r)))
          else if t = 2 then Inr (Some (GInt32 ''int32'' (ucast (hd r))))
          else Inl (Err ''unsupported''))"

definition demo_str :: "gval \<Rightarrow> string" where
  "demo_str v = (case v of GString s \<Rightarrow> s | _ \<Rightarrow> [])"

definition scalar_node :: "string \<Rightarrow> l8node" where
  "scalar_node f = L8Node ''string'' f False False False [] []"

definition demo_node :: l8node where
  "demo_node = L8Node ''Order'' ''order'' True False False []
     [(''Name'', scalar_node ''Name''),
      (''Lines'', L8Node ''Line'' ''Lines'' True False True [] [(''Text'', scalar_node ''Text'')]),
      (''Tags'', L8Node ''Tag'' ''Tags'' True True False ''string'' [(''Text'', scalar_node ''Text'')]),
      (''Addr'', L8Node ''Addr'' ''Addr'' True False False [] [(''Text'', scalar_node ''Text'')])]"

definition demo_struct :: "string \<Rightarrow> gtyp" where
  "demo_struct tn = TNamed KStruct tn"

definition demo_new :: "string \<Rightarrow> gval res" where
  "demo_new tn =
     (if tn = ''Order''
      then Inr (GPtr (demo_struct tn) (Some (GStruct tn
             [(''Name'', GString []), (''Lines'', GSlice (TPtr (demo_struct ''Line'')) None),
              (''Tags'', GMap (TNamed KString ''string'') (TPtr (demo_struct ''Tag'')) None),
              (''Addr'', GPtr (demo_struct ''Addr'') None)])))
      else Inr (GPtr (demo_struct tn) (Some (GStruct tn [(''Text'', GString [])]))))"

definition demo_env :: "unit env_scheme" where
  "demo_env = \<lparr>
     primaryKeyOf = (\<lambda>n v. if TypeName n = ''Order''
        then (case field_by_name ''Name'' v of Inr (Some (GString s)) \<Rightarrow> s | _ \<Rightarrow> []) else []),
     enc = demo_enc, dec = demo_dec, toStr = demo_str,
     toStrTyped = (\<lambda>v. ''{24}'' @ demo_str v), fromStr = (\<lambda>s. Inr (GString (drop 4 s))),
     infoType = (\<lambda>tn. Inr (if tn = ''string'' then TNamed KString tn else TNamed KStruct tn)),
     newInstance = demo_new,
     nodeOf = (\<lambda>tn. if tn = ''Order'' then Some demo_node else None),
     inspect = (\<lambda>v. Inl (Err ''inspect'')), nonUnique = (\<lambda>n. Inr []),
     rng = (\<lambda>tag. rev), krng = (\<lambda>tag. rev)\<rparr>"

text \<open>An element with one text, and an order.\<close>

definition demo_text :: "string \<Rightarrow> string \<Rightarrow> gval" where
  "demo_text tn s = GPtr (demo_struct tn) (Some (GStruct tn [(''Text'', GString s)]))"

definition demo_order :: "string \<Rightarrow> gval" where
  "demo_order nm = GPtr (demo_struct ''Order'') (Some (GStruct ''Order''
     [(''Name'', GString nm),
      (''Lines'', GSlice (TPtr (demo_struct ''Line'')) (Some [demo_text ''Line'' ''a'', demo_text ''Line'' ''b''])),
      (''Tags'', GMap (TNamed KString ''string'') (TPtr (demo_struct ''Tag''))
         (Some [(GString ''x'', demo_text ''Tag'' ''c''), (GString ''y'', demo_text ''Tag'' ''d'')])),
      (''Addr'', GPtr (demo_struct ''Addr'') (Some (GStruct ''Addr'' [(''Text'', GString ''e'')])))]))"

lemma orders_ok_demo [simp]: "orders_ok demo_env"
  by (simp add: orders_ok_def demo_env_def)

text \<open>What the serialiser makes of a string.\<close>

definition bytes_for :: "string \<Rightarrow> bytes" where
  "bytes_for s = 1 # map (\<lambda>c. word_of_nat (of_char c)) s"

lemma bytes_for_not_Nil [simp]: "bytes_for s \<noteq> []"
  by (simp add: bytes_for_def)

lemma bytes_for_ok: "demo_enc (GString s) = Inr (bytes_for s)" "demo_dec (bytes_for s) = Inr (Some (GString s))"
proof -
  have "unat (word_of_nat (of_char c) :: 8 word) = (of_char c :: nat)" for c
  proof -
    have "(of_char c :: nat) < 256" by (cases c) simp
    then show ?thesis by (simp add: unsigned_of_nat take_bit_nat_eq_self)
  qed
  then show "demo_enc (GString s) = Inr (bytes_for s)" "demo_dec (bytes_for s) = Inr (Some (GString s))"
    by (simp_all add: demo_enc_def demo_dec_def bytes_for_def comp_def)
qed

end
