(* ===== verification/Convert_Theorem.thy ===== *)
theory Convert_Theorem
  imports Convert_Read Demo_Env
begin

text \<open>
  The round trip for whole lists of root objects through \<open>ConvertTo\<close> and \<open>ConvertFrom\<close>.
\<close>

section \<open>Lists of root objects\<close>

text \<open>The root objects of one call: conforming, with primary keys that tell them apart.\<close>

definition root_key :: "'a env_scheme \<Rightarrow> l8node \<Rightarrow> gval \<Rightarrow> string" where
  "root_key E n y = toStr E (GString (primaryKeyOf E n (struct_of y)))"

definition roots_ok :: "'a env_scheme \<Rightarrow> l8node \<Rightarrow> gval list \<Rightarrow> bool" where
  "roots_ok E n ys \<longleftrightarrow>
     ys \<noteq> [] \<and> plain (FieldName n) \<and> \<not> IsSlice n \<and> \<not> IsMap n \<and> nodeOf E (TypeName n) = Some n \<and>
     distinct (map (root_key E n) ys) \<and>
     (\<forall>y \<in> set ys. conf E n y \<and> primaryKeyOf E n (struct_of y) \<noteq> [] \<and> plain (root_key E n y))"

lemma TypeOf_conf: "conf E n y \<Longrightarrow> TypeOf (Some y) = Inr (TypeName n)"
  by (erule conf_shape) (simp add: TypeOf_def)

lemma root_key_plain: "primaryKeyOf E n (struct_of y) \<noteq> [] \<Longrightarrow> elem_key E n (struct_of y) = root_key E n y"
  by (simp add: elem_key_def root_key_def)

text \<open>The rows of root objects, each below its own key.\<close>

definition root_rows :: "'a env_scheme \<Rightarrow> L8OrmRData \<Rightarrow> l8node \<Rightarrow> gval list \<Rightarrow> L8OrmRow list \<Rightarrow> bool" where
  "root_rows E d n ys rs \<longleftrightarrow>
     list_all2 (\<lambda>y r. ParentKey r = [] \<and> RecKey r = bracketed (FieldName n) (root_key E n y) \<and> stored_row E d n y r) ys rs"

definition root_region :: "'a env_scheme \<Rightarrow> l8node \<Rightarrow> gval list \<Rightarrow> location set" where
  "root_region E n ys = insert (loc_of n []) (below_keys [] (FieldName n) (root_key E n ` set ys))"

lemma convert_roots:
  assumes inv: "orders_ok E" "wf_tree n" "action \<noteq> PATCH" "roots_ok E n (map vf ws)"
  shows "\<exists>d rs. mfold (\<lambda>d w. convertTo E action (Some (vf w)) [] (mf w) n d) (new_rdata tn) ws = Inr d \<and>
      tidy (nodes_of n) d \<and> RootTypeName d = tn \<and>
      evolves (root_region E n (map vf ws)) (new_rdata tn) d \<and>
      rows_at d (TypeName n) [] (FieldName n) = Some rs \<and> root_rows E d n (map vf ws) rs"
proof -
  let ?kf = "\<lambda>w. root_key E n (vf w)"
  have ok: "elems_ok E n ?kf mf vf ws"
    using inv(4) by (auto simp: elems_ok_def roots_ok_def RecKeyOf_bracketed root_key_plain comp_def)
  have plain: "plain (FieldName n)" "ws \<noteq> []" using inv(4) by (auto simp: roots_ok_def)
  have new: "fresh S (new_rdata tn)" "data_rows (new_rdata tn) l = []" for S l
    by (simp_all add: fresh_def data_rows_def new_rdata_def rows_at_def split: prod.split)
  have rt: "conf E n y \<Longrightarrow> tidy (nodes_of n) d \<Longrightarrow> room_for E n y [] mk d \<Longrightarrow> writes_row (nodes_of n) E action n y [] mk d" for y mk d
    by (rule convertTo_writes_row [OF inv(1-3) nodes_of_self plain(1)])
  from convert_elements [OF inv(1) plain(1) rt ok tidy_new new(1)] plain(2) new(2) obtain d rs where
    d: "mfold (\<lambda>d w. convertTo E action (Some (vf w)) [] (mf w) n d) (new_rdata tn) ws = Inr d"
      "tidy (nodes_of n) d" "evolves (insert (loc_of n []) (below_keys [] (FieldName n) (?kf ` set ws))) (new_rdata tn) d"
      "rows_at d (TypeName n) [] (FieldName n) = Some rs"
      "list_all2 (\<lambda>w r. ParentKey r = [] \<and> RecKey r = bracketed (FieldName n) (?kf w) \<and> stored_row E d n (vf w) r) ws rs"
    by auto
  moreover have "RootTypeName d = tn" using evolves_root [OF d(3)] by (simp add: new_rdata_def)
  ultimately show ?thesis by (auto simp: root_rows_def root_region_def list_all2_map1 image_image)
qed

text \<open>Root objects are read in the order in which their rows lie, whatever it is.\<close>

lemma convertFrom_roots:
  assumes inv: "orders_ok E" "wf_tree n" "roots_ok E n ys"
    and rows: "root_rows E d n ys rs" "rows_at d (TypeName n) [] (FieldName n) = Some rs'" "mset rs' = mset rs"
  shows "\<exists>g. convertFrom E n [] d = Inr (COrdered (map g rs')) \<and> list_all2 (sim n) ys (map g rs)"
proof -
  let ?es = "map (\<lambda>y. (root_key E n y, y)) ys"
  have rt: "rt_row E d n y r" if "y \<in> set ys" "RecKey r = bracketed (FieldName n) (root_key E n y)" "stored_row E d n y r" for y r
    using that inv(3) by (intro stored_row_reads [OF inv(1,2) that(3) nodes_of_self]) (auto simp: roots_ok_def KeyForRow_def)
  have "list_all2 (\<lambda>w r. ParentKey r = [] \<and> RecKey r = bracketed (FieldName n) (fst w) \<and> rt_row E d n (snd w) r) ?es rs"
    unfolding list_all2_map1 by (rule list.rel_mono_strong [OF rows(1) [unfolded root_rows_def]]) (simp add: rt)
  moreover have "distinct (map fst ?es)"
    using inv(3) by (simp add: roots_ok_def comp_def)
  ultimately obtain g where g: "list_all2 (\<lambda>w y. sim n (snd w) y) ?es (map g rs)"
    "read_rows E n (columns_at d (TypeName n)) d rs' = Inr (map (\<lambda>r. (RecKey r, g r)) rs', map g rs')"
    using rows(3) by (rule read_elements)
  moreover have "infoType E (TypeName n) = Inr (TNamed KStruct (TypeName n))"
    using inv(3) unfolding roots_ok_def by (meson conf_info last_in_set)
  ultimately show ?thesis
    using inv(3) rows(2)
    by (intro exI [of _ g]) (auto simp: convertFrom_unfold finish_rows_def roots_ok_def list_all2_map1)
qed

text \<open>The environment and the order of \<open>Demo_Env\<close> meet the hypotheses.\<close>

lemma demo_wf: "wf_tree demo_node"
  by code_simp

lemma demo_conf: "conf demo_env demo_node (demo_order ''o1'')"
  by code_simp

lemma demo_converts:
  "\<exists>d'. convertTo demo_env POST (Some (demo_order ''o1'')) [] [] demo_node (new_rdata ''Order'') = Inr d'"
proof -
  have "room_for demo_env demo_node (demo_order ''o1'') [] [] (new_rdata ''Order'')"
    by (simp add: room_for_def fresh_def new_rdata_def rows_at_def data_rows_def split: prod.split)
  moreover have "plain (FieldName demo_node)" by code_simp
  ultimately have "writes_row (nodes_of demo_node) demo_env POST demo_node (demo_order ''o1'') [] [] (new_rdata ''Order'')"
    by (intro convertTo_writes_row [OF orders_ok_demo demo_wf _ nodes_of_self _ demo_conf]) simp_all
  then show ?thesis by (auto simp: writes_row_def)
qed

text \<open>What \<open>ConvertTo\<close> makes of root objects.\<close>

lemma ConvertTo_roots:
  assumes inv: "orders_ok E" "wf_tree n" "action \<noteq> PATCH" "roots_ok E n ys"
    and keys: "length ys = 1 \<or> length ks = length ys"
  shows "\<exists>d rs. ConvertTo E action (Some \<lparr>Element = Some (hd ys), Elements = map Some ys, Keys = ks\<rparr>) =
       Some (Inr d) \<and> tidy (nodes_of n) d \<and> RootTypeName d = TypeName n \<and>
     evolves (root_region E n ys) (new_rdata (TypeName n)) d \<and>
     rows_at d (TypeName n) [] (FieldName n) = Some rs \<and> root_rows E d n ys rs"
proof -
  from inv(4) have ys: "ys \<noteq> []" "nodeOf E (TypeName n) = Some n" "conf E n (hd ys)"
    by (auto simp: roots_ok_def)
  note ty = TypeOf_conf [OF ys(3)]
  show ?thesis
  proof (cases "length ys = 1")
    case True
    then obtain y where one: "ys = [y]" by (cases ys) simp_all
    obtain d rs where d: "mfold (\<lambda>d w. convertTo E action (Some w) [] [] n d) (new_rdata (TypeName n)) ys = Inr d"
      "tidy (nodes_of n) d" "RootTypeName d = TypeName n" "evolves (root_region E n ys) (new_rdata (TypeName n)) d"
      "rows_at d (TypeName n) [] (FieldName n) = Some rs" "root_rows E d n ys rs"
      using convert_roots [OF inv(1-3), of "\<lambda>y. y" ys "\<lambda>y. []" "TypeName n"] inv(4) by auto
    moreover have "convertTo E action (Some y) [] [] n (new_rdata (TypeName n)) = Inr d"
      using d(1) by (simp add: one rbind_eq_Inr)
    ultimately show ?thesis
      using ty ys(2) by (intro exI [of _ d] exI [of _ rs]) (simp add: ConvertTo_def one)
  next
    case False
    with keys have len: "length ks = length ys" by simp
    define mf where "mf = (\<lambda>(i, y :: gval). case ks ! i of None \<Rightarrow> [] | Some k \<Rightarrow> toStr E k)"
    have roots: "roots_ok E n (map snd (List.enumerate 0 ys))" using inv(4) by simp
    obtain d rs where d:
      "mfold (\<lambda>d w. convertTo E action (Some (snd w)) [] (mf w) n d) (new_rdata (TypeName n)) (List.enumerate 0 ys) = Inr d"
      "tidy (nodes_of n) d" "RootTypeName d = TypeName n" "evolves (root_region E n ys) (new_rdata (TypeName n)) d"
      "rows_at d (TypeName n) [] (FieldName n) = Some rs" "root_rows E d n ys rs"
      using convert_roots [OF inv(1-3) roots, of mf "TypeName n"] by auto
    have "List.enumerate 0 (map Some ys) = map (\<lambda>w. (fst w, Some (snd w))) (List.enumerate 0 ys)"
      by (simp add: enumerate_map_upt [symmetric] enumerate_eq_zip zip_map2 case_prod_beta)
    moreover have "mfold (\<lambda>data w. rbind (key_at E ks (fst w)) (\<lambda>key. convertTo E action (Some (snd w)) [] key n data))
        (new_rdata (TypeName n)) (List.enumerate 0 ys) = Inr d"
      unfolding d(1) [symmetric]
      by (rule mfold_eqI) (auto simp: in_set_enumerate_eq key_at_def len mf_def split: option.split)
    ultimately have "mfold (\<lambda>data (i, element). rbind (key_at E ks i) (\<lambda>key. convertTo E action element [] key n data))
        (new_rdata (TypeName n)) (List.enumerate 0 (map Some ys)) = Inr d"
      by (simp add: mfold_map case_prod_beta')
    with False ty ys(2) d(2-6) show ?thesis
      by (intro exI [of _ d] exI [of _ rs]) (simp add: ConvertTo_def)
  qed
qed

lemma round_trip_roots:
  assumes inv: "orders_ok E" "wf_tree n" "action \<noteq> PATCH" "roots_ok E n ys"
    and keys: "length ys = 1 \<or> length ks = length ys"
  shows "\<exists>d zs. ConvertTo E action (Some \<lparr>Element = Some (hd ys), Elements = map Some ys, Keys = ks\<rparr>) =
       Some (Inr d) \<and> ConvertFrom E d m = Inr (COrdered zs, m) \<and> list_all2 (sim n) ys zs"
proof -
  obtain d rs where d: "ConvertTo E action (Some \<lparr>Element = Some (hd ys), Elements = map Some ys, Keys = ks\<rparr>) = Some (Inr d)"
    "RootTypeName d = TypeName n" "rows_at d (TypeName n) [] (FieldName n) = Some rs" "root_rows E d n ys rs"
    using ConvertTo_roots [OF assms] by blast
  have "nodeOf E (TypeName n) = Some n" using inv(4) by (simp add: roots_ok_def)
  then show ?thesis
    using convertFrom_roots [OF inv(1,2,4) d(4,3) refl] d(1,2) by (auto simp: ConvertFrom_def)
qed

text \<open>
  C4. The round trip of the two conversions.  A list of root objects that conform to their
  type (scalars that survive serialisation, nested structs, slices and maps of any depth,
  distinct primary keys without brackets) is flattened without an error, and reading the
  relational data back gives the same objects in the same order, up to the order of the
  entries of Go maps; for every order the range loops of both directions may take, and
  for every action but PATCH, which leaves out zero values.
\<close>

theorem convert_round_trip:
  assumes inv: "orders_ok E" "wf_tree n" "action \<noteq> PATCH" "roots_ok E n ys"
    and keys: "length ys = 1 \<or> length ks = length ys"
  shows "\<exists>d zs. ConvertTo E action (Some \<lparr>Element = Some (hd ys), Elements = map Some ys, Keys = ks\<rparr>) =
       Some (Inr d) \<and> ConvertFrom E d m = Inr (COrdered zs, m) \<and> list_all2 (sim n) ys zs"
  using round_trip_roots [OF assms] .

theorem convert_round_trip_witness:
  "\<exists>d zs. ConvertTo demo_env POST (Some \<lparr>Element = Some (demo_order ''o1''),
         Elements = [Some (demo_order ''o1''), Some (demo_order ''o2'')], Keys = [None, None]\<rparr>) =
       Some (Inr d) \<and> ConvertFrom demo_env d () = Inr (COrdered zs, ()) \<and>
     list_all2 (sim demo_node) [demo_order ''o1'', demo_order ''o2''] zs"
proof -
  have "roots_ok demo_env demo_node [demo_order ''o1'', demo_order ''o2'']"
    by code_simp
  from convert_round_trip [OF orders_ok_demo demo_wf _ this, of POST "[None, None]" "()"]
  show ?thesis by simp
qed

text \<open>
  C20. What a conversion may touch.  Flattening an object under a parent key writes rows at
  the one location of its node under that key and below the record key of its own row,
  nowhere else; it never changes the columns of a table that has some, nor the root type.
\<close>

theorem convertTo_footprint:
  assumes "convertTo E action val pk mk node d = Inr d'"
    and "(tn, key, f) \<notin> footprint E val pk mk node"
  shows "rows_at d' tn key f = rows_at d tn key f \<and>
    (\<forall>c. columns_at d tn = Some c \<longrightarrow> columns_at d' tn = Some c) \<and> RootTypeName d' = RootTypeName d"
  using convertTo_evolves [OF assms(1)] assms(2) by (simp add: evolves_def)

theorem convertTo_footprint_witness:
  "\<exists>d'. convertTo demo_env POST (Some (demo_order ''o1'')) [] [] demo_node (new_rdata ''Order'') = Inr d' \<and>
     rows_at d' ''Order'' ''x'' ''order'' = None"
proof -
  obtain d' where "convertTo demo_env POST (Some (demo_order ''o1'')) [] [] demo_node (new_rdata ''Order'') = Inr d'"
    using demo_converts by blast
  moreover have "(''Order'', ''x'', ''order'') \<notin> footprint demo_env (Some (demo_order ''o1'')) [] [] demo_node"
    by (simp add: footprint_def demo_order_def loc_of_def demo_node_def RecKeyOf_bracketed bracketed_def)
  moreover have "rows_at (new_rdata ''Order'') ''Order'' ''x'' ''order'' = None"
    by (simp add: rows_at_def new_rdata_def)
  ultimately show ?thesis using convertTo_footprint by fastforce
qed

text \<open>
  C19. The invariant of the row store.  In relational data built by conversions of values of
  one type tree, every row lies under its own parent key in a table whose columns give each
  scalar attribute a column of its own, whatever the environment returns; so no conversion
  overwrites a column with another attribute's value.
\<close>

theorem convertTo_keeps_invariant:
  assumes "orders_ok E" "wf_tree root" "node \<in> set (nodes_of root)"
    and "store_inv (nodes_of root) d" "convertTo E action val pk mk node d = Inr d'"
  shows "store_inv (nodes_of root) d'"
  using convertTo_store_inv [OF assms(1,2,5,3,4)] .

theorem convertTo_keeps_invariant_witness:
  "\<exists>d'. convertTo demo_env POST (Some (demo_order ''o1'')) [] [] demo_node (new_rdata ''Order'') = Inr d' \<and>
     store_inv (nodes_of demo_node) d'"
  using demo_converts convertTo_keeps_invariant [OF orders_ok_demo demo_wf nodes_of_self store_inv_new]
  by blast

end
