(* ===== verification/Convert_Service.thy ===== *)
theory Convert_Service
  imports Convert_Theorem
begin

text \<open>
  convert/ConvertService.go: the conversions as a service.  Requests it does not implement
  answer nil.
\<close>

datatype 'm conv_answer = ConvNil | ConvData "L8OrmRData res" | ConvObjects "(cf_result \<times> 'm option) res"

definition conv_to :: "'a env_scheme \<Rightarrow> action \<Rightarrow> ielements option \<Rightarrow> 'm conv_answer" where
  "conv_to E action pb = (case ConvertTo E action pb of None \<Rightarrow> ConvNil | Some r \<Rightarrow> ConvData r)"

definition conv_Post :: "'a env_scheme \<Rightarrow> ielements option \<Rightarrow> 'm conv_answer" where
  "conv_Post E pb = conv_to E POST pb"

definition conv_Patch :: "'a env_scheme \<Rightarrow> ielements option \<Rightarrow> 'm conv_answer" where
  "conv_Patch E pb = conv_to E PATCH pb"

text \<open>Get takes relational data and passes nil metadata.\<close>

definition conv_Get :: "'a env_scheme \<Rightarrow> L8OrmRData \<Rightarrow> 'm conv_answer" where
  "conv_Get E d = ConvObjects (ConvertFrom E d None)"

definition conv_Put :: "'a env_scheme \<Rightarrow> ielements option \<Rightarrow> 'm conv_answer" where
  "conv_Put E pb = ConvNil"

definition conv_Delete :: "'a env_scheme \<Rightarrow> ielements option \<Rightarrow> 'm conv_answer" where
  "conv_Delete E pb = ConvNil"

text \<open>
  The service converts back what it converted: a Get with the answer of a Post of objects
  that conform to their type has the same objects, up to the order of map entries.
\<close>

lemma service_round_trip:
  assumes "orders_ok E" "wf_tree n" "roots_ok E n ys" "length ys = 1 \<or> length ks = length ys"
  shows "\<exists>d zs. conv_Post E (Some \<lparr>Element = Some (hd ys), Elements = map Some ys, Keys = ks\<rparr>) = ConvData (Inr d) \<and>
    conv_Get E d = ConvObjects (Inr (COrdered zs, None)) \<and> list_all2 (sim n) ys zs"
  using round_trip_roots [OF assms(1,2) _ assms(3,4), of POST None]
  by (force simp: conv_Post_def conv_to_def conv_Get_def)

end
