(* ===== verification/Sql_Stmt.thy ===== *)
theory Sql_Stmt
  imports Convert_To
begin

text \<open>
  stmt/Statement.go, Insert.go, Update.go, Select.go and MetaData.go: the prepared
  statements of one table, the binding of a row to statement parameters, and the
  decoding of a result row.  A prepared statement is its SQL text; preparing it is an
  operation of the database, a parameter of the model.  The package \<open>database/sql\<close> is
  part of the Go library: what \<open>Rows.Scan\<close> does with a column is written out here.
\<close>

section \<open>Statements\<close>

text \<open>\<open>'q\<close> is the query of a statement; \<open>sfields\<close> is a nil slice before its first use.\<close>

record 'q statement =
  sfields :: "string list option"
  fvalues :: "(string, int) gomap"
  columns :: "(string, int32) gomap option"
  node :: l8node
  squery :: "'q option"
  insertStmt :: "string option"
  selectStmt :: "string option"
  updateStmt :: "string option"
  metaDataStmt :: "string option"

definition NewStatement ::
    "l8node \<Rightarrow> (string, int32) gomap option \<Rightarrow> 'q option \<Rightarrow> 'q statement" where
  "NewStatement n cols q =
     \<lparr>sfields = None, fvalues = [], columns = cols, node = n, squery = q,
      insertStmt = None, selectStmt = None, updateStmt = None, metaDataStmt = None\<rparr>"

definition fields_list :: "'q statement \<Rightarrow> string list" where
  "fields_list st = (case sfields st of None \<Rightarrow> [] | Some fs \<Rightarrow> fs)"

text \<open>Reading \<open>this.values[name]\<close>: an absent name reads as position 0.\<close>

definition value_pos :: "(string, int) gomap \<Rightarrow> string \<Rightarrow> int" where
  "value_pos m n = (case map_of m n of None \<Rightarrow> 0 | Some i \<Rightarrow> i)"

text \<open>The loop of \<open>fieldsOf\<close> over the attributes: the next index runs along.\<close>

fun number_fields :: "(string \<times> l8node) list \<Rightarrow> string list \<times> (string, int) gomap \<times> int
    \<Rightarrow> string list \<times> (string, int) gomap \<times> int" where
  "number_fields [] s = s"
| "number_fields ((attrName, attr) # rest) (fs, vs, index) =
     (if IsStruct attr then number_fields rest (fs, vs, index)
      else number_fields rest (fs @ [attrName], AList.update attrName index vs, index + 1))"

definition fieldsOf :: "'a env_scheme \<Rightarrow> l8node \<Rightarrow> string list \<times> (string, int) gomap" where
  "fieldsOf E n =
     (let (fs, vs, index) =
        number_fields (range_loop (rng E (''fieldsOf'', TypeName n)) (Attributes n))
          ([''ParentKey'', ''RecKey''], [(''ParentKey'', 1), (''RecKey'', 2)], 3)
      in (fs, vs))"

definition ensure_fields :: "'a env_scheme \<Rightarrow> 'q statement \<Rightarrow> 'q statement" where
  "ensure_fields E st =
     (case sfields st of
        Some fs \<Rightarrow> st
      | None \<Rightarrow> let (fs, vs) = fieldsOf E (node st) in st\<lparr>sfields := Some fs, fvalues := vs\<rparr>)"

section \<open>Binding a row\<close>

text \<open>A statement argument: nil, or a Go value.\<close>

type_synonym sql_arg = "gval option"

definition isZeroValue :: "sql_arg \<Rightarrow> bool" where
  "isZeroValue val = (case val of None \<Rightarrow> True | Some v \<Rightarrow> is_zero v)"

definition getValueForPostgres :: "'a env_scheme \<Rightarrow> bytes \<Rightarrow> sql_arg res" where
  "getValueForPostgres E data =
     rbind (dec E data) (\<lambda>val.
       case val of
         None \<Rightarrow> Inr (Some (GString ''nil''))
       | Some v \<Rightarrow>
           if kind_of val = KSlice \<or> kind_of val = KMap
           then Inr (Some (GString (toStrTyped E v))) else Inr (Some v))"

text \<open>An assignment \<open>s[i] = x\<close>, which panics out of range.\<close>

definition go_assign :: "'b list \<Rightarrow> int \<Rightarrow> 'b \<Rightarrow> 'b list res" where
  "go_assign xs i x =
     (if 0 \<le> i \<and> i < int (length xs) then Inr (xs[nat i := x])
      else Inl (Panic ''index out of range''))"

definition bind_attr ::
    "'a env_scheme \<Rightarrow> 'q statement \<Rightarrow> action \<Rightarrow> L8OrmRow \<Rightarrow> sql_arg list \<Rightarrow> string \<times> l8node
     \<Rightarrow> sql_arg list res" where
  "bind_attr E st action row result attr =
     (case attr of (attrName, attrNode) \<Rightarrow>
        if IsStruct attrNode then Inr result
        else
          let fieldPos = value_pos (fvalues st) attrName;
              rowPos = column_index (columns st) attrName
          in case map_of (ColumnValues row) rowPos of
               None \<Rightarrow> go_assign result (fieldPos - 1) None
             | Some data \<Rightarrow>
                 if data = [] then go_assign result (fieldPos - 1) None
                 else rbind (getValueForPostgres E data) (\<lambda>val.
                   if action = PATCH \<and> isZeroValue val then go_assign result (fieldPos - 1) None
                   else go_assign result (fieldPos - 1) val))"

definition RowValues ::
    "'a env_scheme \<Rightarrow> 'q statement \<Rightarrow> action \<Rightarrow> L8OrmRow \<Rightarrow> sql_arg list res" where
  "RowValues E st action row =
     rbind (go_assign (replicate (length (fvalues st)) None) 0 (Some (GString (ParentKey row))))
       (\<lambda>result.
     rbind (go_assign result 1 (Some (GString (RecKey row)))) (\<lambda>result.
     mfold (bind_attr E st action row) result
       (range_loop (rng E (''RowValues'', KeyForRow row)) (Attributes (node st)))))"

section \<open>The texts of the statements\<close>

definition param :: "(string, int) gomap \<Rightarrow> string \<Rightarrow> string" where
  "param vs field = ''$'' @ itoa (value_pos vs field)"

text \<open>The loop of \<open>createInsertStatement\<close>, with its two flags and three buffers.\<close>

fun insert_loop ::
    "(string, int) gomap \<Rightarrow> string list \<Rightarrow> bool \<Rightarrow> bool \<Rightarrow> string \<times> string \<times> string
     \<Rightarrow> string \<times> string \<times> string" where
  "insert_loop vs [] first firstConflict bufs = bufs"
| "insert_loop vs (field # rest) first firstConflict (flds, vals, conflict) =
     (let flds = (if first then flds else flds @ '','') @ field;
          vals = (if first then vals else vals @ '','') @ ''$'' @ itoa (value_pos vs field)
      in if field \<noteq> ''ParentKey'' \<and> field \<noteq> ''RecKey''
         then insert_loop vs rest False False
                (flds, vals, (if firstConflict then conflict else conflict @ '','')
                   @ field @ ''='' @ ''$'' @ itoa (value_pos vs field) @ '' '')
         else insert_loop vs rest False firstConflict (flds, vals, conflict))"

definition insert_sql :: "'q statement \<Rightarrow> string" where
  "insert_sql st =
     (let (flds, vals, conflict) =
        insert_loop (fvalues st) (fields_list st) True True
          ('' ('', '' values ('', ''ON CONFLICT (ParentKey,RecKey) DO UPDATE SET '')
      in ''insert into '' @ TypeName (node st) @ (flds @ '') '') @ (vals @ '') '') @ conflict @ '';'')"

fun update_loop :: "(string, int) gomap \<Rightarrow> string list \<Rightarrow> bool \<Rightarrow> string \<Rightarrow> string" where
  "update_loop vs [] first buf = buf"
| "update_loop vs (field # rest) first buf =
     (if field = ''ParentKey'' \<or> field = ''RecKey'' then update_loop vs rest first buf
      else update_loop vs rest False
             ((if first then buf else buf @ '', '') @ field @ ''=COALESCE($''
                @ itoa (value_pos vs field) @ '', '' @ field @ '')''))"

definition update_sql :: "'q statement \<Rightarrow> string" where
  "update_sql st =
     update_loop (fvalues st) (fields_list st) True
       (''UPDATE '' @ TypeName (node st) @ '' SET '') @ '' WHERE ParentKey=$1 AND RecKey=$2;''"

text \<open>
  Each statement is created on first use and kept.  \<open>prepare\<close> is \<open>tx.Prepare\<close>; \<open>create\<close>
  gives the text and the statement with its fields filled in.
\<close>

definition InsertStatement ::
    "'a env_scheme \<Rightarrow> (string \<Rightarrow> unit res) \<Rightarrow> 'q statement \<Rightarrow> (string \<times> 'q statement) res" where
  "InsertStatement E prepare st =
     (case insertStmt st of
        Some s \<Rightarrow> Inr (s, st)
      | None \<Rightarrow>
          let st = ensure_fields E st; sql = insert_sql st
          in rbind (prepare sql) (\<lambda>_. Inr (sql, st\<lparr>insertStmt := Some sql\<rparr>)))"

definition UpdateStatement ::
    "'a env_scheme \<Rightarrow> (string \<Rightarrow> unit res) \<Rightarrow> 'q statement \<Rightarrow> (string \<times> 'q statement) res" where
  "UpdateStatement E prepare st =
     (case updateStmt st of
        Some s \<Rightarrow> Inr (s, st)
      | None \<Rightarrow>
          let st = ensure_fields E st; sql = update_sql st
          in rbind (prepare sql) (\<lambda>_. Inr (sql, st\<lparr>updateStmt := Some sql\<rparr>)))"

section \<open>Decoding a result row\<close>

text \<open>What a driver delivers for a column, and what \<open>Scan\<close> makes of it for a destination type.\<close>

datatype drv = DNull | DInt int64 | DFloat int64 | DBool bool | DText string

fun drv_string :: "(int64 \<Rightarrow> string) \<Rightarrow> drv \<Rightarrow> string" where
  "drv_string fmt DNull = []"
| "drv_string fmt (DInt w) = itoa (sint w)"
| "drv_string fmt (DFloat w) = fmt w"
| "drv_string fmt (DBool b) = (if b then ''true'' else ''false'')"
| "drv_string fmt (DText s) = s"

text \<open>
  \<open>convertAssign\<close> of database/sql for the destinations the program uses: strings, booleans,
  integers of 32 and 64 bits and floats.  Formatting and parsing of floats and booleans
  are parameters of the record, as is what an encoder holds after it failed on a value.
\<close>

record scan_conv =
  fmt_float :: "int64 \<Rightarrow> string"
  parse_float32 :: "string \<Rightarrow> int32 option"
  parse_float64 :: "string \<Rightarrow> int64 option"
  parse_bool :: "string \<Rightarrow> bool option"
  partial_enc :: "gval \<Rightarrow> bytes"

definition scan_err :: "'b res" where
  "scan_err = Inl (Err ''sql: Scan error'')"

definition scan_value :: "scan_conv \<Rightarrow> gtyp \<Rightarrow> drv \<Rightarrow> gval res" where
  "scan_value C t d =
     (if d = DNull then scan_err
      else case t of
        TNamed KString n \<Rightarrow> Inr (GString (drv_string (fmt_float C) d))
      | TNamed KBool n \<Rightarrow>
          (case d of DBool b \<Rightarrow> Inr (GBool b) | DFloat w \<Rightarrow> scan_err
           | _ \<Rightarrow> (case parse_bool C (drv_string (fmt_float C) d) of
                    Some b \<Rightarrow> Inr (GBool b) | None \<Rightarrow> scan_err))
      | TNamed KInt32 n \<Rightarrow>
          (case parse_int64 (drv_string (fmt_float C) d) of
             Some i \<Rightarrow> if - (2 ^ 31) \<le> i \<and> i < 2 ^ 31 then Inr (GInt32 n (of_int i)) else scan_err
           | None \<Rightarrow> scan_err)
      | TNamed KInt64 n \<Rightarrow>
          (case parse_int64 (drv_string (fmt_float C) d) of
             Some i \<Rightarrow> Inr (GInt64 (of_int i)) | None \<Rightarrow> scan_err)
      | TNamed KFloat32 n \<Rightarrow>
          (case parse_float32 C (drv_string (fmt_float C) d) of
             Some w \<Rightarrow> Inr (GFloat32 w) | None \<Rightarrow> scan_err)
      | TNamed KFloat64 n \<Rightarrow>
          (case d of DFloat w \<Rightarrow> Inr (GFloat64 w)
           | _ \<Rightarrow> (case parse_float64 C (drv_string (fmt_float C) d) of
                    Some w \<Rightarrow> Inr (GFloat64 w) | None \<Rightarrow> scan_err))
      | _ \<Rightarrow> scan_err)"

text \<open>\<open>NewArgs\<close> gives the types of the destinations; \<open>this.node.Attributes[name]\<close> of an
  absent name is a nil pointer, whose fields panic.\<close>

definition arg_type :: "'a env_scheme \<Rightarrow> l8node \<Rightarrow> string \<Rightarrow> gtyp res" where
  "arg_type E n field =
     (case map_of (Attributes n) field of
        None \<Rightarrow> Inl (Panic ''invalid memory address or nil pointer dereference'')
      | Some attr \<Rightarrow>
          if \<not> IsSlice attr \<and> \<not> IsMap attr then infoType E (TypeName attr)
          else Inr (TNamed KString ''string''))"

definition string_type :: gtyp where
  "string_type = TNamed KString ''string''"

fun collect :: "('b \<Rightarrow> 'c res) \<Rightarrow> 'b list \<Rightarrow> 'c list res" where
  "collect f [] = Inr []"
| "collect f (x # xs) = rbind (f x) (\<lambda>y. rbind (collect f xs) (\<lambda>ys. Inr (y # ys)))"

definition NewArgs :: "'a env_scheme \<Rightarrow> 'q statement \<Rightarrow> gtyp list res" where
  "NewArgs E st =
     (if length (fields_list st) < 2 then Inl (Panic ''index out of range'')
      else rbind (collect (arg_type E (node st)) (drop 2 (fields_list st)))
             (\<lambda>ts. Inr (string_type # string_type # ts)))"

definition Scan :: "scan_conv \<Rightarrow> gtyp list \<Rightarrow> drv list \<Rightarrow> gval list res" where
  "Scan C ts ds =
     (if length ts \<noteq> length ds then Inl (Err ''sql: expected destination arguments in Scan'')
      else collect (\<lambda>(t, d). scan_value C t d) (zip ts ds))"

text \<open>\<open>x.(string)\<close>.\<close>

fun assert_string :: "gval \<Rightarrow> string res" where
  "assert_string (GString s) = Inr s"
| "assert_string v = Inl (Panic ''interface conversion'')"

text \<open>The error of \<open>obj.Add(value)\<close> is dropped; \<open>obj.Data()\<close> is what the encoder holds.\<close>

definition encoded :: "'a env_scheme \<Rightarrow> scan_conv \<Rightarrow> gval \<Rightarrow> bytes res" where
  "encoded E C v =
     (case enc E v of
        Inr b \<Rightarrow> Inr b
      | Inl (Err m) \<Rightarrow> Inr (partial_enc C v)
      | Inl (Panic m) \<Rightarrow> Inl (Panic m))"

definition store_column ::
    "'a env_scheme \<Rightarrow> scan_conv \<Rightarrow> 'q statement \<Rightarrow> (int32, bytes) gomap \<Rightarrow> string \<times> gval
     \<Rightarrow> (int32, bytes) gomap res" where
  "store_column E C st cv fv =
     (case fv of (field, val) \<Rightarrow>
        (case map_of (Attributes (node st)) field of
           None \<Rightarrow> Inl (Panic ''invalid memory address or nil pointer dereference'')
         | Some attr \<Rightarrow>
             rbind (if IsMap attr \<or> IsSlice attr
                    then rbind (assert_string val) (fromStr E) else Inr val) (\<lambda>value.
             rbind (encoded E C value) (\<lambda>data.
               Inr (AList.update (column_index (columns st) field) data cv)))))"

definition Row :: "'a env_scheme \<Rightarrow> scan_conv \<Rightarrow> 'q statement \<Rightarrow> drv list \<Rightarrow> L8OrmRow res" where
  "Row E C st ds =
     rbind (NewArgs E st) (\<lambda>ts.
     rbind (Scan C ts ds) (\<lambda>vals.
     rbind (assert_string (vals ! 0)) (\<lambda>pk.
     rbind (assert_string (vals ! 1)) (\<lambda>rk.
     rbind (mfold (store_column E C st) [] (zip (drop 2 (fields_list st)) (drop 2 vals))) (\<lambda>cv.
       Inr \<lparr>ParentKey = pk, RecKey = rk, ColumnValues = cv\<rparr>)))))"

end
