(* ===== verification/Go_Utf8.thy ===== *)
theory Go_Utf8
  imports Orm_Prelude
begin

text \<open>
  Ranging over a Go string: UTF-8 decoding into runes, an invalid byte giving U+FFFD, and
  \<open>WriteRune\<close>.  Strings are byte lists, runes natural numbers.
\<close>

abbreviation byte :: "char \<Rightarrow> nat" where
  "byte c \<equiv> of_char c"

definition is_cont :: "nat \<Rightarrow> nat \<Rightarrow> char \<Rightarrow> bool" where
  "is_cont lo hi c \<longleftrightarrow> lo \<le> byte c \<and> byte c \<le> hi"

text \<open>The rune that starts with byte \<open>n\<close>, given the bytes after it, and how many of them it takes.\<close>

definition multi_rune :: "nat \<Rightarrow> string \<Rightarrow> (nat \<times> nat) option" where
  "multi_rune n s =
     (if 194 \<le> n \<and> n \<le> 223 then
        (case s of
           b1 # t \<Rightarrow> if is_cont 128 191 b1 then Some ((n - 192) * 64 + (byte b1 - 128), 1) else None
         | _ \<Rightarrow> None)
      else if 224 \<le> n \<and> n \<le> 239 then
        (case s of
           b1 # b2 # t \<Rightarrow>
             if is_cont (if n = 224 then 160 else 128) (if n = 237 then 159 else 191) b1 \<and> is_cont 128 191 b2
             then Some ((n - 224) * 4096 + (byte b1 - 128) * 64 + (byte b2 - 128), 2) else None
         | _ \<Rightarrow> None)
      else if 240 \<le> n \<and> n \<le> 244 then
        (case s of
           b1 # b2 # b3 # t \<Rightarrow>
             if is_cont (if n = 240 then 144 else 128) (if n = 244 then 143 else 191) b1 \<and>
                is_cont 128 191 b2 \<and> is_cont 128 191 b3
             then Some ((n - 240) * 262144 + (byte b1 - 128) * 4096 + (byte b2 - 128) * 64 + (byte b3 - 128), 3)
             else None
         | _ \<Rightarrow> None)
      else None)"

function runes :: "string \<Rightarrow> nat list" where
  "runes [] = []"
| "runes (c # s) =
     (if byte c < 128 then byte c # runes s
      else case multi_rune (byte c) s of
             None \<Rightarrow> 65533 # runes s
           | Some (r, k) \<Rightarrow> r # runes (drop k s))"
  by pat_completeness auto
termination by (relation "measure length") auto

definition encode_rune :: "nat \<Rightarrow> string" where
  "encode_rune r =
     (if r < 128 then [char_of r]
      else if r < 2048 then [char_of (192 + r div 64), char_of (128 + r mod 64)]
      else if r < 65536 then
        [char_of (224 + r div 4096), char_of (128 + r div 64 mod 64), char_of (128 + r mod 64)]
      else
        [char_of (240 + r div 262144), char_of (128 + r div 4096 mod 64),
         char_of (128 + r div 64 mod 64), char_of (128 + r mod 64)])"

text \<open>Strings in which every sequence is well formed.\<close>

function valid_utf8 :: "string \<Rightarrow> bool" where
  "valid_utf8 [] = True"
| "valid_utf8 (c # s) =
     (if byte c < 128 then valid_utf8 s
      else case multi_rune (byte c) s of
             None \<Rightarrow> False
           | Some (r, k) \<Rightarrow> valid_utf8 (drop k s))"
  by pat_completeness auto
termination by (relation "measure length") auto

lemma byte_less: "byte c < 256"
  by (cases c) simp

lemma char_of_byte: "char_of (byte c) = c"
  by simp

lemma digit64: "(z :: nat) < 64 \<Longrightarrow> (a * 64 + z) div 64 = a" "(z :: nat) < 64 \<Longrightarrow> (a * 64 + z) mod 64 = z"
  by simp_all

lemma div_4096: "(r :: nat) div 4096 = r div 64 div 64" "(r :: nat) div 262144 = r div 64 div 64 div 64"
  by (simp_all add: div_mult2_eq [symmetric])

lemma encode_two:
  fixes n b :: nat
  assumes "194 \<le> n" "n \<le> 223" "128 \<le> b" "b \<le> 191"
  defines "r \<equiv> (n - 192) * 64 + (b - 128)"
  shows "192 + r div 64 = n" "128 + r mod 64 = b" "128 \<le> r" "r < 2048"
proof -
  define x z where "x = n - 192" and "z = b - 128"
  have x: "n = 192 + x" "2 \<le> x" "x \<le> 31" "b = 128 + z" "z < 64"
    using assms(1-4) by (simp_all add: x_def z_def)
  then show "192 + r div 64 = n" "128 + r mod 64 = b" "128 \<le> r" "r < 2048"
    by (simp_all add: r_def digit64)
qed

lemma encode_three:
  fixes n b d :: nat
  assumes "224 \<le> n" "n \<le> 239" "(if n = 224 then 160 else 128) \<le> b" "b \<le> 191" "128 \<le> d" "d \<le> 191"
  defines "r \<equiv> (n - 224) * 4096 + (b - 128) * 64 + (d - 128)"
  shows "224 + r div 4096 = n" "128 + r div 64 mod 64 = b" "128 + r mod 64 = d" "2048 \<le> r" "r < 65536"
proof -
  define x y z where "x = n - 224" and "y = b - 128" and "z = d - 128"
  have x: "n = 224 + x" "x \<le> 15" "b = 128 + y" "y < 64" "d = 128 + z" "z < 64" "x = 0 \<longrightarrow> 32 \<le> y"
    using assms(1-6) by (simp_all add: x_def y_def z_def split: if_splits)
  have r: "r = (x * 64 + y) * 64 + z" by (simp add: r_def x(1,3,5))
  show "224 + r div 4096 = n" "128 + r div 64 mod 64 = b" "128 + r mod 64 = d"
    unfolding div_4096 r digit64 [OF x(6)] digit64 [OF x(4)] using x by simp_all
  show "2048 \<le> r" "r < 65536" using x by (cases "x = 0"; simp add: r)+
qed

lemma encode_four:
  fixes n b d e :: nat
  assumes "240 \<le> n" "n \<le> 244" "(if n = 240 then 144 else 128) \<le> b" "b \<le> 191"
    and "128 \<le> d" "d \<le> 191" "128 \<le> e" "e \<le> 191"
  defines "r \<equiv> (n - 240) * 262144 + (b - 128) * 4096 + (d - 128) * 64 + (e - 128)"
  shows "240 + r div 262144 = n" "128 + r div 4096 mod 64 = b" "128 + r div 64 mod 64 = d"
    "128 + r mod 64 = e" "65536 \<le> r"
proof -
  define w x y z where "w = n - 240" and "x = b - 128" and "y = d - 128" and "z = e - 128"
  have x: "n = 240 + w" "b = 128 + x" "x < 64" "d = 128 + y" "y < 64" "e = 128 + z" "z < 64"
    "w = 0 \<longrightarrow> 16 \<le> x"
    using assms(1-8) by (simp_all add: w_def x_def y_def z_def split: if_splits)
  have r: "r = ((w * 64 + x) * 64 + y) * 64 + z" by (simp add: r_def x(1,2,4,6))
  show "240 + r div 262144 = n" "128 + r div 4096 mod 64 = b" "128 + r div 64 mod 64 = d" "128 + r mod 64 = e"
    unfolding div_4096 r digit64 [OF x(7)] digit64 [OF x(5)] digit64 [OF x(3)] using x by simp_all
  show "65536 \<le> r" using x by (cases "w = 0") (simp_all add: r)
qed

lemma multi_rune_two:
  assumes "multi_rune n s = Some (r, k)" "n \<le> 223"
  shows "\<exists>b t. s = b # t \<and> 194 \<le> n \<and> is_cont 128 191 b \<and> k = 1 \<and> r = (n - 192) * 64 + (byte b - 128)"
  using assms by (cases s) (simp_all add: multi_rune_def split: if_split_asm)

lemma multi_rune_three:
  assumes "multi_rune n s = Some (r, k)" "224 \<le> n" "n \<le> 239"
  shows "\<exists>b d t. s = b # d # t \<and>
    is_cont (if n = 224 then 160 else 128) (if n = 237 then 159 else 191) b \<and> is_cont 128 191 d \<and>
    k = 2 \<and> r = (n - 224) * 4096 + (byte b - 128) * 64 + (byte d - 128)"
proof -
  have "\<not> (194 \<le> n \<and> n \<le> 223)" using assms(2) by simp
  with assms(1) have "(case s of
           b1 # b2 # t \<Rightarrow>
             if is_cont (if n = 224 then 160 else 128) (if n = 237 then 159 else 191) b1 \<and> is_cont 128 191 b2
             then Some ((n - 224) * 4096 + (byte b1 - 128) * 64 + (byte b2 - 128), 2) else None
         | _ \<Rightarrow> None) = Some (r, k :: nat)"
    unfolding multi_rune_def using assms(2,3) by (simp only: if_False if_True conj_absorb simp_thms)
  then show ?thesis by (auto split: list.splits if_split_asm)
qed

lemma multi_rune_four:
  assumes "multi_rune n s = Some (r, k)" "240 \<le> n"
  shows "n \<le> 244 \<and> (\<exists>b d e t. s = b # d # e # t \<and>
    is_cont (if n = 240 then 144 else 128) (if n = 244 then 143 else 191) b \<and> is_cont 128 191 d \<and>
    is_cont 128 191 e \<and> k = 3 \<and>
    r = (n - 240) * 262144 + (byte b - 128) * 4096 + (byte d - 128) * 64 + (byte e - 128))"
proof -
  have "\<not> (194 \<le> n \<and> n \<le> 223)" "\<not> (224 \<le> n \<and> n \<le> 239)" using assms(2) by simp_all
  with assms(1) have "n \<le> 244 \<and> (case s of
           b1 # b2 # b3 # t \<Rightarrow>
             if is_cont (if n = 240 then 144 else 128) (if n = 244 then 143 else 191) b1 \<and>
                is_cont 128 191 b2 \<and> is_cont 128 191 b3
             then Some ((n - 240) * 262144 + (byte b1 - 128) * 4096 + (byte b2 - 128) * 64 + (byte b3 - 128), 3)
             else None
         | _ \<Rightarrow> None) = Some (r, k :: nat)"
    unfolding multi_rune_def using assms(2) by (cases "n \<le> 244") (simp_all only: if_False if_True simp_thms option.distinct)
  then show ?thesis by (auto split: list.splits if_split_asm)
qed

lemma encode_multi_rune:
  assumes "multi_rune (byte c) s = Some (r, k)"
  shows "encode_rune r = c # take k s \<and> 128 \<le> r"
proof -
  consider "byte c \<le> 223" | "224 \<le> byte c" "byte c \<le> 239" | "240 \<le> byte c" by linarith
  then show ?thesis
  proof cases
    case 1
    from multi_rune_two [OF assms 1] obtain b t where "s = b # t" "194 \<le> byte c" "is_cont 128 191 b" "k = 1"
      "r = (byte c - 192) * 64 + (byte b - 128)" by blast
    with 1 show ?thesis
      using encode_two [of "byte c" "byte b"] by (simp add: encode_rune_def is_cont_def)
  next
    case 2
    from multi_rune_three [OF assms 2] obtain b d t where b: "s = b # d # t"
      "is_cont (if byte c = 224 then 160 else 128) (if byte c = 237 then 159 else 191) b"
      "is_cont 128 191 d" "k = 2" "r = (byte c - 224) * 4096 + (byte b - 128) * 64 + (byte d - 128)"
      by blast
    then have lo: "(if byte c = 224 then 160 else 128) \<le> byte b" "byte b \<le> 191" "128 \<le> byte d" "byte d \<le> 191"
      by (simp_all add: is_cont_def split: if_splits)
    note e = encode_three [OF 2 lo, folded b(5)]
    then have "\<not> r < 128" "\<not> r < 2048" by simp_all
    then have "encode_rune r = [char_of (byte c), char_of (byte b), char_of (byte d)]"
      using e by (simp only: encode_rune_def if_False if_True)
    with b e(4) show ?thesis by (simp add: numeral_2_eq_2)
  next
    case 3
    from multi_rune_four [OF assms 3] obtain b d f t where n: "byte c \<le> 244" and b: "s = b # d # f # t"
      "is_cont (if byte c = 240 then 144 else 128) (if byte c = 244 then 143 else 191) b"
      "is_cont 128 191 d" "is_cont 128 191 f" "k = 3"
      "r = (byte c - 240) * 262144 + (byte b - 128) * 4096 + (byte d - 128) * 64 + (byte f - 128)"
      by blast
    then have lo: "(if byte c = 240 then 144 else 128) \<le> byte b" "byte b \<le> 191" "128 \<le> byte d" "byte d \<le> 191"
      "128 \<le> byte f" "byte f \<le> 191"
      by (simp_all add: is_cont_def split: if_splits)
    note e = encode_four [OF 3 n lo, folded b(6)]
    then have "\<not> r < 128" "\<not> r < 2048" "\<not> r < 65536" by simp_all
    then have "encode_rune r = [char_of (byte c), char_of (byte b), char_of (byte d), char_of (byte f)]"
      using e by (simp only: encode_rune_def if_False if_True)
    with b e(5) show ?thesis by (simp add: numeral_3_eq_3)
  qed
qed

lemma multi_rune_bytes:
  assumes "multi_rune (byte c) s = Some (r, k)" "128 \<le> byte c"
  shows "\<forall>b \<in> set (c # take k s). 128 \<le> byte b"
proof -
  consider "byte c \<le> 223" | "224 \<le> byte c" "byte c \<le> 239" | "240 \<le> byte c" by linarith
  then show ?thesis
  proof cases
    case 1
    from multi_rune_two [OF assms(1) 1] assms(2) show ?thesis by (auto simp: is_cont_def)
  next
    case 2
    from multi_rune_three [OF assms(1) 2] assms(2) show ?thesis
      by (auto simp: is_cont_def numeral_2_eq_2 split: if_splits)
  next
    case 3
    from multi_rune_four [OF assms(1) 3] assms(2) show ?thesis
      by (auto simp: is_cont_def numeral_3_eq_3 split: if_splits)
  qed
qed

lemma encode_runes: "valid_utf8 s \<Longrightarrow> concat (map encode_rune (runes s)) = s"
proof (induction s rule: runes.induct)
  case (2 c s)
  show ?case
  proof (cases "byte c < 128")
    case True
    with 2 show ?thesis by (simp add: encode_rune_def)
  next
    case False
    with 2(4) obtain r k where m: "multi_rune (byte c) s = Some (r, k)" "valid_utf8 (drop k s)"
      by (auto split: option.splits)
    with 2(3) [OF False m(1) refl m(2)] False encode_multi_rune [OF m(1)] show ?thesis
      by simp
  qed
qed simp

end
