(* ===== verification/Sql_Query.thy ===== *)
theory Sql_Query
  imports Sql_Stmt Go_Utf8
begin

text \<open>
  stmt/QueryToSql.go, Delete.go and MetaData.go: from queries to SQL text.  A query is
  what the source reads of an \<open>ifs.IQuery\<close>.  Its parts are interface values, which in Go
  are nil, hold a nil pointer, or hold an object; \<open>== nil\<close> and \<open>isNil\<close> differ on the second.
\<close>

section \<open>Queries\<close>

datatype 'b iface = NilIface | NilPtr | Obj 'b

definition isNil :: "'b iface \<Rightarrow> bool" where
  "isNil i = (case i of Obj x \<Rightarrow> False | _ \<Rightarrow> True)"

text \<open>
  A property of a query: its path, the type of its parent node (absent for a root), its field,
  its kind.
\<close>

record qproperty =
  PropPath :: string
  ParentType :: "string option"
  PropField :: string
  IsString :: bool

datatype comparator = Comparator
  (CLeft: string) (COperator: string) (CRight: string)
  (LeftProperty: "qproperty iface") (RightProperty: "qproperty iface")

datatype condition = Condition
  (CondComparator: "comparator iface") (CondOperator: string) (CondNext: "condition iface")

datatype qexpression = Expression
  (ExpCondition: "condition iface") (ExpOperator: string) (ExpNext: "qexpression iface")

record aggregate =
  Function :: string
  Field :: string
  Alias :: string

record iquery =
  RootType :: l8node
  Properties :: "qproperty list"
  Criteria :: "qexpression iface"
  Aggregates :: "aggregate list"
  GroupBy :: "string list"
  Having :: "qexpression iface"
  SortBy :: string
  Descending :: bool
  Limit :: int32
  Page :: int32
  IsAggregate :: bool
  AAAId :: string
  QHash :: int64

section \<open>Comparisons\<close>

definition stripQuotes :: "string \<Rightarrow> string" where
  "stripQuotes s =
     (if 2 \<le> length s \<and> (hd s = CHR 0x27 \<and> last s = CHR 0x27 \<or> hd s = CHR 0x22 \<and> last s = CHR 0x22)
      then butlast (tl s) else s)"

definition convertWildcard :: "string \<Rightarrow> string \<times> bool" where
  "convertWildcard v =
     (if CHR ''*'' \<in> set v then (map (\<lambda>c. if c = CHR ''*'' then CHR ''%'' else c) v, True) else (v, False))"

text \<open>The test whether a property belongs to a table; \<open>Node().Parent\<close> of a root is a nil pointer.\<close>

definition prop_of_type :: "string \<Rightarrow> qproperty iface \<Rightarrow> (bool \<times> bool) res" where
  "prop_of_type typeName p =
     (case p of
        Obj q \<Rightarrow>
          (case ParentType q of
             None \<Rightarrow> Inl (Panic ''invalid memory address or nil pointer dereference'')
           | Some t \<Rightarrow> Inr (if t = typeName then (True, IsString q) else (False, False)))
      | _ \<Rightarrow> Inr (False, False))"

definition quoted :: "string \<Rightarrow> string" where
  "quoted s = [CHR 0x27] @ s @ [CHR 0x27]"

definition comparator_sql :: "comparator iface \<Rightarrow> string \<Rightarrow> (bool \<times> string) res" where
  "comparator_sql cmp typeName =
     (case cmp of
        Obj (Comparator left op right lp rp) \<Rightarrow>
          rbind (prop_of_type typeName lp) (\<lambda>(leftOK, leftString).
          rbind (prop_of_type typeName rp) (\<lambda>(rightOK, rightString).
            Inr (leftOK \<or> rightOK,
              if leftString \<and> \<not> rightString then
                (let (v, hasWildcard) = convertWildcard (stripQuotes right)
                 in left @ (if hasWildcard \<and> op = ''='' then '' LIKE '' else op) @ quoted v)
              else if \<not> leftString \<and> rightString then
                (let (v, hasWildcard) = convertWildcard (stripQuotes left)
                 in quoted v @ (if hasWildcard \<and> op = ''='' then '' LIKE '' else op) @ right)
              else left @ op @ right)))
      | _ \<Rightarrow> Inr (False, []))"

function condition_sql :: "condition iface \<Rightarrow> string \<Rightarrow> (bool \<times> string) res" where
  "condition_sql (Obj (Condition cmp op nxt)) typeName =
     rbind (comparator_sql cmp typeName) (\<lambda>(okCond, exp1).
     rbind (condition_sql nxt typeName) (\<lambda>(okNext, exp2).
       Inr (okCond \<or> okNext, (if okCond then exp1 else []) @ (if okNext then op @ exp2 else []))))"
| "condition_sql NilIface typeName = Inr (False, [])"
| "condition_sql NilPtr typeName = Inr (False, [])"
  by pat_completeness auto
termination by (relation "measure (\<lambda>(c, t). size_iface size c)") auto

function expression_sql :: "qexpression iface \<Rightarrow> string \<Rightarrow> (bool \<times> string) res" where
  "expression_sql (Obj (Expression cond op nxt)) typeName =
     rbind (condition_sql cond typeName) (\<lambda>(condOK, condStr).
     rbind (expression_sql nxt typeName) (\<lambda>(nextOK, nextStr).
       Inr (condOK \<or> nextOK,
         (if condOK then ''('' @ condStr else []) @
         (if nextOK then (if \<not> condOK then ''('' else []) @ op @ nextStr else []) @
         (if nextOK \<or> condOK then '')'' else []))))"
| "expression_sql NilIface typeName = Inr (False, [])"
| "expression_sql NilPtr typeName = Inr (False, [])"
  by pat_completeness auto
termination by (relation "measure (\<lambda>(c, t). size_iface size c)") auto

section \<open>Statements for a query\<close>

definition where_clause :: "string \<Rightarrow> qexpression iface \<Rightarrow> iquery \<Rightarrow> string res" where
  "where_clause keyword e query =
     rbind (expression_sql e (TypeName (RootType query))) (\<lambda>(ok, str).
       Inr (if ok then keyword @ str else []))"

definition order_by :: "iquery \<Rightarrow> string" where
  "order_by query =
     (if SortBy query \<noteq> [] then '' ORDER BY '' @ SortBy query @ (if Descending query then '' DESC'' else '' ASC'')
      else [])"

definition limit_offset :: "iquery \<Rightarrow> string" where
  "limit_offset query =
     (if 0 < sint (Limit query) then '' LIMIT '' @ itoa (sint (Limit query)) else []) @
     (if 0 < sint (Page query) \<and> 0 < sint (Limit query)
      then '' OFFSET '' @ itoa (sint (Page query * Limit query)) else [])"

definition root_table :: "iquery \<Rightarrow> string \<Rightarrow> bool" where
  "root_table query typeName \<longleftrightarrow> typeName = TypeName (RootType query)"

definition Query2CountSql :: "iquery option \<Rightarrow> string \<Rightarrow> string res" where
  "Query2CountSql query typeName =
     (case query of
        Some q \<Rightarrow>
          if Criteria q \<noteq> NilIface \<and> root_table q typeName
          then rbind (where_clause '' WHERE '' (Criteria q) q) (\<lambda>w.
                 Inr (''SELECT COUNT(*) FROM '' @ typeName @ w))
          else Inr (''SELECT COUNT(*) FROM '' @ typeName)
      | None \<Rightarrow> Inr (''SELECT COUNT(*) FROM '' @ typeName))"

definition agg_item :: "aggregate \<Rightarrow> string" where
  "agg_item agg = to_upper (Function agg) @ ''('' @ Field agg @ '') AS '' @ Alias agg"

text \<open>The two loops of \<open>query2AggregateSql\<close> share the flag \<open>first\<close>.\<close>

definition query2AggregateSql :: "iquery \<Rightarrow> string \<Rightarrow> string res" where
  "query2AggregateSql query typeName =
     (let buff = join_loop '','' True (GroupBy query) ''Select '';
          buff = join_loop '','' (GroupBy query = []) (map agg_item (Aggregates query)) buff @ '' from '' @ typeName
      in rbind (if Criteria query \<noteq> NilIface \<and> root_table query typeName
                then where_clause '' where '' (Criteria query) query else Inr []) (\<lambda>w.
         rbind (if Having query \<noteq> NilIface \<and> root_table query typeName
                then where_clause '' HAVING '' (Having query) query else Inr []) (\<lambda>h.
         Inr (buff @ w @
           (if GroupBy query = [] then [] else join_loop '','' True (GroupBy query) '' GROUP BY '') @
           h @ order_by query @ limit_offset query))))"

definition AggregateSql :: "iquery \<Rightarrow> string res" where
  "AggregateSql query = query2AggregateSql query (TypeName (RootType query))"

text \<open>
  The projection loop of \<open>Query2Sql\<close>: a comma for every property of the query, the field
  only for those of the table; it collects the fields of the statement.
\<close>

fun project_loop :: "string \<Rightarrow> qproperty list \<Rightarrow> string list \<times> string \<Rightarrow> (string list \<times> string) res" where
  "project_loop typeName [] s = Inr s"
| "project_loop typeName (p # ps) (fs, buff) =
     (case ParentType p of
        None \<Rightarrow> Inl (Panic ''invalid memory address or nil pointer dereference'')
      | Some t \<Rightarrow>
          if t = typeName then project_loop typeName ps (fs @ [PropField p], buff @ '','' @ PropField p)
          else project_loop typeName ps (fs, buff @ '',''))"

definition select_list ::
    "'a env_scheme \<Rightarrow> iquery \<Rightarrow> string \<Rightarrow> 'q statement \<Rightarrow> (string \<times> 'q statement) res" where
  "select_list E query typeName st =
     (if Properties query = [] then
        (let st = ensure_fields E st in Inr (join_loop '','' True (fields_list st) ''Select '', st))
      else rbind (project_loop typeName (Properties query)
                   ([''ParentKey'', ''RecKey''], ''Select ParentKey,RecKey''))
             (\<lambda>(fs, buff). Inr (buff, st\<lparr>sfields := Some fs\<rparr>)))"

text \<open>The result is the text and whether the query selects from this table at all.\<close>

definition Query2Sql ::
    "'a env_scheme \<Rightarrow> iquery \<Rightarrow> string \<Rightarrow> 'q statement \<Rightarrow> ((string \<times> bool) \<times> 'q statement) res" where
  "Query2Sql E query typeName st =
     (if Aggregates query \<noteq> [] then rbind (query2AggregateSql query typeName) (\<lambda>s. Inr ((s, True), st))
      else rbind (select_list E query typeName st) (\<lambda>(buff, st).
        if Properties query \<noteq> [] \<and> length (fields_list st) = 2 then Inr (([], False), st)
        else
          let buff = buff @ '' from '' @ typeName in
          if Criteria query = NilIface then Inr ((buff, True), st)
          else if root_table query typeName then
            rbind (where_clause '' where '' (Criteria query) query) (\<lambda>w.
              Inr ((buff @ w @ order_by query @ limit_offset query, True), st))
          else Inr ((buff, True), st)))"

definition Query2RecKeysSql :: "iquery \<Rightarrow> string \<Rightarrow> string res" where
  "Query2RecKeysSql query typeName =
     rbind (if Criteria query \<noteq> NilIface \<and> root_table query typeName
            then where_clause '' WHERE '' (Criteria query) query else Inr []) (\<lambda>w.
       Inr (''SELECT RecKey FROM '' @ typeName @ w @ order_by query))"

definition escapeSQL :: "string \<Rightarrow> string" where
  "escapeSQL s = concat (map (\<lambda>c. (if c = 0x27 then encode_rune 0x27 else []) @ encode_rune c) (runes s))"

definition Query2SqlByRecKeys ::
    "'a env_scheme \<Rightarrow> string \<Rightarrow> string list \<Rightarrow> 'q statement \<Rightarrow> string \<times> 'q statement" where
  "Query2SqlByRecKeys E typeName recKeys st =
     (let st = ensure_fields E st
      in (join_loop '','' True (map (\<lambda>key. quoted (escapeSQL key)) recKeys)
            (join_loop '','' True (fields_list st) ''SELECT '' @ '' FROM '' @ typeName @ '' WHERE RecKey IN ('')
          @ '')'', st))"

section \<open>Delete statements\<close>

definition DeleteStatement_sql :: "iquery statement \<Rightarrow> string \<Rightarrow> string res" where
  "DeleteStatement_sql st parentKeyPattern =
     rbind (if parentKeyPattern \<noteq> []
            then Inr ('' WHERE ParentKey LIKE '' @ quoted (parentKeyPattern @ ''%''))
            else case squery st of
                   Some q \<Rightarrow>
                     if Criteria q \<noteq> NilIface then where_clause '' WHERE '' (Criteria q) q else Inr []
                 | None \<Rightarrow> Inr [])
       (\<lambda>w. Inr (''DELETE FROM '' @ TypeName (node st) @ w @ '';''))"

definition DeleteByKeysStatement_sql :: "'q statement \<Rightarrow> string list \<Rightarrow> string option" where
  "DeleteByKeysStatement_sql st keys =
     (if keys = [] then None
      else Some (join_loop '' OR '' True (map (\<lambda>key. ''ParentKey LIKE '' @ quoted (key @ ''%'')) keys)
                   (''DELETE FROM '' @ TypeName (node st) @ '' WHERE '') @ '';''))"

definition Query2DeleteSql :: "iquery \<Rightarrow> string \<Rightarrow> (string \<times> bool) res" where
  "Query2DeleteSql query typeName =
     (if Criteria query = NilIface then Inr (''DELETE FROM '' @ typeName, True)
      else if root_table query typeName then
        rbind (where_clause '' WHERE '' (Criteria query) query) (\<lambda>w.
          Inr (''DELETE FROM '' @ typeName @ w, True))
      else Inr (''DELETE FROM '' @ typeName, True))"

section \<open>The select statement\<close>

text \<open>
  Select.go, createSelectStatement: no statement is made, and none is returned, when the
  query selects nothing from the table.
\<close>

definition create_select ::
    "'a env_scheme \<Rightarrow> (string \<Rightarrow> unit res) \<Rightarrow> iquery statement \<Rightarrow> iquery statement res" where
  "create_select E prepare st =
     (case squery st of
        Some q \<Rightarrow>
          rbind (Query2Sql E q (TypeName (node st)) st) (\<lambda>((s, ok), st).
            if \<not> ok then Inr st
            else rbind (prepare s) (\<lambda>_. Inr (st\<lparr>selectStmt := Some s\<rparr>)))
      | None \<Rightarrow>
          let st = ensure_fields E st;
              s = join_loop '','' True (fields_list st) ''Select '' @ '' from '' @ TypeName (node st) @ '';''
          in rbind (prepare s) (\<lambda>_. Inr (st\<lparr>selectStmt := Some s\<rparr>)))"

definition SelectStatement ::
    "'a env_scheme \<Rightarrow> (string \<Rightarrow> unit res) \<Rightarrow> iquery statement \<Rightarrow> (string option \<times> iquery statement) res" where
  "SelectStatement E prepare st =
     (case selectStmt st of
        Some s \<Rightarrow> Inr (Some s, st)
      | None \<Rightarrow> rbind (create_select E prepare st) (\<lambda>st. Inr (selectStmt st, st)))"

text \<open>
  MetaData.go: the count, \<^const>\<open>None\<close> when preparing, running or scanning fails; a result
  without a row counts as zero.  \<open>run\<close> answers the query with the first row, if any.
\<close>

definition MetaData ::
    "(string \<Rightarrow> unit res) \<Rightarrow> (string \<Rightarrow> int option res) \<Rightarrow> iquery statement
     \<Rightarrow> (int option \<times> iquery statement) res" where
  "MetaData prepare run st =
     rbind (case metaDataStmt st of
              Some s \<Rightarrow> Inr (Some s, st)
            | None \<Rightarrow>
                rbind (Query2CountSql (squery st) (TypeName (node st))) (\<lambda>s.
                  case prepare s of
                    Inr u \<Rightarrow> Inr (Some s, st\<lparr>metaDataStmt := Some s\<rparr>)
                  | Inl (Err m) \<Rightarrow> Inr (None, st)
                  | Inl (Panic m) \<Rightarrow> Inl (Panic m)))
       (\<lambda>(stmt, st).
          case stmt of
            None \<Rightarrow> Inr (None, st)
          | Some s \<Rightarrow>
              (case run s of
                 Inr r \<Rightarrow> Inr (Some (case r of None \<Rightarrow> 0 | Some n \<Rightarrow> n), st)
               | Inl (Err m) \<Rightarrow> Inr (None, st)
               | Inl (Panic m) \<Rightarrow> Inl (Panic m)))"

end
