(* ===== verification/Convert_Schema.thy ===== *)
theory Convert_Schema
  imports Sql_Query
begin

text \<open>
  convert/Utils.go: the empty relational data for a query or a type, with a table and its
  columns for every type the query touches.
\<close>

section \<open>Names of properties\<close>

text \<open>
  Attribute names without regard to case.  The source keeps the table of lower case names of
  a type once it is made; here it is made anew, with the range order named by the type,
  which is the same table as long as the nodes of a type have the same attributes.
\<close>

definition lower_names :: "'a env_scheme \<Rightarrow> l8node \<Rightarrow> (string, string) gomap" where
  "lower_names E n =
     fold (\<lambda>(name, attr) m. AList.update (to_lower name) name m)
       (range_loop (rng E (''getAttrName'', TypeName n)) (Attributes n)) []"

text \<open>The attribute a path starts with, and the rest of the path.\<close>

definition getAttrName :: "'a env_scheme \<Rightarrow> string \<Rightarrow> l8node \<Rightarrow> (string \<times> string) res" where
  "getAttrName E property n =
     (let index = str_index CHR ''.'' property;
          attrName = (if index \<noteq> -1 then take (nat index) property else property);
          attrProp = (if index \<noteq> -1 then drop (nat index + 1) property else [])
      in if map_of (Attributes n) attrName \<noteq> None then Inr (attrName, attrProp)
         else case map_of (lower_names E n) (to_lower attrName) of
                None \<Rightarrow> Inl (Panic (property @ '' does not exist''))
              | Some name \<Rightarrow>
                  if name = [] then Inl (Panic (property @ '' does not exist'')) else Inr (name, attrProp))"

section \<open>Tables\<close>

definition nil_panic :: "'b res" where
  "nil_panic = Inl (Panic ''invalid memory address or nil pointer dereference'')"

text \<open>One property of the projection: a column of this table, or a path into a sub-table.\<close>

definition add_property ::
    "'a env_scheme \<Rightarrow> l8node \<Rightarrow> L8OrmRData \<times> string list \<Rightarrow> string \<Rightarrow> (L8OrmRData \<times> string list) res" where
  "add_property E n s property =
     (case s of (data, subs) \<Rightarrow>
        rbind (getAttrName E property n) (\<lambda>(attrName, subProperty).
          if subProperty \<noteq> [] then Inr (data, subs @ [property])
          else case map_of (Attributes n) attrName of
            None \<Rightarrow> nil_panic
          | Some attr \<Rightarrow>
              if IsStruct attr
              then Inl (Err (''Trying to get attribute '' @ FieldName attr @ '' from '' @ TypeName n
                     @ '', which is a table''))
              else Inr (on_table (TypeName n) (\<lambda>t. addColumn t (FieldName attr)) data, subs)))"

text \<open>\<open>properties\<close> is nil, or the list of paths below this node.\<close>

function addTable ::
    "'a env_scheme \<Rightarrow> l8node \<Rightarrow> string list option \<Rightarrow> L8OrmRData \<Rightarrow> L8OrmRData res" where
  "addTable E n properties data =
     (if map_of (Tables data) (TypeName n) \<noteq> None \<and> properties = None then Inr data
      else
        let data = data\<lparr>Tables := AList.update (TypeName n) (new_table (TypeName n)) (Tables data)\<rparr> in
        case (case properties of None \<Rightarrow> [] | Some ps \<Rightarrow> ps) of
          [] \<Rightarrow>
            mfold (\<lambda>data (attrName, attr).
                     if IsStruct attr then
                       (if IsTimeSeriesType (TypeName attr) then Inr data else addTable E attr None data)
                     else Inr data)
              (on_table (TypeName n) (SetColumns E n) data)
              (range_loop (rng E (''addTable'', TypeName n)) (Attributes n))
        | p # ps \<Rightarrow>
            rbind (mfold (add_property E n) (data, []) (p # ps)) (\<lambda>(data, subs).
              mfold (\<lambda>data subProperty.
                       rbind (getAttrName E subProperty n) (\<lambda>(attrName, property).
                         case map_of (Attributes n) attrName of
                           None \<Rightarrow> nil_panic
                         | Some attr \<Rightarrow> addTable E attr (Some [property]) data))
                data subs))"
  by pat_completeness auto
termination
  by (relation "measure (\<lambda>(E, n, properties, data). size n)")
    (auto dest!: range_loop_in map_of_SomeD size_Attributes)

declare addTable.simps [simp del]

text \<open>The path of a property without its first component, the root.\<close>

definition query_path :: "qproperty \<Rightarrow> string" where
  "query_path p = (let index = str_index CHR ''.'' (PropPath p) in drop (nat (index + 1)) (PropPath p))"

definition NewRelationsDataForQuery :: "'a env_scheme \<Rightarrow> iquery \<Rightarrow> L8OrmRData res" where
  "NewRelationsDataForQuery E q =
     addTable E (RootType q) (Some (map query_path (Properties q))) (new_rdata (TypeName (RootType q)))"

definition NewRelationalDataForType ::
    "'a env_scheme \<Rightarrow> (string \<Rightarrow> l8node option) \<Rightarrow> string \<Rightarrow> L8OrmRData res" where
  "NewRelationalDataForType E nodeByName typeName =
     (case nodeByName typeName of
        None \<Rightarrow> Inl (Err (''Did not find any node for '' @ typeName))
      | Some n \<Rightarrow> addTable E n (Some [typeName]) (new_rdata typeName))"

end
