(* ===== verification/Type_Graph.thy ===== *)
theory Type_Graph
  imports Demo_Env Convert_Inv
begin

text \<open>
  The graph of types below a type node, over which the program recurses to find its tables:
  the reachable nodes, what exploring one of them adds to a set of seen names, and the
  reachable nodes of the demonstration type.
\<close>

text \<open>The nodes that a type reaches through its sub-tables.\<close>

inductive reach :: "l8node \<Rightarrow> l8node \<Rightarrow> bool" for n where
  self: "reach n n"
| sub: "reach n m \<Longrightarrow> (a, k) \<in> set (Attributes m) \<Longrightarrow> sub_attr (a, k) \<Longrightarrow> reach n k"

lemma reach_trans: "reach m k \<Longrightarrow> reach n m \<Longrightarrow> reach n k"
  by (induction rule: reach.induct) (auto intro: reach.intros)

text \<open>Nodes of the same type have the same attributes, and attribute names are distinct.\<close>

definition consistent :: "l8node \<Rightarrow> bool" where
  "consistent n \<longleftrightarrow> (\<forall>m. reach n m \<longrightarrow> distinct (gkeys (Attributes m)) \<and>
     (\<forall>k. reach n k \<longrightarrow> TypeName k = TypeName m \<longrightarrow> Attributes k = Attributes m))"

lemma consistentD:
  assumes "consistent n" "reach n m"
  shows "distinct (gkeys (Attributes m))"
    and "reach n k \<Longrightarrow> TypeName k = TypeName m \<Longrightarrow> Attributes k = Attributes m"
  using assms unfolding consistent_def by blast+

definition names_of :: "(string, bool) gomap \<Rightarrow> string set" where
  "names_of tables = set (gkeys tables)"

text \<open>The names of \<open>new\<close> beyond \<open>old\<close> are closed under sub-tables.\<close>

definition closed_beyond :: "l8node \<Rightarrow> string set \<Rightarrow> string set \<Rightarrow> bool" where
  "closed_beyond r old new \<longleftrightarrow> (\<forall>m a k. reach r m \<longrightarrow> TypeName m \<in> new - old \<longrightarrow>
     (a, k) \<in> set (Attributes m) \<longrightarrow> sub_attr (a, k) \<longrightarrow> TypeName k \<in> new)"

lemma closed_beyond_trans:
  "closed_beyond r A B \<Longrightarrow> closed_beyond r B C \<Longrightarrow> B \<subseteq> C \<Longrightarrow> closed_beyond r A C"
  unfolding closed_beyond_def by blast

text \<open>What exploring a node does to the names seen so far.\<close>

definition explores :: "l8node \<Rightarrow> l8node \<Rightarrow> string set \<Rightarrow> string set \<Rightarrow> bool" where
  "explores r n old new \<longleftrightarrow>
     old \<subseteq> new \<and> new \<subseteq> old \<union> TypeName ` Collect (reach n) \<and> closed_beyond r old new"

lemma explores_refl: "explores r n A A"
  by (simp add: explores_def closed_beyond_def)

lemma explores_trans: "explores r n A B \<Longrightarrow> explores r n B C \<Longrightarrow> explores r n A C"
  unfolding explores_def using closed_beyond_trans [of r A B C] by blast

lemma explores_sub: "explores r k A B \<Longrightarrow> reach n k \<Longrightarrow> explores r n A B"
  unfolding explores_def using reach_trans by blast

lemma fold_explores:
  assumes "\<And>p S. p \<in> set xs \<Longrightarrow>
      explores r n (names_of S) (names_of (F p S)) \<and> (sub_attr p \<longrightarrow> TypeName (snd p) \<in> names_of (F p S))"
  shows "explores r n (names_of S) (names_of (fold F xs S)) \<and>
    (\<forall>p \<in> set xs. sub_attr p \<longrightarrow> TypeName (snd p) \<in> names_of (fold F xs S))"
  using assms
proof (induction xs arbitrary: S)
  case (Cons p xs)
  have p: "explores r n (names_of S) (names_of (F p S))" "sub_attr p \<Longrightarrow> TypeName (snd p) \<in> names_of (F p S)"
    using Cons.prems by simp_all
  have rest: "explores r n (names_of (F p S)) (names_of (fold F xs (F p S)))"
    "\<forall>q \<in> set xs. sub_attr q \<longrightarrow> TypeName (snd q) \<in> names_of (fold F xs (F p S))"
    using Cons.IH [of "F p S"] Cons.prems by simp_all
  have "explores r n (names_of S) (names_of (fold F (p # xs) S))"
    using explores_trans [OF p(1) rest(1)] by simp
  moreover have "TypeName (snd p) \<in> names_of (fold F xs (F p S))" if "sub_attr p"
    using p(2) [OF that] rest(1) by (auto simp: explores_def)
  ultimately show ?case using rest(2) by simp
qed (simp add: explores_refl)

text \<open>A node whose sub-tables are all seen is closed, and with it all nodes of its name.\<close>

lemma closes_node:
  assumes "consistent r" "reach r n" "explores r n (insert (TypeName n) A) B"
    and "\<And>p. p \<in> set (Attributes n) \<Longrightarrow> sub_attr p \<Longrightarrow> TypeName (snd p) \<in> B"
  shows "explores r n A B \<and> TypeName n \<in> B"
proof -
  have "closed_beyond r A B"
    unfolding closed_beyond_def
  proof (intro allI impI)
    fix m a k assume m: "reach r m" "TypeName m \<in> B - A"
      and ak: "(a, k) \<in> set (Attributes m)" "sub_attr (a, k)"
    show "TypeName k \<in> B"
    proof (cases "TypeName m = TypeName n")
      case True
      then have "Attributes m = Attributes n" using consistentD(2) [OF assms(1,2) m(1)] by simp
      with ak assms(4) [of "(a, k)"] show ?thesis by simp
    next
      case False
      with m have "TypeName m \<in> B - insert (TypeName n) A" by simp
      with assms(3) m(1) ak show ?thesis unfolding explores_def closed_beyond_def by blast
    qed
  qed
  moreover have "TypeName n \<in> TypeName ` Collect (reach n)" by (simp add: reach.self)
  ultimately show ?thesis using assms(3) unfolding explores_def by auto
qed

text \<open>Explored from nothing, the names are those of the reachable nodes.\<close>

lemma explores_all:
  assumes "explores n n {} N" "TypeName n \<in> N"
  shows "N = TypeName ` Collect (reach n)"
proof -
  have "TypeName m \<in> N" if "reach n m" for m
    using that
  proof induction
    case (sub m a k)
    with assms(1) show ?case unfolding explores_def closed_beyond_def by blast
  qed (rule assms(2))
  with assms(1) show ?thesis by (auto simp: explores_def)
qed

section \<open>The demonstration type\<close>

text \<open>The reachable nodes are those of the tree.\<close>

lemma nodes_of_reach: "m \<in> set (nodes_of n) \<Longrightarrow> reach n m"
proof (induction n rule: nodes_of.induct)
  case (1 tn fn s mp sl k attrs)
  let ?n = "L8Node tn fn s mp sl k attrs"
  show ?case
  proof (cases "m = ?n")
    case False
    with "1.prems" obtain p where p: "p \<in> set attrs" "sub_attr p" "m \<in> set (nodes_of (snd p))"
      by (auto split: if_splits)
    have "reach ?n (snd p)" using p(1,2) by (intro reach.sub [OF reach.self, of "fst p"]) simp_all
    then show ?thesis using reach_trans 1(1) p by blast
  qed (simp add: reach.self)
qed

lemma reach_nodes: "reach n m \<longleftrightarrow> m \<in> set (nodes_of n)"
proof
  show "reach n m \<Longrightarrow> m \<in> set (nodes_of n)"
    by (induction rule: reach.induct) (auto intro: nodes_of_closed)
qed (rule nodes_of_reach)

lemma consistent_nodes:
  "consistent n \<longleftrightarrow> (\<forall>m \<in> set (nodes_of n). distinct (gkeys (Attributes m)) \<and>
     (\<forall>k \<in> set (nodes_of n). TypeName k = TypeName m \<longrightarrow> Attributes k = Attributes m))"
  by (auto simp: consistent_def reach_nodes)

lemma consistent_demo: "consistent demo_node"
  unfolding consistent_nodes by code_simp

end
