(* ===== verification/Sql_Stmt_Correct.thy ===== *)
theory Sql_Stmt_Correct
  imports Sql_Stmt Convert_Inv Demo_Env
begin

text \<open>
  The statements of a table: field numbering, parameter binding, statement texts, and the
  way of a row through a table and back.
\<close>

section \<open>Field numbering\<close>

definition key_fields :: "string list" where
  "key_fields = [''ParentKey'', ''RecKey'']"

text \<open>Tables have no attribute named like the two key columns.\<close>

definition stmt_node :: "l8node \<Rightarrow> bool" where
  "stmt_node n \<longleftrightarrow> distinct (gkeys (Attributes n)) \<and> set key_fields \<inter> set (scalar_names n) = {}"

definition numbered :: "string list \<Rightarrow> (string, int) gomap" where
  "numbered fs = zip fs (map (\<lambda>i. int i + 1) [0..<length fs])"

lemma numbered_snoc: "numbered (fs @ [f]) = numbered fs @ [(f, int (length fs) + 1)]"
  by (simp add: numbered_def)

lemma map_fst_numbered [simp]: "map fst (numbered fs) = fs"
  by (simp add: numbered_def)

lemma length_numbered [simp]: "length (numbered fs) = length fs"
  by (simp add: numbered_def)

lemma value_pos_numbered:
  assumes "distinct fs" "i < length fs"
  shows "value_pos (numbered fs) (fs ! i) = int i + 1"
proof -
  have "map_of (numbered fs) (fs ! i) = Some (map (\<lambda>i. int i + 1) [0..<length fs] ! i)"
    unfolding numbered_def using assms by (intro map_of_zip_nth) simp_all
  with assms(2) show ?thesis by (simp add: value_pos_def)
qed

lemma number_fields_numbered:
  assumes "distinct (fs @ map fst (filter scalar_attr attrs))"
  shows "number_fields attrs (fs, numbered fs, int (length fs) + 1) =
     (let gs = fs @ map fst (filter scalar_attr attrs) in (gs, numbered gs, int (length gs) + 1))"
  using assms
proof (induction attrs arbitrary: fs)
  case (Cons p attrs)
  obtain a n where p: "p = (a, n)" by (cases p)
  show ?case
  proof (cases "IsStruct n")
    case False
    with Cons.prems p have "a \<notin> fst ` set (numbered fs)"
      unfolding set_map [symmetric] map_fst_numbered by simp
    then have "AList.update a (int (length fs) + 1) (numbered fs) = numbered (fs @ [a])"
      by (simp add: update_new numbered_snoc)
    with False p Cons.IH [of "fs @ [a]"] Cons.prems show ?thesis by simp
  qed (use Cons p in simp)
qed simp

lemma fieldsOf_numbered:
  assumes "orders_ok E" "stmt_node n"
  obtains names where "mset names = mset (scalar_names n)" "distinct (key_fields @ names)"
    and "fieldsOf E n = (key_fields @ names, numbered (key_fields @ names))"
proof -
  let ?as = "range_loop (rng E (''fieldsOf'', TypeName n)) (Attributes n)"
  let ?names = "map fst (filter scalar_attr ?as)"
  have ord: "is_order (rng E (''fieldsOf'', TypeName n))" using assms(1) by (rule orders_okD)
  have d: "distinct (gkeys (Attributes n))" using assms(2) by (simp add: stmt_node_def)
  have m: "mset ?names = mset (scalar_names n)"
    by (simp add: scalar_names_def mset_range_loop [OF ord d])
  have s: "set ?names = set (scalar_names n)" using m by (metis set_mset_mset)
  have "distinct ?names"
    using distinct_range_loop [OF ord d] by (rule distinct_map_filter)
  then have dd: "distinct (key_fields @ ?names)"
    using assms(2) unfolding distinct_append s stmt_node_def by (simp add: key_fields_def)
  have "number_fields ?as (key_fields, numbered key_fields, int (length key_fields) + 1) =
      (let gs = key_fields @ ?names in (gs, numbered gs, int (length gs) + 1))"
    using dd by (rule number_fields_numbered)
  then have "fieldsOf E n = (key_fields @ ?names, numbered (key_fields @ ?names))"
    by (simp add: fieldsOf_def key_fields_def numbered_def Let_def)
  with m dd show ?thesis by (rule that)
qed

section \<open>Binding\<close>

text \<open>The argument for one field, read off the source of \<open>RowValues\<close> without positions.\<close>

definition column_arg ::
    "'a env_scheme \<Rightarrow> (string, int32) gomap option \<Rightarrow> action \<Rightarrow> L8OrmRow \<Rightarrow> string \<Rightarrow> sql_arg res" where
  "column_arg E cols action row field =
     (case map_of (ColumnValues row) (column_index cols field) of
        None \<Rightarrow> Inr None
      | Some data \<Rightarrow>
          if data = [] then Inr None
          else rbind (getValueForPostgres E data) (\<lambda>val.
            Inr (if action = PATCH \<and> isZeroValue val then None else val)))"

definition field_arg ::
    "'a env_scheme \<Rightarrow> (string, int32) gomap option \<Rightarrow> action \<Rightarrow> L8OrmRow \<Rightarrow> string \<Rightarrow> sql_arg res" where
  "field_arg E cols action row field =
     (if field = ''ParentKey'' then Inr (Some (GString (ParentKey row)))
      else if field = ''RecKey'' then Inr (Some (GString (RecKey row)))
      else column_arg E cols action row field)"

lemma bind_attr_column:
  "bind_attr E st action row result p =
     (if scalar_attr p
      then rbind (column_arg E (columns st) action row (fst p))
             (go_assign result (value_pos (fvalues st) (fst p) - 1))
      else Inr result)"
  by (cases p)
    (auto simp: bind_attr_def column_arg_def Let_def rbind_def split: option.split sum.split)

lemma collect_eq_Inr: "collect f xs = Inr ys \<longleftrightarrow> list_all2 (\<lambda>x y. f x = Inr y) xs ys"
  by (induction xs arbitrary: ys) (auto simp: rbind_eq_Inr list_all2_Cons1)

lemma go_assign_nth:
  "i < length xs \<Longrightarrow> go_assign xs (int i + 1 - 1) x = Inr (xs[i := x])"
  by (simp add: go_assign_def)

lemma bind_loop:
  assumes "distinct fs" "fvalues st = numbered fs" "length result = length fs"
    and "distinct (map fst as)" "\<forall>p \<in> set as. scalar_attr p \<longrightarrow> fst p \<in> set fs"
  shows "mfold (bind_attr E st action row) result as = Inr r \<longleftrightarrow>
     length r = length fs \<and>
     (\<forall>i < length fs. if fs ! i \<in> fst ` {p \<in> set as. scalar_attr p}
        then column_arg E (columns st) action row (fs ! i) = Inr (r ! i) else r ! i = result ! i)"
  using assms(3-5)
proof (induction as arbitrary: result)
  case Nil
  then show ?case by (auto intro: nth_equalityI)
next
  case (Cons p as)
  show ?case
  proof (cases "scalar_attr p")
    case False
    then have "{q \<in> set (p # as). scalar_attr q} = {q \<in> set as. scalar_attr q}" by auto
    with False Cons show ?thesis by (simp add: bind_attr_column)
  next
    case True
    with Cons.prems(3) obtain i where i: "i < length fs" "fs ! i = fst p"
      by (auto simp: in_set_conv_nth)
    have pos: "value_pos (fvalues st) (fst p) = int i + 1"
      using value_pos_numbered [OF assms(1) i(1)] i(2) by (simp add: assms(2))
    have new: "fst p \<notin> fst ` {q \<in> set as. scalar_attr q}" using Cons.prems(2) by auto
    have ins: "fst ` {q \<in> set (p # as). scalar_attr q} = insert (fst p) (fst ` {q \<in> set as. scalar_attr q})"
      using True by auto
    show ?thesis
    proof (cases "column_arg E (columns st) action row (fst p)")
      case (Inl e)
      with True pos i show ?thesis unfolding ins by (auto simp: bind_attr_column)
    next
      case (Inr v)
      have step: "mfold (bind_attr E st action row) result (p # as) =
          mfold (bind_attr E st action row) (result[i := v]) as"
        using True Inr pos i Cons.prems(1) by (simp add: bind_attr_column go_assign_def)
      have same: "j = i \<longleftrightarrow> fs ! j = fst p" if "j < length fs" for j
        using assms(1) i that by (metis nth_eq_iff_index_eq)
      have each: "(if fs ! j \<in> fst ` {q \<in> set as. scalar_attr q}
            then column_arg E (columns st) action row (fs ! j) = Inr (r ! j) else r ! j = result[i := v] ! j) \<longleftrightarrow>
          (if fs ! j \<in> insert (fst p) (fst ` {q \<in> set as. scalar_attr q})
            then column_arg E (columns st) action row (fs ! j) = Inr (r ! j) else r ! j = result ! j)"
        if j: "j < length fs" for j
      proof (cases "j = i")
        case True
        with new i Inr Cons.prems(1) show ?thesis by auto
      next
        case False
        with same [OF j] show ?thesis by simp
      qed
      show ?thesis
        unfolding step ins using Cons.IH [of "result[i := v]"] Cons.prems each by auto
    qed
  qed
qed

theorem RowValues_collect:
  assumes "orders_ok E" "stmt_node n" "node st = n" "(fs, vs) = fieldsOf E n"
    and "sfields st = Some fs" "fvalues st = vs"
  shows "RowValues E st action row = Inr args \<longleftrightarrow>
     collect (field_arg E (columns st) action row) fs = Inr args"
proof -
  obtain names where names: "mset names = mset (scalar_names n)" "distinct (key_fields @ names)"
    "fs = key_fields @ names" "vs = numbered (key_fields @ names)"
    using fieldsOf_numbered [OF assms(1,2)] assms(4) by (metis prod.inject)
  let ?as = "range_loop (rng E (''RowValues'', KeyForRow row)) (Attributes n)"
  let ?r0 = "(replicate (length fs) None)[0 := Some (GString (ParentKey row)), 1 := Some (GString (RecKey row))]"
  have ord: "is_order (rng E (''RowValues'', KeyForRow row))" using assms(1) by (rule orders_okD)
  have d: "distinct (gkeys (Attributes n))" using assms(2) by (simp add: stmt_node_def)
  have ns: "set names = set (scalar_names n)" using names(1) by (metis set_mset_mset)
  have as: "fst ` {p \<in> set ?as. scalar_attr p} = set names" "distinct (map fst ?as)"
    unfolding ns set_range_loop [OF ord d] scalar_names_def using distinct_range_loop [OF ord d] by auto
  have in_fs: "\<forall>p \<in> set ?as. scalar_attr p \<longrightarrow> fst p \<in> set fs"
    using as(1) by (auto simp: names(3))
  let ?loop = "mfold (bind_attr E st action row) ?r0 ?as"
  have run: "RowValues E st action row = ?loop"
    using names assms(3,6) by (simp add: RowValues_def go_assign_def key_fields_def)
  have loop: "?loop = Inr args \<longleftrightarrow> length args = length fs \<and>
     (\<forall>i < length fs. if fs ! i \<in> set names
        then column_arg E (columns st) action row (fs ! i) = Inr (args ! i) else args ! i = ?r0 ! i)"
    unfolding as(1) [symmetric]
    using in_fs as(2) names assms(6) by (intro bind_loop) simp_all
  have each: "(if fs ! i \<in> set names
        then column_arg E (columns st) action row (fs ! i) = Inr (args ! i) else args ! i = ?r0 ! i) \<longleftrightarrow>
      field_arg E (columns st) action row (fs ! i) = Inr (args ! i)" if "i < length fs" for i
  proof (cases "i < 2")
    case True
    then have "i = 0 \<or> i = 1" by auto
    with names(2) show ?thesis unfolding names(3) by (auto simp: key_fields_def field_arg_def)
  next
    case False
    then obtain k where k: "i = Suc (Suc k)" by (metis less_2_cases_iff not0_implies_Suc One_nat_def)
    then have "names ! k \<in> set names" using that unfolding names(3) by (simp add: key_fields_def)
    with k names(2) show ?thesis unfolding names(3) by (auto simp: key_fields_def field_arg_def)
  qed
  show ?thesis
    unfolding run loop collect_eq_Inr list_all2_conv_all_nth using each by auto
qed

section \<open>The texts\<close>

definition is_key_field :: "string \<Rightarrow> bool" where
  "is_key_field f \<longleftrightarrow> f \<in> set key_fields"

lemma insert_loop_joins:
  "insert_loop vs rest first firstConflict (F, V, C) =
     (join_loop '','' first rest F,
      join_loop '','' first (map (param vs) rest) V,
      join_loop '','' firstConflict
        (map (\<lambda>f. f @ ''='' @ param vs f @ '' '') (filter (\<lambda>f. \<not> is_key_field f) rest)) C)"
  by (induction rest arbitrary: first firstConflict F V C)
    (auto simp: is_key_field_def key_fields_def param_def Let_def)

lemma update_loop_joins:
  "update_loop vs rest first buf =
     join_loop '', '' first
       (map (\<lambda>f. f @ ''=COALESCE('' @ param vs f @ '', '' @ f @ '')'') (filter (\<lambda>f. \<not> is_key_field f) rest)) buf"
  by (induction rest arbitrary: first buf) (auto simp: is_key_field_def key_fields_def param_def)

lemma param_numbered:
  assumes "distinct fs"
  shows "map (param (numbered fs)) fs = map (\<lambda>i. ''$'' @ nat_str i) [1..<Suc (length fs)]"
  by (rule nth_equalityI)
    (auto simp: param_def value_pos_numbered [OF assms] itoa_def nat_add_distrib simp del: upt_Suc)

lemma param_name:
  assumes "distinct (key_fields @ names)" "i < length names"
  shows "param (numbered (key_fields @ names)) (names ! i) = ''$'' @ nat_str (i + 3)"
  using value_pos_numbered [OF assms(1), of "i + 2"] assms(2)
  by (simp add: param_def key_fields_def itoa_def nat_add_distrib) (simp add: numeral_3_eq_3)

lemma filter_nonkey:
  assumes "distinct (key_fields @ names)"
  shows "filter (\<lambda>f. \<not> is_key_field f) (key_fields @ names) = names"
proof -
  have "filter (\<lambda>f. \<not> is_key_field f) names = names"
    using assms by (auto simp: filter_id_conv is_key_field_def)
  then show ?thesis by (simp add: is_key_field_def key_fields_def)
qed

text \<open>
  C21. The statement that stores rows.  The text prepared for POST and PUT lists the two key
  columns and every scalar attribute once, numbers its parameters from 1 in that order, and
  on a conflict of the keys sets every attribute to its own parameter; the arguments bound
  to it are, position by position, the values of the listed fields, or binding fails because
  a column does not decode.  The two range loops involved may run in different orders.
\<close>

theorem insert_statement_binds:
  fixes cols :: "(string, int32) gomap option" and q :: "'q option"
  assumes "orders_ok E" "stmt_node n"
  defines "st \<equiv> ensure_fields E (NewStatement n cols q)"
  shows "\<exists>names. mset names = mset (scalar_names n) \<and> sfields st = Some (key_fields @ names) \<and>
     insert_sql st =
       ''insert into '' @ TypeName n @ '' ('' @ comma_sep '','' (key_fields @ names) @ '') '' @
       '' values ('' @ comma_sep '','' (map (\<lambda>i. ''$'' @ nat_str i) [1..<length names + 3]) @ '') '' @
       ''ON CONFLICT (ParentKey,RecKey) DO UPDATE SET '' @
       comma_sep '','' (map (\<lambda>i. names ! i @ ''=$'' @ nat_str (i + 3) @ '' '') [0..<length names]) @ '';'' \<and>
     (\<forall>row args. RowValues E st action row = Inr args \<longleftrightarrow>
        collect (field_arg E cols action row) (key_fields @ names) = Inr args)"
proof -
  obtain names where names: "mset names = mset (scalar_names n)" "distinct (key_fields @ names)"
    "fieldsOf E n = (key_fields @ names, numbered (key_fields @ names))"
    using fieldsOf_numbered [OF assms(1,2)] .
  let ?fs = "key_fields @ names"
  have st: "sfields st = Some ?fs" "fvalues st = numbered ?fs" "node st = n" "columns st = cols"
    using names(3) by (simp_all add: st_def ensure_fields_def NewStatement_def)
  have len: "length ?fs = length names + 2" by (simp add: key_fields_def)
  note params = param_name [OF names(2)]
  then have sets: "map (\<lambda>f. f @ ''='' @ param (numbered ?fs) f @ '' '') names =
      map (\<lambda>i. names ! i @ ''=$'' @ nat_str (i + 3) @ '' '') [0..<length names]"
    by (intro nth_equalityI) auto
  have sql: "insert_sql st = ''insert into '' @ TypeName n @ '' ('' @ comma_sep '','' ?fs @ '') '' @
       '' values ('' @ comma_sep '','' (map (\<lambda>i. ''$'' @ nat_str i) [1..<length names + 3]) @ '') '' @
       ''ON CONFLICT (ParentKey,RecKey) DO UPDATE SET '' @
       comma_sep '','' (map (\<lambda>i. names ! i @ ''=$'' @ nat_str (i + 3) @ '' '') [0..<length names]) @ '';''"
    unfolding insert_sql_def st fields_list_def option.case insert_loop_joins
      filter_nonkey [OF names(2)] sets param_numbered [OF names(2)] join_loop_True prod.case Let_def len
    by (simp add: numeral_3_eq_3 del: upt_Suc)
  have "RowValues E st action row = Inr args \<longleftrightarrow> collect (field_arg E cols action row) ?fs = Inr args" for row args
    using RowValues_collect [OF assms(1,2) st(3) names(3) [symmetric] st(1,2)] by (simp add: st(4))
  with names(1) st(1) sql show ?thesis by blast
qed

theorem insert_statement_binds_witness:
  "\<exists>names. mset names = mset (scalar_names demo_node) \<and>
     insert_sql (ensure_fields demo_env (NewStatement demo_node None (None :: unit option))) =
       ''insert into '' @ ''Order'' @ '' ('' @ comma_sep '','' (key_fields @ names) @ '') '' @
       '' values ('' @ comma_sep '','' (map (\<lambda>i. ''$'' @ nat_str i) [1..<length names + 3]) @ '') '' @
       ''ON CONFLICT (ParentKey,RecKey) DO UPDATE SET '' @
       comma_sep '','' (map (\<lambda>i. names ! i @ ''=$'' @ nat_str (i + 3) @ '' '') [0..<length names]) @ '';''"
proof -
  have n: "stmt_node demo_node" "TypeName demo_node = ''Order''" by code_simp+
  show ?thesis
    using insert_statement_binds [OF orders_ok_demo n(1), of None "None :: unit option" POST, unfolded n(2)]
    by blast
qed

text \<open>
  C22. The statement of a partial update.  PATCH sets every scalar attribute to COALESCE of
  its parameter and its old value, for the row of the two keys; and the argument of an
  attribute is NULL, so that the old value stays, exactly when the row has no data for it or
  data that decode to the zero value of their type.
\<close>

theorem update_statement_binds:
  fixes cols :: "(string, int32) gomap option" and q :: "'q option"
  assumes "orders_ok E" "stmt_node n"
  defines "st \<equiv> ensure_fields E (NewStatement n cols q)"
  shows "\<exists>names. mset names = mset (scalar_names n) \<and> sfields st = Some (key_fields @ names) \<and>
     update_sql st = ''UPDATE '' @ TypeName n @ '' SET '' @
       comma_sep '', '' (map (\<lambda>i. names ! i @ ''=COALESCE($'' @ nat_str (i + 3) @ '', '' @ names ! i @ '')'')
         [0..<length names]) @ '' WHERE ParentKey=$1 AND RecKey=$2;'' \<and>
     (\<forall>row args. RowValues E st PATCH row = Inr args \<longrightarrow>
        args ! 0 = Some (GString (ParentKey row)) \<and> args ! 1 = Some (GString (RecKey row)) \<and>
        (\<forall>i < length names. args ! (i + 2) = None \<longleftrightarrow>
           (case map_of (ColumnValues row) (column_index cols (names ! i)) of
              None \<Rightarrow> True
            | Some data \<Rightarrow> data = [] \<or> (\<exists>v. getValueForPostgres E data = Inr v \<and> isZeroValue v))))"
proof -
  obtain names where names: "mset names = mset (scalar_names n)" "distinct (key_fields @ names)"
    "fieldsOf E n = (key_fields @ names, numbered (key_fields @ names))"
    using fieldsOf_numbered [OF assms(1,2)] .
  let ?fs = "key_fields @ names"
  have st: "sfields st = Some ?fs" "fvalues st = numbered ?fs" "node st = n" "columns st = cols"
    using names(3) by (simp_all add: st_def ensure_fields_def NewStatement_def)
  have sets: "map (\<lambda>f. f @ ''=COALESCE('' @ param (numbered ?fs) f @ '', '' @ f @ '')'') names =
      map (\<lambda>i. names ! i @ ''=COALESCE($'' @ nat_str (i + 3) @ '', '' @ names ! i @ '')'') [0..<length names]"
    using param_name [OF names(2)] by (intro nth_equalityI) auto
  have sql: "update_sql st = ''UPDATE '' @ TypeName n @ '' SET '' @
       comma_sep '', '' (map (\<lambda>i. names ! i @ ''=COALESCE($'' @ nat_str (i + 3) @ '', '' @ names ! i @ '')'')
         [0..<length names]) @ '' WHERE ParentKey=$1 AND RecKey=$2;''"
    unfolding update_sql_def st fields_list_def option.case update_loop_joins
      filter_nonkey [OF names(2)] sets join_loop_True by simp
  have "args ! 0 = Some (GString (ParentKey row)) \<and> args ! 1 = Some (GString (RecKey row)) \<and>
      (\<forall>i < length names. args ! (i + 2) = None \<longleftrightarrow>
           (case map_of (ColumnValues row) (column_index cols (names ! i)) of
              None \<Rightarrow> True
            | Some data \<Rightarrow> data = [] \<or> (\<exists>v. getValueForPostgres E data = Inr v \<and> isZeroValue v)))"
    if "RowValues E st PATCH row = Inr args" for row args
  proof -
    from that have "list_all2 (\<lambda>f a. field_arg E cols PATCH row f = Inr a) ?fs args"
      unfolding collect_eq_Inr [symmetric]
      using RowValues_collect [OF assms(1,2) st(3) names(3) [symmetric] st(1,2)] by (simp add: st(4))
    then have nth: "i < length names + 2 \<Longrightarrow> field_arg E cols PATCH row (?fs ! i) = Inr (args ! i)" for i
      by (simp add: list_all2_conv_all_nth key_fields_def)
    have col: "column_arg E cols PATCH row (names ! i) = Inr (args ! (i + 2))" if "i < length names" for i
    proof -
      from that have "names ! i \<in> set names" by (rule nth_mem)
      moreover have "''ParentKey'' \<notin> set names" "''RecKey'' \<notin> set names"
        using names(2) by (auto simp: key_fields_def)
      ultimately have "names ! i \<noteq> ''ParentKey''" "names ! i \<noteq> ''RecKey''" by metis+
      with nth [of "i + 2"] that show ?thesis by (simp add: field_arg_def key_fields_def)
    qed
    have "args ! (i + 2) = None \<longleftrightarrow>
        (case map_of (ColumnValues row) (column_index cols (names ! i)) of
           None \<Rightarrow> True
         | Some data \<Rightarrow> data = [] \<or> (\<exists>v. getValueForPostgres E data = Inr v \<and> isZeroValue v))"
      if "i < length names" for i
      using col [OF that] by (auto simp: column_arg_def rbind_eq_Inr isZeroValue_def split: option.splits if_splits)
    with nth [of 0] nth [of 1] show ?thesis by (simp add: field_arg_def key_fields_def)
  qed
  with names(1) st(1) sql show ?thesis by blast
qed

theorem update_statement_binds_witness:
  "\<exists>names. mset names = mset (scalar_names demo_node) \<and>
     update_sql (ensure_fields demo_env (NewStatement demo_node None (None :: unit option))) =
       ''UPDATE '' @ ''Order'' @ '' SET '' @
       comma_sep '', '' (map (\<lambda>i. names ! i @ ''=COALESCE($'' @ nat_str (i + 3) @ '', '' @ names ! i @ '')'')
         [0..<length names]) @ '' WHERE ParentKey=$1 AND RecKey=$2;''"
proof -
  have n: "stmt_node demo_node" "TypeName demo_node = ''Order''" by code_simp+
  show ?thesis
    using update_statement_binds [OF orders_ok_demo n(1), of None "None :: unit option", unfolded n(2)]
    by blast
qed

section \<open>A row through a table\<close>

text \<open>
  What database/sql makes of an argument, and the row of a table as a map from column names
  to what its columns deliver.
\<close>

fun drv_of :: "sql_arg \<Rightarrow> drv" where
  "drv_of (Some (GString s)) = DText s"
| "drv_of (Some (GBool b)) = DBool b"
| "drv_of (Some (GInt32 n w)) = DInt (scast w)"
| "drv_of (Some (GInt64 w)) = DInt w"
| "drv_of (Some (GFloat64 w)) = DFloat w"
| "drv_of v = DNull"

definition table_row :: "string list \<Rightarrow> sql_arg list \<Rightarrow> string \<Rightarrow> drv" where
  "table_row fs args field = (case map_of (zip fs args) field of None \<Rightarrow> DNull | Some a \<Rightarrow> drv_of a)"

fun exact_scalar :: "gval \<Rightarrow> bool" where
  "exact_scalar (GString s) = True"
| "exact_scalar (GBool b) = True"
| "exact_scalar (GInt32 n w) = True"
| "exact_scalar (GInt64 w) = True"
| "exact_scalar (GFloat64 w) = True"
| "exact_scalar v = False"

lemma sint_bounds: "- (2 ^ 63) \<le> sint (w :: int64)" "sint (w :: int64) < 2 ^ 63"
  "- (2 ^ 31) \<le> sint (v :: int32)" "sint (v :: int32) < 2 ^ 31"
  using sint_ge [of w] sint_lt [of w] sint_ge [of v] sint_lt [of v] by simp_all

lemma parse_itoa: "- (2 ^ 63) \<le> i \<Longrightarrow> i < 2 ^ 63 \<Longrightarrow> parse_int64 (itoa i) = Some i"
  using nat_str_digits [of "nat i"] nat_str_digits [of "nat (- i)"] nat_str_no_sign [of "nat i"]
  by (auto simp: parse_int64_def itoa_def Let_def)

lemma scan_exact:
  assumes "exact_scalar v"
  shows "scan_value C (type_of v) (drv_of (Some v)) = Inr v"
proof (cases v)
  case (GInt32 n w)
  have "parse_int64 (itoa (sint w)) = Some (sint w)"
    using sint_bounds(3,4) [of w] by (intro parse_itoa) auto
  with GInt32 sint_bounds(3,4) [of w] show ?thesis
    by (simp add: scan_value_def sint_up_scast is_up)
next
  case (GInt64 w)
  have "parse_int64 (itoa (sint w)) = Some (sint w)"
    using sint_bounds(1,2) [of w] by (intro parse_itoa) auto
  with GInt64 show ?thesis by (simp add: scan_value_def)
qed (use assms in \<open>simp_all add: scan_value_def\<close>)

text \<open>Bytes of an attribute that survive their way through the table.\<close>

definition survives :: "'a env_scheme \<Rightarrow> l8node \<Rightarrow> bytes \<Rightarrow> bool" where
  "survives E x b \<longleftrightarrow> b \<noteq> [] \<and>
     (case dec E b of
        Inr (Some v) \<Rightarrow>
          enc E v = Inr b \<and>
          (if IsMap x \<or> IsSlice x
           then (kind_of (Some v) = KSlice \<or> kind_of (Some v) = KMap) \<and> fromStr E (toStrTyped E v) = Inr v
           else exact_scalar v \<and> infoType E (TypeName x) = Inr (type_of v))
      | _ \<Rightarrow> False)"

definition column_survives ::
    "'a env_scheme \<Rightarrow> (int32, bytes) gomap \<Rightarrow> int32 \<Rightarrow> l8node \<Rightarrow> bool" where
  "column_survives E cv i x = (case map_of cv i of None \<Rightarrow> False | Some b \<Rightarrow> survives E x b)"

definition scan_type :: "'a env_scheme \<Rightarrow> l8node \<Rightarrow> gtyp" where
  "scan_type E x = (if \<not> IsSlice x \<and> \<not> IsMap x then projr (infoType E (TypeName x)) else string_type)"

text \<open>What is stored in a row for a scanned value.\<close>

definition store_bytes :: "'a env_scheme \<Rightarrow> scan_conv \<Rightarrow> l8node \<Rightarrow> gval \<Rightarrow> bytes res" where
  "store_bytes E C x val =
     rbind (if IsMap x \<or> IsSlice x then rbind (assert_string val) (fromStr E) else Inr val) (encoded E C)"

lemma store_column_bytes:
  "map_of (Attributes (node st)) a = Some x \<Longrightarrow> store_bytes E C x val = Inr b \<Longrightarrow>
     store_column E C st cv (a, val) = Inr (AList.update (column_index (columns st) a) b cv)"
  by (auto simp: store_column_def store_bytes_def rbind_eq_Inr)

text \<open>A cell of a table carries bytes of an attribute when reading it gives these bytes.\<close>

definition carries :: "'a env_scheme \<Rightarrow> scan_conv \<Rightarrow> l8node \<Rightarrow> drv \<Rightarrow> bytes \<Rightarrow> bool" where
  "carries E C x v b \<longleftrightarrow> (IsSlice x \<or> IsMap x \<or> infoType E (TypeName x) = Inr (scan_type E x)) \<and>
     (\<exists>val. scan_value C (scan_type E x) v = Inr val \<and> store_bytes E C x val = Inr b)"

lemma carries_rng: "carries (E\<lparr>rng := r\<rparr>) = carries E"
proof -
  have f: "fromStr (E\<lparr>rng := r\<rparr>) = fromStr E" "infoType (E\<lparr>rng := r\<rparr>) = infoType E" by simp_all
  have e: "encoded (E\<lparr>rng := r\<rparr>) = encoded E" by (simp add: fun_eq_iff encoded_def)
  show ?thesis by (simp add: fun_eq_iff carries_def store_bytes_def scan_type_def f e)
qed

lemma survives_carries:
  assumes "survives E x b" "action \<noteq> PATCH" "map_of (ColumnValues row) (column_index cols a) = Some b"
  shows "\<exists>arg. column_arg E cols action row a = Inr arg \<and> carries E C x (drv_of arg) b"
proof -
  from assms(1) obtain v where v: "b \<noteq> []" "dec E b = Inr (Some v)" "enc E v = Inr b"
    "if IsMap x \<or> IsSlice x
     then (kind_of (Some v) = KSlice \<or> kind_of (Some v) = KMap) \<and> fromStr E (toStrTyped E v) = Inr v
     else exact_scalar v \<and> infoType E (TypeName x) = Inr (type_of v)"
    by (auto simp: survives_def split: option.splits sum.splits)
  show ?thesis
  proof (cases "IsMap x \<or> IsSlice x")
    case True
    with v assms(2,3) show ?thesis
      by (auto simp: column_arg_def getValueForPostgres_def carries_def scan_type_def string_type_def
          scan_value_def store_bytes_def encoded_def)
  next
    case False
    with v(4) have e: "exact_scalar v" "infoType E (TypeName x) = Inr (type_of v)" by simp_all
    then have "\<not> (kind_of (Some v) = KSlice \<or> kind_of (Some v) = KMap)" by (cases v) simp_all
    with False v e scan_exact [OF e(1), of C] assms(2,3) show ?thesis
      by (auto simp: column_arg_def getValueForPostgres_def carries_def scan_type_def store_bytes_def encoded_def)
  qed
qed

lemma store_all:
  assumes "\<forall>a \<in> set as. \<forall>cv. f cv (a, val a) = Inr (AList.update (idx a) (b a) cv)"
    and "inj_on idx (set as)" "distinct as"
  shows "\<exists>cv'. mfold f cv (zip as (map val as)) = Inr cv' \<and>
     (\<forall>a \<in> set as. map_of cv' (idx a) = Some (b a)) \<and>
     (\<forall>i. i \<notin> idx ` set as \<longrightarrow> map_of cv' i = map_of cv i)"
  using assms
proof (induction as arbitrary: cv)
  case (Cons a as)
  from Cons.IH [of "AList.update (idx a) (b a) cv"] Cons.prems obtain cv' where
    cv': "mfold f (AList.update (idx a) (b a) cv) (zip as (map val as)) = Inr cv'"
    "\<forall>a \<in> set as. map_of cv' (idx a) = Some (b a)"
    "\<forall>i. i \<notin> idx ` set as \<longrightarrow> map_of cv' i = map_of (AList.update (idx a) (b a) cv) i"
    by auto
  have "idx a \<notin> idx ` set as" using Cons.prems(2,3) by auto
  with cv' Cons.prems(1) show ?case by (intro exI [of _ cv']) (auto simp: map_of_update)
qed simp

lemma collect_map: "\<forall>x \<in> set xs. f x = Inr (g x) \<Longrightarrow> collect f xs = Inr (map g xs)"
  by (induction xs) simp_all

lemma collect_comp: "collect f (map h xs) = collect (\<lambda>x. f (h x)) xs"
  by (induction xs) simp_all

lemma scalar_lookup:
  assumes "stmt_node n" "a \<in> set (scalar_names n)"
  obtains x where "map_of (Attributes n) a = Some x" "(a, x) \<in> set (Attributes n)" "scalar_attr (a, x)"
  using assms by (auto simp: stmt_node_def scalar_names_def gkeys_def)

lemma fields_known:
  assumes "orders_ok E" "stmt_node n"
  obtains names where "set names = set (scalar_names n)" "distinct (key_fields @ names)"
    and "sfields (ensure_fields E (NewStatement n cols q)) = Some (key_fields @ names)"
    and "fvalues (ensure_fields E (NewStatement n cols q)) = numbered (key_fields @ names)"
    and "node (ensure_fields E (NewStatement n cols q)) = n"
    and "columns (ensure_fields E (NewStatement n cols q)) = cols"
    and "fieldsOf E n = (key_fields @ names, numbered (key_fields @ names))"
proof -
  obtain names where names: "mset names = mset (scalar_names n)" "distinct (key_fields @ names)"
    "fieldsOf E n = (key_fields @ names, numbered (key_fields @ names))"
    using fieldsOf_numbered [OF assms] .
  moreover from names(1) have "set names = set (scalar_names n)" by (metis set_mset_mset)
  ultimately show ?thesis by (intro that [of names]) (simp_all add: ensure_fields_def NewStatement_def)
qed

text \<open>Binding a row: every cell of the table row carries the bytes of its column.\<close>

lemma row_binds:
  fixes q :: "'q option"
  assumes env: "orders_ok E" "stmt_node n" "action \<noteq> PATCH"
    and ok: "\<forall>p \<in> set (Attributes n). scalar_attr p \<longrightarrow>
        column_survives E (ColumnValues row) (column_index cols (fst p)) (snd p)"
  defines "st \<equiv> ensure_fields E (NewStatement n cols q)"
  shows "\<exists>args. RowValues E st action row = Inr args \<and> length args = length (fields_list st) \<and>
     table_row (fields_list st) args ''ParentKey'' = DText (ParentKey row) \<and>
     table_row (fields_list st) args ''RecKey'' = DText (RecKey row) \<and>
     (\<forall>p \<in> set (Attributes n). scalar_attr p \<longrightarrow>
        (\<exists>b. map_of (ColumnValues row) (column_index cols (fst p)) = Some b \<and>
           carries E C (snd p) (table_row (fields_list st) args (fst p)) b))"
proof -
  obtain names where names: "set names = set (scalar_names n)" "distinct (key_fields @ names)"
    "sfields st = Some (key_fields @ names)" "fvalues st = numbered (key_fields @ names)"
    "node st = n" "columns st = cols" "fieldsOf E n = (key_fields @ names, numbered (key_fields @ names))"
    unfolding st_def using fields_known [OF env(1,2)] by metis
  have keys: "''ParentKey'' \<notin> set (scalar_names n)" "''RecKey'' \<notin> set (scalar_names n)"
    using env(2) by (auto simp: stmt_node_def key_fields_def)
  have each: "\<exists>arg b. column_arg E cols action row (fst p) = Inr arg \<and>
      map_of (ColumnValues row) (column_index cols (fst p)) = Some b \<and> carries E C (snd p) (drv_of arg) b"
    if p: "p \<in> set (Attributes n)" "scalar_attr p" for p
  proof -
    have "column_survives E (ColumnValues row) (column_index cols (fst p)) (snd p)" using ok p by blast
    then obtain b where b: "map_of (ColumnValues row) (column_index cols (fst p)) = Some b" "survives E (snd p) b"
      by (auto simp: column_survives_def split: option.splits)
    obtain arg where "column_arg E cols action row (fst p) = Inr arg" "carries E C (snd p) (drv_of arg) b"
      using survives_carries [OF b(2) env(3) b(1)] by blast
    with b(1) show ?thesis by (intro exI conjI)
  qed
  define argf where "argf = (\<lambda>f. projr (field_arg E cols action row f))"
  have mem: "fst p \<in> set (scalar_names n)" if "p \<in> set (Attributes n)" "scalar_attr p" for p
    using that by (auto simp: scalar_names_def)
  have scalar: "field_arg E cols action row (fst p) = Inr (argf (fst p)) \<and>
      (\<exists>b. map_of (ColumnValues row) (column_index cols (fst p)) = Some b \<and> carries E C (snd p) (drv_of (argf (fst p))) b)"
    if p: "p \<in> set (Attributes n)" "scalar_attr p" for p
  proof -
    have "fst p \<noteq> ''ParentKey''" "fst p \<noteq> ''RecKey''" using mem [OF p] keys by metis+
    then have f: "field_arg E cols action row (fst p) = column_arg E cols action row (fst p)"
      by (simp add: field_arg_def)
    obtain arg b where "column_arg E cols action row (fst p) = Inr arg"
      "map_of (ColumnValues row) (column_index cols (fst p)) = Some b" "carries E C (snd p) (drv_of arg) b"
      using each [OF p] by blast
    then show ?thesis by (simp add: argf_def f)
  qed
  have keyargs: "field_arg E cols action row ''ParentKey'' = Inr (argf ''ParentKey'')"
    "field_arg E cols action row ''RecKey'' = Inr (argf ''RecKey'')"
    "argf ''ParentKey'' = Some (GString (ParentKey row))" "argf ''RecKey'' = Some (GString (RecKey row))"
    by (simp_all add: argf_def field_arg_def)
  have argf: "field_arg E cols action row f = Inr (argf f)" if f: "f \<in> set (key_fields @ names)" for f
  proof -
    from f consider "f = ''ParentKey''" | "f = ''RecKey''" | p where "p \<in> set (Attributes n)" "scalar_attr p" "f = fst p"
      by (auto simp: key_fields_def names(1) scalar_names_def)
    then show ?thesis by cases (use keyargs scalar in simp_all)
  qed
  have args: "RowValues E st action row = Inr (map argf (key_fields @ names))"
    using RowValues_collect [OF env(1,2) names(5) names(7) [symmetric] names(3,4)] names(6)
      collect_map [of "key_fields @ names" _ argf] argf by simp
  have tr: "table_row (key_fields @ names) (map argf (key_fields @ names)) f = drv_of (argf f)"
    if "f \<in> set key_fields \<union> set (scalar_names n)" for f
    using that names(1) by (auto simp: table_row_def map_of_zip_map map_add_def)
  have "\<exists>b. map_of (ColumnValues row) (column_index cols (fst p)) = Some b \<and>
      carries E C (snd p) (table_row (key_fields @ names) (map argf (key_fields @ names)) (fst p)) b"
    if p: "p \<in> set (Attributes n)" "scalar_attr p" for p
    using scalar [OF p] tr mem [OF p] by simp
  moreover have "table_row (key_fields @ names) (map argf (key_fields @ names)) ''ParentKey'' = DText (ParentKey row)"
    "table_row (key_fields @ names) (map argf (key_fields @ names)) ''RecKey'' = DText (RecKey row)"
    using keyargs(3,4) by (simp_all add: table_row_def key_fields_def)
  ultimately show ?thesis using args by (simp add: fields_list_def names(3) key_fields_def)
qed

text \<open>Reading a row whose cells carry the bytes of the attributes.\<close>

lemma row_decodes:
  fixes q :: "'q option"
  assumes env: "orders_ok E" "stmt_node n"
    and cols: "inj_on (column_index cols) (set (scalar_names n))"
    and cells: "cells ''ParentKey'' = DText pk" "cells ''RecKey'' = DText rk"
      "\<forall>p \<in> set (Attributes n). scalar_attr p \<longrightarrow> carries E C (snd p) (cells (fst p)) (b (fst p))"
  defines "st \<equiv> ensure_fields E (NewStatement n cols q)"
  shows "\<exists>row. Row E C st (map cells (fields_list st)) = Inr row \<and> ParentKey row = pk \<and> RecKey row = rk \<and>
     (\<forall>a \<in> set (scalar_names n). map_of (ColumnValues row) (column_index cols a) = Some (b a))"
proof -
  obtain names where names: "set names = set (scalar_names n)" "distinct (key_fields @ names)"
    "sfields st = Some (key_fields @ names)" "node st = n" "columns st = cols"
    unfolding st_def using fields_known [OF env] by metis
  define at where "at = (\<lambda>a. the (map_of (Attributes n) a))"
  define val where "val = (\<lambda>a. projr (scan_value C (scan_type E (at a)) (cells a)))"
  have each: "arg_type E n a = Inr (scan_type E (at a)) \<and> scan_value C (scan_type E (at a)) (cells a) = Inr (val a) \<and>
      (\<forall>cv. store_column E C st cv (a, val a) = Inr (AList.update (column_index cols a) (b a) cv))"
    if a: "a \<in> set names" for a
  proof -
    from a env(2) obtain x where x: "map_of (Attributes n) a = Some x" "(a, x) \<in> set (Attributes n)" "scalar_attr (a, x)"
      unfolding names(1) using scalar_lookup by blast
    with cells(3) have c: "carries E C x (cells a) (b a)" by fastforce
    have at: "at a = x" using x(1) by (simp add: at_def)
    from c obtain v where v: "scan_value C (scan_type E x) (cells a) = Inr v" "store_bytes E C x v = Inr (b a)"
      by (auto simp: carries_def)
    then have val: "val a = v" by (simp add: val_def at)
    have "store_column E C st cv (a, v) = Inr (AList.update (column_index cols a) (b a) cv)" for cv
      using store_column_bytes [of st a x E C v "b a" cv] x(1) v(2) by (simp add: names(4,5))
    moreover have "arg_type E n a = Inr (scan_type E x)"
      using c x(1) by (auto simp: arg_type_def carries_def scan_type_def string_type_def)
    ultimately show ?thesis using v(1) by (simp add: at val)
  qed
  have na: "NewArgs E st = Inr (string_type # string_type # map (\<lambda>a. scan_type E (at a)) names)"
  proof -
    have "collect (arg_type E n) names = Inr (map (\<lambda>a. scan_type E (at a)) names)"
      using each by (intro collect_map) blast
    then show ?thesis using names(3,4) by (simp add: NewArgs_def fields_list_def key_fields_def)
  qed
  have sc: "Scan C (string_type # string_type # map (\<lambda>a. scan_type E (at a)) names) (map cells (key_fields @ names)) =
      Inr (GString pk # GString rk # map val names)"
  proof -
    have "collect (\<lambda>(t, d). scan_value C t d) (map (\<lambda>a. (scan_type E (at a), cells a)) names) = Inr (map val names)"
      using each unfolding collect_comp by (intro collect_map) auto
    moreover have "zip (map (\<lambda>a. scan_type E (at a)) names) (map cells names) = map (\<lambda>a. (scan_type E (at a), cells a)) names"
      by (simp add: zip_map_map zip_same_conv_map)
    moreover have "scan_value C string_type (DText s) = Inr (GString s)" for s
      by (simp add: scan_value_def string_type_def)
    ultimately show ?thesis using cells(1,2) by (simp add: Scan_def key_fields_def)
  qed
  obtain cv where cv: "mfold (store_column E C st) [] (zip names (map val names)) = Inr cv"
    "\<forall>a \<in> set names. map_of cv (column_index cols a) = Some (b a)"
    using store_all [of names "store_column E C st" val "column_index cols" b "[]"] each names(1,2) cols by auto
  have "Row E C st (map cells (fields_list st)) = Inr \<lparr>ParentKey = pk, RecKey = rk, ColumnValues = cv\<rparr>"
    using na sc cv(1) names(3) by (simp add: Row_def fields_list_def key_fields_def)
  with cv(2) names(1) show ?thesis by simp
qed

text \<open>
  C9. A row through a table.  A row whose columns hold data that decode to strings,
  booleans, integers, doubles, or to slices and maps with a readable text form, is bound by
  POST or PUT without an error, and reading the table row back, with another range order,
  another numbering of the columns and the same registry, gives a row with the same keys
  and, for every scalar attribute, the same bytes.
\<close>

theorem row_through_table:
  fixes c c' :: "(string, int32) gomap" and q :: "'q option"
  assumes env: "orders_ok E" "orders_ok (E\<lparr>rng := r\<rparr>)" "stmt_node n" "action \<noteq> PATCH"
    and cols: "inj_on (column_index (Some c')) (set (scalar_names n))"
    and ok: "\<forall>p \<in> set (Attributes n). scalar_attr p \<longrightarrow>
        column_survives E (ColumnValues row) (column_index (Some c) (fst p)) (snd p)"
  defines "st \<equiv> ensure_fields E (NewStatement n (Some c) q)"
    and "st' \<equiv> ensure_fields (E\<lparr>rng := r\<rparr>) (NewStatement n (Some c') q)"
  shows "\<exists>args row'. RowValues E st action row = Inr args \<and>
     Row (E\<lparr>rng := r\<rparr>) C st' (map (table_row (fields_list st) args) (fields_list st')) = Inr row' \<and>
     ParentKey row' = ParentKey row \<and> RecKey row' = RecKey row \<and>
     (\<forall>a \<in> set (scalar_names n).
        map_of (ColumnValues row') (column_index (Some c') a) =
        map_of (ColumnValues row) (column_index (Some c) a))"
proof -
  let ?E = "E\<lparr>rng := r\<rparr>"
  obtain args where args: "RowValues E st action row = Inr args"
    "table_row (fields_list st) args ''ParentKey'' = DText (ParentKey row)"
    "table_row (fields_list st) args ''RecKey'' = DText (RecKey row)"
    "\<And>p. p \<in> set (Attributes n) \<Longrightarrow> scalar_attr p \<Longrightarrow>
        \<exists>b. map_of (ColumnValues row) (column_index (Some c) (fst p)) = Some b \<and>
           carries E C (snd p) (table_row (fields_list st) args (fst p)) b"
    unfolding st_def using row_binds [OF env(1,3,4) ok] by blast
  let ?b = "\<lambda>a. the (map_of (ColumnValues row) (column_index (Some c) a))"
  have "\<forall>p \<in> set (Attributes n). scalar_attr p \<longrightarrow>
      carries ?E C (snd p) (table_row (fields_list st) args (fst p)) (?b (fst p))"
    unfolding carries_rng using args(4) by fastforce
  from row_decodes [OF env(2,3) cols args(2,3) this] obtain row' where
    "Row ?E C st' (map (table_row (fields_list st) args) (fields_list st')) = Inr row'"
    "ParentKey row' = ParentKey row" "RecKey row' = RecKey row"
    "\<forall>a \<in> set (scalar_names n). map_of (ColumnValues row') (column_index (Some c') a) = Some (?b a)"
    unfolding st'_def by blast
  moreover have "map_of (ColumnValues row) (column_index (Some c) a) = Some (?b a)" if "a \<in> set (scalar_names n)" for a
    using that args(4) by (fastforce simp: scalar_names_def)
  ultimately show ?thesis using args(1) by auto
qed

definition demo_row :: L8OrmRow where
  "demo_row = \<lparr>ParentKey = [], RecKey = ''order[o1]'', ColumnValues = [(1, bytes_for ''o1'')]\<rparr>"

text \<open>A driver that knows no text form of floats.\<close>

definition demo_conv :: scan_conv where
  "demo_conv = \<lparr>fmt_float = (\<lambda>w. []), parse_float32 = (\<lambda>s. None), parse_float64 = (\<lambda>s. None),
     parse_bool = (\<lambda>s. if s = ''true'' then Some True else if s = ''false'' then Some False else None),
     partial_enc = (\<lambda>v. [])\<rparr>"

theorem row_through_table_witness:
  "\<exists>args row'.
     RowValues demo_env (ensure_fields demo_env (NewStatement demo_node (Some [(''Name'', 1)]) (None :: unit option)))
       POST demo_row = Inr args \<and>
     Row (demo_env\<lparr>rng := \<lambda>t ks. ks\<rparr>) demo_conv
       (ensure_fields (demo_env\<lparr>rng := \<lambda>t ks. ks\<rparr>) (NewStatement demo_node (Some [(''Name'', 7)]) (None :: unit option)))
       (map (table_row (fields_list (ensure_fields demo_env
              (NewStatement demo_node (Some [(''Name'', 1)]) (None :: unit option)))) args)
         (fields_list (ensure_fields (demo_env\<lparr>rng := \<lambda>t ks. ks\<rparr>)
              (NewStatement demo_node (Some [(''Name'', 7)]) (None :: unit option))))) = Inr row' \<and>
     ParentKey row' = ParentKey demo_row \<and> RecKey row' = RecKey demo_row \<and>
     (\<forall>a \<in> set (scalar_names demo_node).
        map_of (ColumnValues row') (column_index (Some [(''Name'', 7)]) a) =
        map_of (ColumnValues demo_row) (column_index (Some [(''Name'', 1)]) a))"
proof (rule row_through_table)
  show "orders_ok demo_env" by simp
  show "orders_ok (demo_env\<lparr>rng := \<lambda>t ks. ks\<rparr>)" by (simp add: orders_ok_def demo_env_def)
  show "stmt_node demo_node" by code_simp
  show "POST \<noteq> PATCH" by simp
  have n: "scalar_names demo_node = [''Name'']"
    by (simp add: scalar_names_def demo_node_def scalar_node_def)
  show "inj_on (column_index (Some [(''Name'', 7)])) (set (scalar_names demo_node))"
    unfolding n by simp
  show "\<forall>p \<in> set (Attributes demo_node). scalar_attr p \<longrightarrow>
      column_survives demo_env (ColumnValues demo_row) (column_index (Some [(''Name'', 1)]) (fst p)) (snd p)"
    by (simp add: demo_node_def scalar_node_def demo_row_def column_index_def column_survives_def survives_def
        demo_env_def bytes_for_ok)
qed

end
