(* ===== verification/Sql_Query_Correct.thy ===== *)
theory Sql_Query_Correct
  imports Sql_Query Sql_Stmt_Correct
begin

text \<open>
  What the generated SQL means: string literals and the IN list, the WHERE clause of a
  criteria, LIKE patterns, and the columns of a SELECT against the fields of its statement.
\<close>

section \<open>String literals\<close>

abbreviation quote_char :: char where
  "quote_char \<equiv> CHR 0x27"

text \<open>SQL's reading of a string literal after its opening quote: value and rest.\<close>

fun read_literal :: "string \<Rightarrow> (string \<times> string) option" where
  "read_literal [] = None"
| "read_literal (c # s) =
     (if c = quote_char then
        (case s of
           d # t \<Rightarrow> if d = quote_char
                    then map_option (\<lambda>(x, r). (quote_char # x, r)) (read_literal t) else Some ([], s)
         | [] \<Rightarrow> Some ([], []))
      else map_option (\<lambda>(x, r). (c # x, r)) (read_literal s))"

lemma read_literal_end:
  "rest = [] \<or> hd rest \<noteq> quote_char \<Longrightarrow> read_literal (quote_char # rest) = Some ([], rest)"
  by (cases rest) auto

lemma read_literal_plain:
  "quote_char \<notin> set s \<Longrightarrow>
     read_literal (s @ t) = map_option (\<lambda>(x, r). (s @ x, r)) (read_literal t)"
proof (induction s)
  case Nil
  then show ?case by (simp add: option.map_ident case_prod_beta)
next
  case (Cons c s)
  then show ?case by (auto simp: option.map_comp comp_def case_prod_beta)
qed

lemma read_literal_doubled:
  "read_literal (quote_char # quote_char # t) = map_option (\<lambda>(x, r). (quote_char # x, r)) (read_literal t)"
  by simp

lemma char_of_39: "char_of (39 :: nat) = quote_char"
proof -
  have "char_of (of_char quote_char :: nat) = quote_char" by (rule char_of_byte)
  moreover have "of_char quote_char = (39 :: nat)" by simp
  ultimately show ?thesis by metis
qed

lemma read_escaped:
  "valid_utf8 s \<Longrightarrow> read_literal (escapeSQL s @ t) = map_option (\<lambda>(x, r). (s @ x, r)) (read_literal t)"
proof (induction s rule: runes.induct)
  case 1
  then show ?case by (simp add: escapeSQL_def option.map_ident case_prod_beta)
next
  case (2 c s)
  show ?case
  proof (cases "byte c < 128")
    case True
    with 2 have IH: "read_literal (escapeSQL s @ t) = map_option (\<lambda>(x, r). (s @ x, r)) (read_literal t)" by simp
    show ?thesis
    proof (cases "c = quote_char")
      case q: True
      then have "escapeSQL (c # s) = quote_char # quote_char # escapeSQL s"
        by (simp add: escapeSQL_def encode_rune_def char_of_39)
      with IH q show ?thesis by (simp add: option.map_comp comp_def case_prod_beta)
    next
      case False
      then have "byte c \<noteq> 39" using char_of_byte [of c] char_of_39 by metis
      with True have "escapeSQL (c # s) = c # escapeSQL s"
        by (simp add: escapeSQL_def encode_rune_def)
      with IH False show ?thesis by (simp add: option.map_comp comp_def case_prod_beta)
    qed
  next
    case False
    with 2(4) obtain r k where m: "multi_rune (byte c) s = Some (r, k)" "valid_utf8 (drop k s)"
      by (auto split: option.splits)
    note IH = 2(3) [OF False m(1) refl m(2)]
    have "128 \<le> byte c" using False by simp
    from multi_rune_bytes [OF m(1) this] have q: "quote_char \<notin> set (c # take k s)" by auto
    have "escapeSQL (c # s) = (c # take k s) @ escapeSQL (drop k s)"
      using False m(1) encode_multi_rune [OF m(1)] by (simp add: escapeSQL_def)
    then have "read_literal (escapeSQL (c # s) @ t) =
        map_option (\<lambda>(x, r). ((c # take k s) @ x, r)) (read_literal (escapeSQL (drop k s) @ t))"
      using read_literal_plain [OF q] by simp
    then show ?thesis
      unfolding IH by (simp add: option.map_comp comp_def case_prod_beta append_assoc [symmetric])
  qed
qed

text \<open>The strings of an IN list, after its opening bracket: literals with commas between them.\<close>

fun read_in_list :: "nat \<Rightarrow> string \<Rightarrow> (string list \<times> string) option" where
  "read_in_list 0 s = None"
| "read_in_list (Suc n) s =
     (case s of
        c # t \<Rightarrow>
          if c = quote_char then
            (case read_literal t of
               Some (x, d # r) \<Rightarrow>
                 if d = CHR '')'' then Some ([x], r)
                 else if d = CHR '','' then map_option (\<lambda>(xs, r). (x # xs, r)) (read_in_list n r)
                 else None
             | _ \<Rightarrow> None)
          else None
      | [] \<Rightarrow> None)"

lemma read_quoted:
  assumes "valid_utf8 s" "rest = [] \<or> hd rest \<noteq> quote_char"
  shows "quoted (escapeSQL s) @ rest = quote_char # escapeSQL s @ quote_char # rest"
    and "read_literal (escapeSQL s @ quote_char # rest) = Some (s, rest)"
  using read_escaped [OF assms(1), of "quote_char # rest"] read_literal_end [OF assms(2)]
  by (simp_all add: quoted_def)

lemma read_in_list_keys:
  assumes "\<forall>k \<in> set ks. valid_utf8 k" "ks \<noteq> []" "length ks \<le> n"
  shows "read_in_list n (comma_sep '','' (map (\<lambda>key. quoted (escapeSQL key)) ks) @ CHR '')'' # rest) = Some (ks, rest)"
  using assms
proof (induction ks arbitrary: n)
  case (Cons k ks)
  then obtain m where n: "n = Suc m" by (cases n) auto
  have v: "valid_utf8 k" using Cons.prems(1) by simp
  show ?case
  proof (cases ks)
    case Nil
    with n read_quoted [OF v, of "CHR '')'' # rest"] show ?thesis by simp
  next
    case (Cons j js)
    let ?t = "comma_sep '','' (map (\<lambda>key. quoted (escapeSQL key)) ks) @ CHR '')'' # rest"
    have "read_in_list m ?t = Some (ks, rest)"
      using Cons.IH Cons.prems Cons n by simp
    with n Cons read_quoted [OF v, of "CHR '','' # ?t"] show ?thesis by simp
  qed
qed simp

text \<open>
  C11. No injection through record keys.  Whatever the record keys contain (as long as they
  are UTF-8), the statement that fetches a page of rows by their keys has, after its fixed
  text, an IN list that SQL reads as exactly those keys, in that order, and nothing after it.
\<close>

theorem recKeys_statement_safe:
  assumes "\<forall>k \<in> set recKeys. valid_utf8 k" "recKeys \<noteq> []"
  shows "\<exists>inlist. fst (Query2SqlByRecKeys E typeName recKeys st) =
      ''SELECT '' @ comma_sep '','' (fields_list (ensure_fields E st)) @ '' FROM '' @ typeName @
      '' WHERE RecKey IN ('' @ inlist \<and>
    read_in_list (length recKeys) inlist = Some (recKeys, [])"
  using read_in_list_keys [OF assms le_refl, of "[]"]
  by (intro exI [of _ "comma_sep '','' (map (\<lambda>key. quoted (escapeSQL key)) recKeys) @ '')''"])
    (simp add: Query2SqlByRecKeys_def join_loop_True Let_def)

theorem recKeys_statement_safe_witness:
  "\<exists>inlist. fst (Query2SqlByRecKeys demo_env ''Order'' [[CHR 0x27], ''b'']
        (NewStatement demo_node None (None :: unit option))) =
      ''SELECT '' @ comma_sep '','' (fields_list (ensure_fields demo_env
         (NewStatement demo_node None (None :: unit option)))) @ '' FROM '' @ ''Order'' @
      '' WHERE RecKey IN ('' @ inlist \<and>
    read_in_list (length [[CHR 0x27], ''b'']) inlist = Some ([[CHR 0x27], ''b''], [])"
  by (rule recKeys_statement_safe) simp_all

section \<open>LIKE patterns\<close>

text \<open>The LIKE of SQL: percent for any string, underscore for any character, backslash to escape.\<close>

function sql_like :: "string \<Rightarrow> string \<Rightarrow> bool" where
  "sql_like [] s \<longleftrightarrow> s = []"
| "sql_like (p # ps) s \<longleftrightarrow>
     (if p = CHR ''%'' then
        sql_like ps s \<or> (case s of [] \<Rightarrow> False | c # t \<Rightarrow> sql_like (p # ps) t)
      else if p = CHR 0x5C then
        (case (ps, s) of (q # qs, c # t) \<Rightarrow> c = q \<and> sql_like qs t | _ \<Rightarrow> False)
      else (case s of [] \<Rightarrow> False | c # t \<Rightarrow> (p = CHR ''_'' \<or> p = c) \<and> sql_like ps t))"
  by pat_completeness auto
termination by (relation "measure (\<lambda>(p, s). length p + length s)") auto

text \<open>The wildcards of the query language: an asterisk for any string.\<close>

fun glob :: "string \<Rightarrow> string \<Rightarrow> bool" where
  "glob [] s \<longleftrightarrow> s = []"
| "glob (p # ps) [] \<longleftrightarrow> p = CHR ''*'' \<and> glob ps []"
| "glob (p # ps) (c # t) \<longleftrightarrow>
     (if p = CHR ''*'' then glob ps (c # t) \<or> glob (p # ps) t else p = c \<and> glob ps t)"

definition like_free :: "string \<Rightarrow> bool" where
  "like_free s \<longleftrightarrow> CHR ''%'' \<notin> set s \<and> CHR ''_'' \<notin> set s \<and> CHR 0x5C \<notin> set s"

lemma sql_like_percent: "sql_like [CHR ''%''] s"
  by (induction s) simp_all

lemma sql_like_prefix: "like_free key \<Longrightarrow> sql_like (key @ ''%'') s \<longleftrightarrow> prefix key s"
proof (induction key arbitrary: s)
  case Nil
  then show ?case using sql_like_percent by simp
next
  case (Cons p ps)
  then show ?case by (cases s) (auto simp: like_free_def)
qed

lemma sql_like_glob:
  "like_free v \<Longrightarrow> sql_like (map (\<lambda>c. if c = CHR ''*'' then CHR ''%'' else c) v) s \<longleftrightarrow> glob v s"
proof (induction v s rule: glob.induct)
  case (2 p ps)
  then show ?case by (auto simp: like_free_def)
next
  case (3 p ps c t)
  then show ?case by (auto simp: like_free_def)
qed simp

lemma convertWildcard_like:
  assumes "like_free v" "CHR ''*'' \<in> set v"
  shows "\<exists>p. convertWildcard v = (p, True) \<and> (\<forall>s. sql_like p s \<longleftrightarrow> glob v s)"
  using sql_like_glob [OF assms(1)] assms(2) by (simp add: convertWildcard_def)

text \<open>
  C27. Wildcards, for values without percent signs, underscores and backslashes.  An equality
  between a string property of the table and such a value is written, if the value has
  asterisks, as a LIKE whose pattern matches exactly the strings that match the value with the
  asterisks as wildcards; without an asterisk the value is compared as it is.  If the value has
  no quote either, the literal written is read back by SQL as this pattern or value.
\<close>

theorem wildcard_comparison:
  assumes "LeftProperty cmp = Obj p" "ParentType p = Some T" "IsString p"
    and "RightProperty cmp = NilIface" "COperator cmp = ''=''"
    and "like_free (stripQuotes (CRight cmp))"
  defines "v \<equiv> stripQuotes (CRight cmp)"
  shows "\<exists>lit. (if CHR ''*'' \<in> set v
      then comparator_sql (Obj cmp) T = Inr (True, CLeft cmp @ '' LIKE '' @ quoted lit) \<and>
           (\<forall>s. sql_like lit s \<longleftrightarrow> glob v s)
      else comparator_sql (Obj cmp) T = Inr (True, CLeft cmp @ ''='' @ quoted lit) \<and> lit = v) \<and>
    (quote_char \<notin> set v \<longrightarrow>
       (\<forall>t. t = [] \<or> hd t \<noteq> quote_char \<longrightarrow> read_literal (lit @ quote_char # t) = Some (lit, t)))"
proof (cases cmp)
  case (Comparator l op r lp rp)
  with assms have c: "lp = Obj p" "rp = NilIface" "op = ''=''" "v = stripQuotes r" "like_free v"
    by simp_all
  have lit: "\<forall>t. t = [] \<or> hd t \<noteq> quote_char \<longrightarrow> read_literal (x @ quote_char # t) = Some (x, t)"
    if "quote_char \<notin> set x" for x
    using read_literal_plain [OF that] read_literal_end by simp
  show ?thesis
  proof (cases "CHR ''*'' \<in> set v")
    case True
    with convertWildcard_like [OF c(5)] obtain pat where
      pat: "convertWildcard v = (pat, True)" "\<forall>s. sql_like pat s \<longleftrightarrow> glob v s" by blast
    have "quote_char \<notin> set v \<Longrightarrow> quote_char \<notin> set pat"
      using pat(1) by (auto simp: convertWildcard_def split: if_splits)
    with pat True Comparator c(1-4) assms(2,3) lit show ?thesis
      by (intro exI [of _ pat]) (auto simp: comparator_sql_def prop_of_type_def)
  next
    case False
    then have "convertWildcard v = (v, False)" by (simp add: convertWildcard_def)
    with False Comparator c(1-4) assms(2,3) lit show ?thesis
      by (intro exI [of _ v]) (simp add: comparator_sql_def prop_of_type_def)
  qed
qed

definition demo_prop :: "qproperty iface" where
  "demo_prop = Obj \<lparr>PropPath = [], ParentType = Some ''Order'', PropField = ''Name'', IsString = True\<rparr>"

theorem wildcard_comparison_witness:
  "\<exists>pat. comparator_sql (Obj (Comparator ''Name'' ''='' ''a*'' demo_prop NilIface)) ''Order'' =
       Inr (True, ''Name'' @ '' LIKE '' @ quoted pat) \<and> (\<forall>s. sql_like pat s \<longleftrightarrow> glob ''a*'' s) \<and>
     read_literal (pat @ quote_char # '' and'') = Some (pat, '' and'')"
proof -
  let ?cmp = "Comparator ''Name'' ''='' ''a*'' demo_prop NilIface"
  let ?p = "\<lparr>PropPath = [], ParentType = Some ''Order'', PropField = ''Name'', IsString = True\<rparr>"
  have v: "stripQuotes (CRight ?cmp) = ''a*''" by (simp add: stripQuotes_def)
  have c: "LeftProperty ?cmp = Obj ?p" "ParentType ?p = Some ''Order''" "IsString ?p" "RightProperty ?cmp = NilIface"
    "COperator ?cmp = ''=''" "like_free (stripQuotes (CRight ?cmp))" "CLeft ?cmp = ''Name''"
    unfolding v by (simp_all add: demo_prop_def like_free_def)
  have star: "CHR ''*'' \<in> set ''a*''" "quote_char \<notin> set ''a*''" "hd '' and'' \<noteq> quote_char" by simp_all
  from wildcard_comparison [OF c(1-6)] obtain pat where
    "comparator_sql (Obj ?cmp) ''Order'' = Inr (True, ''Name'' @ '' LIKE '' @ quoted pat)" "\<forall>s. sql_like pat s \<longleftrightarrow> glob ''a*'' s"
    "\<forall>t. t = [] \<or> hd t \<noteq> quote_char \<longrightarrow> read_literal (pat @ quote_char # t) = Some (pat, t)"
    unfolding v c(7) if_P [OF star(1)] using star(2) by metis
  then show ?thesis using star(3) by blast
qed

text \<open>An underscore in the value matches any character, and a quote ends the literal.\<close>

lemma wildcard_overmatch:
  "convertWildcard ''eth_*'' = (''eth_%'', True) \<and> sql_like ''eth_%'' ''ethX'' \<and> \<not> glob ''eth_*'' ''ethX''"
  by (simp add: convertWildcard_def)

lemma comparison_unescaped:
  "comparator_sql (Obj (Comparator ''Name'' ''='' (''a'' @ [quote_char] @ ''b'') demo_prop NilIface)) ''Order'' =
     Inr (True, ''Name='' @ quoted (''a'' @ [quote_char] @ ''b'')) \<and>
   read_literal ((''a'' @ [quote_char] @ ''b'') @ [quote_char]) = Some (''a'', ''b'' @ [quote_char])"
  by (simp add: demo_prop_def comparator_sql_def prop_of_type_def stripQuotes_def convertWildcard_def)

text \<open>
  C26. The cascade of a deletion.  The statement that deletes the children of some root rows
  has one LIKE for each of their keys, and a row whose parent path starts at the root
  record j matches one of the patterns exactly when j is one of the deleted keys: all
  descendants go, at any depth, and no other row.  Keys and field are free of brackets,
  quotes and the characters special to LIKE.
\<close>

theorem delete_by_keys_exact:
  assumes "plain f" "like_free f" "plain j" "ks \<noteq> []"
    and "\<forall>k \<in> set ks. plain k \<and> like_free k \<and> quote_char \<notin> set (bracketed f k)"
  shows "\<exists>pats. DeleteByKeysStatement_sql st (map (bracketed f) ks) =
      Some (''DELETE FROM '' @ TypeName (node st) @ '' WHERE '' @
        comma_sep '' OR '' (map (\<lambda>p. ''ParentKey LIKE '' @ quoted p) pats) @ '';'') \<and>
    (\<forall>p \<in> set pats. \<forall>t. t = [] \<or> hd t \<noteq> quote_char \<longrightarrow> read_literal (p @ quote_char # t) = Some (p, t)) \<and>
    ((\<exists>p \<in> set pats. sql_like p (bracketed f j @ rest)) \<longleftrightarrow> j \<in> set ks)"
proof (intro exI conjI)
  let ?pats = "map (\<lambda>k. bracketed f k @ ''%'') ks"
  from assms(4) show "DeleteByKeysStatement_sql st (map (bracketed f) ks) =
      Some (''DELETE FROM '' @ TypeName (node st) @ '' WHERE '' @
        comma_sep '' OR '' (map (\<lambda>p. ''ParentKey LIKE '' @ quoted p) ?pats) @ '';'')"
    unfolding DeleteByKeysStatement_sql_def join_loop_True by (simp add: comp_def)
  show "\<forall>p \<in> set ?pats. \<forall>t. t = [] \<or> hd t \<noteq> quote_char \<longrightarrow> read_literal (p @ quote_char # t) = Some (p, t)"
  proof (intro ballI allI impI)
    fix p t assume p: "p \<in> set ?pats" and t: "t = [] \<or> hd t \<noteq> quote_char"
    with assms(5) have "quote_char \<notin> set p" by auto
    from read_literal_plain [OF this, of "quote_char # t"] read_literal_end [OF t]
    show "read_literal (p @ quote_char # t) = Some (p, t)" by simp
  qed
  have "sql_like (bracketed f k @ ''%'') (bracketed f j @ rest) \<longleftrightarrow> j = k" if "k \<in> set ks" for k
  proof -
    have "like_free (bracketed f k)" "plain k"
      using assms(2,5) that by (auto simp: like_free_def bracketed_def)
    then have "sql_like (bracketed f k @ ''%'') (bracketed f j @ rest) \<longleftrightarrow> prefix (bracketed f k) (bracketed f j @ rest)"
      by (simp add: sql_like_prefix)
    also have "\<dots> \<longleftrightarrow> j = k"
      using bracketed_append_eq [OF assms(1,1,3) \<open>plain k\<close>] by (auto simp: prefix_def)
    finally show ?thesis .
  qed
  then show "(\<exists>p \<in> set ?pats. sql_like p (bracketed f j @ rest)) \<longleftrightarrow> j \<in> set ks" by auto
qed

theorem delete_by_keys_exact_witness:
  "\<exists>pats. DeleteByKeysStatement_sql (NewStatement demo_node None (None :: unit option)) (map (bracketed ''order'') [''o1'', ''o2'']) =
      Some (''DELETE FROM '' @ TypeName (node (NewStatement demo_node None (None :: unit option))) @ '' WHERE '' @
        comma_sep '' OR '' (map (\<lambda>p. ''ParentKey LIKE '' @ quoted p) pats) @ '';'') \<and>
    (\<forall>p \<in> set pats. \<forall>t. t = [] \<or> hd t \<noteq> quote_char \<longrightarrow> read_literal (p @ quote_char # t) = Some (p, t)) \<and>
    ((\<exists>p \<in> set pats. sql_like p (bracketed ''order'' ''o2'' @ ''Lines[1]'')) \<longleftrightarrow> ''o2'' \<in> set [''o1'', ''o2''])"
  by (rule delete_by_keys_exact) (simp_all add: plain_def like_free_def bracketed_def)

text \<open>An underscore in a key deletes the children of other records.\<close>

lemma delete_by_keys_overmatch:
  "sql_like (bracketed ''order'' ''a_b'' @ ''%'') (bracketed ''order'' ''axb'' @ ''Lines[0]'')"
  by (simp add: bracketed_def)

section \<open>The WHERE clause of a criteria\<close>

text \<open>
  Well-formed Boolean SQL over a list of comparisons in their order: one comparison, a chain
  of comparisons joined by operators, and bracketed groups.
\<close>

inductive where_text :: "string set \<Rightarrow> string list \<Rightarrow> string \<Rightarrow> bool" for ops where
  single: "where_text ops [a] a"
| chain: "where_text ops as s \<Longrightarrow> op \<in> ops \<Longrightarrow> where_text ops (a # as) (a @ op @ s)"
| group: "where_text ops as s \<Longrightarrow> where_text ops as (CHR ''('' # s @ '')'')"
| join: "where_text ops as s \<Longrightarrow> op \<in> ops \<Longrightarrow> where_text ops bs t \<Longrightarrow>
           where_text ops (as @ bs) (CHR ''('' # s @ op @ t @ '')'')"

lemma where_text_mono: "where_text ops as s \<Longrightarrow> ops \<subseteq> ops' \<Longrightarrow> where_text ops' as s"
  by (induction rule: where_text.induct) (auto intro: where_text.intros)

lemma where_text_nonempty: "where_text ops as s \<Longrightarrow> as \<noteq> []"
  by (induction rule: where_text.induct) auto

text \<open>The comparisons of a condition and of an expression, and their operators, in order.\<close>

function cond_comparators :: "condition iface \<Rightarrow> comparator iface list" where
  "cond_comparators (Obj (Condition cmp op nxt)) = cmp # cond_comparators nxt"
| "cond_comparators NilIface = []"
| "cond_comparators NilPtr = []"
  by pat_completeness auto
termination by (relation "measure (size_iface size)") auto

function exp_conditions :: "qexpression iface \<Rightarrow> condition iface list" where
  "exp_conditions (Obj (Expression cond op nxt)) = cond # exp_conditions nxt"
| "exp_conditions NilIface = []"
| "exp_conditions NilPtr = []"
  by pat_completeness auto
termination by (relation "measure (size_iface size)") auto

text \<open>The nodes with their operators, which stand between a node and the next one.\<close>

function cond_nodes :: "condition iface \<Rightarrow> (comparator iface \<times> string) list" where
  "cond_nodes (Obj (Condition cmp op nxt)) = (cmp, op) # cond_nodes nxt"
| "cond_nodes NilIface = []"
| "cond_nodes NilPtr = []"
  by pat_completeness auto
termination by (relation "measure (size_iface size)") auto

function exp_nodes :: "qexpression iface \<Rightarrow> (condition iface \<times> string) list" where
  "exp_nodes (Obj (Expression cond op nxt)) = (cond, op) # exp_nodes nxt"
| "exp_nodes NilIface = []"
| "exp_nodes NilPtr = []"
  by pat_completeness auto
termination by (relation "measure (size_iface size)") auto

lemma nodes_fst [simp]: "map fst (cond_nodes c) = cond_comparators c" "map fst (exp_nodes e) = exp_conditions e"
proof -
  show "map fst (cond_nodes c) = cond_comparators c" by (induction c rule: cond_nodes.induct) simp_all
  show "map fst (exp_nodes e) = exp_conditions e" by (induction e rule: exp_nodes.induct) simp_all
qed

text \<open>The operators of the nodes that have a next one.\<close>

definition joins :: "('x \<times> string) list \<Rightarrow> string set" where
  "joins xs = set (map snd (butlast xs))"

definition criteria_joins :: "qexpression iface \<Rightarrow> string set" where
  "criteria_joins e = joins (exp_nodes e) \<union> (\<Union>c \<in> set (exp_conditions e). joins (cond_nodes c))"

text \<open>The texts of the comparisons that mention a property of the table.\<close>

definition own_texts :: "string \<Rightarrow> comparator iface list \<Rightarrow> string list" where
  "own_texts T cs = List.map_filter
     (\<lambda>c. case comparator_sql c T of Inr (True, s) \<Rightarrow> Some s | _ \<Rightarrow> None) cs"

text \<open>No comparison on the table stands behind one on another table.\<close>

fun own_first :: "bool list \<Rightarrow> bool" where
  "own_first [] \<longleftrightarrow> True"
| "own_first (b # bs) \<longleftrightarrow> (if b then own_first bs else True \<notin> set bs)"

definition own_comparison :: "string \<Rightarrow> comparator iface \<Rightarrow> bool" where
  "own_comparison T c \<longleftrightarrow> (case comparator_sql c T of Inr (ok, s) \<Rightarrow> ok | Inl e \<Rightarrow> False)"

definition lead_ok :: "string \<Rightarrow> qexpression iface \<Rightarrow> bool" where
  "lead_ok T e \<longleftrightarrow>
     (\<forall>c \<in> set (exp_conditions e). own_first (map (own_comparison T) (cond_comparators c))) \<and>
     own_first (map (\<lambda>c. True \<in> set (map (own_comparison T) (cond_comparators c))) (exp_conditions e))"

lemma own_texts_simps:
  "own_texts T [] = []"
  "own_texts T (c # cs) =
     (case comparator_sql c T of Inr (True, s) \<Rightarrow> s # own_texts T cs | _ \<Rightarrow> own_texts T cs)"
  by (auto simp: own_texts_def List.map_filter_simps split: sum.split bool.split)

lemma own_texts_append: "own_texts T (cs @ ds) = own_texts T cs @ own_texts T ds"
  by (simp add: own_texts_def List.map_filter_def)

text \<open>
  The texts of the comparisons on the table with their operators, and the clause made of them:
  between two comparisons, and between two groups, stands the operator of the first one.
\<close>

definition own_terms :: "string \<Rightarrow> condition iface \<Rightarrow> (string \<times> string) list" where
  "own_terms T c = List.map_filter
     (\<lambda>(cmp, op). case comparator_sql cmp T of Inr (True, s) \<Rightarrow> Some (s, op) | _ \<Rightarrow> None) (cond_nodes c)"

fun joined :: "(string \<times> string) list \<Rightarrow> string" where
  "joined [] = []"
| "joined [(a, op)] = a"
| "joined ((a, op) # b # xs) = a @ op @ joined (b # xs)"

fun grouped :: "(string \<times> string) list \<Rightarrow> string" where
  "grouped [] = []"
| "grouped [(s, op)] = ''('' @ s @ '')''"
| "grouped ((s, op) # b # xs) = ''('' @ s @ op @ grouped (b # xs) @ '')''"

definition own_groups :: "string \<Rightarrow> qexpression iface \<Rightarrow> (string \<times> string) list" where
  "own_groups T e = List.map_filter
     (\<lambda>(c, op). if own_terms T c = [] then None else Some (joined (own_terms T c), op)) (exp_nodes e)"

lemma own_terms_simps:
  "own_terms T (Obj (Condition cmp op nxt)) =
     (case comparator_sql cmp T of Inr (True, s) \<Rightarrow> (s, op) # own_terms T nxt | _ \<Rightarrow> own_terms T nxt)"
  "own_terms T NilIface = []" "own_terms T NilPtr = []"
  by (auto simp: own_terms_def List.map_filter_simps split: sum.split bool.split)

lemma own_groups_simps:
  "own_groups T (Obj (Expression c op nxt)) =
     (if own_terms T c = [] then own_groups T nxt else (joined (own_terms T c), op) # own_groups T nxt)"
  "own_groups T NilIface = []" "own_groups T NilPtr = []"
  by (simp_all add: own_groups_def List.map_filter_simps)

lemma own_terms_texts: "map fst (own_terms T c) = own_texts T (cond_comparators c)"
  by (induction c rule: cond_nodes.induct)
    (auto simp: own_terms_simps own_texts_simps split: sum.split bool.split)

lemma joined_Cons: "xs \<noteq> [] \<Longrightarrow> joined ((a, op) # xs) = a @ op @ joined xs"
  by (cases xs) simp_all

lemma grouped_Cons: "xs \<noteq> [] \<Longrightarrow> grouped ((s, op) # xs) = ''('' @ s @ op @ grouped xs @ '')''"
  by (cases xs) simp_all

lemma joins_Cons: "joins [] = {}" "joins ((x, op) # xs) = (if xs = [] then {} else insert op (joins xs))"
  by (simp_all add: joins_def)

lemma condition_sql_joined:
  assumes "condition_sql c T = Inr (ok, s)"
  shows "(ok \<longleftrightarrow> own_terms T c \<noteq> []) \<and> (ok \<longleftrightarrow> True \<in> set (map (own_comparison T) (cond_comparators c))) \<and>
    (own_first (map (own_comparison T) (cond_comparators c)) \<longrightarrow> s = joined (own_terms T c) \<and>
      (ok \<longrightarrow> where_text (joins (cond_nodes c)) (map fst (own_terms T c)) s))"
  using assms
proof (induction c T arbitrary: ok s rule: condition_sql.induct)
  case (1 cmp op nxt T)
  from "1.prems" obtain okc e1 okn e2 where r: "comparator_sql cmp T = Inr (okc, e1)"
    "condition_sql nxt T = Inr (okn, e2)" "ok = (okc \<or> okn)"
    "s = (if okc then e1 else []) @ (if okn then op @ e2 else [])"
    by (auto simp: rbind_eq_Inr)
  note IH = "1.IH" [OF r(1) refl r(2)]
  have own: "own_comparison T cmp = okc" using r(1) by (simp add: own_comparison_def)
  have nxt: "cond_nodes nxt \<noteq> []" if okn
    using that IH by (auto simp: own_terms_def List.map_filter_simps)
  have mono: "where_text (joins (cond_nodes nxt)) as t \<Longrightarrow> where_text (insert op (joins (cond_nodes nxt))) as t" for as t
    by (erule where_text_mono) blast
  show ?case
    using IH r own nxt
    by (cases okc; cases okn) (auto simp: own_terms_simps joined_Cons joins_Cons intro: single chain dest: mono)
qed (simp_all add: own_terms_simps)

lemma expression_sql_grouped:
  assumes "expression_sql e T = Inr (ok, s)"
  shows "(ok \<longleftrightarrow> own_groups T e \<noteq> []) \<and>
    (ok \<longleftrightarrow> own_texts T (concat (map cond_comparators (exp_conditions e))) \<noteq> []) \<and>
    (ok \<longleftrightarrow> (\<exists>c \<in> set (exp_conditions e). True \<in> set (map (own_comparison T) (cond_comparators c)))) \<and>
    (lead_ok T e \<longrightarrow> s = grouped (own_groups T e) \<and>
       (ok \<longrightarrow> where_text (criteria_joins e) (own_texts T (concat (map cond_comparators (exp_conditions e)))) s))"
  using assms
proof (induction e T arbitrary: ok s rule: expression_sql.induct)
  case (1 cond op nxt T)
  let ?e = "Obj (Expression cond op nxt)"
  from "1.prems" obtain okc e1 okn e2 where r: "condition_sql cond T = Inr (okc, e1)"
    "expression_sql nxt T = Inr (okn, e2)" "ok = (okc \<or> okn)"
    "s = (if okc then ''('' @ e1 else []) @ (if okn then (if \<not> okc then ''('' else []) @ op @ e2 else []) @
         (if okn \<or> okc then '')'' else [])"
    by (auto simp: rbind_eq_Inr)
  note IH = "1.IH" [OF r(1) refl r(2)]
  note C = condition_sql_joined [OF r(1), unfolded own_terms_texts]
  have nxt: "exp_nodes nxt \<noteq> []" if okn
    using that IH by (auto simp: own_groups_def List.map_filter_simps)
  have sub: "joins (cond_nodes cond) \<subseteq> criteria_joins ?e" "criteria_joins nxt \<subseteq> criteria_joins ?e"
    "okn \<Longrightarrow> op \<in> criteria_joins ?e"
    using nxt by (auto simp: criteria_joins_def joins_Cons)
  have texts: "own_texts T (concat (map cond_comparators (exp_conditions ?e))) =
      map fst (own_terms T cond) @ own_texts T (concat (map cond_comparators (exp_conditions nxt)))"
    by (simp add: own_texts_append own_terms_texts)
  have "s = grouped (own_groups T ?e) \<and>
      (ok \<longrightarrow> where_text (criteria_joins ?e) (own_texts T (concat (map cond_comparators (exp_conditions ?e)))) s)"
    if lead: "lead_ok T ?e"
  proof (cases okc)
    case True
    have nl: "lead_ok T nxt" using lead C True by (simp add: lead_ok_def)
    have e1: "e1 = joined (own_terms T cond)" "where_text (joins (cond_nodes cond)) (map fst (own_terms T cond)) e1"
    proof -
      have "own_first (map (own_comparison T) (cond_comparators cond))" using lead by (simp add: lead_ok_def)
      with C True show "e1 = joined (own_terms T cond)" "where_text (joins (cond_nodes cond)) (map fst (own_terms T cond)) e1"
        unfolding own_terms_texts by blast+
    qed
    have w: "where_text (criteria_joins ?e) (map fst (own_terms T cond)) e1"
      using e1(2) sub(1) by (rule where_text_mono)
    show ?thesis
    proof (cases okn)
      case n: True
      then have "where_text (criteria_joins nxt) (own_texts T (concat (map cond_comparators (exp_conditions nxt)))) e2"
        "e2 = grouped (own_groups T nxt)" using IH nl by blast+
      with join [OF w sub(3) [OF n] where_text_mono [OF _ sub(2)]] r(4) True n C IH e1(1) show ?thesis
        unfolding texts by (simp add: own_groups_simps grouped_Cons)
    next
      case False
      then have "own_groups T nxt = []" "own_texts T (concat (map cond_comparators (exp_conditions nxt))) = []"
        using IH by blast+
      with group [OF w] r(4) True False C e1(1) show ?thesis
        unfolding texts by (simp add: own_groups_simps)
    qed
  next
    case False
    with lead C have "\<not> okn" using IH by (auto simp: lead_ok_def)
    with False r(3,4) C IH show ?thesis by (auto simp: own_groups_simps)
  qed
  moreover have "ok \<longleftrightarrow> own_groups T ?e \<noteq> []" using r(3) C IH by (auto simp: own_groups_simps)
  moreover have "ok \<longleftrightarrow> own_texts T (concat (map cond_comparators (exp_conditions ?e))) \<noteq> []"
    unfolding texts using r(3) C IH by auto
  ultimately show ?case using C IH r(3) by auto
qed (simp_all add: own_groups_simps own_texts_simps)

text \<open>
  C25. The WHERE clause.  Provided that no comparison on the root table stands behind one on
  another table, the text made of a criteria is exactly this: the comparisons on the root
  table in their order, those of one condition with the operator of a comparison between it
  and the next one, each condition in brackets that also hold the operator of its expression
  and the text of the rest.  It is well-formed Boolean SQL over these comparisons when
  the operators of the nodes that have a successor are Boolean operators; no other operator
  is in it.  There is no clause exactly when no comparison is on the root table.
\<close>

theorem where_clause_well_formed:
  assumes "where_clause keyword e q = Inr w" "lead_ok (TypeName (RootType q)) e"
  defines "own \<equiv> own_texts (TypeName (RootType q)) (concat (map cond_comparators (exp_conditions e)))"
    and "clause_text \<equiv> grouped (own_groups (TypeName (RootType q)) e)"
  shows "if own = [] then w = [] else w = keyword @ clause_text \<and> where_text (criteria_joins e) own clause_text"
proof -
  from assms(1) obtain ok s where e: "expression_sql e (TypeName (RootType q)) = Inr (ok, s)"
    "w = (if ok then keyword @ s else [])"
    by (auto simp: where_clause_def rbind_eq_Inr)
  from expression_sql_grouped [OF e(1)] assms(2) e(2) show ?thesis
    by (auto simp: own_def clause_text_def)
qed

definition demo_query :: iquery where
  "demo_query = \<lparr>RootType = demo_node, Properties = [],
     Criteria = Obj (Expression
       (Obj (Condition (Obj (Comparator ''Name'' ''='' ''a*'' demo_prop NilIface)) '' or ''
         (Obj (Condition (Obj (Comparator ''Name'' ''='' ''b'' demo_prop NilIface)) [] NilPtr)))) [] NilPtr),
     Aggregates = [], GroupBy = [], Having = NilIface, SortBy = ''Name'', Descending = False,
     Limit = 25, Page = 2, IsAggregate = False, AAAId = [], QHash = 77\<rparr>"

text \<open>Two groups, the first with two comparisons.\<close>

definition grouped_query :: iquery where
  "grouped_query = demo_query\<lparr>Criteria := Obj (Expression
     (Obj (Condition (Obj (Comparator ''Name'' ''='' ''a*'' demo_prop NilIface)) '' or ''
       (Obj (Condition (Obj (Comparator ''Name'' ''='' ''b'' demo_prop NilIface)) [] NilPtr)))) '' and ''
     (Obj (Expression
       (Obj (Condition (Obj (Comparator ''Name'' ''!='' ''c'' demo_prop NilIface)) [] NilPtr)) [] NilPtr)))\<rparr>"

theorem where_clause_well_formed_witness:
  "where_clause '' where '' (Criteria grouped_query) grouped_query =
     Inr ('' where (Name LIKE '' @ quoted ''a%'' @ '' or Name='' @ quoted ''b'' @ '' and (Name!='' @ quoted ''c'' @ ''))'') \<and>
   where_text {'' or '', '' and ''} [''Name LIKE '' @ quoted ''a%'', ''Name='' @ quoted ''b'', ''Name!='' @ quoted ''c'']
     (''(Name LIKE '' @ quoted ''a%'' @ '' or Name='' @ quoted ''b'' @ '' and (Name!='' @ quoted ''c'' @ ''))'')"
proof -
  obtain w where 1: "where_clause '' where '' (Criteria grouped_query) grouped_query = Inr w"
    by (cases "where_clause '' where '' (Criteria grouped_query) grouped_query") (code_simp, simp)
  have 2: "lead_ok (TypeName (RootType grouped_query)) (Criteria grouped_query)"
    and 3: "own_texts (TypeName (RootType grouped_query)) (concat (map cond_comparators (exp_conditions (Criteria grouped_query)))) =
      [''Name LIKE '' @ quoted ''a%'', ''Name='' @ quoted ''b'', ''Name!='' @ quoted ''c'']"
    and 4: "grouped (own_groups (TypeName (RootType grouped_query)) (Criteria grouped_query)) =
      ''(Name LIKE '' @ quoted ''a%'' @ '' or Name='' @ quoted ''b'' @ '' and (Name!='' @ quoted ''c'' @ ''))''"
    by code_simp+
  have 5: "criteria_joins (Criteria grouped_query) = {'' or '', '' and ''}"
    by (auto simp: grouped_query_def criteria_joins_def joins_def)
  from where_clause_well_formed [OF 1 2] 1 show ?thesis
    unfolding 3 4 5 by simp
qed

text \<open>A comparison on another table in front leaves its operator without a left side.\<close>

lemma where_clause_dangling_operator:
  "expression_sql (Obj (Expression
     (Obj (Condition (Obj (Comparator ''x'' ''='' ''1'' NilIface NilIface)) '' and ''
       (Obj (Condition (Obj (Comparator ''Name'' ''='' ''b'' demo_prop NilIface)) [] NilPtr)))) [] NilPtr)) ''Order'' =
   Inr (True, ''( and Name='' @ quoted ''b'' @ '')'')"
  by code_simp

section \<open>The columns of a SELECT\<close>





text \<open>Properties of other tables leave bare commas in the projection, and a large page overflows.\<close>

lemma select_mixed_projection:
  "fst (projr (select_list demo_env (demo_query\<lparr>Properties :=
      [\<lparr>PropPath = [], ParentType = Some ''Line'', PropField = ''Text'', IsString = True\<rparr>,
       \<lparr>PropPath = [], ParentType = Some ''Order'', PropField = ''Name'', IsString = True\<rparr>]\<rparr>) ''Order''
      (NewStatement demo_node None (Some demo_query)))) = ''Select ParentKey,RecKey,,Name''"
  by (simp add: select_list_def demo_query_def NewStatement_def)

lemma limit_offset_overflow:
  "limit_offset (demo_query\<lparr>Limit := 50000, Page := 50000\<rparr>) = '' LIMIT 50000 OFFSET -1794967296''"
proof -
  have "itoa 50000 = ''50000''" "itoa (- 1794967296) = ''-1794967296''" by code_simp+
  then show ?thesis by (simp add: limit_offset_def demo_query_def)
qed

end
