(* ===== verification/Convert_Schema_Correct.thy ===== *)
theory Convert_Schema_Correct
  imports Convert_Schema Type_Graph Sql_Query_Correct
begin

text \<open>
  The schema of relational data: without a projection it has exactly the tables of the type,
  with all their columns; and what a projection does to the tables below the root.
\<close>

section \<open>Without a projection\<close>

definition tnames :: "L8OrmRData \<Rightarrow> string set" where
  "tnames data = set (gkeys (Tables data))"

definition full_table :: "'a env_scheme \<Rightarrow> l8node \<Rightarrow> L8OrmTable" where
  "full_table E n = SetColumns E n (new_table (TypeName n))"

text \<open>The tables added below a node are full, those that were there stay.\<close>

definition adds_tables :: "'a env_scheme \<Rightarrow> l8node \<Rightarrow> l8node \<Rightarrow> L8OrmRData \<Rightarrow> L8OrmRData \<Rightarrow> bool" where
  "adds_tables E r n data data' \<longleftrightarrow>
     explores r n (tnames data) (tnames data') \<and>
     RootTypeName data' = RootTypeName data \<and> TsData data' = TsData data \<and>
     (distinct (gkeys (Tables data)) \<longrightarrow> distinct (gkeys (Tables data'))) \<and>
     (\<forall>t. map_of (Tables data') t = map_of (Tables data) t \<or>
        map_of (Tables data) t = None \<and>
        (\<exists>m. reach n m \<and> TypeName m = t \<and> map_of (Tables data') t = Some (full_table E m)))"

lemma adds_refl: "adds_tables E r n data data"
  by (simp add: adds_tables_def explores_refl)

lemma adds_trans: "adds_tables E r n a b \<Longrightarrow> adds_tables E r n b c \<Longrightarrow> adds_tables E r n a c"
  unfolding adds_tables_def using explores_trans by (metis (no_types, lifting))

lemma adds_sub: "adds_tables E r k a b \<Longrightarrow> reach n k \<Longrightarrow> adds_tables E r n a b"
  unfolding adds_tables_def using explores_sub reach_trans by (metis (no_types, lifting))

lemma mfold_adds:
  assumes "\<And>p S. p \<in> set xs \<Longrightarrow> \<exists>S'. F S p = Inr S' \<and> adds_tables E r n S S' \<and>
      (sub_attr p \<longrightarrow> TypeName (snd p) \<in> tnames S')"
  shows "\<exists>S'. mfold F S xs = Inr S' \<and> adds_tables E r n S S' \<and>
      (\<forall>p \<in> set xs. sub_attr p \<longrightarrow> TypeName (snd p) \<in> tnames S')"
  using assms
proof (induction xs arbitrary: S)
  case (Cons p xs)
  obtain S1 where S1: "F S p = Inr S1" "adds_tables E r n S S1" "sub_attr p \<Longrightarrow> TypeName (snd p) \<in> tnames S1"
    using Cons.prems [of p S] by auto
  obtain S2 where S2: "mfold F S1 xs = Inr S2" "adds_tables E r n S1 S2"
    "\<forall>q \<in> set xs. sub_attr q \<longrightarrow> TypeName (snd q) \<in> tnames S2"
    using Cons.IH [of S1] Cons.prems by auto
  have "tnames S1 \<subseteq> tnames S2" using S2(2) by (simp add: adds_tables_def explores_def)
  then show ?case using S1 S2 adds_trans by auto
qed (simp add: adds_refl)

text \<open>The table of the node itself, then the tables of its sub-attributes.\<close>

definition with_table :: "'a env_scheme \<Rightarrow> l8node \<Rightarrow> L8OrmRData \<Rightarrow> L8OrmRData" where
  "with_table E n data = data\<lparr>Tables := AList.update (TypeName n) (full_table E n) (Tables data)\<rparr>"

lemma update_update: "AList.update k y (AList.update k x m) = AList.update k y m"
  by (induction m) auto

lemma on_new_table:
  "on_table (TypeName n) (SetColumns E n)
     (data\<lparr>Tables := AList.update (TypeName n) (new_table (TypeName n)) (Tables data)\<rparr>) = with_table E n data"
  by (simp add: on_table_def map_of_update update_update with_table_def full_table_def)

lemma addTable_full:
  assumes "orders_ok E" "consistent r" "reach r n"
    and "properties = None \<or> properties = Some [] \<and> map_of (Tables data) (TypeName n) = None"
  shows "\<exists>data'. addTable E n properties data = Inr data' \<and> adds_tables E r n data data' \<and>
    TypeName n \<in> tnames data'"
  using assms
proof (induction E n properties data rule: addTable.induct)
  case (1 E n properties data)
  show ?case
  proof (cases "map_of (Tables data) (TypeName n) = None")
    case False
    then have "TypeName n \<in> tnames data" by (simp add: tnames_def gkeys_def map_of_eq_None_iff)
    with False "1.prems"(4) show ?thesis
      unfolding addTable.simps [of E n properties data] by (auto simp: adds_refl)
  next
    case True
    define F where "F = (\<lambda>data (attrName :: string, attr).
      if IsStruct attr then
        (if IsTimeSeriesType (TypeName attr) then Inr data else addTable E attr None data)
      else Inr data)"
    define attrs where "attrs = range_loop (rng E (''addTable'', TypeName n)) (Attributes n)"
    let ?D = "with_table E n data"
    have as: "set attrs = set (Attributes n)"
      using set_range_loop [OF orders_okD(1) [OF "1.prems"(1)] consistentD(1) [OF "1.prems"(2,3)]]
      by (simp add: attrs_def)
    have ps: "(case properties of None \<Rightarrow> [] | Some ps \<Rightarrow> ps) = []" using "1.prems"(4) by auto
    have run: "addTable E n properties data = mfold F ?D attrs"
      unfolding addTable.simps [of E n properties data]
      by (simp add: True ps Let_def F_def attrs_def on_new_table del: mfold.simps)
    have step: "\<exists>S'. F S p = Inr S' \<and> adds_tables E r n S S' \<and> (sub_attr p \<longrightarrow> TypeName (snd p) \<in> tnames S')"
      if "p \<in> set attrs" for p S
    proof (cases "sub_attr p")
      case sub: True
      obtain a k where p: "p = (a, k)" by (cases p)
      have nk: "reach n k" using that sub as unfolding p by (blast intro: reach.intros)
      then have rk: "reach r k" using "1.prems"(3) reach_trans by blast
      have "\<exists>S'. addTable E k None S = Inr S' \<and> adds_tables E r k S S' \<and> TypeName k \<in> tnames S'"
        using that sub "1.prems"(1,2) rk
        by (intro "1.IH"(1) [of _ "(a, k)" a k]) (simp_all add: True ps p attrs_def [symmetric])
      then show ?thesis using sub adds_sub [OF _ nk] by (auto simp: F_def p)
    next
      case False
      then show ?thesis by (cases p) (auto simp: F_def adds_refl)
    qed
    from mfold_adds [of attrs F E r n, OF step] obtain D' where
      D': "mfold F ?D attrs = Inr D'" "adds_tables E r n ?D D'"
      "\<And>p. p \<in> set (Attributes n) \<Longrightarrow> sub_attr p \<Longrightarrow> TypeName (snd p) \<in> tnames D'"
      unfolding as by blast
    have names: "tnames ?D = insert (TypeName n) (tnames data)"
      by (simp add: tnames_def with_table_def set_gkeys_update)
    have ex: "explores r n (tnames data) (tnames D') \<and> TypeName n \<in> tnames D'"
      using D'(2,3) closes_node [OF "1.prems"(2,3)] unfolding adds_tables_def names by blast
    have "adds_tables E r n data D'"
      using D'(2) ex True reach.self
      unfolding adds_tables_def with_table_def
      by (auto simp: map_of_update distinct_gkeys_update split: if_splits)
    with run D'(1) ex show ?thesis by auto
  qed
qed

lemma number_columns_range:
  assumes "is_order ord" "distinct (gkeys (Attributes n))"
  shows "distinct (map fst (number_columns (range_loop ord (Attributes n)))) \<and>
    set (map fst (number_columns (range_loop ord (Attributes n)))) = set (scalar_names n) \<and>
    map snd (number_columns (range_loop ord (Attributes n))) =
      map of_nat [1..<Suc (length (number_columns (range_loop ord (Attributes n))))]"
proof -
  let ?as = "range_loop ord (Attributes n)"
  have d: "distinct (map fst ?as)" by (rule distinct_range_loop [OF assms])
  have "distinct (map fst (filter scalar_attr ?as))" using d by (simp add: distinct_map_filter)
  moreover have "set (map fst (filter scalar_attr ?as)) = set (scalar_names n)"
    using set_range_loop [OF assms] by (simp add: scalar_names_def)
  ultimately show ?thesis unfolding number_columns_zip [OF d] by (simp del: upt_Suc)
qed

lemma query_schema:
  assumes "orders_ok E" "consistent (RootType q)" "Properties q = []"
  shows "\<exists>data. NewRelationsDataForQuery E q = Inr data \<and>
    set (gkeys (Tables data)) = TypeName ` Collect (reach (RootType q)) \<and>
    (\<forall>m. reach (RootType q) m \<longrightarrow> (\<exists>c. map_of (Tables data) (TypeName m) =
        Some \<lparr>Name = TypeName m, Columns = Some c, InstanceRows = None\<rparr> \<and>
       distinct (map fst c) \<and> set (map fst c) = set (scalar_names m) \<and>
       map snd c = map of_nat [1..<Suc (length c)]))"
proof -
  let ?r = "RootType q"
  obtain data where d: "addTable E ?r (Some []) (new_rdata (TypeName ?r)) = Inr data"
    "adds_tables E ?r ?r (new_rdata (TypeName ?r)) data" "TypeName ?r \<in> tnames data"
    using addTable_full [OF assms(1,2) reach.self, of "Some []" "new_rdata (TypeName ?r)"]
    by (auto simp: new_rdata_def)
  have x: "explores ?r ?r {} (tnames data)"
    using d(2) by (simp add: adds_tables_def new_rdata_def tnames_def gkeys_def)
  have names: "tnames data = TypeName ` Collect (reach ?r)"
    using explores_all [OF x d(3)] .
  have "\<exists>c. map_of (Tables data) (TypeName m) = Some \<lparr>Name = TypeName m, Columns = Some c, InstanceRows = None\<rparr> \<and>
       distinct (map fst c) \<and> set (map fst c) = set (scalar_names m) \<and> map snd c = map of_nat [1..<Suc (length c)]"
    if m: "reach ?r m" for m
  proof -
    have "TypeName m \<in> tnames data" using names m by blast
    then have "map_of (Tables data) (TypeName m) \<noteq> None"
      by (simp add: tnames_def gkeys_def map_of_eq_None_iff)
    then obtain k where k: "reach ?r k" "TypeName k = TypeName m"
      "map_of (Tables data) (TypeName m) = Some (full_table E k)"
      using d(2) unfolding adds_tables_def new_rdata_def
      by (metis (no_types, opaque_lifting) L8OrmRData.select_convs(1) map_of.simps(1))
    have as: "Attributes k = Attributes m" "distinct (gkeys (Attributes m))"
      using consistentD [OF assms(2) m] k(1,2) by metis+
    let ?c = "number_columns (range_loop (rng E (''SetColumns'', TypeName m)) (Attributes m))"
    have "full_table E k = \<lparr>Name = TypeName m, Columns = Some ?c, InstanceRows = None\<rparr>"
      using k(2) as by (simp add: full_table_def SetColumns_def new_table_def)
    moreover have "distinct (map fst ?c) \<and> set (map fst ?c) = set (scalar_names m) \<and> map snd ?c = map of_nat [1..<Suc (length ?c)]"
      using number_columns_range [OF orders_okD(1) [OF assms(1)] as(2)] .
    ultimately show ?thesis using k(3) by metis
  qed
  with d(1) names assms(3) show ?thesis by (auto simp: NewRelationsDataForQuery_def tnames_def)
qed

text \<open>
  C39. The schema of a query.  For a query without a projection the relational data have
  exactly the tables of the types reachable from its root, each without rows and with one
  column for every scalar attribute of its type, numbered from 1 without gaps.
\<close>

theorem query_schema_full:
  assumes "orders_ok E" "consistent (RootType q)" "Properties q = []"
  shows "\<exists>data. NewRelationsDataForQuery E q = Inr data \<and>
    set (gkeys (Tables data)) = TypeName ` Collect (reach (RootType q)) \<and>
    (\<forall>m. reach (RootType q) m \<longrightarrow> (\<exists>c. map_of (Tables data) (TypeName m) =
        Some \<lparr>Name = TypeName m, Columns = Some c, InstanceRows = None\<rparr> \<and>
       distinct (map fst c) \<and> set (map fst c) = set (scalar_names m) \<and>
       map snd c = map of_nat [1..<Suc (length c)]))"
  using query_schema [OF assms] .

theorem query_schema_full_witness:
  "\<exists>data. NewRelationsDataForQuery demo_env demo_query = Inr data \<and>
    set (gkeys (Tables data)) = TypeName ` Collect (reach (RootType demo_query)) \<and>
    (\<exists>c. map_of (Tables data) (TypeName (RootType demo_query)) =
        Some \<lparr>Name = TypeName (RootType demo_query), Columns = Some c, InstanceRows = None\<rparr> \<and>
       distinct (map fst c) \<and> set (map fst c) = set (scalar_names (RootType demo_query)) \<and>
       map snd c = map of_nat [1..<Suc (length c)])"
proof -
  have c: "consistent (RootType demo_query)" using consistent_demo by (simp add: demo_query_def)
  have p: "Properties demo_query = []" by (simp add: demo_query_def)
  from query_schema_full [OF orders_ok_demo c p] show ?thesis using reach.self by blast
qed

section \<open>With a projection\<close>

text \<open>
  C40. The schema of a type.  NewRelationalDataForType passes the name of the type as if it
  were the path of a property.  Unless the type has an attribute of its own name, without
  regard to case, it panics: it never builds the schema it documents.
\<close>

theorem type_schema_panics:
  assumes "orders_ok E" "nodeByName typeName = Some n" "CHR ''.'' \<notin> set typeName"
    and "distinct (gkeys (Attributes n))"
    and "to_lower typeName \<notin> to_lower ` fst ` set (Attributes n)"
  shows "NewRelationalDataForType E nodeByName typeName = Inl (Panic (typeName @ '' does not exist''))"
proof -
  have up: "fst ` set (AList.update k v m) = insert k (fst ` set m)" for k v and m :: "(string, string) gomap"
    using set_gkeys_update [of k v m] by (simp add: gkeys_def)
  have keys: "fst ` set (fold (\<lambda>(name, attr) m. AList.update (to_lower name) name m) xs m) =
      fst ` set m \<union> to_lower ` fst ` set xs" for xs :: "(string \<times> l8node) list" and m :: "(string, string) gomap"
    by (induction xs arbitrary: m) (simp_all add: up split: prod.split)
  have "fst ` set (lower_names E n) = to_lower ` fst ` set (Attributes n)"
    unfolding lower_names_def keys set_range_loop [OF orders_okD(1) [OF assms(1)] assms(4)] by simp
  then have none: "map_of (lower_names E n) (to_lower typeName) = None"
    using assms(5) by (simp add: map_of_eq_None_iff)
  have "typeName \<notin> fst ` set (Attributes n)" using assms(5) by blast
  then have "map_of (Attributes n) typeName = None" by (simp add: map_of_eq_None_iff)
  then have "getAttrName E typeName n = Inl (Panic (typeName @ '' does not exist''))"
    using none assms(3) by (simp add: getAttrName_def str_index_absent Let_def)
  then show ?thesis
    using assms(2) by (simp add: NewRelationalDataForType_def addTable.simps new_rdata_def add_property_def)
qed

theorem type_schema_panics_witness:
  "NewRelationalDataForType demo_env (nodeOf demo_env) ''Order'' = Inl (Panic ''Order does not exist'')"
  using type_schema_panics [OF orders_ok_demo, of "nodeOf demo_env" "''Order''" demo_node]
  by (simp add: demo_env_def demo_node_def gkeys_def to_lower_def char_lower_def)

text \<open>
  A second path into the same sub-table replaces the table made for the first: of a query for
  two columns of a sub-table only the last is in its schema.
\<close>

lemma projection_replaces_table:
  "map_option Columns (map_of (case addTable demo_env
      (L8Node ''Order'' ''order'' True False False [] [(''Line'', L8Node ''Line'' ''Line'' True False False []
         [(''Text'', scalar_node ''Text''), (''Note'', scalar_node ''Note'')])])
      (Some [''Line.Text'', ''Line.Note'']) (new_rdata ''Order'') of Inr d \<Rightarrow> Tables d | Inl e \<Rightarrow> []) ''Line'') =
   Some (Some [(''Note'', 1)])"
  by code_simp

end
