(* ===== verification/Pg_Index.thy ===== *)
theory Pg_Index
  imports Go_Utf8 Go_Value
begin

text \<open>
  The in-memory index of paged queries (plugins/postgres/Postgres.go and the cache part of
  Read.go): entries with the record keys of a query, their pages, the stamp that
  invalidates them, the cleaner, the cache key and the security filter; and the system of
  readers, writers and the cleaner that share the index, as a step relation.
  Unix times are integers: they stay far below the 64-bit bounds.
\<close>

section \<open>Entries and the index\<close>

text \<open>The metadata of a query is its total count, when there is one.\<close>

type_synonym metadata = "int option"

record cachedQuery =
  recKeys :: "string list"
  stamp :: int
  lastUsed :: int
  cmetadata :: metadata

record index =
  indexQueries :: "(int64, cachedQuery) gomap"
  indexStamp :: int
  indexTTL :: int

text \<open>NewPostgres: an empty index with a time to live of 30 seconds.\<close>

definition new_index :: "int \<Rightarrow> index" where
  "new_index now = \<lparr>indexQueries = [], indexStamp = now, indexTTL = 30\<rparr>"

definition touch :: "int \<Rightarrow> cachedQuery \<Rightarrow> cachedQuery" where
  "touch now cq = cq\<lparr>lastUsed := now\<rparr>"

text \<open>\<open>int(page * limit)\<close> multiplies in 32 bits; the slice expression panics on a negative start.\<close>

definition pageKeys :: "cachedQuery \<Rightarrow> int32 \<Rightarrow> int32 \<Rightarrow> string list res" where
  "pageKeys cq page limit =
     (if sint limit \<le> 0 then Inr (recKeys cq)
      else
        let start = sint (page * limit) in
        if start \<ge> int (length (recKeys cq)) then Inr []
        else
          let e = start + sint limit;
              e = (if e > int (length (recKeys cq)) then int (length (recKeys cq)) else e)
          in go_slice (recKeys cq) start e)"

definition cleanExpiredQueries :: "int \<Rightarrow> index \<Rightarrow> index" where
  "cleanExpiredQueries now ix =
     ix\<lparr>indexQueries := filter (\<lambda>(hash, q). \<not> (now - lastUsed q > indexTTL ix)) (indexQueries ix)\<rparr>"

definition invalidateIndex :: "int \<Rightarrow> index \<Rightarrow> index" where
  "invalidateIndex now ix = ix\<lparr>indexStamp := now\<rparr>"

text \<open>
  indexTTLCleaner: what its select receives: a tick of the ticker, at which the clock shows \<open>now\<close>, or the close
  of the stop channel.  The loop ends at the latter; with signals to come it still runs.
\<close>

datatype signal = TickerC int | IndexStopCh

fun indexTTLCleaner :: "signal list \<Rightarrow> index \<Rightarrow> bool \<times> index" where
  "indexTTLCleaner [] i = (True, i)"
| "indexTTLCleaner (TickerC now # sigs) i = indexTTLCleaner sigs (cleanExpiredQueries now i)"
| "indexTTLCleaner (IndexStopCh # sigs) i = (False, i)"

section \<open>Cache keys\<close>

definition hashString :: "string \<Rightarrow> int32" where
  "hashString s = foldl (\<lambda>h c. 31 * h + word_of_nat c) 0 (runes s)"

text \<open>Read.go, readWithIndex: the query hash alone, or with the hash of the user in its low half.\<close>

definition index_key :: "int64 \<Rightarrow> string \<Rightarrow> int64" where
  "index_key qhash aaaId =
     (if aaaId \<noteq> [] then or (push_bit 32 qhash) (scast (hashString aaaId)) else qhash)"

section \<open>The two critical sections of a read\<close>

text \<open>Under the read lock: the entry and the stamp; a hit is an entry with the current stamp.\<close>

definition index_lookup :: "int64 \<Rightarrow> index \<Rightarrow> cachedQuery option \<times> int" where
  "index_lookup hash ix =
     (case map_of (indexQueries ix) hash of
        Some cached \<Rightarrow> if stamp cached = indexStamp ix then (Some cached, indexStamp ix)
                       else (None, indexStamp ix)
      | None \<Rightarrow> (None, indexStamp ix))"

definition index_touch :: "int \<Rightarrow> int64 \<Rightarrow> index \<Rightarrow> index" where
  "index_touch now hash ix =
     (case map_of (indexQueries ix) hash of
        None \<Rightarrow> ix
      | Some cached \<Rightarrow> ix\<lparr>indexQueries := AList.update hash (touch now cached) (indexQueries ix)\<rparr>)"

text \<open>Under the write lock: the new entry, stamped and last used at the stamp read before.\<close>

definition new_entry :: "string list \<Rightarrow> metadata \<Rightarrow> int \<Rightarrow> cachedQuery" where
  "new_entry keys md currentStamp =
     \<lparr>recKeys = keys, stamp = currentStamp, lastUsed = currentStamp, cmetadata = md\<rparr>"

definition index_store :: "int64 \<Rightarrow> cachedQuery \<Rightarrow> index \<Rightarrow> index" where
  "index_store hash cq ix = ix\<lparr>indexQueries := AList.update hash cq (indexQueries ix)\<rparr>"

section \<open>The security filter\<close>

text \<open>
  Read.go, filterRecKeysBySecurity.  \<open>fetched\<close> is what reading the keys returned: nothing,
  an error, or the elements; \<open>scope\<close> is \<open>Security().ScopeItem\<close> of the user.
\<close>

fun filter_loop :: "('e \<Rightarrow> bool) \<Rightarrow> string list \<Rightarrow> nat \<Rightarrow> 'e option list \<Rightarrow> string list" where
  "filter_loop scope keys i [] = []"
| "filter_loop scope keys i (None # elems) = filter_loop scope keys (Suc i) elems"
| "filter_loop scope keys i (Some e # elems) =
     (if i \<ge> length keys then []
      else if scope e then keys ! i # filter_loop scope keys (Suc i) elems
      else filter_loop scope keys (Suc i) elems)"

definition filterRecKeysBySecurity ::
    "('e \<Rightarrow> bool) \<Rightarrow> string list \<Rightarrow> 'e option list res option \<Rightarrow> string list \<times> metadata" where
  "filterRecKeysBySecurity scope keys fetched =
     (if keys = [] then (keys, None)
      else case fetched of
        Some (Inr elems) \<Rightarrow>
          (let filteredKeys = filter_loop scope keys 0 elems
           in (filteredKeys, Some (int (length filteredKeys))))
      | _ \<Rightarrow> (keys, None))"

section \<open>Readers, writers and the cleaner\<close>

text \<open>
  A reader that missed holds the stamp it saw, then also the keys it fetched, until it
  stores its entry.  A reader that hit marks the entry as used after it left the lock.  \<open>dbKeys\<close> is
  what the query of a cache key would return now.  \<open>since\<close> is a ghost: everything it could
  have returned since the last invalidation.
\<close>

datatype flight = Looked int64 int | Fetched int64 int "string list" | Hit int64

record sys =
  ix :: index
  clock :: int
  dbKeys :: "int64 \<Rightarrow> string list"
  flights :: "nat \<Rightarrow> flight option"
  since :: "int64 \<Rightarrow> string list set"

definition init_sys :: "int \<Rightarrow> (int64 \<Rightarrow> string list) \<Rightarrow> sys" where
  "init_sys now keys =
     \<lparr>ix = new_index now, clock = now, dbKeys = keys, flights = (\<lambda>t. None), since = (\<lambda>k. {keys k})\<rparr>"

text \<open>
  With \<open>strict\<close>, an invalidation happens in a later second than the one before.  A reader whose
  entry was removed or replaced before it could mark it ends like one that fails.
\<close>

inductive ix_step :: "bool \<Rightarrow> sys \<Rightarrow> sys \<Rightarrow> bool" for strict where
  tick: "clock s \<le> now \<Longrightarrow> ix_step strict s (s\<lparr>clock := now\<rparr>)"
| db_write: "ix_step strict s (s\<lparr>dbKeys := keys, since := (\<lambda>k. insert (keys k) (since s k))\<rparr>)"
| invalidate: "(strict \<Longrightarrow> indexStamp (ix s) < clock s) \<Longrightarrow>
     ix_step strict s (s\<lparr>ix := invalidateIndex (clock s) (ix s), since := (\<lambda>k. {dbKeys s k})\<rparr>)"
| hit: "fst (index_lookup k (ix s)) = Some cq \<Longrightarrow> flights s t = None \<Longrightarrow>
     ix_step strict s (s\<lparr>flights := (flights s)(t \<mapsto> Hit k)\<rparr>)"
| touched: "flights s t = Some (Hit k) \<Longrightarrow>
     ix_step strict s (s\<lparr>ix := index_touch (clock s) k (ix s), flights := (flights s)(t := None)\<rparr>)"
| miss: "index_lookup k (ix s) = (None, st) \<Longrightarrow> flights s t = None \<Longrightarrow>
     ix_step strict s (s\<lparr>flights := (flights s)(t \<mapsto> Looked k st)\<rparr>)"
| fetch: "flights s t = Some (Looked k st) \<Longrightarrow>
     ix_step strict s (s\<lparr>flights := (flights s)(t \<mapsto> Fetched k st (dbKeys s k))\<rparr>)"
| store: "flights s t = Some (Fetched k st keys) \<Longrightarrow>
     ix_step strict s (s\<lparr>ix := index_store k (new_entry keys md st) (ix s), flights := (flights s)(t := None)\<rparr>)"
| fail: "flights s t = Some f \<Longrightarrow> ix_step strict s (s\<lparr>flights := (flights s)(t := None)\<rparr>)"
| clean: "ix_step strict s (s\<lparr>ix := cleanExpiredQueries (clock s) (ix s)\<rparr>)"

inductive ix_reachable :: "bool \<Rightarrow> sys \<Rightarrow> bool" for strict where
  init: "ix_reachable strict (init_sys now keys)"
| step: "ix_reachable strict s \<Longrightarrow> ix_step strict s s' \<Longrightarrow> ix_reachable strict s'"

inductive_cases ix_stepE: "ix_step strict s s'"

end
