(* ===== verification/Pg_Index_Correct.thy ===== *)
theory Pg_Index_Correct
  imports Pg_Index
begin

text \<open>
  The paging index: pages partition the keys of an entry, cache keys, the security filter,
  and freshness of what a hit serves.
\<close>

section \<open>Pages\<close>

definition page_count :: "nat \<Rightarrow> nat \<Rightarrow> nat" where
  "page_count n limit = (n + limit - 1) div limit"

lemma pageKeys_slice:
  assumes "0 < sint limit" "0 \<le> sint page" "sint page * sint limit < 2 ^ 31"
  shows "pageKeys cq page limit =
     Inr (take (nat (sint limit)) (drop (nat (sint page * sint limit)) (recKeys cq)))"
proof -
  let ?n = "length (recKeys cq)" and ?s = "sint page * sint limit"
  have "0 \<le> ?s" using assms by simp
  with assms(3) have s: "sint (page * limit) = ?s"
    by (simp add: sint_word_ariths signed_take_bit_int_eq_self_iff)
  have len: "nat (?s + sint limit) - nat ?s = nat (sint limit)"
    using \<open>0 \<le> ?s\<close> assms(1) by (simp add: nat_diff_distrib [symmetric])
  show ?thesis
  proof (cases "int ?n \<le> ?s")
    case True
    with \<open>0 \<le> ?s\<close> assms(1) show ?thesis by (simp add: pageKeys_def s le_nat_iff)
  next
    case False
    then show ?thesis
    proof (cases "int ?n < ?s + sint limit")
      case True
      with False assms(1) \<open>0 \<le> ?s\<close> show ?thesis
        by (simp add: pageKeys_def s go_slice_def)
    next
      case f: False
      with False assms(1) \<open>0 \<le> ?s\<close> len show ?thesis
        by (simp add: pageKeys_def s go_slice_def)
    qed
  qed
qed

lemma concat_pages:
  assumes "0 < n"
  shows "concat (map (\<lambda>p. take n (drop (p * n) xs)) [0..<m]) = take (m * n) xs"
proof (induction m)
  case (Suc m)
  have "take (Suc m * n) xs = take (m * n) xs @ take n (drop (m * n) xs)"
    by (simp add: take_add [symmetric] add.commute)
  with Suc show ?case by simp
qed simp

text \<open>
  C28. Paging.  With a positive limit, and as long as the last position fits in 32 bits, the
  pages of an entry are its keys cut into consecutive pieces of the size of the limit:
  put together they are all keys, once, in the cached order; every page up to the last is
  served without a panic, and the pages after it are empty.
\<close>

theorem pages_partition:
  assumes "0 < sint limit" "int (length (recKeys cq)) + sint limit \<le> 2 ^ 31"
  defines "L \<equiv> nat (sint limit)"
  shows "concat (map (\<lambda>p. projr (pageKeys cq (word_of_nat p) limit)) [0..<page_count (length (recKeys cq)) L]) = recKeys cq \<and>
    (\<forall>p < page_count (length (recKeys cq)) L. \<exists>ks. pageKeys cq (word_of_nat p) limit = Inr ks \<and> ks \<noteq> [] \<and> length ks \<le> L) \<and>
    (\<forall>p. page_count (length (recKeys cq)) L \<le> p \<and> int p * sint limit < 2 ^ 31 \<longrightarrow>
       pageKeys cq (word_of_nat p) limit = Inr [])"
proof -
  let ?n = "length (recKeys cq)" and ?m = "page_count (length (recKeys cq)) L"
  have L: "0 < L" "sint limit = int L" using assms(1) by (simp_all add: L_def)
  have fits: "int ?n + int L \<le> 2 ^ 31" using assms(2) L(2) by simp
  have page: "pageKeys cq (word_of_nat p) limit = Inr (take L (drop (p * L) (recKeys cq)))"
    if "int p * int L < 2 ^ 31" for p
  proof -
    have "int p * 1 \<le> int p * int L" using L(1) by (intro mult_left_mono) simp_all
    with that have "int p < 2 ^ 31" by simp
    then have sp: "sint (word_of_nat p :: int32) = int p"
      by (simp add: signed_of_nat signed_take_bit_int_eq_self_iff)
    have "nat (int p * int L) = p * L" by (simp add: nat_mult_distrib)
    with pageKeys_slice [of limit "word_of_nat p" cq] that L sp show ?thesis by simp
  qed
  have inside: "p * L < ?n" if "p < ?m" for p
  proof -
    have "p + 1 \<le> (?n + L - 1) div L" using that by (simp add: page_count_def)
    then have "(p + 1) * L \<le> (?n + L - 1) div L * L" by (rule mult_right_mono) simp
    also have "\<dots> \<le> ?n + L - 1" by simp
    finally show ?thesis using L(1) by (simp add: algebra_simps)
  qed
  have page_in: "pageKeys cq (word_of_nat p) limit = Inr (take L (drop (p * L) (recKeys cq)))" if "p < ?m" for p
  proof -
    have "int (p * L) < int ?n" using inside [OF that] by (simp only: of_nat_less_iff)
    with fits L(1) show ?thesis by (intro page) (simp only: of_nat_mult)
  qed
  have all: "?n \<le> ?m * L"
  proof -
    have "?n + L - 1 = (?n + L - 1) div L * L + (?n + L - 1) mod L" by simp
    moreover have "(?n + L - 1) mod L < L" using L(1) by simp
    ultimately show ?thesis unfolding page_count_def using L(1) by linarith
  qed
  have "concat (map (\<lambda>p. projr (pageKeys cq (word_of_nat p) limit)) [0..<?m]) =
      concat (map (\<lambda>p. take L (drop (p * L) (recKeys cq))) [0..<?m])"
    using page_in by (intro arg_cong [of _ _ concat] map_cong) auto
  also have "\<dots> = recKeys cq"
    using concat_pages [OF L(1), of "recKeys cq" ?m] all by simp
  finally have 1: "concat (map (\<lambda>p. projr (pageKeys cq (word_of_nat p) limit)) [0..<?m]) = recKeys cq" .
  have 2: "\<exists>ks. pageKeys cq (word_of_nat p) limit = Inr ks \<and> ks \<noteq> [] \<and> length ks \<le> L" if "p < ?m" for p
    using page_in [OF that] inside [OF that] L(1) by auto
  have 3: "pageKeys cq (word_of_nat p) limit = Inr []" if "?m \<le> p" "int p * sint limit < 2 ^ 31" for p
  proof -
    have "?m * L \<le> p * L" using that(1) by (rule mult_right_mono) simp
    with all page [of p] that(2) L(2) show ?thesis by simp
  qed
  show ?thesis using 1 2 3 by blast
qed

theorem pages_partition_witness:
  "concat (map (\<lambda>p. projr (pageKeys (new_entry [''a'', ''b'', ''c''] None 0) (word_of_nat p) 2))
      [0..<page_count (length (recKeys (new_entry [''a'', ''b'', ''c''] None 0))) (nat (sint (2 :: int32)))]) =
    recKeys (new_entry [''a'', ''b'', ''c''] None 0)"
  using pages_partition [of 2 "new_entry [''a'', ''b'', ''c''] None 0"] by (simp add: new_entry_def)

text \<open>The product of a large page and limit is negative, and the slice expression panics.\<close>

lemma pageKeys_overflow: "pageKeys cq 50000 50000 = Inl (Panic ''slice bounds out of range'')"
  by (simp add: pageKeys_def go_slice_def)

section \<open>Cache keys\<close>

lemma bit_scast_high:
  fixes w :: int32
  assumes "32 \<le> n" "n < 64"
  shows "bit (scast w :: int64) n \<longleftrightarrow> sint w < 0"
  using assms bit_last_iff [of w] by (simp add: bit_signed_iff min_def)

lemma index_key_negative:
  assumes "aaaId \<noteq> []" "sint (hashString aaaId) < 0"
  shows "index_key h aaaId = scast (hashString aaaId)"
proof (rule bit_word_eqI)
  fix n assume "n < LENGTH(64)"
  then have n: "n < 64" by simp
  show "bit (index_key h aaaId) n = bit (scast (hashString aaaId) :: int64) n"
  proof (cases "32 \<le> n")
    case True
    with n assms show ?thesis
      by (simp add: index_key_def bit_or_iff bit_scast_high)
  next
    case False
    with assms(1) show ?thesis by (simp add: index_key_def bit_or_iff bit_push_bit_iff)
  qed
qed

text \<open>
  Cache keys of users.  For a user whose hash is negative the cache key does not depend
  on the query at all, so all queries of that user share one entry; two users and queries
  with hashes that are not negative share an entry exactly when the low halves of the query
  hashes and the user hashes agree.
\<close>

theorem index_key_of_users:
  assumes "a \<noteq> []" "b \<noteq> []"
  shows "(sint (hashString a) < 0 \<longrightarrow> index_key h a = index_key h' a) \<and>
    (0 \<le> sint (hashString a) \<and> 0 \<le> sint (hashString b) \<longrightarrow>
       (index_key h a = index_key h' b \<longleftrightarrow>
          take_bit 32 h = take_bit 32 h' \<and> hashString a = hashString b))"
proof (intro conjI impI)
  assume neg: "sint (hashString a) < 0"
  show "index_key h a = index_key h' a" by (simp add: index_key_negative [OF assms(1) neg])
next
  assume nn: "0 \<le> sint (hashString a) \<and> 0 \<le> sint (hashString b)"
  have bits: "bit (index_key h c) n \<longleftrightarrow> (if n < 32 then bit (hashString c) n else bit h (n - 32))"
    if "c \<noteq> []" "0 \<le> sint (hashString c)" "n < 64" for h c n
  proof (cases "n < 32")
    case True
    then have "min n 31 = n" by simp
    with True that show ?thesis
      by (simp add: index_key_def bit_or_iff bit_push_bit_iff bit_signed_iff)
  next
    case False
    with that bit_scast_high [of n "hashString c"] show ?thesis
      by (simp add: index_key_def bit_or_iff bit_push_bit_iff)
  qed
  show "index_key h a = index_key h' b \<longleftrightarrow> take_bit 32 h = take_bit 32 h' \<and> hashString a = hashString b"
  proof
    assume eq: "index_key h a = index_key h' b"
    have "hashString a = hashString b"
    proof (rule bit_word_eqI)
      fix n assume "n < LENGTH(32)"
      with bits [of a n h] bits [of b n h'] eq nn assms show "bit (hashString a) n = bit (hashString b) n" by simp
    qed
    moreover have "take_bit 32 h = take_bit 32 h'"
    proof (rule bit_word_eqI)
      fix n assume "n < LENGTH(64)"
      show "bit (take_bit 32 h) n = bit (take_bit 32 h') n"
      proof (cases "n < 32")
        case True
        with bits [of a "n + 32" h] bits [of b "n + 32" h'] eq nn assms show ?thesis
          by (simp add: bit_take_bit_iff)
      qed (simp add: bit_take_bit_iff)
    qed
    ultimately show "take_bit 32 h = take_bit 32 h' \<and> hashString a = hashString b" by simp
  next
    assume eq: "take_bit 32 h = take_bit 32 h' \<and> hashString a = hashString b"
    have h: "bit h m = bit h' m" if "m < 32" for m
      using arg_cong [OF conjunct1 [OF eq], of "\<lambda>w. bit w m"] that by (simp add: bit_take_bit_iff)
    show "index_key h a = index_key h' b"
    proof (rule bit_word_eqI)
      fix n assume "n < LENGTH(64)"
      with bits [of a n h] bits [of b n h'] eq nn assms h [of "n - 32"]
      show "bit (index_key h a) n = bit (index_key h' b) n" by simp
    qed
  qed
qed

theorem index_key_of_users_witness:
  "index_key 1 ''aaaaaa'' = index_key 2 ''aaaaaa'' \<and> index_key 1 ''user'' \<noteq> index_key 2 ''user''"
proof -
  have h: "sint (hashString ''aaaaaa'') < 0" "0 \<le> sint (hashString ''user'')"
    by (simp_all add: hashString_def)
  have "take_bit 32 (1 :: int64) \<noteq> take_bit 32 2" by simp
  with index_key_of_users [of "''user''" "''user''" 1 2] index_key_of_users [of "''aaaaaa''" "''aaaaaa''" 1 2] h
  show ?thesis by simp
qed

section \<open>The security filter\<close>

lemma filter_loop_zip:
  assumes "length elems + i \<le> length keys" "None \<notin> set elems"
  shows "filter_loop scope keys i elems =
     map fst (filter (\<lambda>(k, e). scope (the e)) (zip (drop i keys) elems))"
  using assms
proof (induction elems arbitrary: i)
  case (Cons e elems)
  then obtain x where e: "e = Some x" by (cases e) auto
  have "drop i keys = keys ! i # drop (Suc i) keys"
    using Cons.prems(1) by (simp add: Cons_nth_drop_Suc)
  with Cons e show ?case by simp
qed simp

text \<open>
  C38. The security filter.  When reading the keys gave one element for each key, the keys
  that remain are those whose element the user may see, in their order, and the total count
  is their number.  When reading failed, every key remains: the filter lets all of them
  through without a check.
\<close>

theorem security_filter:
  assumes "keys \<noteq> []"
  shows "(\<forall>elems. length elems = length keys \<longrightarrow> None \<notin> set elems \<longrightarrow>
      filterRecKeysBySecurity scope keys (Some (Inr elems)) =
        (let visible = map fst (filter (\<lambda>(k, e). scope (the e)) (zip keys elems))
         in (visible, Some (int (length visible))))) \<and>
    filterRecKeysBySecurity scope keys (Some (Inl e)) = (keys, None) \<and>
    filterRecKeysBySecurity scope keys None = (keys, None)"
  using assms filter_loop_zip [of _ 0 keys scope] by (simp add: filterRecKeysBySecurity_def Let_def)

theorem security_filter_witness:
  "filterRecKeysBySecurity (\<lambda>e. e = (1 :: nat)) [''a'', ''b''] (Some (Inr [Some 1, Some 2])) = ([''a''], Some 1) \<and>
   filterRecKeysBySecurity (\<lambda>e. e = (1 :: nat)) [''a'', ''b''] (Some (Inl (Err ''x''))) = ([''a'', ''b''], None)"
proof -
  have "[''a'', ''b''] \<noteq> []" by simp
  from security_filter [OF this, of "\<lambda>e. e = (1 :: nat)" "Err ''x''"] show ?thesis
    by (auto dest: spec [of _ "[Some (1 :: nat), Some 2]"])
qed

section \<open>Freshness\<close>

definition entry_ok :: "sys \<Rightarrow> int64 \<Rightarrow> int \<Rightarrow> string list \<Rightarrow> bool" where
  "entry_ok s k st keys \<longleftrightarrow>
     st \<le> indexStamp (ix s) \<and> (st = indexStamp (ix s) \<longrightarrow> keys \<in> since s k)"

definition ix_inv :: "sys \<Rightarrow> bool" where
  "ix_inv s \<longleftrightarrow>
     (\<forall>(k, cq) \<in> set (indexQueries (ix s)). entry_ok s k (stamp cq) (recKeys cq)) \<and>
     (\<forall>t k st. flights s t = Some (Looked k st) \<longrightarrow> st \<le> indexStamp (ix s)) \<and>
     (\<forall>t k st keys. flights s t = Some (Fetched k st keys) \<longrightarrow> entry_ok s k st keys) \<and>
     (\<forall>k. dbKeys s k \<in> since s k)"

lemma ix_inv_entry: "ix_inv s \<Longrightarrow> (k, cq) \<in> set (indexQueries (ix s)) \<Longrightarrow> entry_ok s k (stamp cq) (recKeys cq)"
  by (auto simp: ix_inv_def)

lemma set_update_subset: "set (AList.update k v m) \<subseteq> insert (k, v) (set m)"
  by (induction m) auto

lemma touched_entries:
  assumes "(k', cq') \<in> set (indexQueries (index_touch now k i))"
  shows "\<exists>cq. (k', cq) \<in> set (indexQueries i) \<and> stamp cq' = stamp cq \<and> recKeys cq' = recKeys cq"
proof (cases "map_of (indexQueries i) k")
  case (Some cq)
  with assms set_update_subset [of k "touch now cq" "indexQueries i"]
  have "(k', cq') \<in> insert (k, touch now cq) (set (indexQueries i))"
    by (auto simp: index_touch_def)
  with map_of_SomeD [OF Some] show ?thesis by (auto simp: touch_def)
qed (use assms in \<open>auto simp: index_touch_def\<close>)

lemma index_touch_stamp [simp]: "indexStamp (index_touch now k i) = indexStamp i"
  by (simp add: index_touch_def split: option.split)

lemma ix_step_inv:
  assumes "ix_step True s s'" "ix_inv s"
  shows "ix_inv s'"
  using assms(1)
proof cases
  case (tick now)
  with assms(2) show ?thesis by (simp add: ix_inv_def entry_ok_def)
next
  case (db_write keys)
  with assms(2) show ?thesis by (fastforce simp: ix_inv_def entry_ok_def)
next
  case invalidate
  have old: "st \<noteq> clock s \<and> st \<le> clock s" if "st \<le> indexStamp (ix s)" for st
    using that invalidate(2) by simp
  have "entry_ok s' k st keys" if "entry_ok s k st keys" for k st keys
    using that old invalidate(1) by (simp add: entry_ok_def invalidateIndex_def)
  moreover have "indexQueries (ix s') = indexQueries (ix s)" "flights s' = flights s"
    using invalidate(1) by (simp_all add: invalidateIndex_def)
  ultimately show ?thesis
    using assms(2) invalidate(1) old by (fastforce simp: ix_inv_def invalidateIndex_def)
next
  case (hit k cq t)
  have "entry_ok s' = entry_ok s" using hit(1) by (simp add: fun_eq_iff entry_ok_def)
  then show ?thesis using assms(2) hit(1) by (auto simp: ix_inv_def split: if_splits)
next
  case (touched t k)
  have "entry_ok s k' (stamp cq') (recKeys cq')" if "(k', cq') \<in> set (indexQueries (ix s'))" for k' cq'
  proof -
    have "(k', cq') \<in> set (indexQueries (index_touch (clock s) k (ix s)))" using that touched(1) by simp
    then obtain cq where "(k', cq) \<in> set (indexQueries (ix s))" "stamp cq' = stamp cq" "recKeys cq' = recKeys cq"
      using touched_entries by blast
    with ix_inv_entry [OF assms(2)] show ?thesis by metis
  qed
  moreover have "entry_ok s' = entry_ok s" using touched(1) by (simp add: fun_eq_iff entry_ok_def)
  ultimately show ?thesis using assms(2) touched(1) by (auto simp: ix_inv_def split: if_splits)
next
  case (miss k st t)
  have "st = indexStamp (ix s)" using miss(2) by (auto simp: index_lookup_def split: option.splits if_splits)
  moreover have "entry_ok s' = entry_ok s" using miss(1) by (simp add: fun_eq_iff entry_ok_def)
  ultimately show ?thesis using assms(2) miss(1) by (auto simp: ix_inv_def split: if_splits)
next
  case (fetch t k st)
  have "entry_ok s' = entry_ok s" using fetch(1) by (simp add: fun_eq_iff entry_ok_def)
  moreover have "entry_ok s k st (dbKeys s k)"
    using assms(2) fetch(2) by (auto simp: ix_inv_def entry_ok_def)
  ultimately show ?thesis using assms(2) fetch(1) by (auto simp: ix_inv_def split: if_splits)
next
  case (store t k st keys md)
  have eq: "entry_ok s' = entry_ok s" using store(1) by (simp add: fun_eq_iff entry_ok_def index_store_def)
  have "entry_ok s k st keys" using assms(2) store(2) by (auto simp: ix_inv_def)
  then have "entry_ok s k' (stamp cq') (recKeys cq')" if "(k', cq') \<in> set (indexQueries (ix s'))" for k' cq'
    using that store(1) set_update_subset [of k "new_entry keys md st" "indexQueries (ix s)"]
      ix_inv_entry [OF assms(2)] by (auto simp: index_store_def new_entry_def)
  with eq assms(2) store(1) show ?thesis by (auto simp: ix_inv_def index_store_def split: if_splits)
next
  case (fail t f)
  have "entry_ok s' = entry_ok s" using fail(1) by (simp add: fun_eq_iff entry_ok_def)
  with assms(2) fail(1) show ?thesis by (auto simp: ix_inv_def split: if_splits)
next
  case clean
  have "entry_ok s' = entry_ok s" using clean by (simp add: fun_eq_iff entry_ok_def cleanExpiredQueries_def)
  with assms(2) clean show ?thesis by (auto simp: ix_inv_def cleanExpiredQueries_def)
qed

lemma ix_reachable_inv: "ix_reachable True s \<Longrightarrow> ix_inv s"
proof (induction rule: ix_reachable.induct)
  case (init now keys)
  then show ?case by (simp add: ix_inv_def init_sys_def new_index_def)
next
  case (step s s')
  then show ?case using ix_step_inv by blast
qed

text \<open>
  C10. Freshness of the paging index.  In every interleaving of readers, writers, the cleaner
  and the clock, in which two invalidations never fall into the same second, the keys that a
  hit serves are a result the query had at some moment since the last invalidation: a reader
  that was under way when the index was invalidated cannot plant an older result.
\<close>

theorem index_hit_fresh:
  assumes "ix_reachable True s" "fst (index_lookup k (ix s)) = Some cq"
  shows "recKeys cq \<in> since s k"
proof -
  from assms(2) have "map_of (indexQueries (ix s)) k = Some cq" "stamp cq = indexStamp (ix s)"
    by (auto simp: index_lookup_def split: option.splits if_splits)
  with ix_inv_entry [OF ix_reachable_inv [OF assms(1)] map_of_SomeD] show ?thesis
    by (simp add: entry_ok_def)
qed

text \<open>One reader stores an entry.\<close>

definition stored_sys :: sys where
  "stored_sys = (init_sys 0 (\<lambda>k. [''a'']))\<lparr>ix := index_store 7 (new_entry [''a''] None 0) (new_index 0), flights := \<lambda>t. None\<rparr>"

lemma stored_sys_reachable: "ix_reachable strict stored_sys"
proof -
  let ?s = "init_sys 0 (\<lambda>k. [''a''])"
  let ?s1 = "?s\<lparr>flights := (flights ?s)(0 \<mapsto> Looked 7 0)\<rparr>"
  let ?s2 = "?s1\<lparr>flights := (flights ?s1)(0 \<mapsto> Fetched 7 0 (dbKeys ?s1 7))\<rparr>"
  let ?s3 = "?s2\<lparr>ix := index_store 7 (new_entry [''a''] None 0) (ix ?s2), flights := (flights ?s2)(0 := None)\<rparr>"
  have "ix_reachable strict ?s" by (rule init)
  then have "ix_reachable strict ?s1"
    by (rule step) (rule miss, simp_all add: init_sys_def new_index_def index_lookup_def)
  then have "ix_reachable strict ?s2"
    by (rule step) (rule fetch, simp)
  then have "ix_reachable strict ?s3"
    by (rule step) (rule store, simp add: init_sys_def)
  moreover have "?s3 = stored_sys" by (simp add: stored_sys_def init_sys_def fun_eq_iff)
  ultimately show ?thesis by simp
qed

theorem index_hit_fresh_witness:
  "\<exists>cq. fst (index_lookup 7 (ix stored_sys)) = Some cq \<and> recKeys cq \<in> since stored_sys 7"
proof -
  have "fst (index_lookup 7 (ix stored_sys)) = Some (new_entry [''a''] None 0)"
    by (simp add: stored_sys_def index_store_def new_index_def index_lookup_def new_entry_def)
  with index_hit_fresh [OF stored_sys_reachable] show ?thesis by blast
qed

text \<open>With an invalidation in the second of the last one, a hit serves a result from before it.\<close>

lemma index_hit_stale:
  "\<exists>s cq. ix_reachable False s \<and> fst (index_lookup 7 (ix s)) = Some cq \<and> recKeys cq \<notin> since s 7"
proof -
  let ?s1 = "stored_sys\<lparr>dbKeys := \<lambda>k. [], since := (\<lambda>k. insert [] (since stored_sys k))\<rparr>"
  let ?s2 = "?s1\<lparr>ix := invalidateIndex (clock ?s1) (ix ?s1), since := (\<lambda>k. {dbKeys ?s1 k})\<rparr>"
  have "ix_reachable False ?s1"
    by (rule step [OF stored_sys_reachable]) (rule db_write [of _ _ "\<lambda>k. []"])
  then have "ix_reachable False ?s2"
    by (rule step) (rule invalidate, simp)
  moreover have "fst (index_lookup 7 (ix ?s2)) = Some (new_entry [''a''] None 0)"
    by (simp add: stored_sys_def init_sys_def invalidateIndex_def index_store_def new_index_def
        index_lookup_def new_entry_def)
  moreover have "recKeys (new_entry [''a''] None 0) \<notin> since ?s2 7" by (simp add: new_entry_def)
  ultimately show ?thesis by blast
qed

section \<open>The cleaner\<close>

text \<open>
  The cleaner removes exactly the entries last used longer ago than the time to
  live and keeps the others as they are.  An entry counts as used when a hit touches it; a
  new entry counts as used at the stamp its reader saw, so that once the index has not been
  invalidated for longer than the time to live, a new entry does not survive the next
  cleaning unless it was hit before.
\<close>

theorem cleaner_removes_expired:
  assumes "distinct (gkeys (indexQueries i))"
  shows "map_of (indexQueries (cleanExpiredQueries now i)) k =
      (case map_of (indexQueries i) k of
         None \<Rightarrow> None | Some cq \<Rightarrow> if now - lastUsed cq > indexTTL i then None else Some cq) \<and>
    map_of (indexQueries (cleanExpiredQueries now (index_store k (new_entry keys md st) i))) k =
      (if now - st > indexTTL i then None else Some (new_entry keys md st)) \<and>
    map_of (indexQueries (cleanExpiredQueries now (index_touch now k (index_store k (new_entry keys md st) i)))) k =
      (if 0 > indexTTL i then None else Some (touch now (new_entry keys md st)))"
proof -
  have f: "map_of (filter (\<lambda>(h, q). P q) m) k = (case map_of m k of None \<Rightarrow> None | Some q \<Rightarrow> if P q then Some q else None)"
    if "distinct (gkeys m)" for P and m :: "(int64, cachedQuery) gomap"
    using that
  proof (induction m)
    case (Cons p m)
    then have "fst p = k \<Longrightarrow> map_of m k = None" by (simp add: gkeys_def map_of_eq_None_iff)
    with Cons show ?case by (cases p) (auto simp: gkeys_def)
  qed simp
  have d: "distinct (gkeys (AList.update k v (indexQueries i)))" for v
    using assms by (rule distinct_gkeys_update)
  have d2: "distinct (gkeys (AList.update k v (AList.update k w (indexQueries i))))" for v w
    using d by (rule distinct_gkeys_update)
  show ?thesis
    using f [OF assms] f [OF d] f [OF d2]
    by (simp add: cleanExpiredQueries_def index_store_def index_touch_def map_of_update new_entry_def touch_def
        split: option.split)
qed

theorem cleaner_removes_expired_witness:
  "map_of (indexQueries (cleanExpiredQueries 100 (index_store 7 (new_entry [''a''] None 60) (new_index 60)))) 7 = None"
  using cleaner_removes_expired [of "new_index 60" 100 7 "[''a'']" None 60]
  by (simp add: new_index_def gkeys_def)

end
