(* ===== verification/Pg_Index_Live.thy ===== *)
theory Pg_Index_Live
  imports Pg_Index_Correct
begin

text \<open>
  The goroutine of the cleaner, and that entries nobody uses leave the index.
\<close>

section \<open>The goroutine\<close>

text \<open>It runs until the stop channel is closed, and returns then.\<close>

lemma indexTTLCleaner_runs:
  "indexTTLCleaner (sigs @ IndexStopCh # rest) i = (False, snd (indexTTLCleaner sigs i))"
  "fst (indexTTLCleaner sigs i) \<longleftrightarrow> IndexStopCh \<notin> set sigs"
  by (induction sigs i rule: indexTTLCleaner.induct) auto

section \<open>Runs of the system\<close>

text \<open>Infinite runs of readers, writers and the cleaner.\<close>

definition run :: "(nat \<Rightarrow> sys) \<Rightarrow> bool" where
  "run \<sigma> \<longleftrightarrow> (\<forall>j. ix_step False (\<sigma> j) (\<sigma> (Suc j)))"

text \<open>Time passes, and the ticker makes the goroutine clean again and again.\<close>

definition cleaner_runs :: "(nat \<Rightarrow> sys) \<Rightarrow> bool" where
  "cleaner_runs \<sigma> \<longleftrightarrow> (\<forall>t. \<exists>j. t \<le> clock (\<sigma> j)) \<and>
     (\<forall>i. \<exists>j \<ge> i. ix (\<sigma> (Suc j)) = snd (indexTTLCleaner [TickerC (clock (\<sigma> j))] (ix (\<sigma> j))))"

definition entry :: "(nat \<Rightarrow> sys) \<Rightarrow> int64 \<Rightarrow> nat \<Rightarrow> cachedQuery option" where
  "entry \<sigma> k j = map_of (indexQueries (ix (\<sigma> j))) k"

text \<open>From \<open>i\<close> on nobody reads through the entry of \<open>k\<close> or stores a new one.\<close>

definition unused_from :: "(nat \<Rightarrow> sys) \<Rightarrow> int64 \<Rightarrow> nat \<Rightarrow> bool" where
  "unused_from \<sigma> k i \<longleftrightarrow> (\<forall>j \<ge> i. entry \<sigma> k (Suc j) = entry \<sigma> k j \<or> entry \<sigma> k (Suc j) = None)"

lemma ix_step_clock: "ix_step strict s s' \<Longrightarrow> clock s \<le> clock s' \<and> indexTTL (ix s') = indexTTL (ix s)"
  by (erule ix_stepE)
    (auto simp: invalidateIndex_def index_touch_def index_store_def cleanExpiredQueries_def split: option.split)

lemma run_clock:
  assumes "run \<sigma>" "i \<le> j"
  shows "clock (\<sigma> i) \<le> clock (\<sigma> j) \<and> indexTTL (ix (\<sigma> j)) = indexTTL (ix (\<sigma> i))"
  using assms(2)
proof (induction j rule: dec_induct)
  case (step j)
  have "clock (\<sigma> j) \<le> clock (\<sigma> (Suc j)) \<and> indexTTL (ix (\<sigma> (Suc j))) = indexTTL (ix (\<sigma> j))"
    using assms(1) by (intro ix_step_clock) (auto simp: run_def)
  with step.IH show ?case by simp
qed simp

lemma unused_entry:
  assumes "unused_from \<sigma> k i" "i \<le> j"
  shows "entry \<sigma> k j = entry \<sigma> k i \<or> entry \<sigma> k j = None"
  using assms(2)
proof (induction j rule: dec_induct)
  case (step j)
  then show ?case using assms(1) unfolding unused_from_def by metis
qed simp

lemma unused_gone:
  assumes "unused_from \<sigma> k i" "i \<le> j" "entry \<sigma> k j = None" "j \<le> l"
  shows "entry \<sigma> k l = None"
proof -
  have "unused_from \<sigma> k j" using assms(1,2) by (auto simp: unused_from_def)
  from unused_entry [OF this assms(4)] assms(3) show ?thesis by simp
qed

lemma cleaned_entry:
  assumes "map_of m k = Some cq" "\<not> P cq" "distinct (gkeys m)"
  shows "map_of (filter (\<lambda>(h, q). P q) m) k = None"
proof (rule ccontr)
  assume "map_of (filter (\<lambda>(h, q). P q) m) k \<noteq> None"
  then obtain q where "(k, q) \<in> set m" "P q" by (auto dest!: map_of_SomeD)
  with assms show False by (auto simp: gkeys_def)
qed

lemma ix_step_distinct:
  "ix_step strict s s' \<Longrightarrow> distinct (gkeys (indexQueries (ix s))) \<Longrightarrow> distinct (gkeys (indexQueries (ix s')))"
  by (erule ix_stepE)
    (auto simp: invalidateIndex_def index_touch_def index_store_def cleanExpiredQueries_def gkeys_def
      distinct_map_filter AList.distinct_update split: option.split)

lemma reachable_distinct: "ix_reachable strict s \<Longrightarrow> distinct (gkeys (indexQueries (ix s)))"
proof (induction rule: ix_reachable.induct)
  case (init now keys)
  then show ?case by (simp add: init_sys_def new_index_def gkeys_def)
next
  case (step s s')
  then show ?case by (blast intro: ix_step_distinct)
qed

lemma run_distinct:
  assumes "run \<sigma>" "ix_reachable strict (\<sigma> 0)"
  shows "distinct (gkeys (indexQueries (ix (\<sigma> j))))"
proof (induction j)
  case 0
  from assms(2) show ?case by (rule reachable_distinct)
next
  case (Suc j)
  from assms(1) have "ix_step False (\<sigma> j) (\<sigma> (Suc j))" by (simp add: run_def)
  then show ?case using Suc by (rule ix_step_distinct)
qed

section \<open>Liveness\<close>

text \<open>
  C37. Unused entries leave the index.  In every infinite run of readers, writers and the
  cleaner in which time passes and the ticker keeps firing, an entry that from some point on
  is neither read through nor stored again is removed at a later point, and does not come
  back: the index holds no query for ever that nobody pages through.
\<close>

theorem unused_entries_leave:
  assumes "ix_reachable False (\<sigma> 0)" "run \<sigma>" "cleaner_runs \<sigma>" "unused_from \<sigma> k i"
  shows "\<exists>j \<ge> i. \<forall>l \<ge> j. entry \<sigma> k l = None"
proof (cases "entry \<sigma> k i")
  case None
  then show ?thesis using unused_gone [OF assms(4) order_refl] by blast
next
  case (Some cq)
  let ?limit = "lastUsed cq + indexTTL (ix (\<sigma> i)) + 1"
  obtain t where t: "?limit \<le> clock (\<sigma> t)" using assms(3) unfolding cleaner_runs_def by blast
  obtain j where j: "max i t \<le> j" "ix (\<sigma> (Suc j)) = cleanExpiredQueries (clock (\<sigma> j)) (ix (\<sigma> j))"
    using assms(3) [unfolded cleaner_runs_def, THEN conjunct2, rule_format, of "max i t"] by auto
  have ij: "i \<le> j" "t \<le> j" using j(1) by simp_all
  have late: "indexTTL (ix (\<sigma> j)) < clock (\<sigma> j) - lastUsed cq"
    using t run_clock [OF assms(2) ij(1)] run_clock [OF assms(2) ij(2)] by simp
  have "entry \<sigma> k (Suc j) = None"
  proof (cases "entry \<sigma> k j = None")
    case True
    then show ?thesis using unused_gone [OF assms(4) ij(1), of "Suc j"] by simp
  next
    case False
    then have "map_of (indexQueries (ix (\<sigma> j))) k = Some cq"
      using unused_entry [OF assms(4) ij(1)] Some by (auto simp: entry_def)
    from cleaned_entry [OF this _ run_distinct [OF assms(2,1)]] late
    show ?thesis by (simp add: entry_def j(2) cleanExpiredQueries_def)
  qed
  then have "\<forall>l \<ge> Suc j. entry \<sigma> k l = None" using unused_gone [OF assms(4), of "Suc j"] ij(1) by simp
  with ij(1) show ?thesis by (intro exI [of _ "Suc j"]) simp
qed

text \<open>An entry made at time 0, then ticks of the clock and of the cleaner in turn.\<close>

definition live_start :: sys where
  "live_start = (init_sys 0 (\<lambda>k. []))\<lparr>ix := index_store 7 (new_entry [] None 0) (new_index 0)\<rparr>"

fun live_run :: "nat \<Rightarrow> sys" where
  "live_run 0 = live_start"
| "live_run (Suc j) =
     (if even j then (live_run j)\<lparr>clock := clock (live_run j) + 1\<rparr>
      else (live_run j)\<lparr>ix := cleanExpiredQueries (clock (live_run j)) (ix (live_run j))\<rparr>)"

lemma live_start_reachable: "ix_reachable False live_start"
proof -
  let ?s0 = "init_sys 0 (\<lambda>k. [])"
  let ?s1 = "?s0\<lparr>flights := (flights ?s0)(0 \<mapsto> Looked 7 0)\<rparr>"
  let ?s2 = "?s1\<lparr>flights := (flights ?s1)(0 \<mapsto> Fetched 7 0 (dbKeys ?s1 7))\<rparr>"
  have "ix_reachable False ?s1"
    by (rule ix_reachable.step [OF ix_reachable.init ix_step.miss]) (simp_all add: init_sys_def new_index_def index_lookup_def)
  then have "ix_reachable False ?s2" by (rule ix_reachable.step) (rule ix_step.fetch, simp)
  moreover have "ix_step False ?s2 live_start"
  proof -
    have s: "flights ?s2 0 = Some (Fetched 7 0 [])" by (simp add: init_sys_def)
    have "live_start = ?s2\<lparr>ix := index_store 7 (new_entry [] None 0) (ix ?s2), flights := (flights ?s2)(0 := None)\<rparr>"
      by (simp add: live_start_def init_sys_def fun_eq_iff)
    then show ?thesis using ix_step.store [OF s, of False None] by simp
  qed
  ultimately show ?thesis by (rule ix_reachable.step)
qed

lemma live_run_clock: "clock (live_run j) = int ((j + 1) div 2)"
  by (induction j) (auto simp: live_start_def init_sys_def)

lemma live_run_run: "run live_run"
  unfolding run_def
proof
  fix j show "ix_step False (live_run j) (live_run (Suc j))"
    by (cases "even j") (auto intro: ix_step.tick ix_step.clean)
qed

lemma live_run_unused: "entry live_run k (Suc j) = entry live_run k j \<or> entry live_run k (Suc j) = None"
proof -
  have "map_of (filter P m) k = map_of m k \<or> map_of (filter P m) k = None" if "distinct (gkeys m)"
    for P and m :: "(int64, cachedQuery) gomap"
    using that by (induction m) (auto simp: gkeys_def map_of_eq_None_iff)
  moreover have "distinct (gkeys (indexQueries (ix (live_run j))))"
    using live_start_reachable by (intro run_distinct [OF live_run_run, of False]) simp
  ultimately show ?thesis by (auto simp: entry_def cleanExpiredQueries_def)
qed

theorem unused_entries_leave_witness:
  "entry live_run 7 0 \<noteq> None \<and> (\<exists>j. \<forall>l \<ge> j. entry live_run 7 l = None)"
proof -
  have "cleaner_runs live_run"
    unfolding cleaner_runs_def
  proof (intro conjI allI)
    show "\<exists>j. t \<le> clock (live_run j)" for t
      unfolding live_run_clock by (intro exI [of _ "2 * nat t"]) auto
    show "\<exists>j \<ge> i. ix (live_run (Suc j)) = snd (indexTTLCleaner [TickerC (clock (live_run j))] (ix (live_run j)))" for i
      by (intro exI [of _ "2 * i + 1"]) simp
  qed
  moreover have "unused_from live_run 7 0" using live_run_unused by (simp add: unused_from_def)
  ultimately have "\<exists>j \<ge> 0. \<forall>l \<ge> j. entry live_run 7 l = None"
    using live_start_reachable live_run_run by (intro unused_entries_leave) simp_all
  moreover have "entry live_run 7 0 \<noteq> None"
    by (simp add: entry_def live_start_def index_store_def map_of_update)
  ultimately show ?thesis by blast
qed

end
