(* ===== verification/Pg_Session.thy ===== *)
theory Pg_Session
  imports Sql_Stmt
begin

text \<open>
  The program's use of \<open>database/sql\<close>: operations on the database as actions that return
  a result and the next state of the database, and the transaction bracket that
  plugins/postgres writes as a deferred rollback or commit.  The database itself is
  third-party: a record of operations, and the documented behaviour the program relies on
  as the predicate \<open>transactional\<close>.  All of these run under the mutex of the plugin.
\<close>

section \<open>Actions\<close>

type_synonym ('a, 'd) act = "'d \<Rightarrow> 'a res \<times> 'd"

definition ret :: "'a res \<Rightarrow> ('a, 'd) act" where
  "ret r d = (r, d)"

definition abind :: "('a, 'd) act \<Rightarrow> ('a \<Rightarrow> ('b, 'd) act) \<Rightarrow> ('b, 'd) act" where
  "abind m f d = (case m d of (Inl e, d') \<Rightarrow> (Inl e, d') | (Inr x, d') \<Rightarrow> f x d')"

fun afold :: "('s \<Rightarrow> 'x \<Rightarrow> ('s, 'd) act) \<Rightarrow> 's \<Rightarrow> 'x list \<Rightarrow> ('s, 'd) act" where
  "afold f s [] = ret (Inr s)"
| "afold f s (x # xs) = abind (f s x) (\<lambda>s'. afold f s' xs)"

named_theorems act_simps \<open>equations of actions\<close>

lemma ret_eq [act_simps]: "ret r d = (r', d') \<longleftrightarrow> r = r' \<and> d' = d"
  by (auto simp: ret_def)

lemma fst_snd_ret [act_simps]: "fst (ret r d) = r" "snd (ret r d) = d"
  by (simp_all add: ret_def)

lemma abind_eq_Inr:
  "abind m f d = (Inr y, d'') \<longleftrightarrow> (\<exists>x d'. m d = (Inr x, d') \<and> f x d' = (Inr y, d''))"
  by (auto simp: abind_def split: prod.split sum.split)

lemma abind_eq_Inl:
  "abind m f d = (Inl e, d'') \<longleftrightarrow>
     m d = (Inl e, d'') \<or> (\<exists>x d'. m d = (Inr x, d') \<and> f x d' = (Inl e, d''))"
  by (auto simp: abind_def split: prod.split sum.split)

lemma abind_ret [act_simps]:
  "abind (ret (Inr x)) f d = f x d"
  "abind (ret (Inl e)) f d = (Inl e, d)"
  by (simp_all add: abind_def ret_def)

lemma abind_ret_rbind: "abind (ret r) (\<lambda>x. ret (f x)) = ret (rbind r f)"
  by (cases r) (auto simp: fun_eq_iff abind_def ret_def)

text \<open>A loop whose rounds do not touch the state is a loop of results.\<close>

lemma afold_ret: "afold (\<lambda>s x. ret (f s x)) s xs = ret (mfold f s xs)"
  by (induction xs arbitrary: s) (simp_all add: abind_ret_rbind)

lemma afold_append:
  "afold f s (xs @ ys) d = abind (afold f s xs) (\<lambda>t. afold f t ys) d"
proof (induction xs arbitrary: s d)
  case (Cons x xs)
  then show ?case by (auto simp: abind_def split: prod.split sum.split)
qed (simp add: abind_ret)

section \<open>The database\<close>

text \<open>
  A transaction is open from a successful \<open>begin_tx\<close> to its commit or rollback.
  \<open>prepare\<close> checks a text; \<open>query_rows\<close> gives the rows delivered before \<open>Rows.Next\<close>
  returned false and what \<open>Rows.Err\<close> would then report, \<open>query_columns\<close> the number of its
  columns; they only read.  \<open>db_exec\<close> runs
  outside of a transaction.
\<close>

record 'd database =
  begin_tx :: "(unit, 'd) act"
  prepare :: "'d \<Rightarrow> string \<Rightarrow> unit res"
  exec_stmt :: "string \<Rightarrow> sql_arg list \<Rightarrow> (unit, 'd) act"
  query_rows :: "'d \<Rightarrow> string \<Rightarrow> sql_arg list \<Rightarrow> (drv list list \<times> string option) res"
  query_columns :: "'d \<Rightarrow> string \<Rightarrow> nat"
  commit_tx :: "(unit, 'd) act"
  rollback_tx :: "(unit, 'd) act"
  db_exec :: "string \<Rightarrow> (unit, 'd) act"
  close_db :: "(unit, 'd) act"

text \<open>An action that reads the state of the database.\<close>

definition reading :: "('d \<Rightarrow> 'a res) \<Rightarrow> ('a, 'd) act" where
  "reading f d = (f d, d)"

text \<open>
  What PostgreSQL documents of transactions: \<open>committed\<close> is what other sessions see,
  \<open>pending\<close> what the open transaction sees, and \<open>effect\<close> what a statement does to the data.
  Nothing but a commit changes the committed data; a commit that reports an error may or
  may not have taken place.
\<close>

definition transactional ::
    "'d database \<Rightarrow> ('d \<Rightarrow> 's) \<Rightarrow> ('d \<Rightarrow> 's) \<Rightarrow> (string \<Rightarrow> sql_arg list \<Rightarrow> 's \<Rightarrow> 's) \<Rightarrow> bool" where
  "transactional db committed pending effect \<longleftrightarrow>
     (\<forall>d. committed (snd (begin_tx db d)) = committed d \<and>
          (isl (fst (begin_tx db d)) \<or> pending (snd (begin_tx db d)) = committed d)) \<and>
     (\<forall>sql args d. committed (snd (exec_stmt db sql args d)) = committed d \<and>
          (isl (fst (exec_stmt db sql args d)) \<or>
           pending (snd (exec_stmt db sql args d)) = effect sql args (pending d))) \<and>
     (\<forall>d. committed (snd (rollback_tx db d)) = committed d) \<and>
     (\<forall>d. if isl (fst (commit_tx db d)) then committed (snd (commit_tx db d)) \<in> {committed d, pending d}
          else committed (snd (commit_tx db d)) = pending d)"

lemma transactionalD:
  assumes "transactional db committed pending effect"
  shows "committed (snd (begin_tx db d)) = committed d"
    and "fst (begin_tx db d) = Inr u \<Longrightarrow> pending (snd (begin_tx db d)) = committed d"
    and "committed (snd (exec_stmt db sql args d)) = committed d"
    and "fst (exec_stmt db sql args d) = Inr u \<Longrightarrow>
           pending (snd (exec_stmt db sql args d)) = effect sql args (pending d)"
    and "committed (snd (rollback_tx db d)) = committed d"
    and "fst (commit_tx db d) = Inr u \<Longrightarrow> committed (snd (commit_tx db d)) = pending d"
    and "committed (snd (commit_tx db d)) \<in> {committed d, pending d}"
  using assms unfolding transactional_def by (metis insertCI isl_def sum.simps(4))+

section \<open>The transaction bracket\<close>

text \<open>
  The functions of the plugin begin a transaction, defer \<open>if err != nil {Rollback} else
  {Commit}\<close>, and run their body.  The results are not named, so what the deferred call
  assigns, the error of a failed commit in particular, is lost.  Functions that write keep
  their error in the tested variable (\<open>rb\<close>); those that only read return theirs without it and
  commit.  A panic leaves the variable nil: it commits too.
\<close>

definition bracket :: "'d database \<Rightarrow> bool \<Rightarrow> ('a, 'd) act \<Rightarrow> ('a, 'd) act" where
  "bracket db rb body d =
     (case begin_tx db d of
        (Inl e, d) \<Rightarrow> (Inl e, d)
      | (Inr u, d) \<Rightarrow>
          (case body d of
             (Inl (Err m), d) \<Rightarrow> (Inl (Err m), snd ((if rb then rollback_tx db else commit_tx db) d))
           | (r, d) \<Rightarrow> (r, snd (commit_tx db d))))"

text \<open>The state in which the body runs, and the state it leaves.\<close>

definition opened :: "'d database \<Rightarrow> 'd \<Rightarrow> 'd" where
  "opened db d = snd (begin_tx db d)"

lemma bracket_Inr:
  "bracket db rb body d = (Inr x, d'') \<longleftrightarrow>
     (\<exists>u d'. fst (begin_tx db d) = Inr u \<and> body (opened db d) = (Inr x, d') \<and> d'' = snd (commit_tx db d'))"
  by (auto simp: bracket_def opened_def split: prod.splits sum.splits go_err.splits)

lemma bracket_Err:
  "bracket db rb body d = (Inl (Err m), d'') \<longleftrightarrow>
     begin_tx db d = (Inl (Err m), d'') \<or>
     (\<exists>u d'. fst (begin_tx db d) = Inr u \<and> body (opened db d) = (Inl (Err m), d') \<and>
             d'' = snd ((if rb then rollback_tx db else commit_tx db) d'))"
  by (auto simp: bracket_def opened_def split: prod.splits sum.splits go_err.splits)

section \<open>The contract of a transaction body\<close>

text \<open>
  A body changes the database only by executing statements: any relation between states
  that is reflexive, transitive and kept by every statement is kept by the body.
\<close>

definition kept_by_exec :: "'d database \<Rightarrow> ('d \<Rightarrow> 'd \<Rightarrow> bool) \<Rightarrow> bool" where
  "kept_by_exec db R \<longleftrightarrow> reflp R \<and> transp R \<and> (\<forall>sql args d. R d (snd (exec_stmt db sql args d)))"

definition executes :: "'d database \<Rightarrow> ('a, 'd) act \<Rightarrow> bool" where
  "executes db body \<longleftrightarrow> (\<forall>R d. kept_by_exec db R \<longrightarrow> R d (snd (body d)))"

lemma executes_ret [intro]: "executes db (ret r)"
  by (auto simp: executes_def ret_def kept_by_exec_def dest: reflpD)

lemma executes_reading [intro]: "executes db (reading f)"
  by (auto simp: executes_def reading_def kept_by_exec_def dest: reflpD)

lemma executes_exec [intro]: "executes db (exec_stmt db sql args)"
  by (simp add: executes_def kept_by_exec_def)

lemma executes_bind [intro]:
  assumes "executes db m" "\<And>x. executes db (f x)"
  shows "executes db (abind m f)"
  unfolding executes_def
proof (intro allI impI)
  fix R d assume R: "kept_by_exec db R"
  have m: "R d (snd (m d))" using assms(1) R unfolding executes_def by blast
  have f: "R d' (snd (f x d'))" for x d' using assms(2) R unfolding executes_def by blast
  show "R d (snd (abind m f d))"
    using m f R unfolding abind_def kept_by_exec_def
    by (auto split: prod.splits sum.splits) (metis transpD)+
qed

lemma executes_fold [intro]:
  assumes "\<And>s x. executes db (f s x)"
  shows "executes db (afold f s xs)"
  by (induction xs arbitrary: s) (auto intro: assms)

locale tx_body =
  fixes db :: "'d database" and body :: "('a, 'd) act"
  assumes only_executes: "executes db body"
begin

text \<open>Inside a transaction the committed data stay as they are.\<close>

lemma committed_in_body:
  assumes "transactional db committed pending effect"
  shows "committed (snd (body d)) = committed d"
proof -
  have "kept_by_exec db (\<lambda>a b. committed b = committed a)"
    using transactionalD(3) [OF assms] by (auto simp: kept_by_exec_def reflp_def transp_def)
  then show ?thesis using only_executes unfolding executes_def by blast
qed

text \<open>An error of a writing transaction leaves the committed data as they were.\<close>

lemma error_keeps:
  assumes t: "transactional db committed pending effect"
    and e: "bracket db True body d = (Inl (Err m), d')"
  shows "committed d' = committed d"
  using e committed_in_body [OF t] transactionalD(1,5) [OF t]
  unfolding bracket_Err opened_def by (metis (full_types) snd_conv)

text \<open>Success commits what the body made pending, or loses it when the commit fails.\<close>

lemma success_commits:
  assumes t: "transactional db committed pending effect"
    and s: "bracket db True body d = (Inr x, d')"
  shows "\<exists>e. body (opened db d) = (Inr x, e) \<and> pending (opened db d) = committed d \<and>
     committed d' \<in> {committed d, pending e} \<and>
     (fst (commit_tx db e) = Inr () \<longrightarrow> committed d' = pending e)"
proof -
  from s obtain u e where b: "fst (begin_tx db d) = Inr u" "body (opened db d) = (Inr x, e)"
    "d' = snd (commit_tx db e)" unfolding bracket_Inr by auto
  have c: "committed e = committed d"
    using committed_in_body [OF t, of "opened db d"] b(2) transactionalD(1) [OF t, of d]
    by (simp add: opened_def)
  show ?thesis
    using b c transactionalD(2) [OF t b(1)] transactionalD(6,7) [OF t, of e]
    by (auto simp: opened_def)
qed

end

section \<open>Scripts\<close>

text \<open>The effect of a list of statements, one after the other.\<close>

definition run_script :: "(string \<Rightarrow> sql_arg list \<Rightarrow> 's \<Rightarrow> 's) \<Rightarrow> (string \<times> sql_arg list) list \<Rightarrow> 's \<Rightarrow> 's" where
  "run_script effect stmts = fold (\<lambda>(sql, args). effect sql args) stmts"

lemma run_script_simps [simp]:
  "run_script effect [] s = s"
  "run_script effect ((sql, args) # stmts) s = run_script effect stmts (effect sql args s)"
  "run_script effect (xs @ ys) s = run_script effect ys (run_script effect xs s)"
  by (simp_all add: run_script_def)

lemma afold_map: "afold f s (map h xs) d = afold (\<lambda>s x. f s (h x)) s xs d"
proof (induction xs arbitrary: s d)
  case (Cons x xs)
  then show ?case by (auto simp: abind_def split: prod.split sum.split)
qed (simp add: act_simps)

text \<open>A loop in a loop is a loop over the concatenated lists.\<close>

lemma afold_concat:
  "afold (\<lambda>u x. afold (\<lambda>u y. f y) () (g x)) () xs = afold (\<lambda>u y. f y) () (concat (map g xs))"
proof
  show "afold (\<lambda>u x. afold (\<lambda>u y. f y) () (g x)) () xs d = afold (\<lambda>u y. f y) () (concat (map g xs)) d" for d
  proof (induction xs arbitrary: d)
    case (Cons x xs)
    then show ?case by (simp add: afold_append) (auto simp: abind_def split: prod.split sum.split)
  qed simp
qed

text \<open>A loop that executes one statement in each round executes a script.\<close>

lemma afold_script:
  assumes t: "transactional db committed pending effect"
    and "afold (\<lambda>u x. abind (ret (g x)) (\<lambda>(sql, args). exec_stmt db sql args)) () xs d = (Inr u, d')"
  shows "\<exists>stmts. collect g xs = Inr stmts \<and> pending d' = run_script effect stmts (pending d)"
  using assms(2)
proof (induction xs arbitrary: d)
  case (Cons x xs)
  then obtain sql args d1 where g: "g x = Inr (sql, args)" "exec_stmt db sql args d = (Inr (), d1)"
    and rest: "afold (\<lambda>u x. abind (ret (g x)) (\<lambda>(sql, args). exec_stmt db sql args)) () xs d1 = (Inr u, d')"
    by (cases "g x") (auto simp: abind_eq_Inr act_simps)
  have "pending d1 = effect sql args (pending d)"
    using transactionalD(4) [OF t, of sql args d] g(2) by simp
  with Cons.IH [OF rest] g(1) show ?case by auto
qed (simp add: act_simps)

end
