(* ===== verification/Pg_Schema.thy ===== *)
theory Pg_Schema
  imports Pg_Session Pg_Index Convert_From Sql_Query
begin

text \<open>
  plugins/postgres/Postgres.go: the state of the plugin and the part of it that keeps the
  tables of the database in step with the types: the tables of a type hierarchy, the check
  whether a table exists, its creation and its migration.
\<close>

section \<open>The plugin\<close>

text \<open>
  The resources of the plugin: the introspector, the containers of package object
  (\<open>object.New\<close> of a list, and the elements of a query result), the security provider (may a
  user see an element), the packing of aggregate results, the database handle, the scanner
  of results.
\<close>

record 'd pg_env = env +
  nodeByTypeName :: "string \<Rightarrow> l8node option"
  objectNew :: "rvalue list \<Rightarrow> ielements"
  elementsOf :: "cf_result \<Rightarrow> rvalue list"
  security :: "(string \<Rightarrow> gval \<Rightarrow> bool) option"
  packAggregates :: "(string, drv) gomap list \<Rightarrow> aggregate list \<Rightarrow> string list \<Rightarrow> (string, int64) gomap"
  dbase :: "'d database"
  scanner :: scan_conv

text \<open>Its state: the database, the tables already verified, the index of paged queries, and
  whether the table of the time series was verified, whether the plugin was closed.\<close>

record 'd pg =
  dbState :: 'd
  verifyed :: "(string, bool) gomap"
  pgIndex :: index
  tsVerified :: bool
  stopped :: bool

definition batchSize :: nat where
  "batchSize = 500"

definition NewPostgres :: "int \<Rightarrow> 'd \<Rightarrow> 'd pg" where
  "NewPostgres now d = \<lparr>dbState = d, verifyed = [], pgIndex = new_index now, tsVerified = False, stopped = False\<rparr>"

text \<open>An action on the database as an action of the plugin.\<close>

definition on_db :: "('a, 'd) act \<Rightarrow> ('a, 'd pg) act" where
  "on_db m s = (case m (dbState s) of (r, d) \<Rightarrow> (r, s\<lparr>dbState := d\<rparr>))"

section \<open>The tables of a type\<close>

text \<open>The set of names is a Go map to true.\<close>

function collectTables :: "'a env_scheme \<Rightarrow> l8node \<Rightarrow> (string, bool) gomap \<Rightarrow> (string, bool) gomap" where
  "collectTables E nd tables =
     fold (\<lambda>(attrName, attr) tables.
             if IsStruct attr then
               (if IsTimeSeriesType (TypeName attr) then tables
                else if map_of tables (TypeName attr) = None then collectTables E attr tables
                else tables)
             else tables)
       (range_loop (rng E (''collectTables'', TypeName nd)) (Attributes nd))
       (AList.update (TypeName nd) True tables)"
  by pat_completeness auto
termination
  by (relation "measure (\<lambda>(E, nd, tables). size nd)") (auto dest!: range_loop_in size_Attributes)

declare collectTables.simps [simp del]

section \<open>The texts\<close>

definition newline :: string where
  "newline = [CHR 0x0A]"

definition postgresTypeOf :: "l8node \<Rightarrow> string" where
  "postgresTypeOf nd =
     (if IsMap nd \<or> IsSlice nd then ''text''
      else if TypeName nd = ''string'' then ''text''
      else if TypeName nd = ''int32'' then ''integer''
      else if TypeName nd = ''int64'' then ''bigint''
      else if TypeName nd = ''float64'' then ''float8''
      else if TypeName nd = ''float32'' then ''real''
      else if TypeName nd = ''bool'' then ''boolean''
      else ''integer'')"

definition probe_text :: "string \<Rightarrow> string" where
  "probe_text tableName = ''select * from '' @ tableName @ '' where false;''"

definition alter_text :: "string \<Rightarrow> string \<Rightarrow> string \<Rightarrow> string" where
  "alter_text tableName attrName typ =
     ''ALTER TABLE '' @ tableName @ '' ADD COLUMN '' @ attrName @ '' '' @ typ @ '';''"

definition index_text :: "string \<Rightarrow> string \<Rightarrow> string \<Rightarrow> string" where
  "index_text create tableName fieldName =
     create @ tableName @ ''_'' @ fieldName @ ''_idx ON '' @ tableName @ '' ('' @ fieldName @ '');''"

text \<open>The loop of \<open>createTable\<close> over the attributes.\<close>

fun column_loop :: "(string \<times> l8node) list \<Rightarrow> string \<Rightarrow> string" where
  "column_loop [] q = q"
| "column_loop ((attrName, attr) # rest) q =
     (if IsStruct attr then column_loop rest q
      else column_loop rest (q @ attrName @ '' '' @ postgresTypeOf attr @ '','' @ newline))"

definition create_text :: "string \<Rightarrow> (string \<times> l8node) list \<Rightarrow> string" where
  "create_text tableName attrs =
     column_loop attrs (''create table '' @ tableName @ '' ('' @ newline @ ''ParentKey text,'' @ newline
       @ ''RecKey text,'' @ newline)
     @ ''CONSTRAINT '' @ tableName @ ''_key PRIMARY KEY (ParentKey, RecKey)'' @ newline @ '');''"

section \<open>Creating and migrating a table\<close>

definition no_node :: "string \<Rightarrow> 'b res" where
  "no_node tableName = Inl (Err (''Cannot find node for table '' @ tableName))"

text \<open>Run texts one by one, up to the first that fails.\<close>

definition exec_texts :: "'d database \<Rightarrow> string list \<Rightarrow> (unit, 'd) act" where
  "exec_texts db texts = afold (\<lambda>u sql. db_exec db sql) () texts"

text \<open>An error of the decorators is ignored: then there are no indexes.\<close>

definition index_fields :: "('d, 'x) pg_env_scheme \<Rightarrow> l8node \<Rightarrow> string list res" where
  "index_fields E nd =
     (case nonUnique E nd of
        Inr fs \<Rightarrow> Inr fs | Inl (Err m) \<Rightarrow> Inr [] | Inl (Panic m) \<Rightarrow> Inl (Panic m))"

definition createTable :: "('d, 'x) pg_env_scheme \<Rightarrow> string \<Rightarrow> (unit, 'd) act" where
  "createTable E tableName =
     (case nodeByTypeName E tableName of
        None \<Rightarrow> ret (no_node tableName)
      | Some nd \<Rightarrow>
          abind (ret (index_fields E nd)) (\<lambda>nonUniqueFields.
          abind (db_exec (dbase E) (create_text tableName
                   (range_loop (rng E (''createTable'', tableName)) (Attributes nd)))) (\<lambda>_.
          exec_texts (dbase E) (map (index_text ''CREATE INDEX '' tableName) nonUniqueFields))))"

definition catalog_sql :: string where
  "catalog_sql = ''SELECT column_name FROM information_schema.columns WHERE table_name = $1''"

definition live_columns :: "scan_conv \<Rightarrow> drv list list \<Rightarrow> string list res" where
  "live_columns C rows =
     collect (\<lambda>row. rbind (Scan C [string_type] row) (\<lambda>vs. rbind (assert_string (hd vs)) (\<lambda>s.
       Inr (to_lower s)))) rows"

text \<open>The attributes without a live column, with the types of the columns to add.\<close>

definition missing_columns :: "string list \<Rightarrow> (string \<times> l8node) list \<Rightarrow> (string \<times> string) list" where
  "missing_columns live attrs =
     map (\<lambda>(attrName, attr). (attrName, postgresTypeOf attr))
       (filter (\<lambda>(attrName, attr). \<not> IsStruct attr \<and> \<not> IsTimeSeriesType (TypeName attr) \<and>
                  to_lower attrName \<notin> set live) attrs)"

definition migrateTable :: "('d, 'x) pg_env_scheme \<Rightarrow> string \<Rightarrow> (unit, 'd) act" where
  "migrateTable E tableName =
     (case nodeByTypeName E tableName of
        None \<Rightarrow> ret (no_node tableName)
      | Some nd \<Rightarrow>
          abind (reading (\<lambda>d. rbind (query_rows (dbase E) d catalog_sql [Some (GString (to_lower tableName))])
                               (\<lambda>(rows, e). live_columns (scanner E) rows))) (\<lambda>live.
          let missing = missing_columns live
                (range_loop (rng E (''migrateTable'', tableName)) (Attributes nd)) in
          if missing = [] then ret (Inr ())
          else
            abind (exec_texts (dbase E) (map (\<lambda>(a, t). alter_text tableName a t) missing)) (\<lambda>_.
            abind (ret (index_fields E nd)) (\<lambda>nonUniqueFields.
            exec_texts (dbase E) (map (index_text ''CREATE INDEX IF NOT EXISTS '' tableName)
              (filter (\<lambda>f. f \<in> fst ` set missing) nonUniqueFields))))))"

definition verifyTable :: "('d, 'x) pg_env_scheme \<Rightarrow> string \<Rightarrow> (unit, 'd) act" where
  "verifyTable E tableName d =
     (case db_exec (dbase E) (probe_text tableName) d of
        (Inl (Err m), d) \<Rightarrow>
          if str_contains m ''does not exist'' then createTable E tableName d else (Inl (Err m), d)
      | (Inl (Panic m), d) \<Rightarrow> (Inl (Panic m), d)
      | (Inr u, d) \<Rightarrow> migrateTable E tableName d)"

definition verify_one :: "('d, 'x) pg_env_scheme \<Rightarrow> string \<Rightarrow> (unit, 'd pg) act" where
  "verify_one E tableName s =
     (if map_of (verifyed s) tableName \<noteq> None then (Inr (), s)
      else abind (on_db (verifyTable E tableName))
             (\<lambda>u s. (Inr (), s\<lparr>verifyed := AList.update tableName True (verifyed s)\<rparr>)) s)"

definition verifyTables :: "('d, 'x) pg_env_scheme \<Rightarrow> l8node \<Rightarrow> (unit, 'd pg) act" where
  "verifyTables E rootNode =
     afold (\<lambda>u (tableName, b). verify_one E tableName) ()
       (range_loop (rng E (''verifyTables'', TypeName rootNode)) (collectTables E rootNode []))"

end
