(* ===== verification/Demo_Db.thy ===== *)
theory Demo_Db
  imports Pg_Schema Sql_Stmt_Correct
begin

text \<open>
  A database to evaluate the theorems at: it keeps the statements of committed transactions
  and of the open one, and the texts run outside of transactions.  A probe fails while no
  table was created.  A statement with the argument \<open>fail\<close> fails, a commit can be
  made to fail, and a select of objects delivers one row.
\<close>

record demo_state =
  done_log :: "(string \<times> sql_arg list) list"
  open_log :: "(string \<times> sql_arg list) list"
  ddl_log :: "string list"
  commit_ok :: bool

definition demo_rows :: "string \<Rightarrow> drv list list" where
  "demo_rows sql =
     (if take 6 sql = ''Select'' then [[DText [], DText ''order[o1]'', DText ''o1'']] else [])"

definition demo_database :: "demo_state database" where
  "demo_database = \<lparr>
     begin_tx = (\<lambda>d. (Inr (), d\<lparr>open_log := done_log d\<rparr>)),
     prepare = (\<lambda>d sql. Inr ()),
     exec_stmt = (\<lambda>sql args d. if Some (GString ''fail'') \<in> set args then (Inl (Err ''exec''), d)
                           else (Inr (), d\<lparr>open_log := open_log d @ [(sql, args)]\<rparr>)),
     query_rows = (\<lambda>d sql args. Inr (demo_rows sql, None)),
     query_columns = (\<lambda>d sql. 2),
     commit_tx = (\<lambda>d. if commit_ok d then (Inr (), d\<lparr>done_log := open_log d\<rparr>) else (Inl (Err ''commit''), d)),
     rollback_tx = (\<lambda>d. (Inr (), d)),
     db_exec = (\<lambda>sql d. if take 6 sql = ''select'' \<and> ddl_log d = []
                        then (Inl (Err ''relation does not exist''), d)
                        else (Inr (), d\<lparr>ddl_log := ddl_log d @ [sql]\<rparr>)),
     close_db = ret (Inr ())\<rparr>"

definition demo_d0 :: demo_state where
  "demo_d0 = \<lparr>done_log = [], open_log = [], ddl_log = [], commit_ok = True\<rparr>"

definition demo_effect :: "string \<Rightarrow> sql_arg list \<Rightarrow> (string \<times> sql_arg list) list \<Rightarrow> (string \<times> sql_arg list) list" where
  "demo_effect sql args done = done @ [(sql, args)]"

lemma demo_transactional: "transactional demo_database done_log open_log demo_effect"
  by (simp add: transactional_def demo_database_def demo_effect_def)

text \<open>The plugin over a database, for the type of \<^const>\<open>demo_node\<close>.\<close>

definition demo_over :: "'d database \<Rightarrow> 'd pg_env" where
  "demo_over db = \<lparr>
     primaryKeyOf = primaryKeyOf demo_env, enc = enc demo_env, dec = dec demo_env,
     toStr = toStr demo_env, toStrTyped = toStrTyped demo_env, fromStr = fromStr demo_env,
     infoType = infoType demo_env, newInstance = newInstance demo_env, nodeOf = nodeOf demo_env,
     inspect = inspect demo_env, nonUnique = (\<lambda>n. Inr [''Text'']), rng = rng demo_env, krng = krng demo_env,
     nodeByTypeName = (\<lambda>t. if t = ''Order'' then Some demo_node
        else map_of (map (\<lambda>(a, k). (TypeName k, k)) (Attributes demo_node)) t),
     objectNew = (\<lambda>xs. \<lparr>Element = (case xs of [] \<Rightarrow> None | x # r \<Rightarrow> x), Elements = xs,
        Keys = map (\<lambda>i. Some (GString (nat_str i))) [0..<length xs]\<rparr>),
     elementsOf = (\<lambda>r. case r of COrdered xs \<Rightarrow> map Some xs | _ \<Rightarrow> []),
     security = Some (\<lambda>user x. user = ''admin''),
     packAggregates = (\<lambda>groups aggs by. []),
     dbase = db, scanner = demo_conv\<rparr>"

definition demo_pg :: "demo_state pg_env" where
  "demo_pg = demo_over demo_database"

lemma orders_ok_demo_over [simp]: "orders_ok (demo_over db)"
  using orders_ok_demo by (simp add: orders_ok_def demo_over_def)

lemma orders_ok_demo_pg [simp]: "orders_ok demo_pg"
  by (simp add: demo_pg_def)

text \<open>Relational data with one row of the table \<open>Line\<close>.\<close>

definition demo_line :: "string \<Rightarrow> L8OrmTable" where
  "demo_line txt = \<lparr>Name = ''Line'', Columns = Some [(''Text'', 1)], InstanceRows = Some
     [(''order[o1]'', \<lparr>AttributeRows = Some [(''Lines'', \<lparr>Rows = Some
        [\<lparr>ParentKey = ''order[o1]'', RecKey = ''Lines[0]'', ColumnValues = [(1, bytes_for txt)]\<rparr>]\<rparr>)]\<rparr>)]\<rparr>"

definition demo_data :: L8OrmRData where
  "demo_data = \<lparr>Tables = [(''Line'', demo_line ''a'')], RootTypeName = ''Order'', TsData = []\<rparr>"

definition demo_s0 :: "demo_state pg" where
  "demo_s0 = NewPostgres 100 demo_d0"

end
