(* ===== verification/Pg_Schema_Correct.thy ===== *)
theory Pg_Schema_Correct
  imports Demo_Db Type_Graph
begin

text \<open>
  What keeping the tables in step with the types achieves: which tables are looked at, and
  that afterwards each of them has a column for every attribute that a statement names.
\<close>

section \<open>The tables of a type\<close>

lemma collectTables_explores:
  assumes "orders_ok E" "consistent r" "reach r n"
  shows "explores r n (names_of T) (names_of (collectTables E n T)) \<and>
    TypeName n \<in> names_of (collectTables E n T)"
  using assms
proof (induction E n T rule: collectTables.induct)
  case (1 E n T)
  define attrs where "attrs = range_loop (rng E (''collectTables'', TypeName n)) (Attributes n)"
  define F where "F = (\<lambda>(attrName :: string, attr) tables.
     if IsStruct attr then
       (if IsTimeSeriesType (TypeName attr) then tables
        else if map_of tables (TypeName attr) = None then collectTables E attr tables else tables)
     else tables)"
  have as: "set attrs = set (Attributes n)"
    using set_range_loop [OF orders_okD(1) [OF "1.prems"(1)] consistentD(1) [OF "1.prems"(2,3)]]
    by (simp add: attrs_def)
  have step: "explores r n (names_of S) (names_of (F p S)) \<and> (sub_attr p \<longrightarrow> TypeName (snd p) \<in> names_of (F p S))"
    if "p \<in> set attrs" for p S
  proof -
    obtain a k where p: "p = (a, k)" by (cases p)
    show ?thesis
    proof (cases "sub_attr p \<and> map_of S (TypeName k) = None")
      case True
      then have s: "IsStruct k" "\<not> IsTimeSeriesType (TypeName k)" "map_of S (TypeName k) = None"
        by (simp_all add: p)
      have nk: "reach n k" using that True as unfolding p by (blast intro: reach.intros)
      then have rk: "reach r k" using "1.prems"(3) reach_trans by blast
      have "explores r k (names_of S) (names_of (collectTables E k S)) \<and> TypeName k \<in> names_of (collectTables E k S)"
        using "1.IH" [OF that [unfolded p attrs_def] refl s "1.prems"(1,2) rk] .
      moreover have "F p S = collectTables E k S" using s by (simp add: F_def p)
      ultimately show ?thesis using explores_sub [OF _ nk] by (simp add: p)
    next
      case False
      then have F: "F p S = S" by (auto simp: F_def p)
      have "TypeName k \<in> names_of S" if "sub_attr p"
        using False that map_of_eq_None_iff [of S "TypeName k"] by (auto simp: names_of_def gkeys_def)
      then show ?thesis unfolding F by (simp add: explores_refl p)
    qed
  qed
  have R: "collectTables E n T = fold F attrs (AList.update (TypeName n) True T)"
    unfolding collectTables.simps [of E n T] attrs_def F_def ..
  have loop: "explores r n (insert (TypeName n) (names_of T)) (names_of (fold F attrs (AList.update (TypeName n) True T)))"
    "\<And>p. p \<in> set (Attributes n) \<Longrightarrow> sub_attr p \<Longrightarrow>
       TypeName (snd p) \<in> names_of (fold F attrs (AList.update (TypeName n) True T))"
    using fold_explores [of attrs r n F, OF step, of "AList.update (TypeName n) True T"]
    by (simp_all add: as names_of_def set_gkeys_update)
  show ?case
    unfolding R by (rule closes_node [OF "1.prems"(2,3) loop])
qed

lemma collectTables_names:
  assumes "orders_ok E" "consistent n"
  shows "set (gkeys (collectTables E n [])) = TypeName ` Collect (reach n)"
  using explores_all [of n "names_of (collectTables E n [])"]
    collectTables_explores [OF assms reach.self, of "[]"] by (simp add: names_of_def gkeys_def)

text \<open>
  The tables of a type.  For a type whose nodes of one name have the same attributes, the
  tables that are looked at are exactly the types reachable through sub-tables, the type
  itself included and time series excluded, whatever the range orders.
\<close>

theorem collectTables_reachable:
  assumes "orders_ok E" "consistent n"
  shows "set (gkeys (collectTables E n [])) = TypeName ` Collect (reach n)"
  by (rule collectTables_names [OF assms])

theorem collectTables_reachable_witness:
  "set (gkeys (collectTables demo_env demo_node [])) = TypeName ` Collect (reach demo_node)"
  by (rule collectTables_reachable [OF orders_ok_demo consistent_demo])

section \<open>Columns of the tables\<close>

text \<open>
  What PostgreSQL documents of the statements used here: \<open>catalog\<close> is the set of column names
  of a table, in lower case.  None of them drops a column; a table created or altered has
  the new columns; and the catalog query delivers columns that are there.
\<close>

definition ddl_text :: "string \<Rightarrow> bool" where
  "ddl_text sql \<longleftrightarrow> (\<exists>t. sql = probe_text t) \<or> (\<exists>t attrs. sql = create_text t attrs) \<or>
     (\<exists>t a ty. sql = alter_text t a ty) \<or> (\<exists>c t f. sql = index_text c t f)"

definition ddl_engine :: "'d database \<Rightarrow> scan_conv \<Rightarrow> ('d \<Rightarrow> string \<Rightarrow> string set) \<Rightarrow> bool" where
  "ddl_engine db C catalog \<longleftrightarrow>
     (\<forall>sql d t. ddl_text sql \<longrightarrow> catalog d t \<subseteq> catalog (snd (db_exec db sql d)) t) \<and>
     (\<forall>t attrs d. fst (db_exec db (create_text t attrs) d) = Inr () \<longrightarrow>
        to_lower ` fst ` set (filter scalar_attr attrs)
          \<subseteq> catalog (snd (db_exec db (create_text t attrs) d)) (to_lower t)) \<and>
     (\<forall>t a ty d. fst (db_exec db (alter_text t a ty) d) = Inr () \<longrightarrow>
        to_lower a \<in> catalog (snd (db_exec db (alter_text t a ty) d)) (to_lower t)) \<and>
     (\<forall>d t rows e live. query_rows db d catalog_sql [Some (GString (to_lower t))] = Inr (rows, e) \<longrightarrow>
        live_columns C rows = Inr live \<longrightarrow> set live \<subseteq> catalog d (to_lower t))"

lemma ddl_engineD:
  assumes "ddl_engine db C catalog"
  shows "ddl_text sql \<Longrightarrow> catalog d t \<subseteq> catalog (snd (db_exec db sql d)) t"
    and "db_exec db (create_text t attrs) d = (Inr u, d') \<Longrightarrow>
      to_lower ` fst ` set (filter scalar_attr attrs) \<subseteq> catalog d' (to_lower t)"
    and "db_exec db (alter_text t a ty) d = (Inr u, d') \<Longrightarrow> to_lower a \<in> catalog d' (to_lower t)"
    and "query_rows db d catalog_sql [Some (GString (to_lower t))] = Inr (rows, e) \<Longrightarrow>
      live_columns C rows = Inr live \<Longrightarrow> set live \<subseteq> catalog d (to_lower t)"
  using assms unfolding ddl_engine_def by (blast | metis fst_conv snd_conv old.unit.exhaust)+

text \<open>Actions that drop no column.\<close>

definition grows :: "('d \<Rightarrow> string \<Rightarrow> string set) \<Rightarrow> ('a, 'd) act \<Rightarrow> bool" where
  "grows catalog m \<longleftrightarrow> (\<forall>d t. catalog d t \<subseteq> catalog (snd (m d)) t)"

lemma grows_intros [intro]:
  "grows catalog (ret r)"
  "grows catalog (reading f)"
  "ddl_engine db C catalog \<Longrightarrow> ddl_text sql \<Longrightarrow> grows catalog (db_exec db sql)"
  by (auto simp: grows_def ret_def reading_def dest: ddl_engineD(1))

lemma grows_bind [intro]: "grows catalog m \<Longrightarrow> (\<And>x. grows catalog (f x)) \<Longrightarrow> grows catalog (abind m f)"
  unfolding grows_def abind_def by (auto split: prod.splits sum.splits) (metis (full_types) snd_conv subsetD)+

lemma grows_fold [intro]: "(\<And>s x. x \<in> set xs \<Longrightarrow> grows catalog (f s x)) \<Longrightarrow> grows catalog (afold f s xs)"
  by (induction xs arbitrary: s) auto

lemma growsD: "grows catalog m \<Longrightarrow> m d = (r, d') \<Longrightarrow> catalog d t \<subseteq> catalog d' t"
  unfolding grows_def by (metis snd_conv)

lemma ddl_texts [simp, intro]:
  "ddl_text (probe_text t)" "ddl_text (create_text t attrs)" "ddl_text (alter_text t a ty)"
  "ddl_text (index_text c t f)"
  unfolding ddl_text_def by blast+

lemma exec_texts_grows:
  assumes "ddl_engine db C catalog" "\<And>sql. sql \<in> set texts \<Longrightarrow> ddl_text sql"
  shows "grows catalog (exec_texts db texts)"
  unfolding exec_texts_def using assms by blast

text \<open>A run of ALTER statements that succeeds has added every column.\<close>

lemma alter_texts_add:
  assumes e: "ddl_engine db C catalog"
    and "exec_texts db (map (\<lambda>(a, ty). alter_text t a ty) cols) d = (Inr u, d')" "(a, ty) \<in> set cols"
  shows "to_lower a \<in> catalog d' (to_lower t)"
  using assms(2,3)
proof (induction cols arbitrary: d)
  case (Cons c cols)
  obtain a' ty' where c: "c = (a', ty')" by (cases c)
  from Cons.prems(1) obtain d1 where d1: "db_exec db (alter_text t a' ty') d = (Inr (), d1)"
    and rest: "exec_texts db (map (\<lambda>(a, ty). alter_text t a ty) cols) d1 = (Inr u, d')"
    by (auto simp: exec_texts_def abind_eq_Inr c)
  have g: "grows catalog (exec_texts db (map (\<lambda>(a, ty). alter_text t a ty) cols))"
    by (rule exec_texts_grows [OF e]) auto
  show ?case
  proof (cases "(a, ty) = c")
    case True
    with ddl_engineD(3) [OF e d1] growsD [OF g rest] c show ?thesis by auto
  next
    case False
    with Cons.IH [OF rest] Cons.prems(2) show ?thesis by simp
  qed
qed simp

text \<open>A table that has a column for every attribute of its node that a statement names.\<close>

definition table_ready :: "('d, 'x) pg_env_scheme \<Rightarrow> (string \<Rightarrow> string set) \<Rightarrow> string \<Rightarrow> bool" where
  "table_ready E cat t \<longleftrightarrow> (\<exists>n. nodeByTypeName E t = Some n \<and> to_lower ` set (scalar_names n) \<subseteq> cat (to_lower t))"

text \<open>Nodes whose attribute names are distinct; no scalar attribute has the type of a time series.\<close>

definition schema_nodes :: "('d, 'x) pg_env_scheme \<Rightarrow> bool" where
  "schema_nodes E \<longleftrightarrow> (\<forall>t n. nodeByTypeName E t = Some n \<longrightarrow> distinct (gkeys (Attributes n)) \<and>
     (\<forall>(a, k) \<in> set (Attributes n). IsTimeSeriesType (TypeName k) \<longrightarrow> IsStruct k))"

lemma migrateTable_ready:
  assumes e: "ddl_engine (dbase E) (scanner E) catalog" and "orders_ok E" "schema_nodes E"
  shows "grows catalog (migrateTable E t)"
    and "migrateTable E t d = (Inr u, d') \<Longrightarrow> table_ready E (catalog d') t"
proof -
  show g: "grows catalog (migrateTable E t)"
    unfolding migrateTable_def Let_def
    by (auto split: option.split intro!: exec_texts_grows [OF e] grows_bind grows_intros(1,2))
  assume m: "migrateTable E t d = (Inr u, d')"
  then obtain n where n: "nodeByTypeName E t = Some n"
    by (auto simp: migrateTable_def no_node_def act_simps split: option.splits)
  let ?as = "range_loop (rng E (''migrateTable'', t)) (Attributes n)"
  have as: "set ?as = set (Attributes n)"
    using assms(2,3) n by (intro set_range_loop orders_okD(1)) (auto simp: schema_nodes_def)
  from m n obtain rows err live where q: "query_rows (dbase E) d catalog_sql [Some (GString (to_lower t))] = Inr (rows, err)"
    "live_columns (scanner E) rows = Inr live"
    and rest: "missing_columns live ?as \<noteq> [] \<Longrightarrow>
      abind (exec_texts (dbase E) (map (\<lambda>(a, ty). alter_text t a ty) (missing_columns live ?as)))
        (\<lambda>_. abind (ret (index_fields E n)) (\<lambda>fs. exec_texts (dbase E)
           (map (index_text ''CREATE INDEX IF NOT EXISTS '' t)
             (filter (\<lambda>f. f \<in> fst ` set (missing_columns live ?as)) fs)))) d = (Inr u, d')"
    and none: "missing_columns live ?as = [] \<Longrightarrow> d' = d"
    by (auto simp: migrateTable_def abind_eq_Inr reading_def rbind_eq_Inr Let_def act_simps split: if_splits)
  have live: "set live \<subseteq> catalog d (to_lower t)" by (rule ddl_engineD(4) [OF e q])
  have keep: "catalog d (to_lower t) \<subseteq> catalog d' (to_lower t)"
    using growsD [OF g m] .
  have added: "to_lower a \<in> catalog d' (to_lower t)" if "(a, ty) \<in> set (missing_columns live ?as)" for a ty
  proof -
    from that have "missing_columns live ?as \<noteq> []" by auto
    from rest [OF this] obtain d1 where
      d1: "exec_texts (dbase E) (map (\<lambda>(a, ty). alter_text t a ty) (missing_columns live ?as)) d = (Inr (), d1)"
      and r: "abind (ret (index_fields E n)) (\<lambda>fs. exec_texts (dbase E)
           (map (index_text ''CREATE INDEX IF NOT EXISTS '' t)
             (filter (\<lambda>f. f \<in> fst ` set (missing_columns live ?as)) fs))) d1 = (Inr u, d')"
      unfolding abind_eq_Inr by auto
    have "grows catalog (abind (ret (index_fields E n)) (\<lambda>fs. exec_texts (dbase E)
           (map (index_text ''CREATE INDEX IF NOT EXISTS '' t)
             (filter (\<lambda>f. f \<in> fst ` set (missing_columns live ?as)) fs))))"
      by (auto intro!: exec_texts_grows [OF e] grows_bind grows_intros(1,2))
    from growsD [OF this r] alter_texts_add [OF e d1 that] show ?thesis by blast
  qed
  have "to_lower a \<in> catalog d' (to_lower t)" if "(a, k) \<in> set (Attributes n)" "\<not> IsStruct k" for a k
  proof (cases "to_lower a \<in> set live")
    case True
    with live keep show ?thesis by blast
  next
    case False
    moreover have "\<not> IsTimeSeriesType (TypeName k)" using assms(3) n that unfolding schema_nodes_def by blast
    ultimately have "(a, postgresTypeOf k) \<in> set (missing_columns live ?as)"
      using that as by (force simp: missing_columns_def)
    then show ?thesis by (rule added)
  qed
  then show "table_ready E (catalog d') t"
    using n by (auto simp: table_ready_def scalar_names_def scalar_attr_def)
qed

lemma createTable_ready:
  assumes e: "ddl_engine (dbase E) (scanner E) catalog" and "orders_ok E" "schema_nodes E"
  shows "grows catalog (createTable E t)"
    and "createTable E t d = (Inr u, d') \<Longrightarrow> table_ready E (catalog d') t"
proof -
  show "grows catalog (createTable E t)"
    unfolding createTable_def
    by (auto split: option.split intro!: exec_texts_grows [OF e] grows_bind grows_intros(1,2) grows_intros(3) [OF e])
  assume m: "createTable E t d = (Inr u, d')"
  then obtain n fs d1 where n: "nodeByTypeName E t = Some n"
    and c: "db_exec (dbase E) (create_text t (range_loop (rng E (''createTable'', t)) (Attributes n))) d = (Inr (), d1)"
    and r: "exec_texts (dbase E) (map (index_text ''CREATE INDEX '' t) fs) d1 = (Inr u, d')"
    by (auto simp: createTable_def no_node_def act_simps abind_eq_Inr split: option.splits)
  have "set (range_loop (rng E (''createTable'', t)) (Attributes n)) = set (Attributes n)"
    using assms(2,3) n by (intro set_range_loop orders_okD(1)) (auto simp: schema_nodes_def)
  then have "to_lower ` set (scalar_names n) \<subseteq> catalog d1 (to_lower t)"
    using ddl_engineD(2) [OF e c] by (force simp: scalar_names_def)
  moreover have g: "grows catalog (exec_texts (dbase E) (map (index_text ''CREATE INDEX '' t) fs))"
    by (auto intro!: exec_texts_grows [OF e])
  ultimately show "table_ready E (catalog d') t"
    using n growsD [where m = "exec_texts (dbase E) (map (index_text ''CREATE INDEX '' t) fs)", OF g r]
    unfolding table_ready_def by (meson subset_trans)
qed

lemma verifyTable_ready:
  assumes e: "ddl_engine (dbase E) (scanner E) catalog" and o: "orders_ok E" "schema_nodes E"
    and v: "verifyTable E t d = (r, d')"
  shows "catalog d x \<subseteq> catalog d' x" and "r = Inr u \<Longrightarrow> table_ready E (catalog d') t"
proof -
  obtain p d1 where p: "db_exec (dbase E) (probe_text t) d = (p, d1)" by fastforce
  have g: "catalog d x \<subseteq> catalog d1 x" using ddl_engineD(1) [OF e ddl_texts(1)] p by (metis snd_conv)
  consider "createTable E t d1 = (r, d')" | "migrateTable E t d1 = (r, d')" | "isl r" "d' = d1"
    using v p by (auto simp: verifyTable_def split: sum.splits go_err.splits if_splits)
  then show "catalog d x \<subseteq> catalog d' x"
    using g growsD [OF createTable_ready(1) [OF e o]] growsD [OF migrateTable_ready(1) [OF e o]]
    by cases blast+
  assume r: "r = Inr u"
  then consider "createTable E t d1 = (Inr u, d')" | "migrateTable E t d1 = (Inr u, d')"
    using v p by (auto simp: verifyTable_def split: sum.splits go_err.splits if_splits)
  then show "table_ready E (catalog d') t"
    by cases (rule createTable_ready(2) [OF e o] migrateTable_ready(2) [OF e o], assumption)+
qed

text \<open>The invariant of the plugin: a table marked as verified is ready.\<close>

definition verified_ready :: "('d, 'x) pg_env_scheme \<Rightarrow> ('d \<Rightarrow> string \<Rightarrow> string set) \<Rightarrow> 'd pg \<Rightarrow> bool" where
  "verified_ready E catalog s \<longleftrightarrow> (\<forall>t \<in> set (gkeys (verifyed s)). table_ready E (catalog (dbState s)) t)"

lemma table_ready_mono: "table_ready E c t \<Longrightarrow> (\<And>x. c x \<subseteq> c' x) \<Longrightarrow> table_ready E c' t"
  unfolding table_ready_def by (meson subset_trans)

lemma verify_one_ready:
  assumes e: "ddl_engine (dbase E) (scanner E) catalog" and o: "orders_ok E" "schema_nodes E"
    and i: "verified_ready E catalog s" and v: "verify_one E t s = (r, s')"
  shows "verified_ready E catalog s'"
    and "set (gkeys (verifyed s)) \<subseteq> set (gkeys (verifyed s'))"
    and "r = Inr u \<Longrightarrow> t \<in> set (gkeys (verifyed s'))"
proof -
  have known: "map_of (verifyed s) t \<noteq> None \<longleftrightarrow> t \<in> set (gkeys (verifyed s))"
    by (simp add: gkeys_def map_of_eq_None_iff)
  obtain q d' where q: "verifyTable E t (dbState s) = (q, d')" by fastforce
  note ready = verifyTable_ready [OF e o q]
  have all: "\<forall>k \<in> set (gkeys (verifyed s)). table_ready E (catalog d') k"
    using i ready(1) table_ready_mono unfolding verified_ready_def by blast
  show "verified_ready E catalog s'"
    using v q all i ready(2)
    by (auto simp: verify_one_def abind_def on_db_def verified_ready_def set_gkeys_update
        split: if_splits sum.splits)
  show "set (gkeys (verifyed s)) \<subseteq> set (gkeys (verifyed s'))"
    using v q by (auto simp: verify_one_def abind_def on_db_def set_gkeys_update split: if_splits sum.splits)
  show "t \<in> set (gkeys (verifyed s'))" if "r = Inr u"
    using v q that known
    by (auto simp: verify_one_def abind_def on_db_def set_gkeys_update split: if_splits sum.splits)
qed

lemma verify_loop_ready:
  assumes e: "ddl_engine (dbase E) (scanner E) catalog" and o: "orders_ok E" "schema_nodes E"
    and i: "verified_ready E catalog s"
    and v: "afold (\<lambda>u (tableName, b). verify_one E tableName) () ts s = (r, s')"
  shows "verified_ready E catalog s' \<and> set (gkeys (verifyed s)) \<subseteq> set (gkeys (verifyed s')) \<and>
    (r = Inr () \<longrightarrow> fst ` set ts \<subseteq> set (gkeys (verifyed s')))"
  using i v
proof (induction ts arbitrary: s)
  case Nil
  then show ?case by (simp add: act_simps)
next
  case (Cons p ts)
  obtain t b where p: "p = (t, b)" by (cases p)
  obtain q s1 where q: "verify_one E t s = (q, s1)" by fastforce
  note one = verify_one_ready [OF e o Cons.prems(1) q]
  show ?case
  proof (cases q)
    case (Inl err)
    with Cons.prems q p have "r = Inl err" "s' = s1" by (simp_all add: abind_def)
    with one show ?thesis by simp
  next
    case (Inr u)
    with Cons.prems(2) q p have "afold (\<lambda>u (tableName, b). verify_one E tableName) () ts s1 = (r, s')"
      by (simp add: abind_def)
    from Cons.IH [OF one(1) this] one(2) one(3) [OF Inr] show ?thesis by (auto simp: p)
  qed
qed

text \<open>
  C12. Tables in step with their type.  On a database in which the name of a table
  identifies it, as the query of its columns supposes, verifying the tables of a type keeps the invariant
  that every table marked as verified has a column for each scalar attribute of its type,
  also when it fails half way; and when it succeeds, that holds of every table the type
  reaches, so every column that an insert, update or select of these types names exists.
\<close>

theorem verifyTables_ready:
  assumes "ddl_engine (dbase E) (scanner E) catalog" "orders_ok E" "schema_nodes E" "consistent n"
    and "verified_ready E catalog s" and "verifyTables E n s = (r, s')"
  shows "verified_ready E catalog s' \<and>
    (r = Inr () \<longrightarrow> (\<forall>m. reach n m \<longrightarrow> table_ready E (catalog (dbState s')) (TypeName m)))"
proof -
  let ?ts = "range_loop (rng E (''verifyTables'', TypeName n)) (collectTables E n [])"
  have v: "afold (\<lambda>u (tableName, b). verify_one E tableName) () ?ts s = (r, s')"
    using assms(6) by (simp add: verifyTables_def)
  have "set (map fst ?ts) = set (gkeys (collectTables E n []))"
    unfolding map_fst_range_loop [OF orders_okD(1) [OF assms(2)]]
    using orders_okD(1) [OF assms(2)] by (metis is_order_def set_mset_mset)
  also have "\<dots> = TypeName ` Collect (reach n)"
    by (rule collectTables_names [OF assms(2,4)])
  finally show ?thesis
    using verify_loop_ready [OF assms(1-3,5) v] by (auto simp: verified_ready_def)
qed

text \<open>The catalog of the demonstration database: what its texts created.\<close>

definition demo_catalog :: "demo_state \<Rightarrow> string \<Rightarrow> string set" where
  "demo_catalog d t =
     {to_lower a |a t' ty. alter_text t' a ty \<in> set (ddl_log d) \<and> to_lower t' = t} \<union>
     {to_lower a |a t' attrs. create_text t' attrs \<in> set (ddl_log d) \<and> to_lower t' = t \<and>
        a \<in> fst ` set (filter scalar_attr attrs)}"

lemma demo_ddl_engine: "ddl_engine demo_database demo_conv demo_catalog"
  unfolding ddl_engine_def
proof (intro conjI allI impI)
  fix sql d t
  have "set (ddl_log d) \<subseteq> set (ddl_log (snd (db_exec demo_database sql d)))"
    by (auto simp: demo_database_def)
  then show "demo_catalog d t \<subseteq> demo_catalog (snd (db_exec demo_database sql d)) t"
    unfolding demo_catalog_def by blast
next
  fix t attrs d
  assume "fst (db_exec demo_database (create_text t attrs) d) = Inr ()"
  then have "create_text t attrs \<in> set (ddl_log (snd (db_exec demo_database (create_text t attrs) d)))"
    by (auto simp: demo_database_def split: if_splits)
  then show "to_lower ` fst ` set (filter scalar_attr attrs)
      \<subseteq> demo_catalog (snd (db_exec demo_database (create_text t attrs) d)) (to_lower t)"
    unfolding demo_catalog_def by blast
next
  fix t a ty d
  assume "fst (db_exec demo_database (alter_text t a ty) d) = Inr ()"
  then have "alter_text t a ty \<in> set (ddl_log (snd (db_exec demo_database (alter_text t a ty) d)))"
    by (auto simp: demo_database_def split: if_splits)
  then show "to_lower a \<in> demo_catalog (snd (db_exec demo_database (alter_text t a ty) d)) (to_lower t)"
    unfolding demo_catalog_def by blast
next
  fix d t rows e live
  assume "query_rows demo_database d catalog_sql [Some (GString (to_lower t))] = Inr (rows, e)"
    "live_columns demo_conv rows = Inr live"
  then show "set live \<subseteq> demo_catalog d (to_lower t)"
    by (simp add: demo_database_def demo_rows_def live_columns_def catalog_sql_def)
qed

lemma schema_nodes_demo: "schema_nodes demo_pg"
proof -
  have "n \<in> set (demo_node # map snd (Attributes demo_node))" if "nodeByTypeName demo_pg t = Some n" for t n
    using that by (auto simp: demo_pg_def demo_over_def image_iff split: if_splits dest!: map_of_SomeD) (metis snd_conv)
  moreover have "\<forall>n \<in> set (demo_node # map snd (Attributes demo_node)). distinct (gkeys (Attributes n)) \<and>
      (\<forall>(a, k) \<in> set (Attributes n). IsTimeSeriesType (TypeName k) \<longrightarrow> IsStruct k)"
    by code_simp
  ultimately show ?thesis unfolding schema_nodes_def by blast
qed

lemma demo_verified: "fst (verifyTables demo_pg demo_node demo_s0) = Inr ()"
  by code_simp

theorem verifyTables_ready_witness:
  "verified_ready demo_pg demo_catalog (snd (verifyTables demo_pg demo_node demo_s0)) \<and>
   table_ready demo_pg (demo_catalog (dbState (snd (verifyTables demo_pg demo_node demo_s0)))) (TypeName demo_node)"
proof -
  have e: "ddl_engine (dbase demo_pg) (scanner demo_pg) demo_catalog"
    using demo_ddl_engine by (simp add: demo_pg_def demo_over_def)
  have i: "verified_ready demo_pg demo_catalog demo_s0"
    by (simp add: verified_ready_def demo_s0_def NewPostgres_def gkeys_def)
  from verifyTables_ready [OF e orders_ok_demo_pg schema_nodes_demo consistent_demo i prod.collapse [symmetric]]
  show ?thesis using demo_verified reach.self by blast
qed

end
