(* ===== verification/Pg_Tsdb.thy ===== *)
theory Pg_Tsdb
  imports Pg_Schema Sql_Query
begin

text \<open>
  plugins/postgres/Tsdb.go and ReadTsdb.go: the table of the time series, storing
  notifications in one transaction, reading the points of a property, and filling the time
  series fields of objects that were read.
\<close>

section \<open>The table of the time series\<close>

definition ts_tabs :: string where
  "ts_tabs = newline @ [CHR 0x09, CHR 0x09]"

definition ts_table_texts :: "string list" where
  "ts_table_texts =
     [''CREATE TABLE IF NOT EXISTS l8tsdb ('' @ ts_tabs @ ''stamp    TIMESTAMPTZ NOT NULL,'' @ ts_tabs
        @ ''prop_id  TEXT        NOT NULL,'' @ ts_tabs @ ''value    FLOAT8      NOT NULL'' @ newline
        @ [CHR 0x09] @ '')'',
      ''SELECT create_hypertable('' @ quoted ''l8tsdb'' @ '', '' @ quoted ''stamp''
        @ '', chunk_time_interval => INTERVAL '' @ quoted ''1 day'' @ '', if_not_exists => TRUE)'',
      ''CREATE INDEX IF NOT EXISTS idx_l8tsdb_prop_stamp ON l8tsdb (prop_id, stamp DESC)'']"

definition ts_insert_sql :: string where
  "ts_insert_sql = ''INSERT INTO l8tsdb (stamp, prop_id, value) VALUES (to_timestamp($1), $2, $3)''"

definition ts_range_sql :: string where
  "ts_range_sql = ''SELECT extract(epoch from stamp)::bigint, value FROM l8tsdb '' @
     ''WHERE prop_id = $1 AND stamp BETWEEN to_timestamp($2) AND to_timestamp($3) '' @ ''ORDER BY stamp''"

definition ts_latest_sql :: string where
  "ts_latest_sql = ''SELECT stamp_epoch, value FROM ('' @
     ''SELECT extract(epoch from stamp)::bigint AS stamp_epoch, value FROM l8tsdb '' @
     ''WHERE prop_id = $1 ORDER BY stamp DESC LIMIT $2'' @ '') sub ORDER BY stamp_epoch''"

definition ts_retention_sql :: "string \<Rightarrow> string" where
  "ts_retention_sql interval =
     ''SELECT add_retention_policy('' @ quoted ''l8tsdb'' @ '', INTERVAL '' @ quoted interval @ '', if_not_exists => true)''"

text \<open>Tsdb.verifyTable.\<close>

definition ts_verifyTable :: "('d, 'x) pg_env_scheme \<Rightarrow> (unit, 'd) act" where
  "ts_verifyTable E = exec_texts (dbase E) ts_table_texts"

section \<open>Points\<close>

text \<open>A pointer to a point of the series, with the two fields the source uses.\<close>

definition ts_type :: gtyp where
  "ts_type = TNamed KStruct ''L8TimeSeriesPoint''"

definition ts_point :: "gval \<Rightarrow> gval \<Rightarrow> gval" where
  "ts_point st v = GPtr ts_type (Some (GStruct ''L8TimeSeriesPoint'' [(''Stamp'', st), (''Value'', v)]))"

definition point_field :: "string \<Rightarrow> gval \<Rightarrow> gval res" where
  "point_field f p =
     rbind (field_by_name f p) (\<lambda>v. case v of
       Some x \<Rightarrow> Inr x | None \<Rightarrow> Inl (Panic ''invalid memory address or nil pointer dereference''))"

text \<open>The arguments that store a notification; a nil one, or one without a point, is skipped.\<close>

definition ts_args :: "L8TSDBNotification option \<Rightarrow> sql_arg list option res" where
  "ts_args n =
     (case Option.bind n (\<lambda>x. map_option (Pair x) (Point x)) of
        None \<Rightarrow> Inr None
      | Some (x, p) \<Rightarrow>
          rbind (point_field ''Stamp'' p) (\<lambda>st.
          rbind (point_field ''Value'' p) (\<lambda>v.
            Inr (Some [Some st, Some (GString (PropertyId x)), Some v]))))"

definition ts_add_one ::
    "('d, 'x) pg_env_scheme \<Rightarrow> L8TSDBNotification option \<Rightarrow> (unit, 'd) act" where
  "ts_add_one E n =
     abind (ret (ts_args n)) (\<lambda>args. case args of
       None \<Rightarrow> ret (Inr ()) | Some as \<Rightarrow> exec_stmt (dbase E) ts_insert_sql as)"

definition ts_body ::
    "('d, 'x) pg_env_scheme \<Rightarrow> L8TSDBNotification option list \<Rightarrow> (unit, 'd) act" where
  "ts_body E notifications =
     abind (reading (\<lambda>d. prepare (dbase E) d ts_insert_sql)) (\<lambda>_.
       afold (\<lambda>u n. ts_add_one E n) () notifications)"

definition AddTSDB ::
    "('d, 'x) pg_env_scheme \<Rightarrow> L8TSDBNotification option list \<Rightarrow> (unit, 'd pg) act" where
  "AddTSDB E notifications =
     abind (\<lambda>s. if tsVerified s then (Inr (), s)
                else abind (on_db (ts_verifyTable E)) (\<lambda>u s. (Inr (), s\<lparr>tsVerified := True\<rparr>)) s)
       (\<lambda>_. on_db (bracket (dbase E) True (ts_body E notifications)))"

text \<open>Both reads scan the rows and then look at \<open>Rows.Err\<close>.\<close>

definition scan_points :: "scan_conv \<Rightarrow> drv list list \<Rightarrow> gval list res" where
  "scan_points C rows =
     collect (\<lambda>row. rbind (Scan C [TNamed KInt64 ''int64'', TNamed KFloat64 ''float64''] row)
       (\<lambda>vs. Inr (ts_point (vs ! 0) (vs ! 1)))) rows"

definition read_points :: "('d, 'x) pg_env_scheme \<Rightarrow> 'd \<Rightarrow> string \<Rightarrow> sql_arg list \<Rightarrow> gval list res" where
  "read_points E d sql args =
     rbind (query_rows (dbase E) d sql args) (\<lambda>(rows, err).
     rbind (scan_points (scanner E) rows) (\<lambda>points.
       case err of None \<Rightarrow> Inr points | Some m \<Rightarrow> Inl (Err m)))"

definition GetTSDB ::
    "('d, 'x) pg_env_scheme \<Rightarrow> string \<Rightarrow> int64 \<Rightarrow> int64 \<Rightarrow> 'd \<Rightarrow> gval list res" where
  "GetTSDB E propertyId start e d =
     read_points E d ts_range_sql [Some (GString propertyId), Some (GInt64 start), Some (GInt64 e)]"

definition GetTSDBLatest :: "('d, 'x) pg_env_scheme \<Rightarrow> string \<Rightarrow> int64 \<Rightarrow> 'd \<Rightarrow> gval list res" where
  "GetTSDBLatest E propertyId limit d =
     read_points E d ts_latest_sql [Some (GString propertyId), Some (GInt64 limit)]"

definition SetRetention :: "('d, 'x) pg_env_scheme \<Rightarrow> string \<Rightarrow> (unit, 'd) act" where
  "SetRetention E interval = db_exec (dbase E) (ts_retention_sql interval)"

definition ts_Close :: "('d, 'x) pg_env_scheme \<Rightarrow> bool \<Rightarrow> (unit, 'd) act" where
  "ts_Close E ownsDb = (if ownsDb then close_db (dbase E) else ret (Inr ()))"

text \<open>
  Postgres.Close: closing the channel of the cleaner a second time panics; the series shares
  the handle of the plugin, and the error of closing it is dropped.
\<close>

definition Close :: "('d, 'x) pg_env_scheme \<Rightarrow> (unit, 'd pg) act" where
  "Close E s =
     (if stopped s then (Inl (Panic ''close of closed channel''), s)
      else
        (case ts_Close E False (dbState s) of (r, d) \<Rightarrow>
          (case close_db (dbase E) d of
             (Inl (Panic m), d) \<Rightarrow> (Inl (Panic m), s\<lparr>dbState := d, stopped := True\<rparr>)
           | (r, d) \<Rightarrow> (Inr (), s\<lparr>dbState := d, stopped := True\<rparr>))))"

section \<open>Filling the time series fields\<close>

definition collectTsAttrs :: "l8node \<Rightarrow> (string, l8node) gomap" where
  "collectTsAttrs n = filter ts_attr (Attributes n)"

definition ts_property :: "string \<Rightarrow> string \<Rightarrow> string \<Rightarrow> string" where
  "ts_property typeName key attrName = to_lower typeName @ ''<'' @ key @ ''>'' @ ''.'' @ to_lower attrName"

text \<open>
  One attribute of an object: nothing happens when the points cannot be read or there are
  none, or the field is missing or cannot be set; a field that is no slice of points panics.
\<close>

definition populate_attr ::
    "('d, 'x) pg_env_scheme \<Rightarrow> 'd \<Rightarrow> string \<Rightarrow> string \<Rightarrow> bool \<Rightarrow> gval \<Rightarrow> string \<Rightarrow> gval res" where
  "populate_attr E d typeName key canSet v attrName =
     (case GetTSDBLatest E (ts_property typeName key attrName) 100 d of
        Inl (Panic m) \<Rightarrow> Inl (Panic m)
      | Inl (Err m) \<Rightarrow> Inr v
      | Inr points \<Rightarrow>
          if points = [] then Inr v
          else rbind (field_by_name attrName v) (\<lambda>field.
            case field of
              None \<Rightarrow> Inr v
            | Some f \<Rightarrow>
                if \<not> canSet then Inr v
                else (case f of
                  GSlice t xs \<Rightarrow>
                    if t = TPtr ts_type then set_field attrName (GSlice t (Some points)) v
                    else Inl (Panic ''reflect.Set: value is not assignable'')
                | _ \<Rightarrow> Inl (Panic ''reflect.MakeSlice of non-slice type''))))"

definition populate_element ::
    "('d, 'x) pg_env_scheme \<Rightarrow> 'd \<Rightarrow> string \<Rightarrow> l8node \<Rightarrow> rvalue \<Rightarrow> rvalue res" where
  "populate_element E d typeName n elem =
     (case elem of
        None \<Rightarrow> Inr None
      | Some x \<Rightarrow>
          (case deref elem of
             None \<Rightarrow> Inr elem
           | Some v \<Rightarrow>
               let key = primaryKeyOf E n v in
               if key = [] then Inr elem
               else
                 rbind (mfold (\<lambda>v (attrName, attr).
                          populate_attr E d typeName key (kind_of elem = KPtr) v attrName) v
                        (range_loop (rng E (''populateTsFields'', key)) (collectTsAttrs n)))
                   (\<lambda>v. Inr (case x of GPtr t w \<Rightarrow> Some (GPtr t (Some v)) | _ \<Rightarrow> elem))))"

definition populateTsFields :: "('d, 'x) pg_env_scheme \<Rightarrow> 'd \<Rightarrow> rvalue list \<Rightarrow> rvalue list res" where
  "populateTsFields E d elements =
     (case elements of
        [] \<Rightarrow> Inr elements
      | None # rest \<Rightarrow> Inr elements
      | Some sample # rest \<Rightarrow>
          rbind (typ_elem (type_of sample)) (\<lambda>t.
          (case nodeOf E (typ_name t) of
             None \<Rightarrow> Inr elements
           | Some n \<Rightarrow>
               if collectTsAttrs n = [] then Inr elements
               else collect (populate_element E d (typ_name t) n) elements)))"

end
