(* ===== verification/Pg_Write.thy ===== *)
theory Pg_Write
  imports Pg_Tsdb Convert_Schema
begin

text \<open>
  plugins/postgres/Write.go and Delete.go: writing relational data in one transaction,
  writing objects in batches, and deleting the records of a query with their descendants.
\<close>

section \<open>Writing relational data\<close>

text \<open>The text executed for the rows of a table, and the statement that binds them.\<close>

definition write_statement ::
    "('d, 'x) pg_env_scheme \<Rightarrow> action \<Rightarrow> 'd \<Rightarrow> iquery statement \<Rightarrow> (string \<times> iquery statement) res" where
  "write_statement E action d st =
     (if action = PATCH then UpdateStatement E (prepare (dbase E) d) st
      else InsertStatement E (prepare (dbase E) d) st)"

definition write_row ::
    "('d, 'x) pg_env_scheme \<Rightarrow> action \<Rightarrow> string \<Rightarrow> iquery statement \<Rightarrow> L8OrmRow \<Rightarrow> (unit, 'd) act" where
  "write_row E action sql st row =
     abind (ret (RowValues E st action row)) (\<lambda>args. exec_stmt (dbase E) sql args)"

definition instances :: "L8OrmTable \<Rightarrow> (string, L8OrmInstanceRows) gomap" where
  "instances table = (case InstanceRows table of None \<Rightarrow> [] | Some m \<Rightarrow> m)"

definition attributes :: "L8OrmInstanceRows \<Rightarrow> (string, L8OrmAttributeRows) gomap" where
  "attributes inst = (case AttributeRows inst of None \<Rightarrow> [] | Some m \<Rightarrow> m)"

definition row_list :: "L8OrmAttributeRows \<Rightarrow> L8OrmRow list" where
  "row_list attr = (case Rows attr of None \<Rightarrow> [] | Some rs \<Rightarrow> rs)"

definition write_table ::
    "('d, 'x) pg_env_scheme \<Rightarrow> action \<Rightarrow> string \<times> L8OrmTable \<Rightarrow> (unit, 'd) act" where
  "write_table E action tt =
     (case tt of (tableName, table) \<Rightarrow>
        (case nodeByTypeName E tableName of
           None \<Rightarrow> ret (Inl (Err (''No node was found for '' @ tableName)))
         | Some n \<Rightarrow>
             abind (reading (\<lambda>d. write_statement E action d (NewStatement n (Columns table) None)))
               (\<lambda>(sql, st).
               afold (\<lambda>u (parentKey, instRows).
                 afold (\<lambda>u (attrName, attrRows).
                   afold (\<lambda>u row. write_row E action sql st row) () (row_list attrRows))
                   () (range_loop (rng E (''writeData:AttributeRows'', tableName @ parentKey)) (attributes instRows)))
                 () (range_loop (rng E (''writeData:InstanceRows'', tableName)) (instances table)))))"

definition write_body ::
    "('d, 'x) pg_env_scheme \<Rightarrow> action \<Rightarrow> L8OrmRData \<Rightarrow> (unit, 'd) act" where
  "write_body E action data =
     afold (\<lambda>u tt. write_table E action tt) ()
       (range_loop (rng E (''writeData:Tables'', RootTypeName data)) (Tables data))"

definition writeData :: "('d, 'x) pg_env_scheme \<Rightarrow> action \<Rightarrow> L8OrmRData \<Rightarrow> (unit, 'd) act" where
  "writeData E action data = bracket (dbase E) True (write_body E action data)"

definition WriteRelational :: "('d, 'x) pg_env_scheme \<Rightarrow> action \<Rightarrow> L8OrmRData \<Rightarrow> (unit, 'd pg) act" where
  "WriteRelational E action data =
     (case nodeByTypeName E (RootTypeName data) of
        None \<Rightarrow> ret (Inl (Err (''Cannot find node for root type name '' @ RootTypeName data)))
      | Some rootNode \<Rightarrow>
          abind (verifyTables E rootNode) (\<lambda>_. on_db (writeData E action data)))"

definition writeTsData :: "('d, 'x) pg_env_scheme \<Rightarrow> L8OrmRData \<Rightarrow> (unit, 'd pg) act" where
  "writeTsData E data =
     (if TsData data = [] then ret (Inr ()) else AddTSDB E (map Some (TsData data)))"

section \<open>Writing objects\<close>

definition write_batch :: "('d, 'x) pg_env_scheme \<Rightarrow> action \<Rightarrow> ielements \<Rightarrow> (unit, 'd pg) act" where
  "write_batch E action elems =
     abind (ret (case ConvertTo E action (Some elems) of
                   None \<Rightarrow> Inl (Panic ''invalid memory address or nil pointer dereference'')
                 | Some r \<Rightarrow> r)) (\<lambda>data.
     abind (WriteRelational E action data) (\<lambda>_. writeTsData E data))"

text \<open>The loop over the batches, from position \<open>start\<close>.\<close>

function write_batches ::
    "('d, 'x) pg_env_scheme \<Rightarrow> action \<Rightarrow> rvalue list \<Rightarrow> nat \<Rightarrow> (unit, 'd pg) act" where
  "write_batches E action elements start =
     (if start < length elements then
        (let e = (if start + batchSize > length elements then length elements else start + batchSize);
             batch = map (\<lambda>i. elements ! i) [start..<e]
         in abind (write_batch E action (objectNew E batch))
              (\<lambda>_. write_batches E action elements (start + batchSize)))
      else ret (Inr ()))"
  by pat_completeness auto
termination
  by (relation "measure (\<lambda>(E, action, elements, start). length elements - start)") (auto simp: batchSize_def)

declare write_batches.simps [simp del]

text \<open>The index is invalidated when the function ends, in whatever way; \<open>now\<close> is that time.\<close>

definition finally_invalidate :: "int \<Rightarrow> ('a, 'd pg) act \<Rightarrow> ('a, 'd pg) act" where
  "finally_invalidate now m s =
     (case m s of (r, s) \<Rightarrow> (r, s\<lparr>pgIndex := invalidateIndex now (pgIndex s)\<rparr>))"

definition Write :: "('d, 'x) pg_env_scheme \<Rightarrow> int \<Rightarrow> action \<Rightarrow> ielements \<Rightarrow> (unit, 'd pg) act" where
  "Write E now action elems =
     finally_invalidate now
       (if length (Elements elems) \<le> batchSize then write_batch E action elems
        else write_batches E action (Elements elems) 0)"

section \<open>Deleting\<close>

text \<open>
  readRootKeys: the first two columns of every row, scanned into strings, the others into
  interface values, which take anything.
\<close>

definition root_key :: "scan_conv \<Rightarrow> drv list \<Rightarrow> string res" where
  "root_key C row =
     (if length row < 2 then Inl (Panic ''index out of range'')
      else rbind (Scan C [string_type, string_type] (take 2 row)) (\<lambda>vs.
           rbind (assert_string (vs ! 0)) (\<lambda>pk. rbind (assert_string (vs ! 1)) (\<lambda>rk. Inr (pk @ rk)))))"

definition table_columns :: "L8OrmRData \<Rightarrow> string \<Rightarrow> (string, int32) gomap option res" where
  "table_columns data tableName =
     (case map_of (Tables data) tableName of
        None \<Rightarrow> Inl (Panic ''invalid memory address or nil pointer dereference'')
      | Some t \<Rightarrow> Inr (Columns t))"

definition readRootKeys ::
    "('d, 'x) pg_env_scheme \<Rightarrow> iquery \<Rightarrow> L8OrmRData \<Rightarrow> 'd \<Rightarrow> string list res" where
  "readRootKeys E q data d =
     (case nodeByTypeName E (TypeName (RootType q)) of
        None \<Rightarrow> Inl (Err (''root table not found '' @ TypeName (RootType q)))
      | Some n \<Rightarrow>
          rbind (table_columns data (TypeName (RootType q))) (\<lambda>cols.
          rbind (SelectStatement E (prepare (dbase E) d) (NewStatement n cols (Some q))) (\<lambda>(sel, st).
            case sel of
              None \<Rightarrow> Inr []
            | Some sql \<Rightarrow>
                rbind (query_rows (dbase E) d sql []) (\<lambda>(rows, err).
                  collect (root_key (scanner E)) rows))))"

text \<open>strings.EqualFold on names of types, which are ASCII; on others it folds Unicode.\<close>

definition equal_fold :: "string \<Rightarrow> string \<Rightarrow> bool" where
  "equal_fold s t \<longleftrightarrow> to_lower s = to_lower t"

definition delete_children ::
    "('d, 'x) pg_env_scheme \<Rightarrow> iquery \<Rightarrow> string list \<Rightarrow> string \<times> L8OrmTable \<Rightarrow> (unit, 'd) act" where
  "delete_children E q rootKeys tt =
     (case tt of (tableName, table) \<Rightarrow>
        if equal_fold tableName (TypeName (RootType q)) then ret (Inr ())
        else (case nodeByTypeName E tableName of
          None \<Rightarrow> ret (Inl (Err (''table not found '' @ tableName)))
        | Some n \<Rightarrow>
            (case DeleteByKeysStatement_sql (NewStatement n (Columns table) (Some q)) rootKeys of
               None \<Rightarrow> ret (Inr ())
             | Some sql \<Rightarrow>
                 abind (reading (\<lambda>d. prepare (dbase E) d sql)) (\<lambda>_. exec_stmt (dbase E) sql []))))"

definition delete_root ::
    "('d, 'x) pg_env_scheme \<Rightarrow> iquery \<Rightarrow> L8OrmRData \<Rightarrow> (unit, 'd) act" where
  "delete_root E q data =
     (case nodeByTypeName E (TypeName (RootType q)) of
        None \<Rightarrow> ret (Inl (Err (''root table not found '' @ TypeName (RootType q))))
      | Some n \<Rightarrow>
          abind (ret (table_columns data (TypeName (RootType q)))) (\<lambda>cols.
          abind (reading (\<lambda>d. rbind (DeleteStatement_sql (NewStatement n cols (Some q)) []) (\<lambda>sql.
                   rbind (prepare (dbase E) d sql) (\<lambda>_. Inr sql)))) (\<lambda>sql.
          exec_stmt (dbase E) sql [])))"

definition delete_body ::
    "('d, 'x) pg_env_scheme \<Rightarrow> iquery \<Rightarrow> L8OrmRData \<Rightarrow> (unit, 'd) act" where
  "delete_body E q data =
     abind (reading (readRootKeys E q data)) (\<lambda>rootKeys.
       if rootKeys = [] then ret (Inr ())
       else abind (afold (\<lambda>u tt. delete_children E q rootKeys tt) ()
                     (range_loop (rng E (''DeleteRelational'', RootTypeName data)) (Tables data)))
              (\<lambda>_. delete_root E q data))"

definition DeleteRelational :: "('d, 'x) pg_env_scheme \<Rightarrow> iquery \<Rightarrow> (unit, 'd) act" where
  "DeleteRelational E q =
     abind (ret (NewRelationsDataForQuery E q)) (\<lambda>data.
       bracket (dbase E) True (delete_body E q data))"

definition Delete :: "('d, 'x) pg_env_scheme \<Rightarrow> int \<Rightarrow> iquery \<Rightarrow> (unit, 'd pg) act" where
  "Delete E now q = finally_invalidate now (on_db (DeleteRelational E q))"

end
