(* ===== verification/Pg_Write_Correct.thy ===== *)
theory Pg_Write_Correct
  imports Pg_Write Demo_Db Sql_Query_Correct
begin

text \<open>
  Writing and deleting: the transactions of the plugin change the committed data only by
  complete scripts of statements, and the scripts have one statement for every row.
\<close>

section \<open>The transaction bodies\<close>

lemma executes_if [intro]: "executes db a \<Longrightarrow> executes db b \<Longrightarrow> executes db (if c then a else b)"
  by simp

lemma executes_write_table: "executes (dbase E) (write_table E action tt)"
  unfolding write_table_def write_row_def
  by (auto split: prod.split option.split intro!: executes_bind executes_fold executes_ret executes_reading executes_exec)

interpretation writing: tx_body "dbase E" "write_body E action data" for E action data
  by unfold_locales (auto simp: write_body_def intro!: executes_fold executes_write_table)

lemma executes_delete: "executes (dbase E) (delete_body E q data)"
  unfolding delete_body_def delete_children_def delete_root_def
  by (auto split: prod.split option.split intro!: executes_bind executes_fold executes_ret executes_reading executes_exec)

interpretation deleting: tx_body "dbase E" "delete_body E q data" for E q data
  by unfold_locales (rule executes_delete)

interpretation storing: tx_body "dbase E" "ts_body E notifications" for E notifications
  by unfold_locales (auto simp: ts_body_def ts_add_one_def split: option.split
      intro!: executes_bind executes_fold executes_ret executes_reading executes_exec)

text \<open>
  C16. Failed operations change nothing.  When storing relational data, deleting the records
  of a query, or storing time series points ends in an error, the committed data are what
  they were, wherever the error occurred.
\<close>

theorem failed_writes_keep_data:
  assumes "transactional (dbase E) committed pending effect"
  shows "(writeData E action data d = (Inl (Err m), d') \<longrightarrow> committed d' = committed d) \<and>
    (DeleteRelational E q d = (Inl (Err m), d') \<longrightarrow> committed d' = committed d) \<and>
    (bracket (dbase E) True (ts_body E ns) d = (Inl (Err m), d') \<longrightarrow> committed d' = committed d)"
  using writing.error_keeps [OF assms] deleting.error_keeps [OF assms] storing.error_keeps [OF assms]
  by (auto simp: writeData_def DeleteRelational_def abind_eq_Inl ret_eq)

lemma demo_pg_db: "transactional (dbase demo_pg) done_log open_log demo_effect"
  using demo_transactional by (simp add: demo_pg_def demo_over_def)

text \<open>A row that cannot be stored after one that was, a query on an unknown type, a point that
  cannot be stored.\<close>

definition demo_bad :: L8OrmRData where
  "demo_bad = \<lparr>Tables = [(''Tag'', demo_line ''fail''), (''Line'', demo_line ''a'')],
     RootTypeName = ''Order'', TsData = []\<rparr>"

definition demo_stray :: iquery where
  "demo_stray = demo_query\<lparr>RootType := L8Node ''Nope'' ''nope'' True False False [] []\<rparr>"

definition demo_note :: "L8TSDBNotification option" where
  "demo_note = Some \<lparr>PropertyId = ''fail'', Point = deref (Some (ts_point (GInt64 5) (GFloat64 0)))\<rparr>"

theorem failed_writes_keep_data_witness:
  "done_log (snd (writeData demo_pg POST demo_bad demo_d0)) = done_log demo_d0 \<and>
   done_log (snd (DeleteRelational demo_pg demo_stray demo_d0)) = done_log demo_d0 \<and>
   done_log (snd (bracket (dbase demo_pg) True (ts_body demo_pg [demo_note]) demo_d0)) = done_log demo_d0"
proof -
  have w: "fst (writeData demo_pg POST demo_bad demo_d0) = Inl (Err ''exec'')" by code_simp
  have q: "fst (DeleteRelational demo_pg demo_stray demo_d0) = Inl (Err ''root table not found Nope'')" by code_simp
  have n: "fst (bracket (dbase demo_pg) True (ts_body demo_pg [demo_note]) demo_d0) = Inl (Err ''exec'')" by code_simp
  show ?thesis
    using failed_writes_keep_data [OF demo_pg_db, of POST demo_bad demo_d0 "''exec''"]
      failed_writes_keep_data [OF demo_pg_db, where q = demo_stray and d = demo_d0 and m = "''root table not found Nope''"]
      failed_writes_keep_data [OF demo_pg_db, where ns = "[demo_note]" and d = demo_d0 and m = "''exec''"]
    by (metis w q n prod.collapse)
qed

section \<open>The script of a write\<close>

text \<open>All rows of relational data, with the name and the columns of their tables.\<close>

definition table_rows :: "L8OrmTable \<Rightarrow> L8OrmRow list" where
  "table_rows t = concat (map (\<lambda>(pk, inst). concat (map (\<lambda>(a, ar). row_list ar) (attributes inst))) (instances t))"

definition all_rows :: "L8OrmRData \<Rightarrow> (string \<times> (string, int32) gomap option \<times> L8OrmRow) list" where
  "all_rows data = concat (map (\<lambda>(tn, t). map (\<lambda>r. (tn, Columns t, r)) (table_rows t)) (Tables data))"

text \<open>The statement that stores a row, with its arguments.\<close>

definition row_statement ::
    "('d, 'x) pg_env_scheme \<Rightarrow> action \<Rightarrow> string \<times> (string, int32) gomap option \<times> L8OrmRow
     \<Rightarrow> (string \<times> sql_arg list) res" where
  "row_statement E action r =
     (case r of (tn, cols, row) \<Rightarrow>
        (case nodeByTypeName E tn of
           None \<Rightarrow> Inl (Err (''No node was found for '' @ tn))
         | Some n \<Rightarrow>
             let st = ensure_fields E (NewStatement n cols (None :: iquery option)) in
             rbind (RowValues E st action row) (\<lambda>args.
               Inr (if action = PATCH then update_sql st else insert_sql st, args))))"

text \<open>The maps of relational data have each key once, as Go's do.\<close>

definition go_maps :: "L8OrmRData \<Rightarrow> bool" where
  "go_maps data \<longleftrightarrow> distinct (gkeys (Tables data)) \<and>
     (\<forall>(tn, t) \<in> set (Tables data). distinct (gkeys (instances t)) \<and>
        (\<forall>(pk, inst) \<in> set (instances t). distinct (gkeys (attributes inst))))"

lemma bind_attr_cached:
  "bind_attr E (st\<lparr>insertStmt := x\<rparr>) = bind_attr E st" "bind_attr E (st\<lparr>updateStmt := x\<rparr>) = bind_attr E st"
  by (simp_all add: bind_attr_def fun_eq_iff)

lemma RowValues_cached [simp]:
  "RowValues E (st\<lparr>insertStmt := x\<rparr>) action row = RowValues E st action row"
  "RowValues E (st\<lparr>updateStmt := x\<rparr>) action row = RowValues E st action row"
  by (simp_all add: RowValues_def bind_attr_cached)

lemma write_statement_eq:
  "write_statement E action d (NewStatement n cols None) = Inr (sql, st) \<Longrightarrow>
    sql = (if action = PATCH then update_sql else insert_sql) (ensure_fields E (NewStatement n cols (None :: iquery option))) \<and>
    RowValues E st action row = RowValues E (ensure_fields E (NewStatement n cols (None :: iquery option))) action row"
  by (auto simp: write_statement_def InsertStatement_def UpdateStatement_def NewStatement_def Let_def
      rbind_eq_Inr split: if_splits option.splits)

lemma mset_concat_perm:
  assumes "mset xs = mset ys" "\<And>x. x \<in> set ys \<Longrightarrow> mset (f x) = mset (g x)"
  shows "mset (concat (map f xs)) = mset (concat (map g ys))"
proof -
  have "mset (concat (map h zs)) = \<Sum>\<^sub># (image_mset (\<lambda>x. mset (h x)) (mset zs))" for h :: "'a \<Rightarrow> 'b list" and zs
    by (induction zs) simp_all
  moreover have "image_mset (\<lambda>x. mset (f x)) (mset ys) = image_mset (\<lambda>x. mset (g x)) (mset ys)"
    using assms(2) by (intro image_mset_cong) simp
  ultimately show ?thesis using assms(1) by simp
qed

text \<open>The rows of a table in the order in which they are written.\<close>

definition written_rows :: "('d, 'x) pg_env_scheme \<Rightarrow> string \<Rightarrow> L8OrmTable \<Rightarrow> L8OrmRow list" where
  "written_rows E tn t =
     concat (map (\<lambda>(pk, inst).
         concat (map (\<lambda>(a, ar). row_list ar)
           (range_loop (rng E (''writeData:AttributeRows'', tn @ pk)) (attributes inst))))
       (range_loop (rng E (''writeData:InstanceRows'', tn)) (instances t)))"

lemma mset_written_rows:
  assumes "orders_ok E" "distinct (gkeys (instances t))"
    "\<And>pk inst. (pk, inst) \<in> set (instances t) \<Longrightarrow> distinct (gkeys (attributes inst))"
  shows "mset (written_rows E tn t) = mset (table_rows t)"
  unfolding written_rows_def table_rows_def
proof (rule mset_concat_perm)
  show "mset (range_loop (rng E (''writeData:InstanceRows'', tn)) (instances t)) = mset (instances t)"
    by (rule mset_range_loop [OF orders_okD(1) [OF assms(1)] assms(2)])
next
  fix p assume p: "p \<in> set (instances t)"
  obtain pk inst where pi: "p = (pk, inst)" by (cases p)
  have "mset (range_loop (rng E (''writeData:AttributeRows'', tn @ pk)) (attributes inst)) = mset (attributes inst)"
    using p pi by (intro mset_range_loop orders_okD(1) [OF assms(1)] assms(3)) simp
  then show "mset (case p of (pk, inst) \<Rightarrow> concat (map (\<lambda>(a, ar). row_list ar)
         (range_loop (rng E (''writeData:AttributeRows'', tn @ pk)) (attributes inst)))) =
      mset (case p of (pk, inst) \<Rightarrow> concat (map (\<lambda>(a, ar). row_list ar) (attributes inst)))"
    unfolding pi prod.case by (rule mset_concat_perm) simp
qed

lemma write_loops:
  "afold (\<lambda>u (pk, inst). afold (\<lambda>u (a, ar). afold (\<lambda>u row. W row) () (row_list ar)) ()
       (range_loop (rng E (''writeData:AttributeRows'', tn @ pk)) (attributes inst))) ()
     (range_loop (rng E (''writeData:InstanceRows'', tn)) (instances t)) =
   afold (\<lambda>u row. W row) () (written_rows E tn t)"
  unfolding written_rows_def
  by (simp add: afold_concat [symmetric] case_prod_beta')

lemma collect_append: "collect f (xs @ ys) = rbind (collect f xs) (\<lambda>as. rbind (collect f ys) (\<lambda>bs. Inr (as @ bs)))"
  by (induction xs) (auto simp: rbind_def split: sum.split)

lemma write_table_effect:
  assumes t: "transactional (dbase E) committed pending effect"
    and w: "write_table E action (tn, t) d = (Inr u, d')"
  shows "\<exists>stmts. collect (row_statement E action) (map (\<lambda>r. (tn, Columns t, r)) (written_rows E tn t)) = Inr stmts \<and>
    pending d' = run_script effect stmts (pending d)"
proof -
  from w obtain n sql st where n: "nodeByTypeName E tn = Some n"
    and ws: "write_statement E action d (NewStatement n (Columns t) None) = Inr (sql, st)"
    and run: "afold (\<lambda>u row. write_row E action sql st row) () (written_rows E tn t) d = (Inr u, d')"
    by (auto simp: write_table_def write_loops abind_eq_Inr reading_def ret_eq split: option.splits)
  have rs: "row_statement E action (tn, Columns t, row) = rbind (RowValues E st action row) (\<lambda>args. Inr (sql, args))" for row
    using write_statement_eq [OF ws] n by (simp add: row_statement_def Let_def)
  have "write_row E action sql st row = abind (ret (row_statement E action (tn, Columns t, row))) (\<lambda>(sql, args). exec_stmt (dbase E) sql args)" for row
    by (cases "RowValues E st action row") (simp_all add: rs write_row_def fun_eq_iff abind_def ret_def)
  with afold_script [OF t] run show ?thesis unfolding collect_comp by simp
qed

lemma writeData_script:
  assumes "transactional (dbase E) committed pending effect" "orders_ok E" "go_maps data"
    and "writeData E action data d = (Inr u, d')"
  shows "\<exists>rows stmts e. mset rows = mset (all_rows data) \<and> collect (row_statement E action) rows = Inr stmts \<and>
    pending e = run_script effect stmts (committed d) \<and> committed d' \<in> {committed d, pending e} \<and>
    (fst (commit_tx (dbase E) e) = Inr () \<longrightarrow> committed d' = run_script effect stmts (committed d))"
proof -
  let ?ts = "range_loop (rng E (''writeData:Tables'', RootTypeName data)) (Tables data)"
  let ?rows = "\<lambda>(tn, t). map (\<lambda>r. (tn, Columns t, r)) (written_rows E tn t)"
  from writing.success_commits [OF assms(1) assms(4) [unfolded writeData_def]]
  obtain e where e: "write_body E action data (opened (dbase E) d) = (Inr u, e)"
    "pending (opened (dbase E) d) = committed d" "committed d' \<in> {committed d, pending e}"
    "fst (commit_tx (dbase E) e) = Inr () \<longrightarrow> committed d' = pending e"
    by blast
  have loop: "\<exists>stmts. collect (row_statement E action) (concat (map ?rows ts)) = Inr stmts \<and>
      pending d'' = run_script effect stmts (pending d')"
    if "afold (\<lambda>u tt. write_table E action tt) () ts d' = (Inr u, d'')" for ts d' d''
    using that
  proof (induction ts arbitrary: d')
    case (Cons tt ts)
    obtain tn t where tt: "tt = (tn, t)" by (cases tt)
    from Cons.prems obtain d1 where d1: "write_table E action (tn, t) d' = (Inr (), d1)"
      "afold (\<lambda>u tt. write_table E action tt) () ts d1 = (Inr u, d'')"
      by (auto simp: abind_eq_Inr tt)
    from write_table_effect [OF assms(1) d1(1)] Cons.IH [OF d1(2)] show ?case
      by (auto simp: tt collect_append)
  qed (simp add: ret_eq)
  from loop e(1) [unfolded write_body_def] obtain stmts where
    stmts: "collect (row_statement E action) (concat (map ?rows ?ts)) = Inr stmts"
      "pending e = run_script effect stmts (committed d)" using e(2) by fastforce
  have "mset (concat (map ?rows ?ts)) = mset (all_rows data)"
    unfolding all_rows_def
  proof (rule mset_concat_perm)
    show "mset ?ts = mset (Tables data)"
      using assms(3) by (intro mset_range_loop orders_okD(1) [OF assms(2)]) (simp add: go_maps_def)
    fix p assume p: "p \<in> set (Tables data)"
    obtain tn t where tt: "p = (tn, t)" by (cases p)
    have "distinct (gkeys (instances t)) \<and> (\<forall>(pk, inst) \<in> set (instances t). distinct (gkeys (attributes inst)))"
      using assms(3) p unfolding go_maps_def tt by blast
    then have "mset (written_rows E tn t) = mset (table_rows t)"
      by (intro mset_written_rows [OF assms(2)]) auto
    then show "mset (?rows p) = mset (case p of (tn, t) \<Rightarrow> map (\<lambda>r. (tn, Columns t, r)) (table_rows t))"
      by (simp add: tt)
  qed
  with stmts e show ?thesis
    by (intro exI [of _ "concat (map ?rows ?ts)"] exI [of _ stmts] exI [of _ e]) simp
qed

text \<open>
  C7. What a write does.  A write that reports success executed, in one transaction, one
  statement for every row of the relational data and no other: the insert or update text of
  its table with the values of the row.  The committed data are then the result of this
  script, whatever the orders of the range loops, unless the commit itself failed, which
  the function does not report.
\<close>

theorem writeData_effect:
  assumes "transactional (dbase E) committed pending effect" "orders_ok E" "go_maps data"
    and "writeData E action data d = (Inr u, d')"
  shows "\<exists>rows stmts e. mset rows = mset (all_rows data) \<and> collect (row_statement E action) rows = Inr stmts \<and>
    pending e = run_script effect stmts (committed d) \<and> committed d' \<in> {committed d, pending e} \<and>
    (fst (commit_tx (dbase E) e) = Inr () \<longrightarrow> committed d' = run_script effect stmts (committed d))"
  using writeData_script [OF assms] .

theorem writeData_effect_witness:
  "\<exists>rows stmts. mset rows = mset (all_rows demo_data) \<and>
     collect (row_statement demo_pg POST) rows = Inr stmts \<and>
     done_log (snd (writeData demo_pg POST demo_data demo_d0)) = run_script demo_effect stmts (done_log demo_d0)"
proof -
  have r: "fst (writeData demo_pg POST demo_data demo_d0) = Inr ()" by code_simp
  have m: "go_maps demo_data"
    by (simp add: go_maps_def demo_data_def demo_line_def gkeys_def instances_def attributes_def)
  have d: "done_log (snd (writeData demo_pg POST demo_data demo_d0)) \<noteq> done_log demo_d0" by code_simp
  from writeData_effect [OF demo_pg_db orders_ok_demo_pg m, of POST demo_d0 "()"] r d
  show ?thesis by (metis insertE prod.collapse singletonD)
qed

section \<open>Deleting\<close>

text \<open>The statement that deletes the rows of a child table below the keys of the roots.\<close>

definition child_delete ::
    "('d, 'x) pg_env_scheme \<Rightarrow> iquery \<Rightarrow> string list \<Rightarrow> string \<times> L8OrmTable \<Rightarrow> (string \<times> sql_arg list) res" where
  "child_delete E q keys tt =
     (case nodeByTypeName E (fst tt) of
        None \<Rightarrow> Inl (Err (''table not found '' @ fst tt))
      | Some n \<Rightarrow> Inr (the (DeleteByKeysStatement_sql (NewStatement n (Columns (snd tt)) (Some q)) keys), []))"

definition child_tables :: "iquery \<Rightarrow> L8OrmRData \<Rightarrow> (string \<times> L8OrmTable) list" where
  "child_tables q data = filter (\<lambda>tt. \<not> equal_fold (fst tt) (TypeName (RootType q))) (Tables data)"

lemma delete_children_effect:
  assumes t: "transactional (dbase E) committed pending effect" and k: "keys \<noteq> []"
    and "afold (\<lambda>u tt. delete_children E q keys tt) () tts d = (Inr u, d')"
  shows "\<exists>stmts. collect (child_delete E q keys)
      (filter (\<lambda>tt. \<not> equal_fold (fst tt) (TypeName (RootType q))) tts) = Inr stmts \<and>
    pending d' = run_script effect stmts (pending d)"
  using assms(3)
proof (induction tts arbitrary: d)
  case (Cons tt tts)
  obtain tn tb where tt: "tt = (tn, tb)" by (cases tt)
  from Cons.prems obtain d1 where d1: "delete_children E q keys tt d = (Inr (), d1)"
    "afold (\<lambda>u tt. delete_children E q keys tt) () tts d1 = (Inr u, d')"
    by (auto simp: abind_eq_Inr)
  show ?case
  proof (cases "equal_fold tn (TypeName (RootType q))")
    case True
    with d1(1) have "d1 = d" by (simp add: delete_children_def tt ret_eq)
    with Cons.IH [OF d1(2)] True show ?thesis by (simp add: tt)
  next
    case False
    from d1(1) False obtain n sql where n: "nodeByTypeName E tn = Some n"
      "DeleteByKeysStatement_sql (NewStatement n (Columns tb) (Some q)) keys = Some sql"
      "exec_stmt (dbase E) sql [] d = (Inr (), d1)"
      using k by (auto simp: delete_children_def tt abind_eq_Inr reading_def ret_eq
          DeleteByKeysStatement_sql_def split: option.splits)
    have "pending d1 = effect sql [] (pending d)"
      using transactionalD(4) [OF t, of sql "[]" d] n(3) by simp
    with Cons.IH [OF d1(2)] n(1,2) False show ?thesis by (auto simp: tt child_delete_def)
  qed
qed (simp add: ret_eq)

text \<open>The script of a deletion.\<close>

lemma DeleteRelational_script:
  assumes "transactional (dbase E) committed pending effect" "orders_ok E"
    and "NewRelationsDataForQuery E q = Inr data" "distinct (gkeys (Tables data))"
    and "DeleteRelational E q d = (Inr u, d')"
  shows "\<exists>keys children stmts root e. readRootKeys E q data (opened (dbase E) d) = Inr keys \<and>
    mset children = mset (child_tables q data) \<and>
    (keys = [] \<and> pending e = committed d \<or>
     keys \<noteq> [] \<and> collect (child_delete E q keys) children = Inr stmts \<and>
     (\<exists>n cols. nodeByTypeName E (TypeName (RootType q)) = Some n \<and>
        DeleteStatement_sql (NewStatement n cols (Some q)) [] = Inr root) \<and>
     pending e = run_script effect (stmts @ [(root, [])]) (committed d)) \<and>
    committed d' \<in> {committed d, pending e} \<and>
    (fst (commit_tx (dbase E) e) = Inr () \<longrightarrow> committed d' = pending e)"
proof -
  let ?tts = "range_loop (rng E (''DeleteRelational'', RootTypeName data)) (Tables data)"
  let ?ch = "filter (\<lambda>tt. \<not> equal_fold (fst tt) (TypeName (RootType q))) ?tts"
  have m: "mset ?ch = mset (child_tables q data)"
    using mset_range_loop [OF orders_okD(1) [OF assms(2)] assms(4)]
    by (simp add: child_tables_def mset_filter)
  have b: "bracket (dbase E) True (delete_body E q data) d = (Inr u, d')"
    using assms(3,5) by (simp add: DeleteRelational_def abind_ret)
  from deleting.success_commits [OF assms(1) b]
  obtain e where e: "delete_body E q data (opened (dbase E) d) = (Inr u, e)"
    "pending (opened (dbase E) d) = committed d" "committed d' \<in> {committed d, pending e}"
    "fst (commit_tx (dbase E) e) = Inr () \<longrightarrow> committed d' = pending e"
    by blast
  from e(1) obtain keys where keys: "readRootKeys E q data (opened (dbase E) d) = Inr keys"
    and rest: "(if keys = [] then ret (Inr ())
       else abind (afold (\<lambda>u tt. delete_children E q keys tt) () ?tts)
              (\<lambda>_. delete_root E q data)) (opened (dbase E) d) = (Inr u, e)"
    by (auto simp: delete_body_def abind_eq_Inr reading_def)
  show ?thesis
  proof (cases "keys = []")
    case True
    with rest have "e = opened (dbase E) d" by (simp add: ret_eq)
    with keys True e m show ?thesis by blast
  next
    case False
    with rest obtain d1 where d1: "afold (\<lambda>u tt. delete_children E q keys tt) () ?tts (opened (dbase E) d) = (Inr (), d1)"
      and r: "delete_root E q data d1 = (Inr u, e)"
      by (auto simp: abind_eq_Inr)
    from delete_children_effect [OF assms(1) False d1] e(2) obtain stmts where
      st: "collect (child_delete E q keys) ?ch = Inr stmts" "pending d1 = run_script effect stmts (committed d)"
      by auto
    from r obtain n cols root where root: "nodeByTypeName E (TypeName (RootType q)) = Some n"
      "DeleteStatement_sql (NewStatement n cols (Some q)) [] = Inr root"
      "exec_stmt (dbase E) root [] d1 = (Inr u, e)"
      by (auto simp: delete_root_def abind_eq_Inr reading_def ret_eq rbind_eq_Inr split: option.splits)
    have "pending e = effect root [] (pending d1)"
      using transactionalD(4) [OF assms(1), of root "[]" d1] root(3) by simp
    then have "pending e = run_script effect (stmts @ [(root, [])]) (committed d)" by (simp add: st(2))
    with keys False st(1) root(1,2) e(3,4) m show ?thesis by blast
  qed
qed

text \<open>
  C15. What a deletion does.  A deletion that reports success read the keys of the root
  records in its transaction.  Without a key it changed nothing.  Otherwise it executed one
  statement for every table of the query other than that of the root, which deletes the
  rows below these keys, in any order, and after them the deletion of the root records; the
  committed data are the result, unless the commit failed, which is not reported.
\<close>

theorem delete_effect:
  assumes "transactional (dbase E) committed pending effect" "orders_ok E"
    and "NewRelationsDataForQuery E q = Inr data" "distinct (gkeys (Tables data))"
    and "DeleteRelational E q d = (Inr u, d')"
  shows "\<exists>keys children stmts root e. readRootKeys E q data (opened (dbase E) d) = Inr keys \<and>
    mset children = mset (child_tables q data) \<and>
    (keys = [] \<and> pending e = committed d \<or>
     keys \<noteq> [] \<and> collect (child_delete E q keys) children = Inr stmts \<and>
     (\<exists>n cols. nodeByTypeName E (TypeName (RootType q)) = Some n \<and>
        DeleteStatement_sql (NewStatement n cols (Some q)) [] = Inr root) \<and>
     pending e = run_script effect (stmts @ [(root, [])]) (committed d)) \<and>
    committed d' \<in> {committed d, pending e} \<and>
    (fst (commit_tx (dbase E) e) = Inr () \<longrightarrow> committed d' = pending e)"
  using assms by (rule DeleteRelational_script)

theorem delete_effect_witness:
  "\<exists>children stmts root n cols. mset children = mset (child_tables demo_query
       (case NewRelationsDataForQuery demo_pg demo_query of Inr data \<Rightarrow> data)) \<and>
     collect (child_delete demo_pg demo_query [''order[o1]'']) children = Inr stmts \<and>
     DeleteStatement_sql (NewStatement n cols (Some demo_query)) [] = Inr root \<and>
     done_log (snd (DeleteRelational demo_pg demo_query demo_d0)) = run_script demo_effect (stmts @ [(root, [])]) []"
proof -
  let ?data = "case NewRelationsDataForQuery demo_pg demo_query of Inr data \<Rightarrow> data"
  have n: "\<not> isl (NewRelationsDataForQuery demo_pg demo_query)" by code_simp
  then have data: "NewRelationsDataForQuery demo_pg demo_query = Inr ?data" by (auto split: sum.split)
  have dist: "distinct (gkeys (Tables ?data))" by code_simp
  have keys: "readRootKeys demo_pg demo_query ?data (opened (dbase demo_pg) demo_d0) = Inr [''order[o1]'']" by code_simp
  have r: "fst (DeleteRelational demo_pg demo_query demo_d0) = Inr ()" by code_simp
  have d: "done_log (snd (DeleteRelational demo_pg demo_query demo_d0)) \<noteq> done_log demo_d0" by code_simp
  have e: "done_log demo_d0 = []" by (simp add: demo_d0_def)
  have "DeleteRelational demo_pg demo_query demo_d0 = (Inr (), snd (DeleteRelational demo_pg demo_query demo_d0))"
    using r by (metis prod.collapse)
  from delete_effect [OF demo_pg_db orders_ok_demo_pg data dist this]
  obtain ks children stmts root and x :: demo_state where *:
    "readRootKeys demo_pg demo_query ?data (opened (dbase demo_pg) demo_d0) = Inr ks"
    "mset children = mset (child_tables demo_query ?data)"
    "ks = [] \<and> open_log x = done_log demo_d0 \<or>
     ks \<noteq> [] \<and> collect (child_delete demo_pg demo_query ks) children = Inr stmts \<and>
     (\<exists>n cols. nodeByTypeName demo_pg (TypeName (RootType demo_query)) = Some n \<and>
        DeleteStatement_sql (NewStatement n cols (Some demo_query)) [] = Inr root) \<and>
     open_log x = run_script demo_effect (stmts @ [(root, [])]) (done_log demo_d0)"
    "done_log (snd (DeleteRelational demo_pg demo_query demo_d0)) \<in> {done_log demo_d0, open_log x}"
    by blast
  have ks: "ks = [''order[o1]'']" using *(1) keys by simp
  have "done_log (snd (DeleteRelational demo_pg demo_query demo_d0)) = open_log x" using *(4) d by blast
  then show ?thesis using *(2,3) unfolding ks e by (metis not_Cons_self2)
qed

text \<open>
  The keys are read with the page of the query, the root records are deleted without it: of
  a query with a limit the children of the records beyond the first page stay behind.
\<close>

lemma delete_ignores_page:
  "DeleteStatement_sql (NewStatement n cols (Some (q\<lparr>Limit := l, Page := p\<rparr>))) [] =
   DeleteStatement_sql (NewStatement n cols (Some q)) []"
  by (simp add: DeleteStatement_sql_def NewStatement_def where_clause_def)

section \<open>Batches\<close>

text \<open>A list cut into pieces of the size of a batch.\<close>

function batches :: "'b list \<Rightarrow> 'b list list" where
  "batches xs = (if xs = [] then [] else take batchSize xs # batches (drop batchSize xs))"
  by pat_completeness auto
termination by (relation "measure length") (auto simp: batchSize_def)

declare batches.simps [simp del]

lemma batches_pieces:
  "concat (batches xs) = xs" "b \<in> set (batches xs) \<Longrightarrow> b \<noteq> [] \<and> length b \<le> batchSize"
proof (induction xs rule: batches.induct)
  case (1 xs)
  {
    case 1
    show ?case using "1.IH"(1) by (subst batches.simps) simp
  next
    case 2
    then show ?case using "1.IH"(2)
      by (subst (asm) batches.simps) (auto simp: batchSize_def split: if_splits)
  }
qed

lemma write_batches_eq:
  "write_batches E action elements start =
     afold (\<lambda>u b. write_batch E action (objectNew E b)) () (batches (drop start elements))"
proof (induction E action elements start rule: write_batches.induct)
  case (1 E action elements start)
  show ?case
  proof (cases "start < length elements")
    case False
    then show ?thesis by (simp add: write_batches.simps [of E action elements start] batches.simps [of "[]"])
  next
    case True
    let ?e = "if start + batchSize > length elements then length elements else start + batchSize"
    have "map (\<lambda>i. elements ! i) [start..<?e] = take batchSize (drop start elements)"
      using True by (auto intro!: nth_equalityI)
    with True 1 [OF True refl refl] show ?thesis
      unfolding write_batches.simps [of E action elements start] batches.simps [of "drop start elements"]
      by (simp add: Let_def add.commute drop_drop)
  qed
qed

text \<open>
  Batches.  Writing more elements than a batch holds is writing, one after the other up
  to the first error, consecutive pieces of at most 500 elements that together are all of
  them; writing fewer is one piece.  Each piece is converted and stored on its own.
\<close>

theorem Write_in_batches:
  "Write E now action elems = finally_invalidate now
     (if length (Elements elems) \<le> 500 then write_batch E action elems
      else afold (\<lambda>u b. write_batch E action (objectNew E b)) () (batches (Elements elems))) \<and>
   concat (batches (Elements elems)) = Elements elems \<and>
   list_all (\<lambda>b. b \<noteq> [] \<and> length b \<le> 500) (batches (Elements elems))"
  using batches_pieces(1) [of "Elements elems"] batches_pieces(2) [of _ "Elements elems"]
  by (auto simp: Write_def write_batches_eq batchSize_def list_all_iff)

section \<open>The index after a write\<close>

definition keeps_index :: "('a, 'd pg) act \<Rightarrow> bool" where
  "keeps_index m \<longleftrightarrow> (\<forall>s. pgIndex (snd (m s)) = pgIndex s)"

lemma keeps_index_basic [intro]: "keeps_index (ret r)" "keeps_index (on_db n)"
  by (simp_all add: keeps_index_def ret_def on_db_def split: prod.split)

lemma keeps_index_bind [intro]:
  "keeps_index m \<Longrightarrow> (\<And>x. keeps_index (f x)) \<Longrightarrow> keeps_index (abind m f)"
  unfolding keeps_index_def abind_def by (auto split: prod.split sum.split) (metis snd_conv)+

lemma keeps_index_fold [intro]: "(\<And>s x. keeps_index (g s x)) \<Longrightarrow> keeps_index (afold g a xs)"
  by (induction xs arbitrary: a) auto

lemma keeps_index_fun [intro]:
  "(\<And>s. keeps_index (f s)) \<Longrightarrow> keeps_index (\<lambda>s. f s s)"
  by (simp add: keeps_index_def)

lemma keeps_index_state [intro]:
  "(\<And>s. pgIndex (h s) = pgIndex s) \<Longrightarrow> keeps_index (\<lambda>s. (r s, h s))"
  by (simp add: keeps_index_def)

lemma keeps_index_verify: "keeps_index (verifyTables E n)"
proof -
  have "keeps_index (verify_one E t)" for t
    unfolding keeps_index_def verify_one_def
    by (auto simp: abind_def on_db_def split: prod.split sum.split)
  then show ?thesis unfolding verifyTables_def by auto
qed

lemma keeps_index_AddTSDB: "keeps_index (AddTSDB E ns)"
  unfolding AddTSDB_def keeps_index_def
  by (auto simp: abind_def on_db_def split: prod.split sum.split)

lemma keeps_index_write_batch: "keeps_index (write_batch E action elems)"
  unfolding write_batch_def WriteRelational_def writeTsData_def
  by (auto split: option.split intro!: keeps_index_bind keeps_index_basic keeps_index_verify keeps_index_AddTSDB)

lemma finally_invalidate_index:
  "keeps_index m \<Longrightarrow> pgIndex (snd (finally_invalidate now m s)) = invalidateIndex now (pgIndex s)"
  by (simp add: finally_invalidate_def keeps_index_def split: prod.split) (metis snd_conv)

text \<open>
  C32. No stale page after a write.  Whatever a write or a deletion returns, an error or a
  panic included, the index is the old one with the time of its end as its stamp; so an
  entry is a hit only if it carries that stamp, which none made in an earlier second does.
\<close>

theorem writes_invalidate:
  shows "pgIndex (snd (Write E now action elems s)) = invalidateIndex now (pgIndex s) \<and>
    pgIndex (snd (Delete E now q s)) = invalidateIndex now (pgIndex s) \<and>
    pred_option (\<lambda>cq. stamp cq = now) (fst (index_lookup k (pgIndex (snd (Write E now action elems s))))) \<and>
    pred_option (\<lambda>cq. stamp cq = now) (fst (index_lookup k (pgIndex (snd (Delete E now q s)))))"
proof -
  have w: "pgIndex (snd (Write E now action elems s)) = invalidateIndex now (pgIndex s)"
    unfolding Write_def write_batches_eq
    by (rule finally_invalidate_index) (auto intro!: keeps_index_fold keeps_index_write_batch)
  have d: "pgIndex (snd (Delete E now q s)) = invalidateIndex now (pgIndex s)"
    unfolding Delete_def by (rule finally_invalidate_index) auto
  show ?thesis
    unfolding w d by (auto simp: index_lookup_def invalidateIndex_def split: option.splits if_splits)
qed

end
