(* ===== verification/Pg_Read.thy ===== *)
theory Pg_Read
  imports Pg_Write
begin

text \<open>
  plugins/postgres/Read.go and ReadAggregate.go: reading relational data for a query, the
  record keys of a query, the rows of a page of record keys, the paged read through the
  index, and aggregate queries.  The rows a query delivers are read inside a transaction
  that is committed also when the read fails.  \<open>Rows.Err\<close> is not looked at.
\<close>

section \<open>Results\<close>

text \<open>The metadata of a result: a total count, if there is one, or packed aggregates.\<close>

datatype result_md = MdTotal metadata | MdAggregate "(string, int64) gomap"

type_synonym query_result = "rvalue list \<times> result_md"

definition readRows ::
    "('d, 'x) pg_env_scheme \<Rightarrow> iquery statement \<Rightarrow> drv list list \<Rightarrow> L8OrmRow list res" where
  "readRows E st rows = collect (Row E (scanner E) st) rows"

definition parentKeyMatchesRecKeys :: "string \<Rightarrow> string list \<Rightarrow> bool" where
  "parentKeyMatchesRecKeys parentKey keys = list_ex (\<lambda>recKey. str_contains parentKey recKey) keys"

text \<open>MetaData over the database: the first row of the count, scanned into an integer.\<close>

definition count_rows :: "('d, 'x) pg_env_scheme \<Rightarrow> 'd \<Rightarrow> string \<Rightarrow> int option res" where
  "count_rows E d sql =
     rbind (query_rows (dbase E) d sql []) (\<lambda>(rows, err).
       case rows of
         [] \<Rightarrow> Inr None
       | row # _ \<Rightarrow>
           rbind (Scan (scanner E) [TNamed KInt64 ''int''] row) (\<lambda>vs.
             rbind (value_int (Some (hd vs))) (\<lambda>i. Inr (Some i))))"

definition meta_data :: "('d, 'x) pg_env_scheme \<Rightarrow> 'd \<Rightarrow> iquery statement \<Rightarrow> metadata res" where
  "meta_data E d st = rbind (MetaData (prepare (dbase E) d) (count_rows E d) st) (\<lambda>(md, st). Inr md)"

text \<open>A query result: the objects of the data, with their time series.\<close>

definition query_result ::
    "('d, 'x) pg_env_scheme \<Rightarrow> 'd \<Rightarrow> L8OrmRData \<Rightarrow> metadata \<Rightarrow> query_result res" where
  "query_result E d data md =
     rbind (ConvertFrom E data md) (\<lambda>(resp, md).
     rbind (populateTsFields E d (elementsOf E resp)) (\<lambda>elements.
       Inr (elements, MdTotal md)))"

section \<open>Reading relational data\<close>

definition same_table :: "string \<Rightarrow> iquery \<Rightarrow> bool" where
  "same_table tableName q \<longleftrightarrow> to_lower tableName = to_lower (TypeName (RootType q))"

definition add_rows :: "string \<Rightarrow> L8OrmRow list \<Rightarrow> L8OrmRData \<Rightarrow> L8OrmRData" where
  "add_rows tableName rows = on_table tableName (\<lambda>t. foldl addRowToTable t rows)"

text \<open>A table whose statement selects nothing is left empty; the statement of the root is kept.\<close>

definition read_table ::
    "('d, 'x) pg_env_scheme \<Rightarrow> iquery \<Rightarrow> 'd \<Rightarrow> L8OrmRData \<times> iquery statement option
     \<Rightarrow> string \<times> L8OrmTable \<Rightarrow> (L8OrmRData \<times> iquery statement option) res" where
  "read_table E q d s tt =
     (case (s, tt) of ((data, rootSt), (tableName, table)) \<Rightarrow>
        (case nodeByTypeName E tableName of
           None \<Rightarrow> Inl (Err (''table not found '' @ RootTypeName data))
         | Some n \<Rightarrow>
             rbind (SelectStatement E (prepare (dbase E) d) (NewStatement n (Columns table) (Some q)))
               (\<lambda>(sel, st).
               case sel of
                 None \<Rightarrow> Inr (data, rootSt)
               | Some sql \<Rightarrow>
                   rbind (query_rows (dbase E) d sql []) (\<lambda>(rows, err).
                   rbind (readRows E st rows) (\<lambda>dataRow.
                     Inr (add_rows tableName dataRow data,
                          if same_table tableName q then Some st else rootSt))))))"

definition read_body ::
    "('d, 'x) pg_env_scheme \<Rightarrow> iquery \<Rightarrow> L8OrmRData \<Rightarrow> 'd \<Rightarrow> (L8OrmRData \<times> metadata) res" where
  "read_body E q data d =
     rbind (mfold (read_table E q d) (data, None)
              (range_loop (rng E (''ReadRelational'', RootTypeName data)) (Tables data)))
       (\<lambda>(data, rootSt).
         case rootSt of
           None \<Rightarrow> nil_panic
         | Some st \<Rightarrow> rbind (meta_data E d st) (\<lambda>md. Inr (data, md)))"

definition ReadRelational ::
    "('d, 'x) pg_env_scheme \<Rightarrow> iquery \<Rightarrow> (L8OrmRData \<times> metadata, 'd pg) act" where
  "ReadRelational E q =
     abind (ret (NewRelationsDataForQuery E q)) (\<lambda>data.
     abind (case nodeByTypeName E (TypeName (RootType q)) of
              None \<Rightarrow> ret (Inr ()) | Some rootNode \<Rightarrow> verifyTables E rootNode) (\<lambda>_.
     on_db (bracket (dbase E) False (reading (read_body E q data)))))"

section \<open>Record keys\<close>

definition rec_keys_body ::
    "('d, 'x) pg_env_scheme \<Rightarrow> iquery \<Rightarrow> l8node \<Rightarrow> 'd \<Rightarrow> (string list \<times> metadata) res" where
  "rec_keys_body E q n d =
     rbind (Query2RecKeysSql q (TypeName (RootType q))) (\<lambda>sqlStr.
     rbind (query_rows (dbase E) d sqlStr []) (\<lambda>(rows, err).
     rbind (collect (\<lambda>row. rbind (Scan (scanner E) [string_type] row) (\<lambda>vs. assert_string (hd vs))) rows)
       (\<lambda>keys.
     rbind (meta_data E d (NewStatement n None (Some q))) (\<lambda>md. Inr (keys, md)))))"

definition readRecKeys :: "('d, 'x) pg_env_scheme \<Rightarrow> iquery \<Rightarrow> (string list \<times> metadata, 'd pg) act" where
  "readRecKeys E q =
     (case nodeByTypeName E (TypeName (RootType q)) of
        None \<Rightarrow> ret (Inl (Err (''table not found '' @ TypeName (RootType q))))
      | Some n \<Rightarrow>
          abind (verifyTables E n) (\<lambda>_.
            on_db (bracket (dbase E) False (reading (rec_keys_body E q n)))))"

section \<open>The rows of a page\<close>

text \<open>The position of each key in the page: the last one, if it occurs twice.\<close>

definition recKeyOrder :: "string list \<Rightarrow> (string, nat) gomap" where
  "recKeyOrder keys = fold (\<lambda>(i, key) m. AList.update key i m) (List.enumerate 0 keys) []"

text \<open>The rows are put at the positions of their keys in a slice as long as the rows are.\<close>

definition sort_rows :: "string list \<Rightarrow> L8OrmRow list \<Rightarrow> L8OrmRow option list res" where
  "sort_rows keys dataRow =
     mfold (\<lambda>sortedRows row.
              case map_of (recKeyOrder keys) (RecKey row) of
                None \<Rightarrow> Inr sortedRows
              | Some idx \<Rightarrow> go_assign sortedRows (int idx) (Some row))
       (replicate (length dataRow) None) dataRow"

definition page_table ::
    "('d, 'x) pg_env_scheme \<Rightarrow> iquery \<Rightarrow> string list \<Rightarrow> 'd \<Rightarrow> L8OrmRData \<Rightarrow> string \<times> L8OrmTable
     \<Rightarrow> L8OrmRData res" where
  "page_table E q keys d data tt =
     (case tt of (tableName, table) \<Rightarrow>
        (case nodeByTypeName E tableName of
           None \<Rightarrow> Inl (Err (''table not found '' @ tableName))
         | Some n \<Rightarrow>
             let st = NewStatement n (Columns table) (Some q) in
             if same_table tableName q then
               (let (sqlStr, st) = Query2SqlByRecKeys E tableName keys st in
                rbind (query_rows (dbase E) d sqlStr []) (\<lambda>(rows, err).
                rbind (readRows E st rows) (\<lambda>dataRow.
                rbind (sort_rows keys dataRow) (\<lambda>sortedRows.
                  Inr (add_rows tableName (List.map_filter id sortedRows) data)))))
             else
               rbind (SelectStatement E (prepare (dbase E) d) st) (\<lambda>(sel, st).
                 case sel of
                   None \<Rightarrow> Inr data
                 | Some sql \<Rightarrow>
                     rbind (query_rows (dbase E) d sql []) (\<lambda>(rows, err).
                     rbind (readRows E st rows) (\<lambda>dataRow.
                       Inr (add_rows tableName
                              (filter (\<lambda>row. parentKeyMatchesRecKeys (ParentKey row) keys) dataRow) data))))))"

definition page_body ::
    "('d, 'x) pg_env_scheme \<Rightarrow> iquery \<Rightarrow> string list \<Rightarrow> metadata \<Rightarrow> L8OrmRData \<Rightarrow> 'd \<Rightarrow> query_result res" where
  "page_body E q keys md data d =
     rbind (mfold (page_table E q keys d) data
              (range_loop (rng E (''readByRecKeys'', RootTypeName data)) (Tables data)))
       (\<lambda>data. query_result E d data md)"

definition readByRecKeys ::
    "('d, 'x) pg_env_scheme \<Rightarrow> iquery \<Rightarrow> string list \<Rightarrow> metadata \<Rightarrow> (query_result, 'd pg) act" where
  "readByRecKeys E q keys md =
     (if keys = [] then ret (Inr ([], MdTotal md))
      else
        abind (ret (NewRelationsDataForQuery E q)) (\<lambda>data.
          on_db (bracket (dbase E) False (reading (page_body E q keys md data)))))"

section \<open>Paged reads through the index\<close>

text \<open>
  The security filter reads the rows of all keys; a panic of that read is one of the filter.
\<close>

definition apply_security ::
    "('d, 'x) pg_env_scheme \<Rightarrow> iquery \<Rightarrow> string list \<Rightarrow> metadata \<Rightarrow> (string list \<times> metadata, 'd pg) act" where
  "apply_security E q keys md =
     (case security E of
        Some scope \<Rightarrow>
          if AAAId q = [] then ret (Inr (keys, md))
          else if keys = [] then ret (Inr (filterRecKeysBySecurity (scope (AAAId q)) keys None))
          else (\<lambda>s. case readByRecKeys E q keys None s of
                 (Inl (Panic m), s) \<Rightarrow> (Inl (Panic m), s)
               | (r, s) \<Rightarrow> (Inr (filterRecKeysBySecurity (scope (AAAId q)) keys (Some (map_sum id fst r))), s))
      | None \<Rightarrow> ret (Inr (keys, md)))"

definition readWithIndex ::
    "('d, 'x) pg_env_scheme \<Rightarrow> int \<Rightarrow> iquery \<Rightarrow> (query_result, 'd pg) act" where
  "readWithIndex E now q s =
     (let hash = index_key (QHash q) (AAAId q) in
      case index_lookup hash (pgIndex s) of
        (Some cached, currentStamp) \<Rightarrow>
          abind (ret (pageKeys cached (Page q) (Limit q)))
            (\<lambda>page. readByRecKeys E q page (cmetadata cached))
            (s\<lparr>pgIndex := index_touch now hash (pgIndex s)\<rparr>)
      | (None, currentStamp) \<Rightarrow>
          abind (readRecKeys E q) (\<lambda>(keys, md).
          abind (apply_security E q keys md) (\<lambda>(keys, md).
          abind (\<lambda>s. (Inr (), s\<lparr>pgIndex := index_store hash (new_entry keys md currentStamp) (pgIndex s)\<rparr>)) (\<lambda>_.
          abind (ret (pageKeys (new_entry keys md currentStamp) (Page q) (Limit q))) (\<lambda>page.
            readByRecKeys E q page md)))) s)"

section \<open>Aggregate queries\<close>

text \<open>A group maps the group-by fields and the aliases of the aggregates to the columns.\<close>

definition aggregate_names :: "iquery \<Rightarrow> string list" where
  "aggregate_names q = GroupBy q @ map Alias (Aggregates q)"

definition aggregate_group :: "iquery \<Rightarrow> drv list \<Rightarrow> (string, drv) gomap" where
  "aggregate_group q row =
     fold (\<lambda>(i, name) group. if i < length row then AList.update name (row ! i) group else group)
       (List.enumerate 0 (aggregate_names q)) []"

definition scanAggregateRows ::
    "nat \<Rightarrow> drv list list \<Rightarrow> iquery \<Rightarrow> (string, drv) gomap list res" where
  "scanAggregateRows cols rows q =
     (if cols = 0 then Inl (Err ''aggregate query returned no columns'')
      else collect (\<lambda>row. if length row = cols then Inr (aggregate_group q row) else scan_err) rows)"

definition aggregate_body :: "('d, 'x) pg_env_scheme \<Rightarrow> iquery \<Rightarrow> 'd \<Rightarrow> query_result res" where
  "aggregate_body E q d =
     rbind (AggregateSql q) (\<lambda>sqlStr.
     rbind (query_rows (dbase E) d sqlStr []) (\<lambda>(rows, err).
     rbind (scanAggregateRows (query_columns (dbase E) d sqlStr) rows q) (\<lambda>groups.
       Inr ([], MdAggregate (packAggregates E groups (Aggregates q) (GroupBy q))))))"

definition readAggregate :: "('d, 'x) pg_env_scheme \<Rightarrow> iquery \<Rightarrow> (query_result, 'd pg) act" where
  "readAggregate E q =
     (case nodeByTypeName E (TypeName (RootType q)) of
        None \<Rightarrow> ret (Inl (Err (''table not found '' @ TypeName (RootType q))))
      | Some rootNode \<Rightarrow>
          abind (verifyTables E rootNode) (\<lambda>_.
            on_db (bracket (dbase E) False (reading (aggregate_body E q)))))"

section \<open>Read\<close>

definition Read :: "('d, 'x) pg_env_scheme \<Rightarrow> int \<Rightarrow> iquery \<Rightarrow> (query_result, 'd pg) act" where
  "Read E now q =
     (if IsAggregate q then readAggregate E q
      else if 0 < sint (Limit q) then readWithIndex E now q
      else abind (ReadRelational E q) (\<lambda>(data, md) s. (query_result E (dbState s) data md, s)))"

end
