(* ===== verification/Pg_Read_Correct.thy ===== *)
theory Pg_Read_Correct
  imports Pg_Read Pg_Write_Correct Pg_Index_Correct
begin

text \<open>
  Reading: no read changes the committed data; rows are grouped by their place in the tree
  of objects; a page has its rows in the order of the index; aggregates are named by
  their columns.
\<close>

section \<open>Grouping of rows\<close>

definition row_place :: "L8OrmRow \<Rightarrow> string \<times> string" where
  "row_place row = (ParentKey row, nameOfField (RecKey row))"

lemma foldl_addRowToTable:
  "foldl addRowToTable t rows = table_store.add_all (map (\<lambda>r. (row_place r, r)) rows) t"
  by (induction rows arbitrary: t)
    (simp_all add: table_store.add_all_simps addRowToTable_add_row_at row_place_def)

text \<open>
  Rows in their places.  Adding the delivered rows to a table puts each at its parent key
  and the name in front of its record key, after the rows that are there, in the order of
  delivery; no other place and no column changes.
\<close>

theorem rows_in_places:
  "rows_list (foldl addRowToTable t rows) l = rows_list t l @ filter (\<lambda>r. row_place r = l) rows \<and>
   Columns (foldl addRowToTable t rows) = Columns t"
proof -
  have "map snd (filter (\<lambda>lr. fst lr = l) (map (\<lambda>r. (row_place r, r)) rows)) = filter (\<lambda>r. row_place r = l) rows"
    by (simp add: filter_map comp_def)
  moreover have "Columns (foldl addRowToTable t rows) = Columns t"
    by (induction rows arbitrary: t) simp_all
  ultimately show ?thesis by (simp add: foldl_addRowToTable table_store.rows_add_all)
qed

section \<open>The order of a page\<close>

lemma recKeyOrder_nth:
  assumes "distinct keys" "i < length keys"
  shows "map_of (recKeyOrder keys) (keys ! i) = Some i"
proof -
  have "map_of (fold (\<lambda>(i, key) m. AList.update key i m) (List.enumerate n ks) m) k =
      (if k \<in> set ks then map_of (zip ks [n..<n + length ks]) k else map_of m k)"
    if "distinct ks" for ks :: "string list" and n m k
    using that by (induction ks arbitrary: n m) (auto simp: map_of_update upt_conv_Cons simp del: upt_Suc)
  from this [OF assms(1), of 0 "[]" "keys ! i"] assms show ?thesis
    by (simp add: recKeyOrder_def map_of_zip_nth)
qed

lemma recKeyOrder_absent: "k \<notin> set keys \<Longrightarrow> map_of (recKeyOrder keys) k = None"
proof -
  assume "k \<notin> set keys"
  moreover have "map_of (fold (\<lambda>(i, key) m. AList.update key i m) (List.enumerate n ks) m) k = map_of m k"
    if "k \<notin> set ks" for ks :: "string list" and n m
    using that by (induction ks arbitrary: n m) (auto simp: map_of_update)
  ultimately show ?thesis by (simp add: recKeyOrder_def)
qed

definition row_with :: "L8OrmRow list \<Rightarrow> string \<Rightarrow> L8OrmRow" where
  "row_with rows k = the (find (\<lambda>r. RecKey r = k) rows)"

lemma row_with:
  assumes "distinct (map RecKey rows)" "r \<in> set rows"
  shows "row_with rows (RecKey r) = r"
proof -
  obtain r' where r': "find (\<lambda>x. RecKey x = RecKey r) rows = Some r'"
    using assms(2) by (cases "find (\<lambda>x. RecKey x = RecKey r) rows") (auto simp: find_None_iff)
  then have "r' \<in> set rows" "RecKey r' = RecKey r" by (auto simp: find_Some_iff)
  with assms r' show ?thesis by (auto simp: row_with_def distinct_map dest: inj_onD)
qed

abbreviation place_row :: "string list \<Rightarrow> L8OrmRow option list \<Rightarrow> L8OrmRow \<Rightarrow> L8OrmRow option list res" where
  "place_row keys sortedRows row \<equiv>
     (case map_of (recKeyOrder keys) (RecKey row) of
        None \<Rightarrow> Inr sortedRows
      | Some idx \<Rightarrow> go_assign sortedRows (int idx) (Some row))"

text \<open>The loop, when every position is inside of the slice, and when one is not.\<close>

lemma place_rows_inside:
  assumes "distinct keys" "distinct (map RecKey rows)" "RecKey ` set rows \<subseteq> set (take (length xs) keys)"
    and "length xs \<le> length keys"
  shows "\<exists>ys. mfold (place_row keys) xs rows = Inr ys \<and> length ys = length xs \<and>
    (\<forall>i < length xs. ys ! i = (if keys ! i \<in> RecKey ` set rows then Some (row_with rows (keys ! i)) else xs ! i))"
  using assms(2,3,4)
proof (induction rows arbitrary: xs)
  case (Cons r rows)
  from Cons.prems(2) obtain i where i: "i < length xs" "RecKey r = keys ! i"
    using Cons.prems(3) by (auto simp: in_set_conv_nth)
  then have m: "map_of (recKeyOrder keys) (RecKey r) = Some i"
    using recKeyOrder_nth [OF assms(1), of i] Cons.prems(3) by simp
  obtain ys where ys: "mfold (place_row keys) (xs[i := Some r]) rows = Inr ys" "length ys = length xs"
    "\<And>j. j < length xs \<Longrightarrow> ys ! j = (if keys ! j \<in> RecKey ` set rows then Some (row_with rows (keys ! j)) else xs[i := Some r] ! j)"
    using Cons.IH [of "xs[i := Some r]"] Cons.prems by auto
  have "ys ! j = (if keys ! j \<in> RecKey ` set (r # rows) then Some (row_with (r # rows) (keys ! j)) else xs ! j)"
    if j: "j < length xs" for j
  proof (cases "j = i")
    case True
    then have "keys ! j \<notin> RecKey ` set rows" using i Cons.prems(1) by auto
    with True ys(3) [OF j] i show ?thesis by (simp add: row_with_def)
  next
    case False
    then have "keys ! j \<noteq> RecKey r"
      using i j Cons.prems(3) assms(1) by (simp add: nth_eq_iff_index_eq)
    with False ys(3) [OF j] show ?thesis by (auto simp: row_with_def)
  qed
  with ys(1,2) m i(1) show ?case by (simp add: go_assign_def)
qed simp

lemma place_rows_outside:
  assumes "distinct keys" "r \<in> set rows" "RecKey r = keys ! i" "i < length keys" "length xs \<le> i"
  shows "mfold (place_row keys) xs rows = Inl (Panic ''index out of range'')"
  using assms(2,5)
proof (induction rows arbitrary: xs)
  case (Cons x rows)
  show ?case
  proof (cases "x = r")
    case True
    with recKeyOrder_nth [OF assms(1,4)] assms(3) Cons.prems(2) show ?thesis by (simp add: go_assign_def)
  next
    case False
    with Cons.prems(1) have "r \<in> set rows" by simp
    then show ?thesis
      using Cons.IH Cons.prems(2) by (auto simp: go_assign_def split: option.split)
  qed
qed simp

lemma in_take: "i < n \<Longrightarrow> n \<le> length xs \<Longrightarrow> xs ! i \<in> set (take n xs)"
proof -
  assume *: "i < n" "n \<le> length xs"
  then have "take n xs ! i \<in> set (take n xs)" by (intro nth_mem) simp
  with * show ?thesis by simp
qed

text \<open>The rows at the positions of their keys.\<close>

lemma sort_rows_page:
  assumes "distinct keys" "distinct (map RecKey rows)" "RecKey ` set rows \<subseteq> set keys"
  shows "if RecKey ` set rows = set (take (length rows) keys)
    then \<exists>sorted. sort_rows keys rows = Inr (map Some sorted) \<and> mset sorted = mset rows \<and>
           map RecKey sorted = take (length rows) keys
    else sort_rows keys rows = Inl (Panic ''index out of range'')"
proof -
  let ?n = "length rows" and ?xs = "replicate (length rows) (None :: L8OrmRow option)"
  have le: "?n \<le> length keys"
    using assms card_mono [of "set keys" "RecKey ` set rows"] distinct_card [of keys] distinct_card [of "map RecKey rows"] by simp
  show ?thesis
  proof (cases "RecKey ` set rows = set (take ?n keys)")
    case True
    obtain ys where ys: "mfold (place_row keys) ?xs rows = Inr ys" "length ys = ?n"
      "\<And>i. i < ?n \<Longrightarrow> ys ! i = (if keys ! i \<in> RecKey ` set rows then Some (row_with rows (keys ! i)) else None)"
      using place_rows_inside [OF assms(1,2), of ?xs] True le by auto
    let ?sorted = "map (row_with rows) (take ?n keys)"
    have "keys ! i \<in> set (take ?n keys)" if "i < ?n" for i
      using in_take [OF that le] .
    then have "keys ! i \<in> RecKey ` set rows" if "i < ?n" for i
      unfolding True using that by blast
    then have "ys = map Some ?sorted"
      using ys(2,3) le by (intro nth_equalityI) auto
    moreover have keys: "map RecKey ?sorted = take ?n keys"
    proof (rule nth_equalityI)
      fix i assume "i < length (map RecKey ?sorted)"
      then have "take ?n keys ! i \<in> RecKey ` set rows" unfolding True by (intro nth_mem) simp
      then obtain r where "r \<in> set rows" "RecKey r = take ?n keys ! i" by auto
      with row_with [OF assms(2), of r] \<open>i < length (map RecKey ?sorted)\<close>
      show "map RecKey ?sorted ! i = take ?n keys ! i" by simp
    qed simp
    moreover have "mset ?sorted = mset rows"
    proof -
      have "distinct ?sorted" using keys assms(1) by (metis distinct_map distinct_take)
      moreover have "set ?sorted = set rows"
        using row_with [OF assms(2)] True [symmetric] by (auto simp: image_image image_iff)
      ultimately show ?thesis
        using assms(2) set_eq_iff_mset_eq_distinct distinct_map by metis
    qed
    ultimately have "sort_rows keys rows = Inr (map Some ?sorted) \<and> mset ?sorted = mset rows \<and>
        map RecKey ?sorted = take ?n keys"
      using ys(1) unfolding sort_rows_def by simp
    then show ?thesis unfolding if_P [OF True] by blast
  next
    case False
    have "\<not> RecKey ` set rows \<subseteq> set (take ?n keys)"
    proof
      assume s: "RecKey ` set rows \<subseteq> set (take ?n keys)"
      have "card (RecKey ` set rows) = card (set (take ?n keys))"
        using distinct_card [OF assms(2)] distinct_card [of "take ?n keys"] assms(1) le by simp
      with s False card_subset_eq [of "set (take ?n keys)"] show False by auto
    qed
    then obtain r where r: "r \<in> set rows" "RecKey r \<notin> set (take ?n keys)" by blast
    then obtain i where i: "i < length keys" "RecKey r = keys ! i"
      using assms(3) by (metis image_subset_iff in_set_conv_nth)
    have "?n \<le> i"
    proof (rule ccontr)
      assume "\<not> ?n \<le> i"
      then have "keys ! i \<in> set (take ?n keys)"
        using in_take [of i ?n keys] le i by simp
      with r i show False by simp
    qed
    then show ?thesis
      using place_rows_outside [OF assms(1) r(1) i(2,1), of ?xs] False unfolding sort_rows_def by simp
  qed
qed

text \<open>
  C17. The order of a page.  The rows found for the keys of a page come out in the order of the
  keys, each once, if the keys that were found are the first keys of the page; in
  particular if all were found.  If any other key was deleted in the meantime, so that a row
  has to go behind the end of a slice as long as the rows found, the read panics.
\<close>

theorem page_order:
  assumes "distinct keys" "distinct (map RecKey rows)" "RecKey ` set rows \<subseteq> set keys"
  shows "if RecKey ` set rows = set (take (length rows) keys)
    then \<exists>sorted. sort_rows keys rows = Inr (map Some sorted) \<and> mset sorted = mset rows \<and>
           map RecKey sorted = take (length rows) keys
    else sort_rows keys rows = Inl (Panic ''index out of range'')"
  using assms by (rule sort_rows_page)

definition demo_rec :: "string \<Rightarrow> L8OrmRow" where
  "demo_rec k = \<lparr>ParentKey = [], RecKey = k, ColumnValues = []\<rparr>"

theorem page_order_witness:
  "(\<exists>sorted. sort_rows [''a'', ''b''] [demo_rec ''b'', demo_rec ''a''] = Inr (map Some sorted) \<and>
     mset sorted = mset [demo_rec ''b'', demo_rec ''a''] \<and> map RecKey sorted = [''a'', ''b'']) \<and>
   sort_rows [''a'', ''b''] [demo_rec ''b''] = Inl (Panic ''index out of range'')"
  using page_order [of "[''a'', ''b'']" "[demo_rec ''b'', demo_rec ''a'']"]
    page_order [of "[''a'', ''b'']" "[demo_rec ''b'']"]
  by (simp add: demo_rec_def insert_commute)

section \<open>Reads leave the data alone\<close>

lemma reading_keeps:
  assumes t: "transactional db committed pending effect"
  shows "committed (snd (bracket db rb (reading f) d)) = committed d"
proof -
  have c: "committed (snd (commit_tx db e)) = committed d \<and> committed (snd (rollback_tx db e)) = committed d"
    if e: "begin_tx db d = (Inr u, e)" for u e
    using transactionalD(1,2) [OF t, of d] transactionalD(5,7) [OF t, of e] e by auto
  show ?thesis
    using transactionalD(1) [OF t, of d] c
    by (auto simp: bracket_def reading_def split: prod.splits sum.splits go_err.splits)
qed

text \<open>The tables of the root of a query are marked as verified.\<close>

definition all_verified :: "('d, 'x) pg_env_scheme \<Rightarrow> iquery \<Rightarrow> 'd pg \<Rightarrow> bool" where
  "all_verified E q s \<longleftrightarrow> (\<forall>n. nodeByTypeName E (TypeName (RootType q)) = Some n \<longrightarrow>
     set (gkeys (collectTables E n [])) \<subseteq> set (gkeys (verifyed s)))"

lemma verifyTables_done:
  assumes "set (gkeys (collectTables E n [])) \<subseteq> set (gkeys (verifyed s))" "orders_ok E"
  shows "verifyTables E n s = (Inr (), s)"
proof -
  have loop: "afold (\<lambda>u (tableName, b). verify_one E tableName) () ts s = (Inr (), s)"
    if "fst ` set ts \<subseteq> set (gkeys (verifyed s))" for ts :: "(string \<times> bool) list"
    using that
  proof (induction ts)
    case (Cons p ts)
    obtain t b where p: "p = (t, b)" by (cases p)
    have "map_of (verifyed s) t \<noteq> None"
      using Cons.prems p by (auto simp: gkeys_def map_of_eq_None_iff)
    then have "verify_one E t s = (Inr (), s)" by (simp add: verify_one_def)
    with Cons p show ?case by (simp add: abind_def)
  qed (simp add: ret_def)
  show ?thesis
    unfolding verifyTables_def using assms(1) range_loop_in
    by (intro loop) (force simp: gkeys_def)
qed

text \<open>Actions that keep the committed data and the marks, as long as the tables are verified.\<close>

definition quiet :: "('d, 'x) pg_env_scheme \<Rightarrow> iquery \<Rightarrow> ('d \<Rightarrow> 's) \<Rightarrow> ('a, 'd pg) act \<Rightarrow> bool" where
  "quiet E q committed m \<longleftrightarrow> (\<forall>s. all_verified E q s \<longrightarrow>
     committed (dbState (snd (m s))) = committed (dbState s) \<and> verifyed (snd (m s)) = verifyed s)"

lemma quiet_bind [intro]:
  assumes "quiet E q c m" "\<And>x. quiet E q c (f x)"
  shows "quiet E q c (abind m f)"
  unfolding quiet_def
proof (intro allI impI)
  fix s assume v: "all_verified E q s"
  obtain r s1 where m: "m s = (r, s1)" by fastforce
  have s1: "c (dbState s1) = c (dbState s)" "verifyed s1 = verifyed s"
    using assms(1) v m unfolding quiet_def by (metis snd_conv)+
  then have "all_verified E q s1" using v by (simp add: all_verified_def)
  then show "c (dbState (snd (abind m f s))) = c (dbState s) \<and> verifyed (snd (abind m f s)) = verifyed s"
    using assms(2) s1 m unfolding quiet_def by (cases r) (auto simp: abind_def)
qed

lemma quiet_ret [intro]: "quiet E q c (ret r)"
  by (simp add: quiet_def ret_def)

lemma quiet_index [intro]: "quiet E q c (\<lambda>s. (r, s\<lparr>pgIndex := f s\<rparr>))"
  by (simp add: quiet_def)

lemma quiet_verify [intro]:
  assumes "orders_ok E" "nodeByTypeName E (TypeName (RootType q)) = Some n"
  shows "quiet E q c (verifyTables E n)"
  using verifyTables_done [OF _ assms(1)] assms(2) by (simp add: quiet_def all_verified_def)

lemma quiet_read [intro]:
  assumes "transactional (dbase E) c p effect"
  shows "quiet E q c (on_db (bracket (dbase E) rb (reading f)))"
  unfolding quiet_def
proof (intro allI impI)
  fix s :: "'a pg"
  show "c (dbState (snd (on_db (bracket (dbase E) rb (reading f)) s))) = c (dbState s) \<and>
      verifyed (snd (on_db (bracket (dbase E) rb (reading f)) s)) = verifyed s"
    using reading_keeps [OF assms, of rb f "dbState s"]
    by (cases "bracket (dbase E) rb (reading f) (dbState s)") (simp add: on_db_def)
qed

lemma quiet_pure [intro]: "quiet E q c (\<lambda>s. (f s, s))"
  by (simp add: quiet_def)

lemma quiet_readByRecKeys:
  assumes "transactional (dbase E) c p effect"
  shows "quiet E q c (readByRecKeys E q keys md)"
  unfolding readByRecKeys_def by (auto intro!: quiet_bind quiet_ret quiet_read [OF assms])

lemma quiet_apply_security:
  assumes "transactional (dbase E) c p effect"
  shows "quiet E q c (apply_security E q keys md)"
proof -
  have filter: "quiet E q c (\<lambda>s. case readByRecKeys E q keys None s of
      (Inl (Panic m), s) \<Rightarrow> (Inl (Panic m), s)
    | (r, s) \<Rightarrow> (Inr (filterRecKeysBySecurity scope keys (Some (map_sum id fst r))), s))" for scope
    using quiet_readByRecKeys [OF assms, of q keys None]
    by (auto simp: quiet_def split: prod.split sum.split go_err.split)
  show ?thesis
  proof (cases "security E")
    case (Some scope)
    show ?thesis using filter [of "scope (AAAId q)"] by (simp add: apply_security_def Some quiet_ret)
  qed (simp add: apply_security_def quiet_ret)
qed

lemma quiet_Read:
  assumes t: "transactional (dbase E) committed pending effect" and o: "orders_ok E"
  shows "quiet E q committed (Read E now q)"
proof -
  have agg: "quiet E q committed (readAggregate E q)"
    unfolding readAggregate_def
    by (auto split: option.split intro!: quiet_bind quiet_verify [OF o] quiet_read [OF t] quiet_ret)
  have rel: "quiet E q committed (ReadRelational E q)"
    unfolding ReadRelational_def
    by (auto split: option.split intro!: quiet_bind quiet_verify [OF o] quiet_read [OF t] quiet_ret)
  have keys: "quiet E q committed (readRecKeys E q)"
    unfolding readRecKeys_def
    by (auto split: option.split intro!: quiet_bind quiet_verify [OF o] quiet_read [OF t] quiet_ret)
  have index: "quiet E q committed (readWithIndex E now q)"
    unfolding quiet_def
  proof (intro allI impI)
    let ?h = "index_key (QHash q) (AAAId q)"
    fix s :: "'a pg" assume v: "all_verified E q s"
    have miss: "quiet E q committed (abind (readRecKeys E q) (\<lambda>(keys, md).
          abind (apply_security E q keys md) (\<lambda>(keys, md).
          abind (\<lambda>s. (Inr (), s\<lparr>pgIndex := index_store ?h (new_entry keys md st) (pgIndex s)\<rparr>)) (\<lambda>_.
          abind (ret (pageKeys (new_entry keys md st) (Page q) (Limit q))) (\<lambda>page.
            readByRecKeys E q page md)))))" for st
      by (auto intro!: quiet_bind keys quiet_apply_security [OF t] quiet_readByRecKeys [OF t] split: prod.split)
    have hit: "quiet E q committed (abind (ret (pageKeys cached (Page q) (Limit q)))
            (\<lambda>page. readByRecKeys E q page (cmetadata cached)))" for cached
      by (auto intro!: quiet_bind quiet_readByRecKeys [OF t])
    have "all_verified E q (s\<lparr>pgIndex := x\<rparr>)" for x using v by (simp add: all_verified_def)
    then show "committed (dbState (snd (readWithIndex E now q s))) = committed (dbState s) \<and>
        verifyed (snd (readWithIndex E now q s)) = verifyed s"
      using v miss hit
      by (cases "index_lookup ?h (pgIndex s)") (auto simp: readWithIndex_def Let_def quiet_def split: option.split)
  qed
  have direct: "quiet E q committed (abind (ReadRelational E q)
      (\<lambda>(data, md) s. (query_result E (dbState s) data md, s)))"
    by (auto intro!: quiet_bind rel quiet_pure split: prod.split)
  show ?thesis
    using agg direct index by (simp add: Read_def)
qed

text \<open>
  C24. Reads leave the data alone.  When the tables of its type are verified, a read of any
  kind, paged, aggregate or direct, with any result, an error or a panic included, leaves
  the committed data as they were, although it ends its transactions with a commit.
\<close>

theorem reads_keep_data:
  assumes "transactional (dbase E) committed pending effect" "orders_ok E" "all_verified E q s"
  shows "committed (dbState (snd (Read E now q s))) = committed (dbState s)"
  using quiet_Read [OF assms(1,2), of q now] assms(3) by (simp add: quiet_def)

definition demo_ready :: "demo_state pg" where
  "demo_ready = demo_s0\<lparr>verifyed := [(''Order'', True), (''Line'', True), (''Tag'', True), (''Addr'', True)]\<rparr>"

theorem reads_keep_data_witness:
  "done_log (dbState (snd (Read demo_pg 0 demo_query demo_ready))) = [] \<and>
   done_log (dbState (snd (Read demo_pg 0 (demo_query\<lparr>Limit := 0\<rparr>) demo_ready))) = []"
proof -
  have d: "done_log (dbState demo_ready) = []" by code_simp
  have k: "gkeys (verifyed demo_ready) = [''Order'', ''Line'', ''Tag'', ''Addr'']" by code_simp
  have "set (gkeys (collectTables demo_pg demo_node [])) \<subseteq> set [''Order'', ''Line'', ''Tag'', ''Addr'']" by code_simp
  moreover have "nodeByTypeName demo_pg (TypeName (RootType demo_query)) = Some demo_node" by code_simp
  ultimately have v: "all_verified demo_pg demo_query demo_ready"
      "all_verified demo_pg (demo_query\<lparr>Limit := 0\<rparr>) demo_ready"
    by (simp_all add: all_verified_def k)
  show ?thesis
    using reads_keep_data [OF demo_pg_db orders_ok_demo_pg v(1), of 0]
      reads_keep_data [OF demo_pg_db orders_ok_demo_pg v(2), of 0] d by simp
qed

section \<open>Aggregates\<close>

lemma aggregate_group_nth:
  assumes "distinct (aggregate_names q)" "length row = length (aggregate_names q)" "i < length row"
  shows "map_of (aggregate_group q row) (aggregate_names q ! i) = Some (row ! i)"
proof -
  have "map_of (fold (\<lambda>(i, name) group. if i < length row then AList.update name (row ! i) group else group) (List.enumerate n ks) m) k =
      (if k \<in> set ks then map_of (zip ks (drop n row)) k else map_of m k)"
    if "distinct ks" "n + length ks = length row" for ks :: "string list" and n m k
    using that
  proof (induction ks arbitrary: n m)
    case (Cons x ks)
    then have "drop n row = row ! n # drop (Suc n) row" by (simp add: Cons_nth_drop_Suc)
    with Cons show ?case by (auto simp: map_of_update)
  qed simp
  from this [OF assms(1), of 0 "[]"] assms show ?thesis
    by (simp add: aggregate_group_def map_of_zip_nth)
qed

text \<open>
  C29. The columns of an aggregate.  The statement selects the group-by fields and then the
  aggregates, and each group that is read has, under the name of a group-by field or the
  alias of an aggregate, the value of its own column, for as many groups as rows, in order.
\<close>

theorem aggregate_columns:
  assumes "AggregateSql q = Inr sql" "scanAggregateRows cols rows q = Inr groups"
    and "names = GroupBy q @ map Alias (Aggregates q)" "distinct names" "cols = length names"
  shows "(\<exists>rest. sql = ''Select '' @ comma_sep '','' (GroupBy q @ map agg_item (Aggregates q)) @
        '' from '' @ TypeName (RootType q) @ rest) \<and>
    length groups = length rows \<and>
    (\<forall>r < length rows. \<forall>i < cols. map_of (groups ! r) (names ! i) = Some (rows ! r ! i))"
proof -
  have n: "names = aggregate_names q" using assms(3) by (simp add: aggregate_names_def)
  have sql: "\<exists>rest. sql = ''Select '' @ comma_sep '','' (GroupBy q @ map agg_item (Aggregates q)) @
        '' from '' @ TypeName (RootType q) @ rest"
  proof -
    have eta: "(@) '','' = (#) CHR '',''" by (simp add: fun_eq_iff)
    have items: "comma_sep '','' (GroupBy q @ xs) =
        (if GroupBy q = [] then comma_sep '','' xs else comma_sep '','' (GroupBy q) @ concat (map ((#) CHR '','') xs))" for xs
      by (cases "GroupBy q") (simp_all add: comma_sep_Cons eta del: comma_sep.simps(3))
    from assms(1) show ?thesis
      by (auto simp: AggregateSql_def query2AggregateSql_def Let_def rbind_eq_Inr str_simps join_loop_False items)
  qed
  have "length gs = length rs \<and> (\<forall>r < length rs. length (rs ! r) = cols \<and> gs ! r = aggregate_group q (rs ! r))"
    if "collect (\<lambda>row. if length row = cols then Inr (aggregate_group q row) else scan_err) rs = Inr gs" for rs gs
    using that
  proof (induction rs arbitrary: gs)
    case (Cons x rs)
    then show ?case by (auto simp: rbind_eq_Inr scan_err_def less_Suc_eq_0_disj split: if_splits)
  qed simp
  then have "length groups = length rows \<and> (\<forall>r < length rows. length (rows ! r) = cols \<and> groups ! r = aggregate_group q (rows ! r))"
    using assms(2) by (simp add: scanAggregateRows_def split: if_splits)
  with sql aggregate_group_nth assms(4,5) n show ?thesis by simp
qed

definition demo_aggregate :: iquery where
  "demo_aggregate = demo_query\<lparr>Criteria := NilIface, IsAggregate := True, GroupBy := [''Name''],
     Aggregates := [\<lparr>Function = ''sum'', Field = ''Total'', Alias = ''total''\<rparr>]\<rparr>"

theorem aggregate_columns_witness:
  "\<exists>groups. scanAggregateRows 2 [[DText ''a'', DInt 5], [DText ''b'', DInt 7]] demo_aggregate = Inr groups \<and>
     length groups = 2 \<and> map_of (groups ! 1) ''total'' = Some (DInt 7)"
proof -
  let ?rows = "[[DText ''a'', DInt 5], [DText ''b'', DInt 7]]"
  obtain sql groups where g: "AggregateSql demo_aggregate = Inr sql" "scanAggregateRows 2 ?rows demo_aggregate = Inr groups"
  proof -
    have "\<not> isl (AggregateSql demo_aggregate)" "\<not> isl (scanAggregateRows 2 ?rows demo_aggregate)" by code_simp+
    with that show ?thesis by (metis isl_def obj_sumE)
  qed
  have d: "[''Name'', ''total''] = GroupBy demo_aggregate @ map Alias (Aggregates demo_aggregate)"
    "distinct [''Name'', ''total'']" "2 = length [''Name'', ''total'']"
    by (simp_all add: demo_aggregate_def)
  note columns = aggregate_columns [OF g d]
  then have len: "length groups = 2" by simp
  from columns have all: "\<forall>r < length ?rows. \<forall>i < 2. map_of (groups ! r) ([''Name'', ''total''] ! i) = Some (?rows ! r ! i)"
    by blast
  from all [rule_format, of 1 1] have "map_of (groups ! 1) ''total'' = Some (DInt 7)" by simp
  with g(2) len show ?thesis by blast
qed

end
