(* ===== verification/Pg_Tsdb_Correct.thy ===== *)
theory Pg_Tsdb_Correct
  imports Pg_Tsdb Pg_Write_Correct Convert_Scalars
begin

text \<open>
  Time series: what is stored is read back, in the order of time, and filling the fields of
  objects leaves everything else of them alone.
\<close>

section \<open>The database of the series\<close>

text \<open>
  What the program relies on: \<open>series\<close> gives the points (stamp and value) of each property
  in the data, in the order of their stamps.  The insert adds a point to its property, and
  the query for the latest delivers the last points.
\<close>

definition points_sorted :: "(int64 \<times> int64) list \<Rightarrow> bool" where
  "points_sorted ps \<longleftrightarrow> sorted (map (\<lambda>p. sint (fst p)) ps)"

definition last_points :: "nat \<Rightarrow> 'a list \<Rightarrow> 'a list" where
  "last_points n xs = drop (length xs - n) xs"

definition ts_engine ::
    "'d database \<Rightarrow> ('d \<Rightarrow> 's) \<Rightarrow> (string \<Rightarrow> sql_arg list \<Rightarrow> 's \<Rightarrow> 's) \<Rightarrow> ('s \<Rightarrow> string \<Rightarrow> (int64 \<times> int64) list) \<Rightarrow> bool" where
  "ts_engine db committed effect series \<longleftrightarrow>
     (\<forall>m p. points_sorted (series m p)) \<and>
     (\<forall>m st p v q. mset (series (effect ts_insert_sql [Some (GInt64 st), Some (GString p), Some (GFloat64 v)] m) q) =
        mset (series m q) + (if q = p then {#(st, v)#} else {#})) \<and>
     (\<forall>d p n. query_rows db d ts_latest_sql [Some (GString p), Some (GInt64 n)] =
        Inr (map (\<lambda>(st, v). [DInt st, DFloat v]) (last_points (nat (sint n)) (series (committed d) p)), None))"

section \<open>Storing\<close>

text \<open>A notification of a point, and the point as an object.\<close>

definition note_of :: "string \<times> int64 \<times> int64 \<Rightarrow> L8TSDBNotification option" where
  "note_of n = (case n of (p, st, v) \<Rightarrow>
     Some \<lparr>PropertyId = p, Point = deref (Some (ts_point (GInt64 st) (GFloat64 v)))\<rparr>)"

definition point_obj :: "int64 \<times> int64 \<Rightarrow> gval" where
  "point_obj p = ts_point (GInt64 (fst p)) (GFloat64 (snd p))"

lemma ts_args_note:
  "ts_args (note_of (p, st, v)) = Inr (Some [Some (GInt64 st), Some (GString p), Some (GFloat64 v)])"
  by (simp add: ts_args_def note_of_def ts_point_def point_field_def)

lemma ts_loop_effect:
  assumes t: "transactional db committed pending effect" and e: "ts_engine db committed effect series"
    and db: "dbase E = db"
  shows "afold (\<lambda>u n. ts_add_one E n) () (map note_of ns) d = (Inr u, d') \<Longrightarrow>
    mset (series (pending d') q) = mset (series (pending d) q) + mset (map snd (filter (\<lambda>n. fst n = q) ns))"
proof (induction ns arbitrary: d)
  case (Cons n ns)
  obtain p st v where n: "n = (p, st, v)" by (cases n)
  let ?args = "[Some (GInt64 st), Some (GString p), Some (GFloat64 v)]"
  from Cons.prems obtain d1 where d1: "exec_stmt db ts_insert_sql ?args d = (Inr (), d1)"
    and rest: "afold (\<lambda>u n. ts_add_one E n) () (map note_of ns) d1 = (Inr u, d')"
    by (auto simp: n ts_add_one_def ts_args_note act_simps abind_eq_Inr db)
  have "pending d1 = effect ts_insert_sql ?args (pending d)"
    using transactionalD(4) [OF t, of ts_insert_sql ?args d] d1 by simp
  with Cons.IH [OF rest] e show ?case by (simp add: ts_engine_def n)
qed (simp add: act_simps)

text \<open>
  C18. Time series are stored and read back.  Points stored with success, in a transaction that
  commits, are read back by their property together with those stored before: the latest
  ones, as many as asked, in the order of their stamps, the last last.
\<close>

theorem series_round_trip:
  assumes t: "transactional (dbase E) committed pending effect"
    and e: "ts_engine (dbase E) committed effect series"
    and v: "tsVerified s" and run: "AddTSDB E (map note_of ns) s = (Inr u, s')"
    and commits: "\<And>d. fst (commit_tx (dbase E) d) = Inr ()"
  shows "\<exists>ps. points_sorted ps \<and>
    mset ps = mset (series (committed (dbState s)) q) + mset (map snd (filter (\<lambda>n. fst n = q) ns)) \<and>
    GetTSDBLatest E q k (dbState s') = Inr (map point_obj (last_points (nat (sint k)) ps))"
proof -
  let ?ps = "series (committed (dbState s')) q"
  obtain d' where d': "bracket (dbase E) True (ts_body E (map note_of ns)) (dbState s) = (Inr u, d')" "s' = s\<lparr>dbState := d'\<rparr>"
    using run v by (auto simp: AddTSDB_def abind_def on_db_def split: prod.splits)
  from storing.success_commits [OF t d'(1)] obtain f where f:
    "ts_body E (map note_of ns) (opened (dbase E) (dbState s)) = (Inr u, f)"
    "pending (opened (dbase E) (dbState s)) = committed (dbState s)" "committed d' = pending f"
    using commits by blast
  from f(1) have "afold (\<lambda>u n. ts_add_one E n) () (map note_of ns) (opened (dbase E) (dbState s)) = (Inr u, f)"
    by (auto simp: ts_body_def abind_eq_Inr reading_def)
  from ts_loop_effect [OF t e refl this, of q] f d'(2)
  have "mset ?ps = mset (series (committed (dbState s)) q) + mset (map snd (filter (\<lambda>n. fst n = q) ns))" by simp
  moreover have "points_sorted ?ps" using e by (simp add: ts_engine_def)
  moreover have "scan_points C (map (\<lambda>(st, v). [DInt st, DFloat v]) xs) = Inr (map point_obj xs)" for C and xs :: "(int64 \<times> int64) list"
  proof (induction xs)
    case (Cons x xs)
    have "parse_int64 (itoa (sint (fst x))) = Some (sint (fst x))"
      using sint_bounds(1,2) [of "fst x"] by (intro parse_itoa) auto
    with Cons show ?case
      by (auto simp: scan_points_def Scan_def scan_value_def point_obj_def split: prod.split)
  qed (simp add: scan_points_def)
  ultimately show ?thesis
    using e by (intro exI [of _ ?ps]) (simp add: GetTSDBLatest_def read_points_def ts_engine_def)
qed

text \<open>A database that keeps its log of statements, and the points in it.\<close>

definition demo_series :: "(string \<times> sql_arg list) list \<Rightarrow> string \<Rightarrow> (int64 \<times> int64) list" where
  "demo_series m p = sort_key (\<lambda>x. sint (fst x)) (List.map_filter (\<lambda>(sql, args).
     case args of
       [Some (GInt64 st), Some (GString q), Some (GFloat64 v)] \<Rightarrow> if sql = ts_insert_sql \<and> q = p then Some (st, v) else None
     | _ \<Rightarrow> None) m)"

definition demo_ts_db :: "demo_state database" where
  "demo_ts_db = demo_database\<lparr>
     query_rows := (\<lambda>d sql args. case args of
        [Some (GString p), Some (GInt64 n)] \<Rightarrow>
          Inr (map (\<lambda>(st, v). [DInt st, DFloat v]) (last_points (nat (sint n)) (demo_series (done_log d) p)), None)
      | _ \<Rightarrow> Inr ([], None)),
     commit_tx := (\<lambda>d. (Inr (), d\<lparr>done_log := open_log d\<rparr>))\<rparr>"

lemma demo_ts_transactional: "transactional demo_ts_db done_log open_log demo_effect"
  by (simp add: transactional_def demo_ts_db_def demo_database_def demo_effect_def)

lemma demo_ts_engine: "ts_engine demo_ts_db done_log demo_effect demo_series"
  unfolding ts_engine_def
proof (intro conjI allI)
  show "points_sorted (demo_series m p)" for m p
    by (simp add: points_sorted_def demo_series_def)
qed (auto simp: demo_series_def demo_effect_def demo_ts_db_def List.map_filter_simps map_filter_def)

theorem series_round_trip_witness:
  "\<exists>ps. points_sorted ps \<and> mset ps = {#(7, 1), (5, 2)#} \<and>
    GetTSDBLatest (demo_pg\<lparr>dbase := demo_ts_db\<rparr>) ''p'' 100
      (dbState (snd (AddTSDB (demo_pg\<lparr>dbase := demo_ts_db\<rparr>) (map note_of [(''p'', 7, 1), (''p'', 5, 2), (''q'', 6, 3)])
        (demo_s0\<lparr>tsVerified := True\<rparr>)))) =
    Inr (map point_obj (last_points 100 ps))"
proof -
  let ?E = "demo_pg\<lparr>dbase := demo_ts_db\<rparr>" and ?ns = "[(''p'', 7, 1), (''p'', 5, 2), (''q'', 6, 3)]"
    and ?s = "demo_s0\<lparr>tsVerified := True\<rparr>"
  have t: "transactional (dbase ?E) done_log open_log demo_effect" using demo_ts_transactional by simp
  have e: "ts_engine (dbase ?E) done_log demo_effect demo_series" using demo_ts_engine by simp
  have c: "fst (commit_tx (dbase ?E) d) = Inr ()" for d by (simp add: demo_ts_db_def)
  have v: "tsVerified ?s" by simp
  have "fst (AddTSDB ?E (map note_of ?ns) ?s) = Inr ()" by code_simp
  then have r: "AddTSDB ?E (map note_of ?ns) ?s = (Inr (), snd (AddTSDB ?E (map note_of ?ns) ?s))" by (metis prod.collapse)
  have "series_old = []" if "series_old = demo_series (done_log (dbState ?s)) ''p''" for series_old
    unfolding that by code_simp
  with series_round_trip [OF t e v r c, of "''p''" 100] show ?thesis by (simp add: add_mset_commute)
qed

section \<open>Filling fields\<close>

text \<open>The value a field has after the points of its property were read.\<close>

definition latest_field :: "('d, 'x) pg_env_scheme \<Rightarrow> 'd \<Rightarrow> string \<Rightarrow> gval \<Rightarrow> gval" where
  "latest_field E d property x =
     (case GetTSDBLatest E property 100 d of
        Inr ps \<Rightarrow> if ps = [] then x else GSlice (TPtr ts_type) (Some ps)
      | Inl e \<Rightarrow> x)"

lemma populate_attr_field:
  assumes "populate_attr E d tn key True (GStruct nm fs) a = Inr v"
  shows "\<exists>fs'. v = GStruct nm fs' \<and>
    map_of fs' = (map_of fs)(a := map_option (latest_field E d (ts_property tn key a)) (map_of fs a))"
proof (cases "GetTSDBLatest E (ts_property tn key a) 100 d")
  case (Inl e)
  with assms show ?thesis
    by (cases e; cases "map_of fs a") (auto simp: populate_attr_def latest_field_def fun_eq_iff)
next
  case (Inr ps)
  show ?thesis
  proof (cases "ps = [] \<or> map_of fs a = None")
    case True
    with assms Inr show ?thesis
      by (cases "map_of fs a") (auto simp: populate_attr_def latest_field_def fun_eq_iff split: if_splits)
  next
    case False
    then obtain f where f: "map_of fs a = Some f" "ps \<noteq> []" by auto
    with assms Inr obtain xs where x: "f = GSlice (TPtr ts_type) xs"
      "set_field a (GSlice (TPtr ts_type) (Some ps)) (GStruct nm fs) = Inr v"
      by (cases f) (auto simp: populate_attr_def split: if_splits)
    then have "v = GStruct nm (set_assoc a (GSlice (TPtr ts_type) (Some ps)) fs)"
      using f by (auto simp: set_field_def)
    with f Inr show ?thesis by (auto simp: map_of_set_assoc latest_field_def fun_eq_iff)
  qed
qed

lemma populate_loop_fields:
  "mfold (\<lambda>v (a, attr). populate_attr E d tn key True v a) (GStruct nm fs) attrs = Inr v \<Longrightarrow>
   \<exists>fs'. v = GStruct nm fs' \<and>
     (\<forall>f. map_of fs' f = (if f \<in> fst ` set attrs then map_option (latest_field E d (ts_property tn key f)) (map_of fs f)
                          else map_of fs f))"
proof (induction attrs arbitrary: fs)
  case (Cons x attrs)
  obtain a attr where x: "x = (a, attr)" by (cases x)
  from Cons.prems obtain w where w: "populate_attr E d tn key True (GStruct nm fs) a = Inr w"
    and rest: "mfold (\<lambda>v (a, attr). populate_attr E d tn key True v a) w attrs = Inr v"
    by (auto simp: x rbind_eq_Inr)
  from populate_attr_field [OF w] obtain gs where gs: "w = GStruct nm gs"
    "map_of gs = (map_of fs)(a := map_option (latest_field E d (ts_property tn key a)) (map_of fs a))" by blast
  have idem: "latest_field E d p (latest_field E d p y) = latest_field E d p y" for p y
    by (auto simp: latest_field_def split: sum.split)
  from Cons.IH [OF rest [unfolded gs(1)]] gs(2) show ?case
    by (auto simp: x option.map_comp comp_def idem)
qed auto

text \<open>
  C34. Filling time series fields.  An object with a key keeps its fields; each field of the
  time series type gets the latest points of its property, if there are any that can be
  read, and every other field keeps its value.  The property is the one under which the
  points of the field are stored when the object is written.
\<close>

theorem populate_fields:
  assumes "populate_element E d tn n (Some (GPtr t (Some (GStruct nm fs)))) = Inr r"
    and "orders_ok E" "primaryKeyOf E n (GStruct nm fs) = key" "key \<noteq> []" "distinct (gkeys (Attributes n))"
  shows "(\<exists>fs'. r = Some (GPtr t (Some (GStruct nm fs'))) \<and>
      (\<forall>f. map_of fs' f = (if f \<in> fst ` set (filter ts_attr (Attributes n))
         then map_option (latest_field E d (ts_property tn key f)) (map_of fs f) else map_of fs f))) \<and>
    (extractTsData E (GStruct nm fs) n f data = Inr data' \<and> new \<in> set (TsData data') - set (TsData data) \<longrightarrow>
       PropertyId new = ts_property (TypeName n) key f)"
proof -
  let ?attrs = "range_loop (rng E (''populateTsFields'', key)) (collectTsAttrs n)"
  have "set ?attrs = set (collectTsAttrs n)"
    using orders_okD(1) [OF assms(2)] assms(5)
    by (intro set_range_loop) (simp_all add: collectTsAttrs_def gkeys_def distinct_map_filter)
  moreover obtain v where v: "mfold (\<lambda>v (a, attr). populate_attr E d tn key True v a) (GStruct nm fs) ?attrs = Inr v"
    "r = Some (GPtr t (Some v))"
    using assms(1,3,4) by (auto simp: populate_element_def Let_def rbind_eq_Inr)
  moreover have "PropertyId p = i" if "p \<in> set (ts_points i xs)" for p i xs
    using that by (induction i xs rule: ts_points.induct) (auto split: option.splits gval.splits if_splits)
  ultimately show ?thesis
    using populate_loop_fields [OF v(1)] assms(3)
    by (auto simp: collectTsAttrs_def extractTsData_def ts_property_def Let_def rbind_eq_Inr
        split: option.splits if_splits)
qed

definition demo_meter :: l8node where
  "demo_meter = L8Node ''Order'' ''order'' True False False []
     [(''Name'', scalar_node ''Name''), (''Cpu'', L8Node ''L8TimeSeriesPoint'' ''Cpu'' True False True [] [])]"

definition demo_reading :: "gval option \<Rightarrow> gval" where
  "demo_reading x = GStruct ''Order'' [(''Name'', GString ''o1''),
     (''Cpu'', GSlice (TPtr ts_type) (map_option (\<lambda>p. [p]) x))]"

definition demo_measured :: demo_state where
  "demo_measured = demo_d0\<lparr>done_log :=
     [(ts_insert_sql, [Some (GInt64 5), Some (GString ''order<o1>.cpu''), Some (GFloat64 2)])]\<rparr>"

theorem populate_fields_witness:
  "\<exists>fs'. populate_element (demo_pg\<lparr>dbase := demo_ts_db\<rparr>) demo_measured ''Order'' demo_meter
      (Some (GPtr (demo_struct ''Order'') (Some (demo_reading None)))) =
      Inr (Some (GPtr (demo_struct ''Order'') (Some (GStruct ''Order'' fs')))) \<and>
    map_of fs' ''Cpu'' = Some (GSlice (TPtr ts_type) (Some [point_obj (5, 2)])) \<and>
    map_of fs' ''Name'' = Some (GString ''o1'')"
proof -
  let ?E = "demo_pg\<lparr>dbase := demo_ts_db\<rparr>"
  let ?fs = "[(''Name'', GString ''o1''), (''Cpu'', GSlice (TPtr ts_type) None)]"
  have run: "populate_element ?E demo_measured ''Order'' demo_meter
      (Some (GPtr (demo_struct ''Order'') (Some (GStruct ''Order'' ?fs)))) =
      Inr (Some (GPtr (demo_struct ''Order'') (Some (demo_reading (Some (point_obj (5, 2)))))))"
    by code_simp
  have o: "orders_ok ?E" using orders_ok_demo_pg by (simp add: orders_ok_def)
  have k: "primaryKeyOf ?E demo_meter (GStruct ''Order'' ?fs) = ''o1''" "''o1'' \<noteq> []" "distinct (gkeys (Attributes demo_meter))"
    by code_simp+
  have l: "latest_field ?E demo_measured (ts_property ''Order'' ''o1'' ''Cpu'') (GSlice (TPtr ts_type) None) =
      GSlice (TPtr ts_type) (Some [point_obj (5, 2)])" by code_simp
  have ts: "fst ` set (filter ts_attr (Attributes demo_meter)) = {''Cpu''}" by code_simp
  from conjunct1 [OF populate_fields [OF run o k]] obtain fs' where
    fs': "demo_reading (Some (point_obj (5, 2))) = GStruct ''Order'' fs'"
    "\<And>f. map_of fs' f = (if f \<in> {''Cpu''}
       then map_option (latest_field ?E demo_measured (ts_property ''Order'' ''o1'' f)) (map_of ?fs f) else map_of ?fs f)"
    unfolding ts by auto
  have "map_of fs' ''Cpu'' = Some (GSlice (TPtr ts_type) (Some [point_obj (5, 2)]))" "map_of fs' ''Name'' = Some (GString ''o1'')"
    using fs'(2) [of "''Cpu''"] fs'(2) [of "''Name''"] l by simp_all
  with run fs'(1) show ?thesis by (auto simp: demo_reading_def)
qed

end
