(* ===== verification/Convert_Content.thy ===== *)
theory Convert_Content
  imports Convert_Theorem
begin

text \<open>
  Relational data without their nesting: a content gives, for a table and the two keys of a
  row, the bytes of its attributes.  Objects are stored in a content as they are in
  relational data; contents can be put together, and data that present a content are read
  as the objects stored in it.
\<close>

section \<open>Contents\<close>

type_synonym cells = "string \<Rightarrow> bytes option"

type_synonym content = "string \<Rightarrow> string \<times> string \<Rightarrow> cells option"

definition cells_of :: "(string, int32) gomap option \<Rightarrow> L8OrmRow \<Rightarrow> cells" where
  "cells_of cols r a = map_of (ColumnValues r) (column_index cols a)"

definition content_of :: "L8OrmRData \<Rightarrow> content" where
  "content_of d tn key =
     Option.bind (rows_at d tn (fst key) (nameOfField (snd key))) (\<lambda>rs.
       map_option (cells_of (columns_at d tn)) (find (\<lambda>r. RecKey r = snd key) rs))"

text \<open>The keys of the rows of one field under a parent key.\<close>

definition child_keys :: "content \<Rightarrow> string \<Rightarrow> string \<Rightarrow> string \<Rightarrow> string set" where
  "child_keys T tn pk f = {rk. nameOfField rk = f \<and> T tn (pk, rk) \<noteq> None}"

definition elem_keys :: "string \<Rightarrow> (string \<times> gval) list \<Rightarrow> string list" where
  "elem_keys f es = map (\<lambda>w. bracketed f (fst w)) es"

text \<open>The object \<open>y\<close> is stored under the keys \<open>pk\<close> and \<open>rk\<close>, with all of its parts and no others.\<close>

inductive stored :: "'a env_scheme \<Rightarrow> content \<Rightarrow> l8node \<Rightarrow> gval \<Rightarrow> string \<Rightarrow> string \<Rightarrow> bool" for E T where
  stored:
    "T (TypeName n) (pk, rk) = Some cells \<Longrightarrow>
     \<forall>p \<in> set (Attributes n). scalar_attr p \<longrightarrow> cells (fst p) = Some (bytes_of E (the (map_of fs (fst p)))) \<Longrightarrow>
     \<forall>p \<in> set (Attributes n). sub_attr p \<longrightarrow>
       child_keys T (TypeName (snd p)) (pk @ rk) (FieldName (snd p)) =
         set (elem_keys (FieldName (snd p)) (sub_elems E (snd p) (the (map_of fs (fst p))))) \<Longrightarrow>
     \<forall>p \<in> set (Attributes n). sub_attr p \<longrightarrow>
       (\<forall>w \<in> set (sub_elems E (snd p) (the (map_of fs (fst p)))).
          stored E T (snd p) (snd w) (pk @ rk) (bracketed (FieldName (snd p)) (fst w))) \<Longrightarrow>
     stored E T n (GPtr t (Some (GStruct tn fs))) pk rk"

text \<open>The storage of an object depends on its row and on the rows below its key.\<close>

lemma stored_frame:
  assumes "stored E T n y pk rk" "T' (TypeName n) (pk, rk) = T (TypeName n) (pk, rk)"
    and "\<And>tn pk' rk'. prefix (pk @ rk) pk' \<Longrightarrow> T' tn (pk', rk') = T tn (pk', rk')"
  shows "stored E T' n y pk rk"
  using assms
proof (induction rule: stored.induct)
  case (stored n pk rk cells fs t tn)
  show ?case
  proof (rule stored.intros [OF _ stored.hyps(2)])
    show "T' (TypeName n) (pk, rk) = Some cells" using stored.hyps(1) stored.prems(1) by simp
    show "\<forall>p \<in> set (Attributes n). sub_attr p \<longrightarrow>
       child_keys T' (TypeName (snd p)) (pk @ rk) (FieldName (snd p)) =
         set (elem_keys (FieldName (snd p)) (sub_elems E (snd p) (the (map_of fs (fst p)))))"
      using stored.hyps(3) stored.prems(2) by (simp add: child_keys_def)
    have agree: "T' tn (pk', rk') = T tn (pk', rk')" if "prefix (pk @ rk @ s) pk'" for s tn pk' rk'
      using that by (intro stored.prems(2)) (metis append_assoc append_prefixD)
    show "\<forall>p \<in> set (Attributes n). sub_attr p \<longrightarrow>
       (\<forall>w \<in> set (sub_elems E (snd p) (the (map_of fs (fst p)))).
          stored E T' (snd p) (snd w) (pk @ rk) (bracketed (FieldName (snd p)) (fst w)))"
      using stored.IH agree [of "[]"] agree by simp
  qed
qed

section \<open>The content of relational data\<close>

lemma find_RecKey:
  assumes "distinct (map RecKey rs)" "r \<in> set rs"
  shows "find (\<lambda>x. RecKey x = RecKey r) rs = Some r"
  using assms by (induction rs) auto

lemma content_of_row:
  assumes "tidy N d" "rows_at d tn pk f = Some rs" "r \<in> set rs"
  shows "content_of d tn (pk, RecKey r) = Some (cells_of (columns_at d tn) r)"
  using assms find_RecKey [of rs r] by (simp add: content_of_def tidy_def)

lemma content_of_keys:
  assumes "tidy N d"
  shows "child_keys (content_of d) tn pk f =
    (case rows_at d tn pk f of None \<Rightarrow> {} | Some rs \<Rightarrow> RecKey ` set rs)"
proof (cases "rows_at d tn pk f")
  case None
  then show ?thesis by (auto simp: child_keys_def content_of_def)
next
  case (Some rs)
  have found: "find (\<lambda>r. RecKey r = rk) rs \<noteq> None \<longleftrightarrow> rk \<in> RecKey ` set rs" for rk
    by (cases "find (\<lambda>r. RecKey r = rk) rs") (auto simp: find_None_iff find_Some_iff)
  have name: "nameOfField rk = f" if "rk \<in> RecKey ` set rs" for rk
    using that assms Some by (auto simp: tidy_def)
  have "rk \<in> child_keys (content_of d) tn pk f \<longleftrightarrow> rk \<in> RecKey ` set rs" for rk
  proof (cases "nameOfField rk = f")
    case True
    with Some show ?thesis unfolding found [symmetric] by (simp add: child_keys_def content_of_def)
  next
    case False
    with name show ?thesis by (auto simp: child_keys_def)
  qed
  with Some show ?thesis by auto
qed

lemma list_all2_member: "list_all2 P xs ys \<Longrightarrow> x \<in> set xs \<Longrightarrow> \<exists>y \<in> set ys. P x y"
  by (induction rule: list_all2_induct) auto

lemma stored_row_content:
  assumes wf: "wf_tree root" and td: "tidy N d"
  shows "stored_row E d n y r \<Longrightarrow> n \<in> set (nodes_of root) \<Longrightarrow>
    rows_at d (TypeName n) (ParentKey r) f = Some rs \<Longrightarrow> r \<in> set rs \<Longrightarrow>
    stored E (content_of d) n y (ParentKey r) (RecKey r)"
proof (induction arbitrary: f rs rule: stored_row.induct)
  case (stored_row n c row fs t tn)
  show ?case
  proof (rule stored.intros)
    show "content_of d (TypeName n) (ParentKey row, RecKey row) = Some (cells_of (columns_at d (TypeName n)) row)"
      by (rule content_of_row [OF td stored_row.prems(2,3)])
    show "\<forall>p \<in> set (Attributes n). scalar_attr p \<longrightarrow>
        cells_of (columns_at d (TypeName n)) row (fst p) = Some (bytes_of E (the (map_of fs (fst p))))"
      using stored_row.hyps by (auto simp: cells_of_def column_index_def col_of_def)
    have sub: "child_keys (content_of d) (TypeName x) (KeyForRow row) (FieldName x) = set (elem_keys (FieldName x) es) \<and>
        (\<forall>w \<in> set es. stored E (content_of d) x (snd w) (KeyForRow row) (bracketed (FieldName x) (fst w)))"
      if p: "p \<in> set (Attributes n)" "sub_attr p" and x: "x = snd p" "es = sub_elems E x (the (map_of fs (fst p)))" for p x es
    proof -
      have xn: "x \<in> set (nodes_of root)"
        using nodes_of_closed [OF stored_row.prems(1), of "fst p" x] p x(1) by simp
      let ?P = "\<lambda>w r. ParentKey r = KeyForRow row \<and> RecKey r = bracketed (FieldName x) (fst w) \<and>
          (stored_row E d x (snd w) r \<and> (x \<in> set (nodes_of root) \<longrightarrow> (\<forall>f rs.
             rows_at d (TypeName x) (ParentKey r) f = Some rs \<longrightarrow> r \<in> set rs \<longrightarrow>
             stored E (content_of d) x (snd w) (ParentKey r) (RecKey r))))"
      obtain rs where rs: "list_all2 ?P es rs"
        "if es = [] then rows_at d (TypeName x) (KeyForRow row) (FieldName x) = None
         else \<exists>rs'. rows_at d (TypeName x) (KeyForRow row) (FieldName x) = Some rs' \<and> mset rs' = mset rs"
        using stored_row.IH p x unfolding stored_elems_def by blast
      have keys: "map RecKey rs = elem_keys (FieldName x) es"
        using rs(1) by (induction rule: list_all2_induct) (simp_all add: elem_keys_def)
      show ?thesis
      proof (cases "es = []")
        case True
        with rs(2) show ?thesis by (simp add: content_of_keys [OF td] elem_keys_def)
      next
        case False
        then obtain rs' where rs': "rows_at d (TypeName x) (KeyForRow row) (FieldName x) = Some rs'" "set rs' = set rs"
          using rs(2) by (auto dest: mset_eq_setD)
        have "stored E (content_of d) x (snd w) (KeyForRow row) (bracketed (FieldName x) (fst w))" if w: "w \<in> set es" for w
        proof -
          obtain r where "r \<in> set rs" "?P w r"
            using list_all2_member [OF rs(1) w] by blast
          then show ?thesis using rs' xn by metis
        qed
        then show ?thesis using rs' by (simp add: content_of_keys [OF td] keys [symmetric])
      qed
    qed
    then show "\<forall>p \<in> set (Attributes n). sub_attr p \<longrightarrow>
       child_keys (content_of d) (TypeName (snd p)) (ParentKey row @ RecKey row) (FieldName (snd p)) =
         set (elem_keys (FieldName (snd p)) (sub_elems E (snd p) (the (map_of fs (fst p)))))"
      by (simp add: KeyForRow_def)
    show "\<forall>p \<in> set (Attributes n). sub_attr p \<longrightarrow>
       (\<forall>w \<in> set (sub_elems E (snd p) (the (map_of fs (fst p)))).
          stored E (content_of d) (snd p) (snd w) (ParentKey row @ RecKey row) (bracketed (FieldName (snd p)) (fst w)))"
      using sub by (simp add: KeyForRow_def)
  qed
qed

section \<open>Data that present a content\<close>

text \<open>
  The rows of \<open>d\<close> in the tables of the nodes \<open>N\<close> are exactly those of the content, at the
  places their keys name, whatever their order and the numbering of the columns.
\<close>

definition presents_at :: "L8OrmRData \<Rightarrow> content \<Rightarrow> l8node \<Rightarrow> string \<Rightarrow> string \<Rightarrow> bool" where
  "presents_at d T n pk f \<longleftrightarrow>
     (case rows_at d (TypeName n) pk f of
        None \<Rightarrow> child_keys T (TypeName n) pk f = {}
      | Some rs \<Rightarrow> rs \<noteq> [] \<and> distinct (map RecKey rs) \<and> RecKey ` set rs = child_keys T (TypeName n) pk f \<and>
          (\<exists>c. columns_at d (TypeName n) = Some c \<and> set (scalar_names n) \<subseteq> dom (map_of c) \<and>
             (\<forall>r \<in> set rs. ParentKey r = pk \<and>
                (\<forall>a \<in> set (scalar_names n). cells_of (Some c) r a = the (T (TypeName n) (pk, RecKey r)) a))))"

definition presents :: "l8node list \<Rightarrow> L8OrmRData \<Rightarrow> content \<Rightarrow> bool" where
  "presents N d T \<longleftrightarrow> (\<forall>n \<in> set N. \<forall>pk f. presents_at d T n pk f)"

lemma presentsD: "presents N d T \<Longrightarrow> n \<in> set N \<Longrightarrow> presents_at d T n pk f"
  by (simp add: presents_def)

lemma presents_rows:
  assumes "presents N d T" "n \<in> set N" "child_keys T (TypeName n) pk f \<noteq> {}"
  obtains rs where "rows_at d (TypeName n) pk f = Some rs" "distinct (map RecKey rs)"
    and "RecKey ` set rs = child_keys T (TypeName n) pk f" "\<forall>r \<in> set rs. ParentKey r = pk"
proof (cases "rows_at d (TypeName n) pk f")
  case None
  with presentsD [OF assms(1,2), of pk f] assms(3) show ?thesis by (simp add: presents_at_def)
next
  case (Some rs)
  with presentsD [OF assms(1,2), of pk f] show ?thesis by (intro that [of rs]) (auto simp: presents_at_def)
qed

lemma presents_none:
  assumes "presents N d T" "n \<in> set N" "child_keys T (TypeName n) pk f = {}"
  shows "rows_at d (TypeName n) pk f = None"
proof (cases "rows_at d (TypeName n) pk f")
  case (Some rs)
  with presentsD [OF assms(1,2), of pk f] assms(3) show ?thesis by (auto simp: presents_at_def)
qed simp

text \<open>Rows found by their keys, in the order of the keys.\<close>

lemma rows_by_keys:
  assumes "distinct (map RecKey rs)" "distinct ks" "RecKey ` set rs = set ks"
  obtains rs' where "mset rs' = mset rs" "map RecKey rs' = ks"
proof -
  have "list_all2 (\<lambda>k r. RecKey r = k) (map RecKey rs) rs"
    by (simp add: list_all2_map1 list_all2_same)
  moreover have "mset ks = mset (map RecKey rs)"
    using assms by (metis list.set_map set_eq_iff_mset_eq_distinct)
  ultimately obtain rs' where "list_all2 (\<lambda>k r. RecKey r = k) ks rs'" "mset rs' = mset rs"
    using list_all2_reorder_left_invariance by blast
  moreover from this(1) have "map RecKey rs' = ks" by (induction rule: list_all2_induct) simp_all
  ultimately show ?thesis by (intro that)
qed

lemma distinct_elem_keys: "distinct (map fst es) \<Longrightarrow> distinct (elem_keys f es)"
  by (auto simp: elem_keys_def distinct_map inj_on_def bracketed_def)

lemma stored_presented:
  assumes ord: "orders_ok E" and d: "presents (nodes_of root) d T"
  shows "stored E T n y pk rk \<Longrightarrow> n \<in> set (nodes_of root) \<Longrightarrow> conf E n y \<Longrightarrow>
    rows_at d (TypeName n) pk f = Some rs \<Longrightarrow> r \<in> set rs \<Longrightarrow> RecKey r = rk \<Longrightarrow> stored_row E d n y r"
proof (induction arbitrary: f rs r rule: stored.induct)
  case (stored n pk rk cells fs t tn)
  have "presents_at d T n pk f" using d stored.prems(1) by (simp add: presents_def)
  then obtain c where c: "columns_at d (TypeName n) = Some c" "set (scalar_names n) \<subseteq> dom (map_of c)"
    "ParentKey r = pk" "\<forall>a \<in> set (scalar_names n). cells_of (Some c) r a = cells a"
    using stored.prems(3-5) stored.hyps(1) by (auto simp: presents_at_def)
  have key: "KeyForRow r = pk @ rk" using c(3) stored.prems(5) by (simp add: KeyForRow_def)
  show ?case
  proof (rule stored_row.intros [OF c(1)], intro ballI impI)
    fix p assume p: "p \<in> set (Attributes n)" "scalar_attr p"
    then have "fst p \<in> set (scalar_names n)" by (auto simp: scalar_names_def)
    with c(2,4) obtain i where "map_of c (fst p) = Some i" "cells_of (Some c) r (fst p) = cells (fst p)" by auto
    with stored.hyps(2) p show "map_of c (fst p) \<noteq> None \<and>
        map_of (ColumnValues r) (col_of c (fst p)) = Some (bytes_of E (the (map_of fs (fst p))))"
      by (simp add: cells_of_def column_index_def col_of_def)
  next
    show "\<forall>p \<in> set (Attributes n). sub_attr p \<longrightarrow>
       stored_elems (stored_row E d) d (KeyForRow r) (snd p) (sub_elems E (snd p) (the (map_of fs (fst p))))"
    proof (intro ballI impI)
      fix p assume p: "p \<in> set (Attributes n)" "sub_attr p"
      define x where "x = snd p"
      define es where "es = sub_elems E x (the (map_of fs (fst p)))"
      have xn: "x \<in> set (nodes_of root)"
        using nodes_of_closed [OF stored.prems(1), of "fst p" x] p by (simp add: x_def)
      obtain f' where "map_of fs (fst p) = Some f'" "sub_conf E (fst p, x) f'"
        using conf_attrs(2) [OF stored.prems(2) p] by (auto simp: x_def)
      then have es: "distinct (map fst es)" "\<And>w. w \<in> set es \<Longrightarrow> conf E x (snd w)"
        using sub_elems_ok [OF ord] by (auto simp: es_def)
      have keys: "child_keys T (TypeName x) (pk @ rk) (FieldName x) = set (elem_keys (FieldName x) es)"
        using stored.hyps(3) p by (simp add: x_def es_def)
      have "stored_elems (stored_row E d) d (KeyForRow r) x es"
      proof (cases "es = []")
        case True
        then show ?thesis
          using presents_none [OF d xn] keys by (simp add: stored_elems_def key elem_keys_def)
      next
        case False
        then have "child_keys T (TypeName x) (pk @ rk) (FieldName x) \<noteq> {}" by (simp add: keys elem_keys_def)
        then obtain rs0 where rs0: "rows_at d (TypeName x) (pk @ rk) (FieldName x) = Some rs0" "distinct (map RecKey rs0)"
          "RecKey ` set rs0 = set (elem_keys (FieldName x) es)" "\<forall>r \<in> set rs0. ParentKey r = pk @ rk"
          using presents_rows [OF d xn] keys by metis
        obtain rs' where rs': "mset rs' = mset rs0" "map RecKey rs' = elem_keys (FieldName x) es"
          using rs0(2) distinct_elem_keys [OF es(1)] rs0(3) by (rule rows_by_keys)
        have len: "length rs' = length es" using arg_cong [OF rs'(2), of length] by (simp add: elem_keys_def)
        have "ParentKey (rs' ! i) = pk @ rk \<and> RecKey (rs' ! i) = bracketed (FieldName x) (fst (es ! i)) \<and>
            stored_row E d x (snd (es ! i)) (rs' ! i)" if i: "i < length es" for i
        proof -
          have m: "rs' ! i \<in> set rs0" using i len mset_eq_setD [OF rs'(1)] by (metis nth_mem)
          moreover have k: "RecKey (rs' ! i) = bracketed (FieldName x) (fst (es ! i))"
            using arg_cong [OF rs'(2), of "\<lambda>l. l ! i"] i len by (simp add: elem_keys_def)
          moreover have "stored_row E d x (snd (es ! i)) (rs' ! i)"
            using stored.IH p i xn es(2) [OF nth_mem [OF i]] rs0(1) m k by (auto simp: x_def es_def)
          ultimately show ?thesis using rs0(4) by blast
        qed
        then show ?thesis
          using False rs0(1) rs'(1) len unfolding stored_elems_def
          by (intro exI [of _ rs']) (auto simp: list_all2_conv_all_nth key)
      qed
      then show "stored_elems (stored_row E d) d (KeyForRow r) (snd p) (sub_elems E (snd p) (the (map_of fs (fst p))))"
        by (simp add: x_def es_def)
    qed
  qed
qed

section \<open>Contents that hold objects\<close>

definition root_rec :: "'a env_scheme \<Rightarrow> l8node \<Rightarrow> gval \<Rightarrow> string" where
  "root_rec E n y = bracketed (FieldName n) (root_key E n y)"

text \<open>
  The rows of a content are those of root objects with given record keys, and rows below them,
  which are not in the table of the root.
\<close>

definition confined :: "l8node \<Rightarrow> string set \<Rightarrow> content \<Rightarrow> bool" where
  "confined n ks T \<longleftrightarrow> (\<forall>tn pk rk. T tn (pk, rk) \<noteq> None \<longrightarrow>
     tn = TypeName n \<and> pk = [] \<and> rk \<in> ks \<or> tn \<noteq> TypeName n \<and> (\<exists>k \<in> ks. prefix k pk))"

text \<open>\<open>holds E n ys T\<close>: the content consists of the stored objects \<open>ys\<close>.\<close>

definition holds :: "'a env_scheme \<Rightarrow> l8node \<Rightarrow> gval list \<Rightarrow> content \<Rightarrow> bool" where
  "holds E n ys T \<longleftrightarrow> confined n (root_rec E n ` set ys) T \<and> (\<forall>y \<in> set ys. stored E T n y [] (root_rec E n y))"

definition join_content :: "content \<Rightarrow> content \<Rightarrow> content" where
  "join_content T T' tn = T tn ++ T' tn"

definition keys_ok :: "'a env_scheme \<Rightarrow> l8node \<Rightarrow> gval list \<Rightarrow> bool" where
  "keys_ok E n ys \<longleftrightarrow> plain (FieldName n) \<and> distinct (map (root_key E n) ys) \<and> (\<forall>y \<in> set ys. plain (root_key E n y))"

lemma root_recs_apart:
  assumes "keys_ok E n (ys @ zs)" "y \<in> set ys" "z \<in> set zs"
  shows "\<not> (prefix (root_rec E n y) pk \<and> prefix (root_rec E n z) pk)"
proof
  assume "prefix (root_rec E n y) pk \<and> prefix (root_rec E n z) pk"
  then obtain u v where "root_rec E n y @ u = root_rec E n z @ v" by (auto simp: prefix_def)
  then have "root_key E n y = root_key E n z"
    using assms bracketed_append_eq unfolding root_rec_def keys_ok_def by (metis UnCI set_append)
  moreover have "root_key E n y \<in> set (map (root_key E n) ys)" "root_key E n z \<in> set (map (root_key E n) zs)"
    using assms(2,3) by simp_all
  ultimately show False using assms(1) by (auto simp: keys_ok_def)
qed

lemma confined_off:
  assumes "keys_ok E n (ys @ zs)" "confined n (root_rec E n ` set zs) T" "y \<in> set ys"
  shows "T tn ([], root_rec E n y) = None" "prefix (root_rec E n y) pk \<Longrightarrow> T tn (pk, rk) = None"
proof -
  show "T tn ([], root_rec E n y) = None"
  proof (rule ccontr)
    assume "T tn ([], root_rec E n y) \<noteq> None"
    then obtain z where "z \<in> set zs" "root_rec E n y = root_rec E n z \<or> prefix (root_rec E n z) []"
      using assms(2) unfolding confined_def by blast
    then have "z \<in> set zs" "root_rec E n y = root_rec E n z" by (auto simp: root_rec_def)
    with root_recs_apart [OF assms(1,3)] show False by (metis prefix_order.refl)
  qed
  show "T tn (pk, rk) = None" if "prefix (root_rec E n y) pk"
  proof (rule ccontr)
    assume "T tn (pk, rk) \<noteq> None"
    then have "pk = [] \<or> (\<exists>z \<in> set zs. prefix (root_rec E n z) pk)"
      using assms(2) unfolding confined_def by blast
    with that root_recs_apart [OF assms(1,3)] show False by (auto simp: root_rec_def)
  qed
qed

lemma keys_ok_swap: "keys_ok E n (ys @ zs) \<Longrightarrow> keys_ok E n (zs @ ys)"
  by (auto simp: keys_ok_def)

text \<open>Objects with different keys are held together.\<close>

lemma holds_join:
  assumes "keys_ok E n (ys @ zs)" "holds E n ys T" "holds E n zs T'"
  shows "holds E n (ys @ zs) (join_content T T')"
  unfolding holds_def
proof (intro conjI ballI)
  note off = confined_off [OF assms(1)] and off' = confined_off [OF keys_ok_swap [OF assms(1)]]
  have conf: "confined n (root_rec E n ` set ys) T" "confined n (root_rec E n ` set zs) T'"
    using assms(2,3) by (simp_all add: holds_def)
  show "confined n (root_rec E n ` set (ys @ zs)) (join_content T T')"
    using conf unfolding confined_def join_content_def by (fastforce simp: map_add_None)
  fix y assume "y \<in> set (ys @ zs)"
  then consider "y \<in> set ys" | "y \<in> set zs" by auto
  then show "stored E (join_content T T') n y [] (root_rec E n y)"
  proof cases
    case 1
    with assms(2) have "stored E T n y [] (root_rec E n y)" by (simp add: holds_def)
    then show ?thesis
      by (rule stored_frame) (use 1 off [OF conf(2)] in \<open>simp_all add: join_content_def map_add_def\<close>)
  next
    case 2
    with assms(3) have "stored E T' n y [] (root_rec E n y)" by (simp add: holds_def)
    then show ?thesis
      by (rule stored_frame) (use 2 off' [OF conf(1)] in \<open>simp_all add: join_content_def map_add_def split: option.split\<close>)
  qed
qed

section \<open>Writing to and reading from contents\<close>

lemma list_all2_reorder_right:
  assumes "list_all2 R xs ys" "mset ys' = mset ys"
  shows "\<exists>xs'. mset xs' = mset xs \<and> list_all2 R xs' ys'"
  using list_all2_reorder_left_invariance [of "R\<inverse>\<inverse>" ys xs ys'] assms
  by (auto simp: list.rel_flip)

lemma roots_keys_ok: "roots_ok E n ys \<Longrightarrow> keys_ok E n ys"
  by (simp add: roots_ok_def keys_ok_def)

lemma nameOfField_root: "plain (FieldName n) \<Longrightarrow> nameOfField (root_rec E n y) = FieldName n"
  by (simp add: root_rec_def nameOfField_bracketed plain_def)

lemma content_of_location:
  "content_of d tn (pk, rk) \<noteq> None \<Longrightarrow> rows_at d tn pk (nameOfField rk) \<noteq> None"
  by (cases "rows_at d tn pk (nameOfField rk)") (simp_all add: content_of_def)

text \<open>A type none of whose parts is of that type again: its table has root rows only.\<close>

definition own_table :: "l8node \<Rightarrow> bool" where
  "own_table n \<longleftrightarrow> (\<forall>p \<in> set (Attributes n). sub_attr p \<longrightarrow> TypeName n \<notin> TypeName ` set (nodes_of (snd p)))"

lemma convertTo_other_table:
  assumes "convertTo E action val pk mk node d = Inr d'" "tn \<notin> TypeName ` set (nodes_of node)"
  shows "rows_at d' tn = rows_at d tn"
proof (rule convertTo_invariant [where V = "\<lambda>m v. True" and R = "\<lambda>m c r. True" and I = "\<lambda>d'. rows_at d' tn = rows_at d tn"
      and root = node, OF _ _ _ assms(1)])
  fix m pk mk v d2 d1 row
  assume m: "m \<in> set (nodes_of node)" "rows_at d2 tn = rows_at d tn"
    and run: "mfold (convert_attr E action v m) (open_table E m pk d2, start_row E m v pk mk)
      (range_loop (rng E (''convertTo:attributes'', pk @ mk)) (Attributes m)) = Inr (d1, row)"
  have "rows_at d1 tn = rows_at (open_table E m pk d2) tn" using convert_attrs_frame [OF run] by simp
  also have "\<dots> = rows_at d2 tn" using m(1) assms(2) by (force simp: rows_at_open_table loc_of_def fun_eq_iff)
  finally show "rows_at d1 tn = rows_at d tn \<and> (\<forall>c. columns_at d1 (TypeName m) = Some c \<longrightarrow> True)" using m(2) by simp
next
  fix m pk d2 rs c and row :: L8OrmRow
  assume "m \<in> set (nodes_of node)" "rows_at d2 tn = rows_at d tn"
  moreover from this assms(2) have "(tn, pk', f) \<noteq> loc_of m pk" for pk' f by (auto simp: loc_of_def)
  ultimately show "rows_at (append_row m pk row d2) tn = rows_at d tn"
    by (simp add: fun_eq_iff rows_at_append_row_other)
qed simp_all

lemma convertTo_own_table:
  assumes "convertTo E action val pk mk n d = Inr d'" "own_table n" "pk' \<noteq> pk"
  shows "rows_at d' (TypeName n) pk' f = rows_at d (TypeName n) pk' f"
proof (cases "deref val")
  case None
  with assms(1) show ?thesis by (subst (asm) convertTo_unfold) simp
next
  case (Some v)
  from assms(1) Some obtain d1 row d2 where
    sub: "mfold (convert_sub E action v (KeyForRow row)) d1
       (range_loop (rng E (''convertTo:subTables'', pk @ mk)) (filter sub_attr (Attributes n))) = Inr d2"
    and d: "d' = append_row n pk row d2" "rows_at d1 = rows_at (open_table E n pk d)"
    by (rule convertTo_cases) blast
  have "rows_at d2 (TypeName n) = rows_at d1 (TypeName n)"
  proof (rule mfold_invariant [OF sub, where P = "\<lambda>d2. rows_at d2 (TypeName n) = rows_at d1 (TypeName n)"])
    fix d2 p d3 assume I: "rows_at d2 (TypeName n) = rows_at d1 (TypeName n)"
      and p: "p \<in> set (range_loop (rng E (''convertTo:subTables'', pk @ mk)) (filter sub_attr (Attributes n)))"
      and run: "convert_sub E action v (KeyForRow row) d2 p = Inr d3"
    obtain a m where am: "p = (a, m)" by (cases p)
    with p have "(a, m) \<in> set (Attributes n)" "sub_attr (a, m)" by (auto dest!: range_loop_in)
    with assms(2) have "TypeName n \<notin> TypeName ` set (nodes_of m)" by (fastforce simp: own_table_def)
    then show "rows_at d3 (TypeName n) = rows_at d1 (TypeName n)"
      by (intro convert_sub_invariant [OF run [unfolded am], where I = "\<lambda>d2. rows_at d2 (TypeName n) = rows_at d1 (TypeName n)", OF I])
        (metis convertTo_other_table)
  qed simp
  with d assms(3) show ?thesis
    by (simp add: rows_at_append_row_other rows_at_open_table loc_of_def)
qed

text \<open>What every conversion of a root object keeps, their conversion keeps.\<close>

lemma ConvertTo_invariant:
  assumes ys: "ys \<noteq> []" "nodeOf E (TypeName n) = Some n" "\<And>y. y \<in> set ys \<Longrightarrow> conf E n y" and new: "I (new_rdata (TypeName n))"
    and step: "\<And>y mk d d'. convertTo E action (Some y) [] mk n d = Inr d' \<Longrightarrow> y \<in> set ys \<Longrightarrow> I d \<Longrightarrow> I d'"
    and d: "ConvertTo E action (Some \<lparr>Element = Some (hd ys), Elements = map Some ys, Keys = ks\<rparr>) = Some (Inr d)"
  shows "I d"
proof -
  have ty: "TypeOf (Some (hd ys)) = Inr (TypeName n)" using ys(1) by (intro TypeOf_conf [OF ys(3)]) simp
  show ?thesis
  proof (cases "length ys = 1")
    case True
    then have "convertTo E action (Some (hd ys)) [] [] n (new_rdata (TypeName n)) = Inr d"
      using d ty ys(2) by (simp add: ConvertTo_def)
    then show ?thesis by (rule step) (use ys(1) new in simp_all)
  next
    case False
    then have run: "mfold (\<lambda>data (i, element). rbind (key_at E ks i) (\<lambda>key. convertTo E action element [] key n data))
        (new_rdata (TypeName n)) (List.enumerate 0 (map Some ys)) = Inr d"
      using d ty ys(2) by (simp add: ConvertTo_def)
    show ?thesis
    proof (rule mfold_invariant [OF run, where P = I])
      fix d p d' assume I: "I d" and p: "p \<in> set (List.enumerate 0 (map Some ys))"
        and r: "(case p of (i, element) \<Rightarrow> rbind (key_at E ks i) (\<lambda>key. convertTo E action element [] key n d)) = Inr d'"
      from p have "snd p = Some (ys ! fst p)" "ys ! fst p \<in> set ys" by (auto simp: in_set_enumerate_eq)
      with r I show "I d'" by (auto simp: rbind_eq_Inr case_prod_beta intro: step)
    qed (rule new)
  qed
qed

text \<open>The relational data of root objects hold these objects.\<close>

lemma ConvertTo_holds:
  assumes inv: "orders_ok E" "wf_tree n" "action \<noteq> PATCH" "roots_ok E n ys"
    and keys: "length ys = 1 \<or> length ks = length ys" and own: "own_table n"
  shows "\<exists>d. ConvertTo E action (Some \<lparr>Element = Some (hd ys), Elements = map Some ys, Keys = ks\<rparr>) =
       Some (Inr d) \<and> tidy (nodes_of n) d \<and> RootTypeName d = TypeName n \<and> holds E n ys (content_of d)"
proof -
  obtain d rs where d: "ConvertTo E action (Some \<lparr>Element = Some (hd ys), Elements = map Some ys, Keys = ks\<rparr>) = Some (Inr d)"
    "tidy (nodes_of n) d" "RootTypeName d = TypeName n" "evolves (root_region E n ys) (new_rdata (TypeName n)) d"
    "rows_at d (TypeName n) [] (FieldName n) = Some rs" "root_rows E d n ys rs"
    using ConvertTo_roots [OF inv keys] by blast
  have recs: "RecKey ` set rs = root_rec E n ` set ys"
  proof -
    have "map RecKey rs = map (root_rec E n) ys"
      using d(6) unfolding root_rows_def by (induction rule: list_all2_induct) (simp_all add: root_rec_def)
    then show ?thesis by (metis list.set_map)
  qed
  have top: "rows_at d (TypeName n) pk f = None" if "pk \<noteq> []" for pk f
  proof (rule ConvertTo_invariant [OF _ _ _ _ _ d(1), where I = "\<lambda>d. rows_at d (TypeName n) pk f = None"])
    fix y mk e e' assume "convertTo E action (Some y) [] mk n e = Inr e'" "rows_at e (TypeName n) pk f = None"
    then show "rows_at e' (TypeName n) pk f = None" using convertTo_own_table [OF _ own that] by metis
  qed (use inv(4) in \<open>auto simp: roots_ok_def rows_at_def new_rdata_def\<close>)
  have "confined n (root_rec E n ` set ys) (content_of d)"
    unfolding confined_def
  proof (intro allI impI)
    fix tn pk rk assume c: "content_of d tn (pk, rk) \<noteq> None"
    have "rows_at (new_rdata (TypeName n)) tn pk (nameOfField rk) = None" by (simp add: rows_at_def new_rdata_def)
    then have "(tn, pk, nameOfField rk) \<in> root_region E n ys"
      using content_of_location [OF c] evolves_rows [OF d(4)] by metis
    then consider "(tn, pk, nameOfField rk) = loc_of n []" | y where "y \<in> set ys" "prefix (root_rec E n y) pk"
      by (auto simp: root_region_def below_keys_def root_rec_def)
    then show "tn = TypeName n \<and> pk = [] \<and> rk \<in> root_rec E n ` set ys \<or>
        tn \<noteq> TypeName n \<and> (\<exists>k \<in> root_rec E n ` set ys. prefix k pk)"
    proof cases
      case 1
      then have "rk \<in> child_keys (content_of d) (TypeName n) [] (FieldName n)"
        using c by (auto simp: child_keys_def loc_of_def)
      then have "rk \<in> root_rec E n ` set ys" unfolding content_of_keys [OF d(2)] d(5) by (simp add: recs)
      with 1 show ?thesis by (simp add: loc_of_def)
    next
      case (2 y)
      then have "pk \<noteq> []" by (auto simp: root_rec_def bracketed_def)
      then have "tn \<noteq> TypeName n" using top [of pk "nameOfField rk"] content_of_location [OF c] by auto
      with 2 show ?thesis by blast
    qed
  qed
  moreover have "stored E (content_of d) n y [] (root_rec E n y)" if y: "y \<in> set ys" for y
  proof -
    obtain r where "r \<in> set rs" "ParentKey r = []" "RecKey r = root_rec E n y" "stored_row E d n y r"
      using list_all2_member [OF d(6) [unfolded root_rows_def] y] by (auto simp: root_rec_def)
    then show ?thesis
      using stored_row_content [OF inv(2) d(2) _ nodes_of_self, of E y r "FieldName n" rs] d(5) by simp
  qed
  ultimately show ?thesis using d(1-3) by (auto simp: holds_def)
qed

text \<open>Data that present a content are read as the objects of its root rows, in some order.\<close>

definition has_roots :: "'a env_scheme \<Rightarrow> l8node \<Rightarrow> gval list \<Rightarrow> content \<Rightarrow> bool" where
  "has_roots E n ys T \<longleftrightarrow> child_keys T (TypeName n) [] (FieldName n) = root_rec E n ` set ys \<and>
     (\<forall>y \<in> set ys. stored E T n y [] (root_rec E n y))"

lemma holds_has_roots:
  assumes "holds E n ys T" "plain (FieldName n)"
  shows "has_roots E n ys T"
proof -
  have st: "stored E T n y [] (root_rec E n y)" if "y \<in> set ys" for y
    using assms(1) that by (simp add: holds_def)
  have "T (TypeName n) ([], root_rec E n y) \<noteq> None" if "y \<in> set ys" for y
    using st [OF that] by (auto elim: stored.cases)
  moreover have "rk \<in> root_rec E n ` set ys" if "T (TypeName n) ([], rk) \<noteq> None" for rk
    using assms(1) that unfolding holds_def confined_def by (fastforce simp: root_rec_def)
  ultimately show ?thesis
    using nameOfField_root [OF assms(2)] st by (auto simp: has_roots_def child_keys_def)
qed

lemma ConvertFrom_ordered:
  assumes inv: "orders_ok E" "wf_tree n" "roots_ok E n ys"
    and d: "presents (nodes_of n) d T" "RootTypeName d = TypeName n" and h: "has_roots E n ys T"
    and rs: "rows_at d (TypeName n) [] (FieldName n) = Some rs" "map RecKey rs = map (root_rec E n) ys"
  shows "\<exists>zs. ConvertFrom E d m = Inr (COrdered zs, m) \<and> list_all2 (sim n) ys zs"
proof -
  have roots: "ys \<noteq> []" "nodeOf E (TypeName n) = Some n" "\<And>y. y \<in> set ys \<Longrightarrow> conf E n y"
    using inv(3) by (auto simp: roots_ok_def)
  have st: "stored E T n y [] (root_rec E n y)" if "y \<in> set ys" for y
    using h that by (simp add: has_roots_def)
  have pk: "\<forall>r \<in> set rs. ParentKey r = []"
  proof -
    have "child_keys T (TypeName n) [] (FieldName n) \<noteq> {}" using h roots(1) by (simp add: has_roots_def)
    with presents_rows [OF d(1) nodes_of_self] rs(1) show ?thesis by (metis option.inject)
  qed
  have "root_rows E d n ys rs"
    unfolding root_rows_def list_all2_conv_all_nth
  proof (intro conjI allI impI)
    show len: "length ys = length rs" using arg_cong [OF rs(2), of length] by simp
    fix i assume i: "i < length ys"
    have m: "rs ! i \<in> set rs" using i len by simp
    with pk show "ParentKey (rs ! i) = []" by blast
    show k: "RecKey (rs ! i) = bracketed (FieldName n) (root_key E n (ys ! i))"
      using arg_cong [OF rs(2), of "\<lambda>l. l ! i"] i len by (simp add: root_rec_def)
    show "stored_row E d n (ys ! i) (rs ! i)"
      using stored_presented [OF inv(1) d(1) st nodes_of_self _ rs(1) m] i k roots(3) by (simp add: root_rec_def)
  qed
  from convertFrom_roots [OF inv this rs(1) refl] d(2) roots(2) show ?thesis by (auto simp: ConvertFrom_def)
qed

text \<open>Objects in the order of given record keys.\<close>

lemma roots_by_keys:
  assumes "distinct ks" "set ks = root_rec E n ` set ys" "distinct (map (root_key E n) ys)"
  obtains ys' where "mset ys' = mset ys" "map (root_rec E n) ys' = ks"
proof -
  have dist: "distinct (map (root_rec E n) ys)"
    using assms(3) by (auto simp: distinct_map inj_on_def root_rec_def bracketed_def)
  have "list_all2 (\<lambda>k y. root_rec E n y = k) (map (root_rec E n) ys) ys"
    by (simp add: list_all2_map1 list_all2_same)
  moreover have "mset ks = mset (map (root_rec E n) ys)"
    using assms(1,2) dist by (metis list.set_map set_eq_iff_mset_eq_distinct)
  ultimately obtain ys' where "list_all2 (\<lambda>k y. root_rec E n y = k) ks ys'" "mset ys' = mset ys"
    using list_all2_reorder_left_invariance by blast
  moreover from this(1) have "map (root_rec E n) ys' = ks" by (induction rule: list_all2_induct) simp_all
  ultimately show ?thesis by (intro that)
qed

lemma roots_ok_mset: "mset ys' = mset ys \<Longrightarrow> roots_ok E n ys \<Longrightarrow> roots_ok E n ys'"
  unfolding roots_ok_def by (metis mset_eq_imp_distinct_iff mset_eq_setD mset_map mset_zero_iff)

lemma has_roots_mset: "mset ys' = mset ys \<Longrightarrow> has_roots E n ys T \<Longrightarrow> has_roots E n ys' T"
  unfolding has_roots_def by (metis mset_eq_setD)

lemma ConvertFrom_has_roots:
  assumes inv: "orders_ok E" "wf_tree n" "roots_ok E n ys"
    and d: "presents (nodes_of n) d T" "RootTypeName d = TypeName n" and h: "has_roots E n ys T"
  shows "\<exists>ys' zs. ConvertFrom E d m = Inr (COrdered zs, m) \<and> mset ys' = mset ys \<and> list_all2 (sim n) ys' zs"
proof -
  have keys: "child_keys T (TypeName n) [] (FieldName n) = root_rec E n ` set ys" "ys \<noteq> []"
    "distinct (map (root_key E n) ys)"
    using h inv(3) by (simp_all add: has_roots_def roots_ok_def)
  then have "child_keys T (TypeName n) [] (FieldName n) \<noteq> {}" by simp
  then obtain rs where rs0: "rows_at d (TypeName n) [] (FieldName n) = Some rs" "distinct (map RecKey rs)"
    "RecKey ` set rs = child_keys T (TypeName n) [] (FieldName n)"
    by (rule presents_rows [OF d(1) nodes_of_self])
  then have rs: "rows_at d (TypeName n) [] (FieldName n) = Some rs" "distinct (map RecKey rs)"
    "set (map RecKey rs) = root_rec E n ` set ys" using keys(1) by simp_all
  obtain ys' where ys': "mset ys' = mset ys" "map (root_rec E n) ys' = map RecKey rs"
    using roots_by_keys [OF rs(2,3) keys(3)] .
  obtain zs where "ConvertFrom E d m = Inr (COrdered zs, m)" "list_all2 (sim n) ys' zs"
    using ConvertFrom_ordered [OF inv(1,2) roots_ok_mset [OF ys'(1) inv(3)] d has_roots_mset [OF ys'(1) h] rs(1) ys'(2) [symmetric],
        where m = m] by (elim exE conjE)
  with ys'(1) show ?thesis by (intro exI conjI)
qed

end
