(* ===== verification/Pg_Content.thy ===== *)
theory Pg_Content
  imports Convert_Content Convert_Schema_Correct Pg_Write_Correct
begin

text \<open>
  The tables of a database as the store of objects: what the rows of relational data are in
  the maps of the code, which rows conversions of objects make, and what the statements that
  write them do to the tables.
\<close>

section \<open>The rows of relational data\<close>

definition table_maps :: "L8OrmTable \<Rightarrow> bool" where
  "table_maps t \<longleftrightarrow> distinct (gkeys (instances t)) \<and>
     (\<forall>p \<in> set (instances t). distinct (gkeys (attributes (snd p))))"

lemma go_maps_tables:
  "go_maps d \<longleftrightarrow> distinct (gkeys (Tables d)) \<and> (\<forall>p \<in> set (Tables d). table_maps (snd p))"
  unfolding go_maps_def table_maps_def by (simp add: case_prod_beta)

lemma map_of_gkeys: "distinct (gkeys m) \<Longrightarrow> map_of m k = Some v \<longleftrightarrow> (k, v) \<in> set m"
  by (simp add: gkeys_def)

lemma in_row_list: "(\<exists>rs. Rows ar = Some rs \<and> r \<in> set rs) \<longleftrightarrow> r \<in> set (row_list ar)"
  by (cases "Rows ar") (simp_all add: row_list_def)

lemma rows_in_instances:
  assumes "table_maps t"
  shows "r \<in> set (table_rows t) \<longleftrightarrow> (\<exists>pk f rs. rows_in t pk f = Some rs \<and> r \<in> set rs)"
proof -
  have "rows_in t pk f = Some rs \<longleftrightarrow>
      (\<exists>inst ar. (pk, inst) \<in> set (instances t) \<and> (f, ar) \<in> set (attributes inst) \<and> Rows ar = Some rs)" for pk f rs
  proof -
    have i: "map_of (instances t) pk = Some inst \<longleftrightarrow> (pk, inst) \<in> set (instances t)" for inst
      using assms by (intro map_of_gkeys) (simp add: table_maps_def)
    have a: "map_of (attributes inst) f = Some ar \<longleftrightarrow> (f, ar) \<in> set (attributes inst)"
      if "(pk, inst) \<in> set (instances t)" for inst ar
      using assms that by (intro map_of_gkeys) (auto simp: table_maps_def)
    have "rows_in t pk f = Some rs \<longleftrightarrow>
        (\<exists>inst. map_of (instances t) pk = Some inst \<and> (\<exists>ar. map_of (attributes inst) f = Some ar \<and> Rows ar = Some rs))"
      by (auto simp: rows_in_def instances_def attributes_def split: bind_splits option.splits)
    then show ?thesis using i a by metis
  qed
  then have "(\<exists>pk f rs. rows_in t pk f = Some rs \<and> r \<in> set rs) \<longleftrightarrow>
      (\<exists>p \<in> set (instances t). \<exists>q \<in> set (attributes (snd p)). \<exists>rs. Rows (snd q) = Some rs \<and> r \<in> set rs)"
    by (simp add: Bex_def) blast
  also have "\<dots> \<longleftrightarrow> (\<exists>p \<in> set (instances t). \<exists>q \<in> set (attributes (snd p)). r \<in> set (row_list (snd q)))"
    unfolding in_row_list ..
  also have "\<dots> \<longleftrightarrow> r \<in> set (table_rows t)"
    by (simp add: table_rows_def case_prod_beta)
  finally show ?thesis by blast
qed

lemma in_all_rows:
  assumes "go_maps d"
  shows "(tn, cols, r) \<in> set (all_rows d) \<longleftrightarrow>
     cols = columns_at d tn \<and> (\<exists>pk f rs. rows_at d tn pk f = Some rs \<and> r \<in> set rs)"
proof -
  have t: "map_of (Tables d) tn = Some t \<longleftrightarrow> (tn, t) \<in> set (Tables d)" for t
    using assms by (intro map_of_gkeys) (simp add: go_maps_tables)
  have m: "table_maps t" if "(tn, t) \<in> set (Tables d)" for t
    using assms that by (auto simp: go_maps_tables)
  have "(tn, cols, r) \<in> set (all_rows d) \<longleftrightarrow> (\<exists>t. (tn, t) \<in> set (Tables d) \<and> cols = Columns t \<and> r \<in> set (table_rows t))"
    by (auto simp: all_rows_def)
  also have "\<dots> \<longleftrightarrow> (\<exists>t. map_of (Tables d) tn = Some t \<and> cols = Columns t \<and> (\<exists>pk f rs. rows_in t pk f = Some rs \<and> r \<in> set rs))"
    using t m rows_in_instances by blast
  also have "\<dots> \<longleftrightarrow> cols = columns_at d tn \<and> (\<exists>pk f rs. rows_at d tn pk f = Some rs \<and> r \<in> set rs)"
    by (cases "map_of (Tables d) tn") (auto simp: columns_at_def rows_at_def)
  finally show ?thesis .
qed

text \<open>The operations of conversions keep the maps.\<close>

lemma table_maps_new [simp]: "table_maps (new_table n)"
  by (simp add: table_maps_def instances_def new_table_def gkeys_def)

lemma table_maps_update:
  assumes "table_maps t" "distinct (gkeys (attributes inst))"
  shows "table_maps (t\<lparr>InstanceRows := Some (AList.update pk inst (instances t))\<rparr>)"
proof -
  have "distinct (gkeys (AList.update pk inst (instances t)))"
    using assms(1) by (simp add: table_maps_def distinct_gkeys_update)
  moreover have "p \<in> set (AList.update pk inst (instances t)) \<Longrightarrow> p = (pk, inst) \<or> p \<in> set (instances t)" for p
    by (rule in_AList_update)
  ultimately show ?thesis using assms by (fastforce simp: table_maps_def instances_def)
qed

lemma table_maps_ensure_rows:
  assumes "table_maps t"
  shows "table_maps (ensure_rows pk f t)"
proof -
  define inst where "inst = (case map_of (instances t) pk of None \<Rightarrow> \<lparr>AttributeRows = None\<rparr> | Some r \<Rightarrow> r)"
  have inst: "distinct (gkeys (attributes inst))"
    using assms by (auto simp: inst_def table_maps_def attributes_def gkeys_def dest!: map_of_SomeD split: option.split)
  have "\<exists>ar. ensure_rows pk f t = t\<lparr>InstanceRows := Some (AList.update pk
      (inst\<lparr>AttributeRows := Some (AList.update f ar (attributes inst))\<rparr>) (instances t))\<rparr>"
    by (rule exI) (simp only: ensure_rows_def Let_def instances_def attributes_def inst_def)
  moreover have "distinct (gkeys (attributes (inst\<lparr>AttributeRows := Some (AList.update f ar (attributes inst))\<rparr>)))" for ar
    using inst by (simp add: attributes_def distinct_gkeys_update)
  ultimately show ?thesis using table_maps_update [OF assms] by metis
qed

lemma table_maps_append_rows:
  assumes "table_maps t"
  shows "table_maps (append_rows pk f r t)"
proof (cases "\<exists>m inst. InstanceRows t = Some m \<and> map_of m pk = Some inst")
  case False
  then have "append_rows pk f r t = t"
    by (cases "InstanceRows t"; cases t) (auto simp: append_rows_def split: option.split)
  with assms show ?thesis by simp
next
  case True
  then obtain m inst where i: "InstanceRows t = Some m" "map_of m pk = Some inst" by blast
  then have "distinct (gkeys (attributes inst))"
    using assms by (auto simp: table_maps_def instances_def dest!: map_of_SomeD)
  then have "distinct (gkeys (attributes (inst\<lparr>AttributeRows := map_option (\<lambda>attributes.
      case map_of attributes f of None \<Rightarrow> attributes | Some ar \<Rightarrow> AList.update f (g ar) attributes)
        (AttributeRows inst)\<rparr>)))" for g
    by (auto simp: attributes_def distinct_gkeys_update split: option.split)
  from table_maps_update [OF assms this] show ?thesis
    using i by (simp add: append_rows_def instances_def)
qed

lemma table_maps_SetColumns: "table_maps t \<Longrightarrow> table_maps (SetColumns E n t)"
  by (cases "Columns t") (simp_all add: SetColumns_def table_maps_def instances_def)

lemma go_maps_update:
  assumes "go_maps d" "table_maps t"
  shows "go_maps (d\<lparr>Tables := AList.update tn t (Tables d)\<rparr>)"
  unfolding go_maps_tables
proof (intro conjI ballI)
  show "distinct (gkeys (Tables (d\<lparr>Tables := AList.update tn t (Tables d)\<rparr>)))"
    using assms(1) by (simp add: go_maps_tables distinct_gkeys_update)
  fix p assume "p \<in> set (Tables (d\<lparr>Tables := AList.update tn t (Tables d)\<rparr>))"
  then have "p = (tn, t) \<or> p \<in> set (Tables d)" by (auto dest: in_AList_update)
  with assms show "table_maps (snd p)" by (auto simp: go_maps_tables)
qed

lemma go_maps_on_table:
  assumes "go_maps d" "\<And>t. table_maps t \<Longrightarrow> table_maps (f t)"
  shows "go_maps (on_table tn f d)"
proof (cases "map_of (Tables d) tn")
  case (Some t)
  with assms(1) have "table_maps t" by (auto simp: go_maps_tables dest!: map_of_SomeD)
  with Some assms show ?thesis by (simp add: on_table_def go_maps_update)
qed (use assms in \<open>simp add: on_table_def\<close>)

lemma go_maps_open_table:
  assumes "go_maps d"
  shows "go_maps (open_table E n pk d)"
proof -
  have "table_maps (case map_of (Tables d) (TypeName n) of None \<Rightarrow> new_table (TypeName n) | Some t \<Rightarrow> t)"
    using assms by (auto simp: go_maps_tables dest!: map_of_SomeD split: option.split)
  then have "go_maps (TableAndRowsCreate n d pk)"
    unfolding TableAndRowsCreate_def Let_def by (intro go_maps_update [OF assms] table_maps_ensure_rows)
  then show ?thesis unfolding open_table_def by (rule go_maps_on_table) (rule table_maps_SetColumns)
qed

lemma go_maps_append_row: "go_maps d \<Longrightarrow> go_maps (append_row n pk r d)"
  unfolding append_row_def by (rule go_maps_on_table) (simp_all add: table_maps_append_rows)

lemma tnames_on_table [simp]: "tnames (on_table tn f d) = tnames d"
proof (cases "map_of (Tables d) tn")
  case (Some t)
  then have "tn \<in> tnames d" by (force simp: tnames_def gkeys_def dest: map_of_SomeD)
  with Some show ?thesis by (auto simp: on_table_def tnames_def set_gkeys_update)
qed (simp add: on_table_def)

lemma tnames_open_table [simp]: "tnames (open_table E n pk d) = insert (TypeName n) (tnames d)"
  unfolding open_table_def tnames_on_table TableAndRowsCreate_def Let_def
  by (simp add: tnames_def set_gkeys_update)

lemma tnames_append_row [simp]: "tnames (append_row n pk r d) = tnames d"
  by (simp add: append_row_def)

text \<open>The rows of tidy data are those of its content.\<close>

lemma row_content:
  assumes "tidy N d" "go_maps d" "(tn, cols, r) \<in> set (all_rows d)"
  shows "cols = columns_at d tn" "content_of d tn (ParentKey r, RecKey r) = Some (cells_of cols r)"
proof -
  from assms(3) obtain pk f rs where r: "cols = columns_at d tn" "rows_at d tn pk f = Some rs" "r \<in> set rs"
    unfolding in_all_rows [OF assms(2)] by blast
  moreover from store_inv_rows(2) [OF tidy_inv [OF assms(1)] r(2,3)] have "ParentKey r = pk" .
  ultimately show "cols = columns_at d tn" "content_of d tn (ParentKey r, RecKey r) = Some (cells_of cols r)"
    using content_of_row [OF assms(1) r(2,3)] by simp_all
qed

lemma content_row:
  assumes "tidy N d" "go_maps d" "content_of d tn (pk, rk) \<noteq> None"
  shows "\<exists>cols r. (tn, cols, r) \<in> set (all_rows d) \<and> ParentKey r = pk \<and> RecKey r = rk"
proof -
  obtain rs where rs: "rows_at d tn pk (nameOfField rk) = Some rs"
    using content_of_location [OF assms(3)] by blast
  with assms(3) obtain r where "find (\<lambda>r. RecKey r = rk) rs = Some r" by (auto simp: content_of_def)
  then have r: "r \<in> set rs" "RecKey r = rk" by (auto simp: find_Some_iff)
  moreover have "ParentKey r = pk" using store_inv_rows(2) [OF tidy_inv [OF assms(1)] rs r(1)] .
  ultimately show ?thesis using rs by (auto simp: in_all_rows [OF assms(2)])
qed

section \<open>What conversions make can be written\<close>

text \<open>Objects all of whose scalars survive a table.\<close>

inductive sql_ready :: "'a env_scheme \<Rightarrow> l8node \<Rightarrow> gval \<Rightarrow> bool" for E where
  sql_ready:
    "\<forall>p \<in> set (Attributes n). scalar_attr p \<longrightarrow> survives E (snd p) (bytes_of E (the (map_of fs (fst p)))) \<Longrightarrow>
     \<forall>p \<in> set (Attributes n). sub_attr p \<longrightarrow>
       (\<forall>w \<in> set (sub_elems E (snd p) (the (map_of fs (fst p)))). sql_ready E (snd p) (snd w)) \<Longrightarrow>
     sql_ready E n (GPtr t (Some (GStruct tn fs)))"

inductive_simps sql_ready_struct: "sql_ready E n (GPtr t (Some (GStruct tn fs)))"

definition row_survives :: "'a env_scheme \<Rightarrow> l8node \<Rightarrow> (string, int32) gomap \<Rightarrow> L8OrmRow \<Rightarrow> bool" where
  "row_survives E m c r \<longleftrightarrow> (\<forall>p \<in> set (Attributes m). scalar_attr p \<longrightarrow>
     column_survives E (ColumnValues r) (column_index (Some c) (fst p)) (snd p))"

definition writable :: "'a env_scheme \<Rightarrow> l8node list \<Rightarrow> L8OrmRData \<Rightarrow> bool" where
  "writable E N d \<longleftrightarrow> store_inv N d \<and> go_maps d \<and> TsData d = [] \<and> tnames d \<subseteq> TypeName ` set N \<and>
     (\<forall>tn pk f rs r c. rows_at d tn pk f = Some rs \<longrightarrow> r \<in> set rs \<longrightarrow> columns_at d tn = Some c \<longrightarrow>
        (\<exists>m \<in> set N. TypeName m = tn \<and> row_survives E m c r))"

lemma writable_rows:
  "writable E N d \<Longrightarrow> rows_at d tn pk f = Some rs \<Longrightarrow> r \<in> set rs \<Longrightarrow> columns_at d tn = Some c \<Longrightarrow>
     \<exists>m \<in> set N. TypeName m = tn \<and> row_survives E m c r"
  unfolding writable_def by blast

lemma writable_new [simp]: "writable E N (new_rdata tn)"
  by (simp add: writable_def go_maps_tables tnames_def gkeys_def new_rdata_def rows_at_def columns_at_def store_inv_def)

lemma TsData_on_table [simp]: "TsData (on_table tn f d) = TsData d"
  by (simp add: on_table_def split: option.split)

lemma writable_open_table:
  assumes "orders_ok E" "wf_tree root" "n \<in> set (nodes_of root)" "writable E (nodes_of root) d"
  shows "writable E (nodes_of root) (open_table E n pk d)"
  unfolding writable_def
proof (intro conjI allI impI)
  have d: "store_inv (nodes_of root) d" "go_maps d" "TsData d = []" "tnames d \<subseteq> TypeName ` set (nodes_of root)"
    using assms(4) by (auto simp: writable_def)
  show "store_inv (nodes_of root) (open_table E n pk d)" using assms(1-3) d(1) by (rule store_inv_open_table)
  show "go_maps (open_table E n pk d)" using d(2) by (rule go_maps_open_table)
  show "TsData (open_table E n pk d) = []" using d(3) by (simp add: open_table_def TableAndRowsCreate_def Let_def)
  show "tnames (open_table E n pk d) \<subseteq> TypeName ` set (nodes_of root)" using d(4) assms(3) by auto
  fix tn pk' f rs r c
  assume r: "rows_at (open_table E n pk d) tn pk' f = Some rs" "r \<in> set rs"
    and c: "columns_at (open_table E n pk d) tn = Some c"
  from r obtain rs' where rs': "rows_at d tn pk' f = Some rs'" "r \<in> set rs'"
    by (auto simp: rows_at_open_table loc_of_def data_rows_def split: if_splits option.splits)
  obtain c' where c': "columns_at d tn = Some c'" using store_inv_rows(1) [OF d(1) rs'(1)] by blast
  have "c' = c" using evolves_columns [OF evolves_open_table [of n pk d E] c'] c by simp
  with writable_rows [OF assms(4) rs'] c' show "\<exists>m \<in> set (nodes_of root). TypeName m = tn \<and> row_survives E m c r" by blast
qed

lemma writable_append_row:
  assumes "writable E N d" "m \<in> set N" "columns_at d (TypeName m) = Some c" "row_survives E m c row"
    and "rows_at d (TypeName m) pk (FieldName m) = Some rs" "ParentKey row = pk"
  shows "writable E N (append_row m pk row d)"
  unfolding writable_def
proof (intro conjI allI impI)
  have d: "store_inv N d" "go_maps d" "TsData d = []" "tnames d \<subseteq> TypeName ` set N"
    using assms(1) by (auto simp: writable_def)
  show "store_inv N (append_row m pk row d)" using d(1) assms(6,5) by (rule store_inv_append_row)
  show "go_maps (append_row m pk row d)" using d(2) by (rule go_maps_append_row)
  show "TsData (append_row m pk row d) = []" using d(3) by (simp add: append_row_def)
  show "tnames (append_row m pk row d) \<subseteq> TypeName ` set N" using d(4) by simp
  fix tn pk' f rs' r c'
  assume r: "rows_at (append_row m pk row d) tn pk' f = Some rs'" "r \<in> set rs'"
    and c': "columns_at (append_row m pk row d) tn = Some c'"
  then consider "r = row" "tn = TypeName m" | rs0 where "rows_at d tn pk' f = Some rs0" "r \<in> set rs0"
    using assms(5) by (auto simp: rows_at_append_row [OF assms(5)] loc_of_def split: if_splits)
  then show "\<exists>m \<in> set N. TypeName m = tn \<and> row_survives E m c' r"
  proof cases
    case 1
    with c' assms(2-4) show ?thesis by auto
  next
    case 2
    with c' show ?thesis using writable_rows [OF assms(1) 2] by simp
  qed
qed

text \<open>The values converted below a field are its elements.\<close>

lemma sub_values_elems:
  assumes "sub_conf E (a, x) f" "w \<in> set (sub_values x f)" "deref (Some w) \<noteq> None"
  shows "\<exists>k. (k, w) \<in> set (sub_elems E x f)"
proof -
  consider kt vt m where "IsMap x" "f = GMap kt vt m" | et l where "\<not> IsMap x" "IsSlice x" "f = GSlice et l"
    | pt s where "\<not> IsMap x" "\<not> IsSlice x" "f = GPtr pt s"
    using assms(1) by (auto simp: sub_conf_def split: if_splits gval.splits)
  then show ?thesis
  proof cases
    case 1
    with assms(2) show ?thesis by (cases m) (force simp: sub_values_def sub_elems_def)+
  next
    case 2
    with assms(2) obtain xs i where xs: "l = Some xs" "i < length xs" "xs ! i = w"
      by (cases l) (auto simp: sub_values_def in_set_conv_nth)
    then have "(i, w) \<in> set (List.enumerate 0 xs)" by (simp add: in_set_enumerate_eq)
    then have "(nat_str i, w) \<in> set (sub_elems E x f)" using 2 xs(1) by (force simp: sub_elems_def)
    then show ?thesis ..
  next
    case 3
    with assms(2,3) show ?thesis by (cases s) (auto simp: sub_values_def sub_elems_def)
  qed
qed

text \<open>The structs of objects that conform and are ready.\<close>

definition ready_struct :: "'a env_scheme \<Rightarrow> l8node \<Rightarrow> gval \<Rightarrow> bool" where
  "ready_struct E m v \<longleftrightarrow> (\<exists>t. conf E m (GPtr t (Some v)) \<and> sql_ready E m (GPtr t (Some v)))"

lemma ready_struct_shape:
  assumes "ready_struct E m v"
  obtains t tn fs where "v = GStruct tn fs" "conf E m (GPtr t (Some (GStruct tn fs)))"
    "sql_ready E m (GPtr t (Some (GStruct tn fs)))"
proof -
  obtain t where t: "conf E m (GPtr t (Some v))" "sql_ready E m (GPtr t (Some v))"
    using assms by (auto simp: ready_struct_def)
  from t(1) obtain fs where "GPtr t (Some v) = GPtr (TNamed KStruct (TypeName m)) (Some (GStruct (TypeName m) fs))"
    by (rule conf_shape)
  with t show ?thesis by (intro that) auto
qed

lemma ready_structI: "conf E m w \<Longrightarrow> sql_ready E m w \<Longrightarrow> deref (Some w) = Some u \<Longrightarrow> ready_struct E m u"
  by (frule conf_shape) (auto simp: ready_struct_def)

lemma ready_struct_parts:
  assumes inv: "orders_ok E" "ready_struct E m v" "(a, x) \<in> set (Attributes m)" "sub_attr (a, x)"
    and w: "field_by_name a v = Inr (Some f)" "w \<in> set (sub_values x f)" "deref (Some w) = Some u"
  shows "ready_struct E x u"
proof -
  obtain t tn fs where v: "v = GStruct tn fs" "conf E m (GPtr t (Some (GStruct tn fs)))"
    "sql_ready E m (GPtr t (Some (GStruct tn fs)))"
    using inv(2) by (rule ready_struct_shape)
  have f: "map_of fs a = Some f" using w(1) v(1) by simp
  then have sub: "sub_conf E (a, x) f" using conf_attrs(2) [OF v(2) inv(3,4)] by simp
  obtain k where k: "(k, w) \<in> set (sub_elems E x f)" using sub_values_elems [OF sub w(2)] w(3) by auto
  have "conf E x w" using sub_elems_ok(2) [OF inv(1) sub k] by simp
  moreover have "sql_ready E x w" using v(3) inv(3,4) k f unfolding sql_ready_struct by fastforce
  ultimately show ?thesis using w(3) by (rule ready_structI)
qed

text \<open>A conversion of ready objects keeps the data writable.\<close>

lemma convertTo_writable:
  assumes inv: "orders_ok E" "wf_tree root" "action \<noteq> PATCH"
  shows "convertTo E action val pk mk n d = Inr d' \<Longrightarrow> n \<in> set (nodes_of root) \<Longrightarrow>
    (\<And>v. deref val = Some v \<Longrightarrow> ready_struct E n v) \<Longrightarrow> writable E (nodes_of root) d \<Longrightarrow> writable E (nodes_of root) d'"
proof (rule convertTo_invariant [where V = "ready_struct E" and R = "row_survives E" and I = "writable E (nodes_of root)"])
  let ?N = "nodes_of root"
  fix m pk mk v d d1 row
  assume m: "m \<in> set ?N" and v: "ready_struct E m v" and d: "writable E ?N d"
    and run: "mfold (convert_attr E action v m) (open_table E m pk d, start_row E m v pk mk)
        (range_loop (rng E (''convertTo:attributes'', pk @ mk)) (Attributes m)) = Inr (d1, row)"
  have w: "writable E ?N (open_table E m pk d)" using inv(1,2) m d by (rule writable_open_table)
  obtain c where c: "columns_at (open_table E m pk d) (TypeName m) = Some c" using columns_at_open_own by blast
  have good: "good_columns m c" using w m c store_inv_columns unfolding writable_def by blast
  obtain t tn fs where y: "v = GStruct tn fs" "conf E m (GPtr t (Some (GStruct tn fs)))"
    "sql_ready E m (GPtr t (Some (GStruct tn fs)))"
    using v by (rule ready_struct_shape)
  have wf: "wf_node m" using inv(2) m by (simp add: wf_tree_def)
  from convert_attrs_row [OF inv(1,3) wf c good y(2), of "start_row E m v pk mk" "(''convertTo:attributes'', pk @ mk)"] run y(1)
  have row: "d1 = open_table E m pk d" "\<forall>p \<in> set (Attributes m). scalar_attr p \<longrightarrow> map_of c (fst p) \<noteq> None \<and>
        map_of (ColumnValues row) (col_of c (fst p)) = Some (bytes_of E (the (map_of fs (fst p))))"
    by fastforce+
  have "row_survives E m c row"
    unfolding row_survives_def
  proof (intro ballI impI)
    fix p assume p: "p \<in> set (Attributes m)" "scalar_attr p"
    with row(2) have r: "map_of c (fst p) \<noteq> None"
      "map_of (ColumnValues row) (col_of c (fst p)) = Some (bytes_of E (the (map_of fs (fst p))))" by blast+
    moreover have "survives E (snd p) (bytes_of E (the (map_of fs (fst p))))"
      using y(3) p unfolding sql_ready_struct by blast
    ultimately show "column_survives E (ColumnValues row) (column_index (Some c) (fst p)) (snd p)"
      by (auto simp: column_survives_def column_index_def col_of_def)
  qed
  with w row(1) c show "writable E ?N d1 \<and> (\<forall>c. columns_at d1 (TypeName m) = Some c \<longrightarrow> row_survives E m c row)"
    by simp
qed (auto intro: writable_append_row dest: ready_struct_parts [OF inv(1)])

lemma ConvertTo_writable:
  assumes inv: "orders_ok E" "wf_tree n" "action \<noteq> PATCH" "roots_ok E n ys"
    and ready: "\<forall>y \<in> set ys. sql_ready E n y"
    and d: "ConvertTo E action (Some \<lparr>Element = Some (hd ys), Elements = map Some ys, Keys = ks\<rparr>) = Some (Inr d)"
  shows "writable E (nodes_of n) d"
proof -
  from inv(4) have ys: "ys \<noteq> []" "nodeOf E (TypeName n) = Some n" "\<And>y. y \<in> set ys \<Longrightarrow> conf E n y"
    by (auto simp: roots_ok_def)
  show ?thesis
  proof (rule ConvertTo_invariant [OF ys _ _ d, where I = "writable E (nodes_of n)"])
    fix y mk d d' assume "convertTo E action (Some y) [] mk n d = Inr d'" "y \<in> set ys" "writable E (nodes_of n) d"
    then show "writable E (nodes_of n) d'"
      using ready ys(3) by (intro convertTo_writable [OF inv(1-3) _ nodes_of_self _, of "Some y" "[]" mk d d'] ready_structI) simp_all
  qed simp_all
qed

section \<open>Tables\<close>

text \<open>The tables of a database: rows by their two keys, a row as what its columns deliver.\<close>

type_synonym tables = "string \<Rightarrow> string \<times> string \<Rightarrow> (string \<Rightarrow> drv) option"

text \<open>
  What PostgreSQL documents of \<open>INSERT ... ON CONFLICT (ParentKey,RecKey) DO UPDATE SET\<close> with
  the arguments \<open>args\<close> for the columns \<open>fs\<close>: the columns of the list get the arguments, the
  others keep their values in a row that is there and are null in a new one.
\<close>

definition cell_text :: "drv \<Rightarrow> string" where
  "cell_text v = (case v of DText s \<Rightarrow> s | _ \<Rightarrow> [])"

definition upsert :: "string \<Rightarrow> string list \<Rightarrow> sql_arg list \<Rightarrow> tables \<Rightarrow> tables" where
  "upsert tn fs args M =
     (let key = (cell_text (table_row fs args ''ParentKey''), cell_text (table_row fs args ''RecKey''));
          old = (case M tn key of None \<Rightarrow> (\<lambda>f. DNull) | Some row \<Rightarrow> row)
      in M(tn := (M tn)(key \<mapsto> (\<lambda>f. if f \<in> set fs then table_row fs args f else old f))))"

text \<open>The tables represent a content: the same rows, whose cells carry its bytes.\<close>

definition row_carries :: "('d, 'x) pg_env_scheme \<Rightarrow> l8node \<Rightarrow> string \<times> string \<Rightarrow> (string \<Rightarrow> drv) \<Rightarrow> cells \<Rightarrow> bool" where
  "row_carries E m key row cells \<longleftrightarrow>
     row ''ParentKey'' = DText (fst key) \<and> row ''RecKey'' = DText (snd key) \<and>
     (\<forall>p \<in> set (Attributes m). scalar_attr p \<longrightarrow>
        (\<exists>b. cells (fst p) = Some b \<and> carries E (scanner E) (snd p) (row (fst p)) b))"

definition represents :: "('d, 'x) pg_env_scheme \<Rightarrow> l8node list \<Rightarrow> tables \<Rightarrow> content \<Rightarrow> bool" where
  "represents E N M T \<longleftrightarrow> (\<forall>m \<in> set N. \<forall>key.
     (case T (TypeName m) key of
        None \<Rightarrow> M (TypeName m) key = None
      | Some cells \<Rightarrow> \<exists>row. M (TypeName m) key = Some row \<and> row_carries E m key row cells))"

text \<open>The database holds the objects \<open>ys\<close>.\<close>

definition db_holds :: "('d, 'x) pg_env_scheme \<Rightarrow> l8node \<Rightarrow> gval list \<Rightarrow> tables \<Rightarrow> bool" where
  "db_holds E n ys M \<longleftrightarrow> (\<exists>T. holds E n ys T \<and> represents E (nodes_of n) M T)"

text \<open>
  What the introspector gives: the node of a type name is one of the tree, all nodes of one
  name have the same attributes, and no column is named like the two keys.
\<close>

definition sql_types :: "('d, 'x) pg_env_scheme \<Rightarrow> l8node \<Rightarrow> bool" where
  "sql_types E n \<longleftrightarrow> (\<forall>m \<in> set (nodes_of n). stmt_node m \<and>
     (\<exists>k \<in> set (nodes_of n). nodeByTypeName E (TypeName m) = Some k \<and> TypeName k = TypeName m) \<and>
     (\<forall>k \<in> set (nodes_of n). TypeName k = TypeName m \<longrightarrow> Attributes k = Attributes m))"

lemma sql_types_node:
  assumes "sql_types E n" "m \<in> set (nodes_of n)"
  obtains k where "nodeByTypeName E (TypeName m) = Some k" "TypeName k = TypeName m" "Attributes k = Attributes m"
    and "k \<in> set (nodes_of n)" "stmt_node k"
  using assms unfolding sql_types_def by metis

lemma size_nodes_of: "m \<in> set (nodes_of n) \<Longrightarrow> size m \<le> size n"
proof (induction n rule: nodes_of.induct)
  case (1 tn fn s mp sl k attrs)
  let ?n = "L8Node tn fn s mp sl k attrs"
  from "1.prems" consider "m = ?n" | p where "p \<in> set attrs" "sub_attr p" "m \<in> set (nodes_of (snd p))"
    by (auto split: if_splits)
  then show ?case
  proof cases
    case (2 p)
    then have "size m \<le> size (snd p)" by (intro "1.IH") auto
    then show ?thesis using size_Attributes [of "fst p" "snd p" ?n] 2(1) by simp
  qed simp
qed

lemma sql_types_own:
  assumes "sql_types E n"
  shows "own_table n"
  unfolding own_table_def
proof (intro ballI impI notI)
  fix p assume p: "p \<in> set (Attributes n)" "sub_attr p" "TypeName n \<in> TypeName ` set (nodes_of (snd p))"
  then obtain m where m: "m \<in> set (nodes_of (snd p))" "TypeName m = TypeName n" by (metis imageE)
  have "(fst p, snd p) \<in> set (Attributes n)" using p(1) by simp
  then have "m \<in> set (nodes_of n)" using nodes_of_sub [of "fst p" "snd p" n] p(2) m(1) by auto
  then have "Attributes m = Attributes n"
    using assms m(2) nodes_of_self unfolding sql_types_def by metis
  then have "size (snd p) < size m" using size_Attributes [of "fst p" "snd p" m] p(1) by simp
  with size_nodes_of [OF m(1)] show False by simp
qed

definition upserts :: "('d, 'x) pg_env_scheme \<Rightarrow> l8node \<Rightarrow> (string \<Rightarrow> sql_arg list \<Rightarrow> tables \<Rightarrow> tables) \<Rightarrow> bool" where
  "upserts E n effect \<longleftrightarrow> (\<forall>m \<in> set (nodes_of n). \<forall>cols args M.
     let st = ensure_fields E (NewStatement m cols (None :: iquery option)) in
     length args = length (fields_list st) \<longrightarrow>
     effect (insert_sql st) args M = upsert (TypeName m) (fields_list st) args M)"

lemma row_carries_cong: "Attributes k = Attributes m \<Longrightarrow> row_carries E k = row_carries E m"
  by (simp add: fun_eq_iff row_carries_def)

text \<open>The statement of a row of writable data, and what it carries.\<close>

lemma row_statement_carries:
  assumes inv: "orders_ok E" "sql_types E n" "action \<noteq> PATCH"
    and d: "writable E (nodes_of n) d" "tidy (nodes_of n) d" "(tn, cols, r) \<in> set (all_rows d)"
  shows "\<exists>k args. k \<in> set (nodes_of n) \<and> nodeByTypeName E tn = Some k \<and> TypeName k = tn \<and> stmt_node k \<and>
     (let st = ensure_fields E (NewStatement k cols (None :: iquery option)) in
      RowValues E st action r = Inr args \<and> length args = length (fields_list st) \<and>
      row_carries E k (ParentKey r, RecKey r) (table_row (fields_list st) args) (cells_of cols r))"
proof -
  have gm: "go_maps d" using d(1) by (simp add: writable_def)
  obtain pk f rs where rs: "cols = columns_at d tn" "rows_at d tn pk f = Some rs" "r \<in> set rs"
    using d(3) unfolding in_all_rows [OF gm] by blast
  obtain c where c: "columns_at d tn = Some c" using store_inv_rows(1) [OF tidy_inv [OF d(2)] rs(2)] by blast
  obtain m where m: "m \<in> set (nodes_of n)" "TypeName m = tn" "row_survives E m c r"
    using writable_rows [OF d(1) rs(2,3) c] by blast
  obtain k where k: "nodeByTypeName E tn = Some k" "TypeName k = tn" "Attributes k = Attributes m"
    "k \<in> set (nodes_of n)" "stmt_node k"
    using sql_types_node [OF inv(2) m(1)] m(2) by metis
  have "\<forall>p \<in> set (Attributes k). scalar_attr p \<longrightarrow> column_survives E (ColumnValues r) (column_index cols (fst p)) (snd p)"
    using m(3) unfolding row_survives_def k(3) rs(1) c .
  from row_binds [OF inv(1) k(5) inv(3) this, of "None :: iquery option" "scanner E"] k show ?thesis
    by (fastforce simp: row_carries_def cells_of_def Let_def)
qed

text \<open>Writing rows one after the other replaces the rows of their keys.\<close>

definition keyed :: "(string \<times> (string, int32) gomap option \<times> L8OrmRow) list \<Rightarrow> string \<Rightarrow> string \<times> string \<Rightarrow> bool" where
  "keyed rows tn key \<longleftrightarrow> (\<exists>cols r. (tn, cols, r) \<in> set rows \<and> (ParentKey r, RecKey r) = key)"

definition overlaid :: "('d, 'x) pg_env_scheme \<Rightarrow> l8node list \<Rightarrow> content \<Rightarrow> (string \<Rightarrow> string \<times> string \<Rightarrow> bool) \<Rightarrow>
    tables \<Rightarrow> tables \<Rightarrow> bool" where
  "overlaid E N T K M M' \<longleftrightarrow> (\<forall>m \<in> set N. \<forall>key.
     if K (TypeName m) key
     then \<exists>row. M' (TypeName m) key = Some row \<and> row_carries E m key row (the (T (TypeName m) key))
     else M' (TypeName m) key = M (TypeName m) key)"

lemma overlaidD:
  "overlaid E N T K M M' \<Longrightarrow> m \<in> set N \<Longrightarrow>
     (if K (TypeName m) key
      then \<exists>row. M' (TypeName m) key = Some row \<and> row_carries E m key row (the (T (TypeName m) key))
      else M' (TypeName m) key = M (TypeName m) key)"
  unfolding overlaid_def by blast

lemma overlaid_step:
  assumes "sql_types E n" "overlaid E (nodes_of n) T (keyed rows) M M1"
    and "k \<in> set (nodes_of n)" "TypeName k = tn" "T tn (ParentKey r, RecKey r) = Some cells"
    and "row_carries E k (ParentKey r, RecKey r) row cells"
  shows "overlaid E (nodes_of n) T (keyed (rows @ [(tn, cols, r)])) M (M1(tn := (M1 tn)((ParentKey r, RecKey r) \<mapsto> row)))"
  unfolding overlaid_def
proof (intro ballI allI)
  let ?M = "M1(tn := (M1 tn)((ParentKey r, RecKey r) \<mapsto> row))"
  fix m key assume m: "m \<in> set (nodes_of n)"
  have kd: "keyed (rows @ [(tn, cols, r)]) (TypeName m) key \<longleftrightarrow>
      keyed rows (TypeName m) key \<or> TypeName m = tn \<and> key = (ParentKey r, RecKey r)"
    by (auto simp: keyed_def)
  show "if keyed (rows @ [(tn, cols, r)]) (TypeName m) key
      then \<exists>row. ?M (TypeName m) key = Some row \<and> row_carries E m key row (the (T (TypeName m) key))
      else ?M (TypeName m) key = M (TypeName m) key"
  proof (cases "TypeName m = tn \<and> key = (ParentKey r, RecKey r)")
    case True
    moreover have "row_carries E m = row_carries E k"
      using assms(1,3,4) m True unfolding sql_types_def by (metis row_carries_cong)
    moreover have "keyed (rows @ [(tn, cols, r)]) (TypeName m) key" using True unfolding kd by blast
    ultimately show ?thesis using assms(5,6) by simp
  next
    case False
    then have "?M (TypeName m) key = M1 (TypeName m) key"
      "keyed (rows @ [(tn, cols, r)]) (TypeName m) key = keyed rows (TypeName m) key" unfolding kd by auto
    with overlaidD [OF assms(2) m, of key] show ?thesis by presburger
  qed
qed

lemma script_overlays:
  assumes inv: "orders_ok E" "sql_types E n" "action \<noteq> PATCH" "upserts E n effect"
    and d: "writable E (nodes_of n) d" "tidy (nodes_of n) d"
  shows "set rows \<subseteq> set (all_rows d) \<Longrightarrow> \<exists>stmts. collect (row_statement E action) rows = Inr stmts \<and>
     overlaid E (nodes_of n) (content_of d) (keyed rows) M (run_script effect stmts M)"
proof (induction rows rule: rev_induct)
  case Nil
  then show ?case by (simp add: overlaid_def keyed_def)
next
  case (snoc p rows)
  obtain tn cols r where p: "p = (tn, cols, r)" by (cases p)
  have gm: "go_maps d" using d(1) by (simp add: writable_def)
  from snoc obtain stmts where stmts: "collect (row_statement E action) rows = Inr stmts"
    "overlaid E (nodes_of n) (content_of d) (keyed rows) M (run_script effect stmts M)" by auto
  have r: "(tn, cols, r) \<in> set (all_rows d)" using snoc.prems p by simp
  note content = row_content [OF d(2) gm r]
  let ?st = "\<lambda>k. ensure_fields E (NewStatement k cols (None :: iquery option))"
  obtain k args where k: "k \<in> set (nodes_of n)" "nodeByTypeName E tn = Some k" "TypeName k = tn" "stmt_node k"
    "RowValues E (?st k) action r = Inr args" "length args = length (fields_list (?st k))"
    "row_carries E k (ParentKey r, RecKey r) (table_row (fields_list (?st k)) args) (cells_of cols r)"
    using row_statement_carries [OF inv(1-3) d r] by (auto simp: Let_def)
  let ?fs = "fields_list (?st k)" and ?M = "run_script effect stmts M"
  have stmt: "row_statement E action p = Inr (insert_sql (?st k), args)"
    using k(2,5) inv(3) by (simp add: row_statement_def p)
  obtain names where names: "set names = set (scalar_names k)" "sfields (?st k) = Some (key_fields @ names)"
    using fields_known [OF inv(1) k(4)] by metis
  then have fs: "''ParentKey'' \<in> set ?fs" "''RecKey'' \<in> set ?fs" "set (scalar_names k) \<subseteq> set ?fs"
    by (auto simp: fields_list_def key_fields_def)
  define row where "row = (\<lambda>f. if f \<in> set ?fs then table_row ?fs args f
      else (case ?M tn (ParentKey r, RecKey r) of None \<Rightarrow> DNull | Some old \<Rightarrow> old f))"
  have row: "row_carries E k (ParentKey r, RecKey r) row (cells_of cols r)"
    using k(7) fs by (fastforce simp: row_carries_def row_def scalar_names_def)
  have eff: "effect (insert_sql (?st k)) args ?M = ?M(tn := (?M tn)((ParentKey r, RecKey r) \<mapsto> row))"
  proof -
    have "effect (insert_sql (?st k)) args ?M = upsert tn ?fs args ?M"
      using inv(4) k(1,3,6) unfolding upserts_def Let_def by blast
    also have "\<dots> = ?M(tn := (?M tn)((ParentKey r, RecKey r) \<mapsto> row))"
      using k(7) by (auto simp: upsert_def row_carries_def cell_text_def row_def Let_def fun_eq_iff split: option.split)
    finally show ?thesis .
  qed
  have "overlaid E (nodes_of n) (content_of d) (keyed (rows @ [p])) M (effect (insert_sql (?st k)) args ?M)"
    unfolding eff p using overlaid_step [OF inv(2) stmts(2) k(1,3) content(2) row] .
  with stmts(1) stmt show ?case by (simp add: collect_append)
qed

text \<open>All rows of the data together put the content of the data over that of the tables.\<close>

text \<open>
  The database takes over a content: the rows at its keys carry its cells, all others are as
  they were.
\<close>

definition overlays :: "('d, 'x) pg_env_scheme \<Rightarrow> l8node list \<Rightarrow> content \<Rightarrow> tables \<Rightarrow> tables \<Rightarrow> bool" where
  "overlays E N T M M' \<longleftrightarrow> (\<forall>m \<in> set N. \<forall>key.
     (case T (TypeName m) key of
        None \<Rightarrow> M' (TypeName m) key = M (TypeName m) key
      | Some cells \<Rightarrow> \<exists>row. M' (TypeName m) key = Some row \<and> row_carries E m key row cells))"

lemma overlaysD:
  "overlays E N T M M' \<Longrightarrow> m \<in> set N \<Longrightarrow>
     (case T (TypeName m) key of
        None \<Rightarrow> M' (TypeName m) key = M (TypeName m) key
      | Some cells \<Rightarrow> \<exists>row. M' (TypeName m) key = Some row \<and> row_carries E m key row cells)"
  unfolding overlays_def by blast

lemma overlays_empty: "overlays E N (\<lambda>tn. Map.empty) M M"
  by (simp add: overlays_def)

lemma overlays_trans:
  assumes "overlays E N T M M1" "overlays E N U M1 M2"
  shows "overlays E N (join_content T U) M M2"
  unfolding overlays_def
proof (intro ballI allI)
  fix m key assume m: "m \<in> set N"
  show "case join_content T U (TypeName m) key of
      None \<Rightarrow> M2 (TypeName m) key = M (TypeName m) key
    | Some cells \<Rightarrow> \<exists>row. M2 (TypeName m) key = Some row \<and> row_carries E m key row cells"
    using overlaysD [OF assms(1) m, of key] overlaysD [OF assms(2) m, of key]
    by (auto simp: join_content_def map_add_def split: option.splits)
qed

lemma overlays_represents:
  assumes "overlays E N U M M'" "represents E N M T"
  shows "represents E N M' (join_content T U)"
  unfolding represents_def
proof (intro ballI allI)
  fix m key assume m: "m \<in> set N"
  have "case T (TypeName m) key of None \<Rightarrow> M (TypeName m) key = None
      | Some cells \<Rightarrow> \<exists>row. M (TypeName m) key = Some row \<and> row_carries E m key row cells"
    using assms(2) m unfolding represents_def by blast
  then show "case join_content T U (TypeName m) key of None \<Rightarrow> M' (TypeName m) key = None
      | Some cells \<Rightarrow> \<exists>row. M' (TypeName m) key = Some row \<and> row_carries E m key row cells"
    using overlaysD [OF assms(1) m, of key] by (auto simp: join_content_def map_add_def split: option.splits)
qed

lemma overlaid_overlays:
  assumes "writable E N d" "tidy N d" "set rows = set (all_rows d)"
    and "overlaid E N (content_of d) (keyed rows) M M'"
  shows "overlays E N (content_of d) M M'"
  unfolding overlays_def
proof (intro ballI allI)
  fix m key assume m: "m \<in> set N"
  have gm: "go_maps d" using assms(1) by (simp add: writable_def)
  have "keyed rows (TypeName m) key \<longleftrightarrow> content_of d (TypeName m) key \<noteq> None"
  proof
    assume "keyed rows (TypeName m) key"
    then show "content_of d (TypeName m) key \<noteq> None"
      using row_content(2) [OF assms(2) gm] unfolding keyed_def assms(3) by fastforce
  next
    assume "content_of d (TypeName m) key \<noteq> None"
    then show "keyed rows (TypeName m) key"
      using content_row [OF assms(2) gm, of "TypeName m" "fst key" "snd key"]
      unfolding keyed_def assms(3) by (metis prod.collapse)
  qed
  then show "case content_of d (TypeName m) key of
      None \<Rightarrow> M' (TypeName m) key = M (TypeName m) key
    | Some cells \<Rightarrow> \<exists>row. M' (TypeName m) key = Some row \<and> row_carries E m key row cells"
    using overlaidD [OF assms(4) m, of key] by (auto split: option.splits)
qed

end
