(* ===== verification/Pg_Store.thy ===== *)
theory Pg_Store
  imports Pg_Content Pg_Read_Correct
begin

text \<open>
  Writing objects to a database that holds others: a write either reports success, and the
  database holds the new objects too, or an error, and it holds those of the batches before.
\<close>

section \<open>Outcomes\<close>

text \<open>An action that never panics, and that succeeds if \<open>ok\<close>.\<close>

definition fine :: "bool \<Rightarrow> ('a, 'd) act \<Rightarrow> bool" where
  "fine ok m \<longleftrightarrow> (\<forall>d. (\<forall>e. fst (m d) \<noteq> Inl (Panic e)) \<and> (ok \<longrightarrow> (\<exists>x. fst (m d) = Inr x)))"

lemma fine_ret [intro]: "fine ok (ret (Inr x))"
  by (simp add: fine_def ret_def)

lemma fine_bind [intro]:
  assumes "fine ok m" "\<And>x d d'. m d = (Inr x, d') \<Longrightarrow> fine ok (f x)"
  shows "fine ok (abind m f)"
  unfolding fine_def
proof (intro allI)
  fix d
  obtain r d' where r: "m d = (r, d')" by fastforce
  with assms(1) have "(\<forall>e. r \<noteq> Inl (Panic e)) \<and> (ok \<longrightarrow> (\<exists>x. r = Inr x))"
    unfolding fine_def by (metis fst_conv)
  moreover have "(\<forall>e. fst (f x d') \<noteq> Inl (Panic e)) \<and> (ok \<longrightarrow> (\<exists>y. fst (f x d') = Inr y))" if "r = Inr x" for x
    using assms(2) [of d x d'] r that unfolding fine_def by blast
  ultimately show "(\<forall>e. fst (abind m f d) \<noteq> Inl (Panic e)) \<and> (ok \<longrightarrow> (\<exists>x. fst (abind m f d) = Inr x))"
    using r by (cases r) (auto simp: abind_def)
qed

lemma fine_fold [intro]:
  assumes "\<And>s x. x \<in> set xs \<Longrightarrow> fine ok (f s x)"
  shows "fine ok (afold f s xs)"
  using assms by (induction xs arbitrary: s) auto

lemma fine_bracket [intro]:
  assumes "fine ok (begin_tx db)" "fine ok body"
  shows "fine ok (bracket db rb body)"
  unfolding fine_def
proof (intro allI)
  fix d
  obtain r d' where r: "begin_tx db d = (r, d')" by fastforce
  obtain b d'' where b: "body d' = (b, d'')" by fastforce
  have "(\<forall>e. r \<noteq> Inl (Panic e)) \<and> (ok \<longrightarrow> (\<exists>x. r = Inr x))" "(\<forall>e. b \<noteq> Inl (Panic e)) \<and> (ok \<longrightarrow> (\<exists>x. b = Inr x))"
    using assms r b unfolding fine_def by (metis fst_conv)+
  then show "(\<forall>e. fst (bracket db rb body d) \<noteq> Inl (Panic e)) \<and> (ok \<longrightarrow> (\<exists>x. fst (bracket db rb body d) = Inr x))"
    using r b by (cases r; cases b) (auto simp: bracket_def split: go_err.split)
qed

text \<open>
  Operations of \<open>database/sql\<close> report failures as errors; the database may accept all rows of
  a type.
\<close>

definition never_panics :: "'d database \<Rightarrow> bool" where
  "never_panics db \<longleftrightarrow> (\<forall>d m. fst (begin_tx db d) \<noteq> Inl (Panic m) \<and> (\<forall>sql. prepare db d sql \<noteq> Inl (Panic m)) \<and>
     (\<forall>sql args. fst (exec_stmt db sql args d) \<noteq> Inl (Panic m) \<and> query_rows db d sql args \<noteq> Inl (Panic m)))"

definition insert_text :: "'a env_scheme \<Rightarrow> l8node \<Rightarrow> string" where
  "insert_text E m = insert_sql (ensure_fields E (NewStatement m None (None :: iquery option)))"

definition accepts_rows :: "('d, 'x) pg_env_scheme \<Rightarrow> l8node \<Rightarrow> bool" where
  "accepts_rows E n \<longleftrightarrow> (\<forall>d. \<exists>u. fst (begin_tx (dbase E) d) = Inr u) \<and>
     (\<forall>m \<in> set (nodes_of n). \<forall>d. prepare (dbase E) d (insert_text E m) = Inr () \<and>
        (\<forall>args. \<exists>u. fst (exec_stmt (dbase E) (insert_text E m) args d) = Inr u))"

lemma insert_text_columns:
  "insert_sql (ensure_fields E (NewStatement m cols (None :: iquery option))) = insert_text E m"
  by (simp add: insert_text_def insert_sql_def ensure_fields_def NewStatement_def fields_list_def Let_def split: prod.split)

lemma fine_begin:
  assumes "never_panics (dbase E)"
  shows "fine (accepts_rows E n) (begin_tx (dbase E))"
  using assms by (simp add: fine_def never_panics_def accepts_rows_def)

lemma fine_insert:
  assumes "never_panics (dbase E)" "m \<in> set (nodes_of n)"
  shows "fine (accepts_rows E n) (exec_stmt (dbase E) (insert_text E m) args)"
  using assms by (simp add: fine_def never_panics_def accepts_rows_def)

section \<open>Writing relational data\<close>

lemma writable_table:
  assumes "orders_ok E" "writable E (nodes_of n) d" "(tn, t) \<in> set (Tables d)" "r \<in> set (written_rows E tn t)"
  shows "(tn, Columns t, r) \<in> set (all_rows d)"
proof -
  have "table_maps t" using assms(2,3) by (auto simp: writable_def go_maps_tables)
  then have "mset (written_rows E tn t) = mset (table_rows t)"
    by (intro mset_written_rows [OF assms(1)]) (auto simp: table_maps_def)
  then have "r \<in> set (table_rows t)" using assms(4) by (auto dest: mset_eq_setD)
  then have "(tn, Columns t, r) \<in> set ((\<lambda>(tn, t). map (\<lambda>r. (tn, Columns t, r)) (table_rows t)) (tn, t))" by simp
  with assms(3) show ?thesis unfolding all_rows_def set_concat set_map by blast
qed

lemma write_table_fine:
  assumes inv: "orders_ok E" "sql_types E n" "action \<noteq> PATCH" "never_panics (dbase E)"
    and d: "writable E (nodes_of n) d" "tidy (nodes_of n) d" "(tn, t) \<in> set (Tables d)"
  shows "fine (accepts_rows E n) (write_table E action (tn, t))"
proof -
  have "tn \<in> tnames d" using d(3) by (force simp: tnames_def gkeys_def)
  then obtain m where "m \<in> set (nodes_of n)" "TypeName m = tn" using d(1) by (auto simp: writable_def)
  then obtain k where k: "nodeByTypeName E tn = Some k" "k \<in> set (nodes_of n)"
    using sql_types_node [OF inv(2)] by metis
  let ?st = "ensure_fields E (NewStatement k (Columns t) (None :: iquery option))"
  have ins: "write_statement E action s (NewStatement k (Columns t) None) =
      rbind (prepare (dbase E) s (insert_text E k)) (\<lambda>_. Inr (insert_text E k, ?st\<lparr>insertStmt := Some (insert_text E k)\<rparr>))" for s
    using inv(3) by (simp add: write_statement_def InsertStatement_def NewStatement_def Let_def
        insert_text_columns [unfolded NewStatement_def])
  have row: "fine (accepts_rows E n) (write_row E action (insert_text E k) (?st\<lparr>insertStmt := Some (insert_text E k)\<rparr>) r)"
    if r: "r \<in> set (written_rows E tn t)" for r
  proof -
    obtain args where "RowValues E ?st action r = Inr args"
      using row_statement_carries [OF inv(1-3) d(1,2) writable_table [OF inv(1) d(1,3) r]] k(1)
      by (auto simp: Let_def)
    then show ?thesis using fine_insert [OF inv(4) k(2)] by (auto simp: write_row_def)
  qed
  have fine: "fine (accepts_rows E n) (reading (\<lambda>s. write_statement E action s (NewStatement k (Columns t) None)))"
    using inv(4) k(2) unfolding ins
    by (auto simp: fine_def reading_def rbind_def never_panics_def accepts_rows_def split: sum.split)
  show ?thesis
    unfolding write_table_def prod.case k(1) option.case write_loops
  proof (rule fine_bind [OF fine])
    fix x s s'
    assume "reading (\<lambda>s. write_statement E action s (NewStatement k (Columns t) None)) s = (Inr x, s')"
    then have x: "x = (insert_text E k, ?st\<lparr>insertStmt := Some (insert_text E k)\<rparr>)"
      unfolding ins by (auto simp: reading_def rbind_eq_Inr)
    show "fine (accepts_rows E n) (case x of (sql, st) \<Rightarrow>
        afold (\<lambda>u row. write_row E action sql st row) () (written_rows E tn t))"
      unfolding x prod.case by (rule fine_fold) (rule row)
  qed
qed

lemma writeData_fine:
  assumes inv: "orders_ok E" "sql_types E n" "action \<noteq> PATCH" "never_panics (dbase E)"
    and d: "writable E (nodes_of n) d" "tidy (nodes_of n) d"
  shows "fine (accepts_rows E n) (writeData E action d)"
  unfolding writeData_def write_body_def
proof (intro fine_bracket fine_begin [OF inv(4)] fine_fold)
  fix s tt assume "tt \<in> set (range_loop (rng E (''writeData:Tables'', RootTypeName d)) (Tables d))"
  then have "tt \<in> set (Tables d)" by (metis range_loop_in prod.collapse)
  then show "fine (accepts_rows E n) (write_table E action tt)"
    using write_table_fine [OF inv d, of "fst tt" "snd tt"] by simp
qed

section \<open>One batch\<close>

text \<open>
  What the program relies on: types as the introspector gives them, transactions, the upsert,
  errors instead of panics, and commits that succeed, because their errors are not reported.
\<close>

definition store_ok ::
    "('d, 'x) pg_env_scheme \<Rightarrow> l8node \<Rightarrow> ('d \<Rightarrow> tables) \<Rightarrow> ('d \<Rightarrow> tables) \<Rightarrow>
     (string \<Rightarrow> sql_arg list \<Rightarrow> tables \<Rightarrow> tables) \<Rightarrow> bool" where
  "store_ok E n kept seen effect \<longleftrightarrow>
     orders_ok E \<and> wf_tree n \<and> sql_types E n \<and> transactional (dbase E) kept seen effect \<and> upserts E n effect \<and>
     never_panics (dbase E) \<and> (\<forall>d. fst (commit_tx (dbase E) d) = Inr ())"

text \<open>The tables of the type are verified, as they are after its first use.\<close>

definition tables_ready :: "('d, 'x) pg_env_scheme \<Rightarrow> l8node \<Rightarrow> 'd pg \<Rightarrow> bool" where
  "tables_ready E n s \<longleftrightarrow> (\<forall>k. nodeByTypeName E (TypeName n) = Some k \<longrightarrow>
     set (gkeys (collectTables E k [])) \<subseteq> set (gkeys (verifyed s)))"

lemma roots_ok_part: "roots_ok E n (ys @ zs @ us) \<Longrightarrow> zs \<noteq> [] \<Longrightarrow> roots_ok E n zs"
  by (auto simp: roots_ok_def)

lemma keys_ok_part: "keys_ok E n (ys @ zs) \<Longrightarrow> keys_ok E n ys"
  by (simp add: keys_ok_def)

text \<open>Success, and the content taken over; or an error, and nothing changed.\<close>

definition takes_over ::
    "('d, 'x) pg_env_scheme \<Rightarrow> l8node \<Rightarrow> content \<Rightarrow> unit res \<Rightarrow> tables \<Rightarrow> tables \<Rightarrow> bool" where
  "takes_over E n T r M M' \<longleftrightarrow>
     (r = Inr () \<and> overlays E (nodes_of n) T M M' \<or> (\<exists>m. r = Inl (Err m)) \<and> M' = M) \<and>
     (accepts_rows E n \<longrightarrow> r = Inr ())"

lemma writeData_store:
  assumes S: "store_ok E n kept seen effect" and action: "action \<noteq> PATCH"
    and d: "writable E (nodes_of n) d" "tidy (nodes_of n) d"
    and run: "writeData E action d s = (r, s')"
  shows "takes_over E n (content_of d) r (kept s) (kept s')"
proof -
  have E: "orders_ok E" "sql_types E n" "transactional (dbase E) kept seen effect" "upserts E n effect"
    "never_panics (dbase E)" "\<And>d. fst (commit_tx (dbase E) d) = Inr ()"
    using S by (simp_all add: store_ok_def)
  have fine: "(\<forall>e. r \<noteq> Inl (Panic e)) \<and> (accepts_rows E n \<longrightarrow> (\<exists>x. r = Inr x))"
    using writeData_fine [OF E(1,2) action E(5) d] run unfolding fine_def by (metis fst_conv)
  show ?thesis
  proof (cases r)
    case (Inl e)
    with fine obtain m where m: "r = Inl (Err m)" by (cases e) auto
    with run have "kept s' = kept s"
      using writing.error_keeps [OF E(3)] unfolding writeData_def by blast
    with m fine show ?thesis by (auto simp: takes_over_def)
  next
    case (Inr u)
    have gm: "go_maps d" using d(1) by (simp add: writable_def)
    obtain rows stmts e where rows: "mset rows = mset (all_rows d)" "collect (row_statement E action) rows = Inr stmts"
      "fst (commit_tx (dbase E) e) = Inr () \<longrightarrow> kept s' = run_script effect stmts (kept s)"
      using writeData_script [OF E(3,1) gm, of action s u s'] run Inr by auto
    have set: "set rows = set (all_rows d)" using rows(1) by (rule mset_eq_setD)
    have "overlaid E (nodes_of n) (content_of d) (keyed rows) (kept s) (run_script effect stmts (kept s))"
      using script_overlays [OF E(1,2) action E(4) d, of rows "kept s"] rows(2) set by simp
    then have "overlaid E (nodes_of n) (content_of d) (keyed rows) (kept s) (kept s')" using rows(3) E(6) by simp
    with overlaid_overlays [OF d set] Inr show ?thesis by (simp add: takes_over_def)
  qed
qed

lemma write_batch_store:
  assumes S: "store_ok E n kept seen effect" and action: "action \<noteq> PATCH"
    and zs: "roots_ok E n zs" "\<forall>z \<in> set zs. sql_ready E n z" "length zs = 1 \<or> length ks = length zs"
    and s: "tables_ready E n s"
    and run: "write_batch E action \<lparr>Element = Some (hd zs), Elements = map Some zs, Keys = ks\<rparr> s = (r, s')"
  shows "(\<exists>T. holds E n zs T \<and> takes_over E n T r (kept (dbState s)) (kept (dbState s'))) \<and> verifyed s' = verifyed s"
proof -
  have E: "orders_ok E" "wf_tree n" "sql_types E n" using S by (simp_all add: store_ok_def)
  obtain d where d: "ConvertTo E action (Some \<lparr>Element = Some (hd zs), Elements = map Some zs, Keys = ks\<rparr>) = Some (Inr d)"
    "tidy (nodes_of n) d" "RootTypeName d = TypeName n" "holds E n zs (content_of d)"
    using ConvertTo_holds [OF E(1,2) action zs(1,3) sql_types_own [OF E(3)]] by blast
  have w: "writable E (nodes_of n) d" by (rule ConvertTo_writable [OF E(1,2) action zs(1,2) d(1)])
  obtain k where k: "nodeByTypeName E (TypeName n) = Some k" using sql_types_node [OF E(3) nodes_of_self] by metis
  have ver: "verifyTables E k s = (Inr (), s)"
    using s k by (intro verifyTables_done E(1)) (simp add: tables_ready_def)
  obtain r0 e where wd: "writeData E action d (dbState s) = (r0, e)" by fastforce
  have ts: "TsData d = []" using w by (simp add: writable_def)
  have "write_batch E action \<lparr>Element = Some (hd zs), Elements = map Some zs, Keys = ks\<rparr> s = (r0, s\<lparr>dbState := e\<rparr>)"
    using d(1,3) k ver wd ts
    by (cases r0) (simp_all add: write_batch_def ret_def WriteRelational_def abind_def on_db_def writeTsData_def)
  with run have "r = r0" "s' = s\<lparr>dbState := e\<rparr>" by simp_all
  with writeData_store [OF S action w d(2) wd] d(4) show ?thesis by auto
qed

section \<open>All batches\<close>

text \<open>\<open>object.New\<close> of a list: its elements, the first of them, a key for each.\<close>

definition object_new_ok :: "('d, 'x) pg_env_scheme \<Rightarrow> bool" where
  "object_new_ok E \<longleftrightarrow> (\<forall>x xs. \<exists>ks. length ks = length (x # xs) \<and>
     objectNew E (x # xs) = \<lparr>Element = x, Elements = x # xs, Keys = ks\<rparr>)"

lemma tables_ready_cong: "verifyed s' = verifyed s \<Longrightarrow> tables_ready E n s' = tables_ready E n s"
  by (simp add: tables_ready_def)

text \<open>
  What a sequence of writes promises: a number of pieces is taken over, all of them on success.
\<close>

definition stores ::
    "('d, 'x) pg_env_scheme \<Rightarrow> l8node \<Rightarrow> ('d \<Rightarrow> tables) \<Rightarrow> gval list list \<Rightarrow> 'd pg \<Rightarrow> unit res \<times> 'd pg \<Rightarrow> bool" where
  "stores E n kept bs s out \<longleftrightarrow>
     (\<exists>j \<le> length bs. \<exists>T. holds E n (concat (take j bs)) T \<and>
        overlays E (nodes_of n) T (kept (dbState s)) (kept (dbState (snd out))) \<and>
        (if j = length bs then fst out = Inr () else \<exists>m. fst out = Inl (Err m))) \<and>
     (accepts_rows E n \<longrightarrow> fst out = Inr ()) \<and> verifyed (snd out) = verifyed s"

lemma holds_none: "holds E n [] (\<lambda>tn. Map.empty)"
  by (simp add: holds_def confined_def)

lemma stores_failed:
  assumes "bs \<noteq> []" "r \<noteq> Inr ()" "takes_over E n T r (kept (dbState s)) (kept (dbState s'))" "verifyed s' = verifyed s"
  shows "stores E n kept bs s (r, s')"
  using assms holds_none [of E n] overlays_empty [of E "nodes_of n" "kept (dbState s)"]
  unfolding stores_def takes_over_def
  by (intro conjI exI [of _ 0] exI [of _ "\<lambda>tn. Map.empty"]) auto

lemma batches_store:
  assumes S: "store_ok E n kept seen effect" "object_new_ok E" and action: "action \<noteq> PATCH"
  shows "bs \<noteq> [] \<longrightarrow> roots_ok E n (concat bs) \<Longrightarrow> \<forall>b \<in> set bs. b \<noteq> [] \<Longrightarrow> \<forall>z \<in> set (concat bs). sql_ready E n z \<Longrightarrow>
    tables_ready E n s \<Longrightarrow>
    stores E n kept bs s (afold (\<lambda>u b. write_batch E action (objectNew E (map Some b))) () bs s)"
proof (induction bs arbitrary: s)
  case Nil
  then show ?case
    unfolding stores_def by (intro conjI exI [of _ 0] exI [of _ "\<lambda>tn. Map.empty"])
      (simp_all add: ret_def holds_none overlays_empty)
next
  case (Cons b bs)
  obtain z b' where b: "b = z # b'" using Cons.prems(2) by (cases b) auto
  obtain ks where ks: "length ks = length b" "objectNew E (map Some b) = \<lparr>Element = Some (hd b), Elements = map Some b, Keys = ks\<rparr>"
    using S(2) [unfolded object_new_ok_def, rule_format, of "Some z" "map Some b'"] by (auto simp: b)
  have "bs \<noteq> [] \<longrightarrow> concat bs \<noteq> []" using Cons.prems(2) by (cases bs) auto
  then have roots: "roots_ok E n b" "bs \<noteq> [] \<longrightarrow> roots_ok E n (concat bs)"
    using Cons.prems(1,2) roots_ok_part [of E n "[]" b "concat bs"] roots_ok_part [of E n b "concat bs" "[]"] by simp_all
  obtain r s1 where run: "write_batch E action (objectNew E (map Some b)) s = (r, s1)" by fastforce
  obtain T where one: "holds E n b T" "takes_over E n T r (kept (dbState s)) (kept (dbState s1))" "verifyed s1 = verifyed s"
    using write_batch_store [OF S(1) action roots(1) _ _ Cons.prems(4) run [unfolded ks(2)]] Cons.prems(3) ks(1) by auto
  show ?case
  proof (cases r)
    case (Inl e)
    then have "afold (\<lambda>u b. write_batch E action (objectNew E (map Some b))) () (b # bs) s = (r, s1)"
      using run by (simp add: abind_def)
    with one Inl show ?thesis by (auto intro!: stores_failed)
  next
    case (Inr u)
    let ?rest = "afold (\<lambda>u b. write_batch E action (objectNew E (map Some b))) () bs s1"
    have run': "afold (\<lambda>u b. write_batch E action (objectNew E (map Some b))) () (b # bs) s = ?rest"
      using run Inr by (simp add: abind_def)
    have "stores E n kept bs s1 ?rest"
      using Cons.prems roots(2) one(3) by (intro Cons.IH) (simp_all add: tables_ready_cong [of s1 s])
    then obtain j U where j: "j \<le> length bs" "holds E n (concat (take j bs)) U"
      "overlays E (nodes_of n) U (kept (dbState s1)) (kept (dbState (snd ?rest)))"
      "if j = length bs then fst ?rest = Inr () else \<exists>m. fst ?rest = Inl (Err m)"
      "accepts_rows E n \<longrightarrow> fst ?rest = Inr ()" "verifyed (snd ?rest) = verifyed s1"
      by (auto simp: stores_def)
    have "keys_ok E n (concat (b # bs))" using Cons.prems(1) by (auto intro: roots_keys_ok)
    then have "keys_ok E n (b @ concat (take j bs))"
      using keys_ok_part [of E n "b @ concat (take j bs)" "concat (drop j bs)"]
      by (metis append.assoc append_take_drop_id concat.simps(2) concat_append)
    from holds_join [OF this one(1) j(2)] have "holds E n (concat (take (Suc j) (b # bs))) (join_content T U)" by simp
    moreover have "overlays E (nodes_of n) (join_content T U) (kept (dbState s)) (kept (dbState (snd ?rest)))"
      using one(2) Inr j(3) by (auto simp: takes_over_def intro: overlays_trans)
    ultimately show ?thesis
      unfolding run' stores_def using j one(3)
      by (intro conjI exI [of _ "Suc j"] exI [of _ "join_content T U"]) simp_all
  qed
qed

lemma batches_map: "batches (map f xs) = map (map f) (batches xs)"
proof (induction xs rule: batches.induct)
  case (1 xs)
  then show ?case
    by (subst batches.simps, subst (2) batches.simps) (simp add: take_map drop_map)
qed

lemma take_batches: "concat (take j (batches xs)) = take (batchSize * j) xs"
proof (induction xs arbitrary: j rule: batches.induct)
  case (1 xs)
  show ?case
  proof (cases j)
    case (Suc i)
    with 1 show ?thesis by (subst batches.simps) (simp add: take_add)
  qed simp
qed

lemma length_batches: "j < length (batches xs) \<longleftrightarrow> batchSize * j < length xs"
proof (induction xs arbitrary: j rule: batches.induct)
  case (1 xs)
  show ?case
  proof (cases "xs = []")
    case False
    then have "length (batches xs) = Suc (length (batches (drop batchSize xs)))" by (subst batches.simps) simp
    with False 1 show ?thesis by (cases j) (simp_all add: less_diff_conv add.commute)
  qed (simp add: batches.simps)
qed

lemma Write_overlays:
  assumes S: "store_ok E n kept seen effect" "object_new_ok E" and action: "action \<noteq> PATCH"
    and zs: "roots_ok E n zs" "\<forall>z \<in> set zs. sql_ready E n z" "length ks = length zs" and s: "tables_ready E n s"
  shows "\<exists>j T r s'. Write E now action \<lparr>Element = Some (hd zs), Elements = map Some zs, Keys = ks\<rparr> s = (r, s') \<and>
     holds E n (take (500 * j) zs) T \<and> overlays E (nodes_of n) T (kept (dbState s)) (kept (dbState s')) \<and>
     (if length zs \<le> 500 * j then r = Inr () else \<exists>m. r = Inl (Err m)) \<and>
     (accepts_rows E n \<longrightarrow> r = Inr ()) \<and> tables_ready E n s'"
proof -
  let ?elems = "\<lparr>Element = Some (hd zs), Elements = map Some zs, Keys = ks\<rparr>"
  define bs where "bs = (if length zs \<le> 500 then [zs] else batches zs)"
  define m where "m = (if length zs \<le> 500 then write_batch E action ?elems
      else afold (\<lambda>u b. write_batch E action (objectNew E (map Some b))) () bs)"
  have ne: "zs \<noteq> []" using zs(1) by (simp add: roots_ok_def)
  have bs: "concat bs = zs" "\<forall>b \<in> set bs. b \<noteq> []"
    using batches_pieces [where xs = zs] ne by (auto simp: bs_def)
  have "stores E n kept bs s (m s)"
  proof (cases "length zs \<le> 500")
    case True
    obtain r s' where r: "write_batch E action ?elems s = (r, s')" by fastforce
    obtain T where T: "holds E n zs T" "takes_over E n T r (kept (dbState s)) (kept (dbState s'))" "verifyed s' = verifyed s"
      using write_batch_store [OF S(1) action zs(1,2) _ s r] zs(3) by auto
    show ?thesis
    proof (cases "r = Inr ()")
      case ok: True
      with T True r show ?thesis
        unfolding stores_def m_def bs_def by (intro conjI exI [of _ 1] exI [of _ T]) (simp_all add: takes_over_def)
    next
      case False
      with T True r show ?thesis by (auto simp: m_def bs_def intro: stores_failed)
    qed
  next
    case False
    then show ?thesis
      using batches_store [OF S action, of bs s] bs zs(1,2) s by (simp add: m_def)
  qed
  then obtain j T where j: "j \<le> length bs" "holds E n (concat (take j bs)) T"
    "overlays E (nodes_of n) T (kept (dbState s)) (kept (dbState (snd (m s))))"
    "if j = length bs then fst (m s) = Inr () else \<exists>e. fst (m s) = Inl (Err e)"
    "accepts_rows E n \<longrightarrow> fst (m s) = Inr ()" "verifyed (snd (m s)) = verifyed s"
    by (auto simp: stores_def)
  have pieces: "concat (take j bs) = take (500 * j) zs \<and> (j = length bs \<longleftrightarrow> length zs \<le> 500 * j)"
  proof (cases "length zs \<le> 500")
    case True
    with j(1) ne show ?thesis by (cases j) (auto simp: bs_def)
  next
    case False
    with j(1) length_batches [of j zs] take_batches [of j zs] show ?thesis
      by (auto simp: bs_def batchSize_def)
  qed
  have "Write E now action ?elems s = finally_invalidate now m s"
    by (simp add: Write_def m_def bs_def write_batches_eq batches_map afold_map batchSize_def finally_invalidate_def)
  moreover obtain r s' where ms: "m s = (r, s')" by fastforce
  ultimately have w: "Write E now action ?elems s = (r, s'\<lparr>pgIndex := invalidateIndex now (pgIndex s')\<rparr>)"
    by (simp add: finally_invalidate_def)
  moreover have "tables_ready E n (s'\<lparr>pgIndex := invalidateIndex now (pgIndex s')\<rparr>)"
    using j(6) ms s by (simp add: tables_ready_def)
  ultimately show ?thesis
    using j(2-5) pieces ms
    by (intro exI [of _ j] exI [of _ T] exI [of _ r] exI [of _ "s'\<lparr>pgIndex := invalidateIndex now (pgIndex s')\<rparr>"])
      (simp split: if_splits)
qed

lemma Write_store:
  assumes S: "store_ok E n kept seen effect" "object_new_ok E" and action: "action \<noteq> PATCH"
    and zs: "roots_ok E n (ys @ zs)" "zs \<noteq> []" "\<forall>z \<in> set zs. sql_ready E n z" "length ks = length zs"
    and s: "tables_ready E n s" "db_holds E n ys (kept (dbState s))"
  shows "\<exists>j r s'. Write E now action \<lparr>Element = Some (hd zs), Elements = map Some zs, Keys = ks\<rparr> s = (r, s') \<and>
     db_holds E n (ys @ take (500 * j) zs) (kept (dbState s')) \<and>
     (if length zs \<le> 500 * j then r = Inr () else \<exists>m. r = Inl (Err m)) \<and>
     (accepts_rows E n \<longrightarrow> r = Inr ()) \<and> tables_ready E n s'"
proof -
  have roots: "roots_ok E n zs" using roots_ok_part [of E n ys zs "[]"] zs(1,2) by simp
  obtain j T r s' where w: "Write E now action \<lparr>Element = Some (hd zs), Elements = map Some zs, Keys = ks\<rparr> s = (r, s')"
    "holds E n (take (500 * j) zs) T" "overlays E (nodes_of n) T (kept (dbState s)) (kept (dbState s'))"
    "if length zs \<le> 500 * j then r = Inr () else \<exists>m. r = Inl (Err m)"
    "accepts_rows E n \<longrightarrow> r = Inr ()" "tables_ready E n s'"
    using Write_overlays [OF S action roots zs(3,4) s(1)] by blast
  obtain U where U: "holds E n ys U" "represents E (nodes_of n) (kept (dbState s)) U"
    using s(2) by (auto simp: db_holds_def)
  have "keys_ok E n ((ys @ take (500 * j) zs) @ drop (500 * j) zs)" using roots_keys_ok [OF zs(1)] by simp
  then have "keys_ok E n (ys @ take (500 * j) zs)" by (rule keys_ok_part)
  from holds_join [OF this U(1) w(2)] overlays_represents [OF w(3) U(2)]
  have "db_holds E n (ys @ take (500 * j) zs) (kept (dbState s'))" by (auto simp: db_holds_def)
  with w show ?thesis by blast
qed

end
