(* ===== verification/Pg_Load.thy ===== *)
theory Pg_Load
  imports Pg_Store Convert_Schema_Correct
begin

text \<open>
  Reading objects back: an unrestricted query delivers the rows of every table in some order,
  they are decoded and put in their places, and the data presents the content of the tables.
\<close>

section \<open>What the database delivers\<close>

definition select_fields :: "'a env_scheme \<Rightarrow> l8node \<Rightarrow> string list" where
  "select_fields E m = fields_list (ensure_fields E (NewStatement m None (None :: iquery option)))"

definition select_text :: "'a env_scheme \<Rightarrow> l8node \<Rightarrow> string" where
  "select_text E m = join_loop '','' True (select_fields E m) ''Select '' @ '' from '' @ TypeName m"

text \<open>
  The condition of a query on its root table, and the text of its select for a table: only
  that of the root has the condition and the order.
\<close>

definition root_condition :: "iquery \<Rightarrow> (bool \<times> string) res" where
  "root_condition q =
     (if Criteria q = NilIface then Inr (False, []) else expression_sql (Criteria q) (TypeName (RootType q)))"

definition clause :: "string \<Rightarrow> iquery \<Rightarrow> string" where
  "clause keyword q = (case root_condition q of Inr (True, c) \<Rightarrow> keyword @ c | _ \<Rightarrow> [])"

definition query_text :: "'a env_scheme \<Rightarrow> iquery \<Rightarrow> l8node \<Rightarrow> string" where
  "query_text E q m = select_text E m @
     (if Criteria q \<noteq> NilIface \<and> root_table q (TypeName m) then clause '' where '' q @ order_by q else [])"

lemma where_condition:
  assumes "root_condition q = Inr x" "Criteria q \<noteq> NilIface"
  shows "where_clause keyword (Criteria q) q = Inr (clause keyword q)"
  using assms by (cases x) (auto simp: where_clause_def clause_def root_condition_def split: bool.split)

text \<open>
  A select fails, or delivers every row of the view that the query has on the table once, in
  some order, with the columns of its list.
\<close>

definition delivers :: "('d, 'x) pg_env_scheme \<Rightarrow> l8node \<Rightarrow> iquery \<Rightarrow> ('d \<Rightarrow> tables) \<Rightarrow> bool" where
  "delivers E n q view \<longleftrightarrow> (\<forall>m \<in> set (nodes_of n). \<forall>d rows err.
     query_rows (dbase E) d (query_text E q m) [] = Inr (rows, err) \<longrightarrow>
     (\<exists>ks. distinct ks \<and> set ks = dom (view d (TypeName m)) \<and>
        rows = map (\<lambda>k. map (the (view d (TypeName m) k)) (select_fields E m)) ks))"

text \<open>A view in which the condition, of which \<open>match\<close> tells the rows it is true of, selects rows of the root.\<close>

definition picked :: "l8node \<Rightarrow> ((string \<Rightarrow> drv) \<Rightarrow> bool) \<Rightarrow> tables \<Rightarrow> tables" where
  "picked n match M tn key =
     (case M tn key of
        None \<Rightarrow> None
      | Some row \<Rightarrow> if tn = TypeName n \<and> \<not> match row then None else Some row)"

definition accepts_reads :: "('d, 'x) pg_env_scheme \<Rightarrow> l8node \<Rightarrow> iquery \<Rightarrow> bool" where
  "accepts_reads E n q \<longleftrightarrow> (\<forall>d. \<exists>u. fst (begin_tx (dbase E) d) = Inr u) \<and>
     (\<forall>m \<in> set (nodes_of n). \<forall>d. prepare (dbase E) d (query_text E q m) = Inr () \<and>
        (\<exists>rows. query_rows (dbase E) d (query_text E q m) [] = Inr rows))"

text \<open>
  A query for whole objects of the root type, whose condition has an SQL text, and one that is
  read directly, without pages.
\<close>

definition whole_query :: "l8node \<Rightarrow> iquery \<Rightarrow> bool" where
  "whole_query n q \<longleftrightarrow> RootType q = n \<and> Properties q = [] \<and> (\<exists>x. root_condition q = Inr x) \<and> Aggregates q = []"

definition plain_query :: "l8node \<Rightarrow> iquery \<Rightarrow> bool" where
  "plain_query n q \<longleftrightarrow> whole_query n q \<and> \<not> IsAggregate q \<and> \<not> 0 < sint (Limit q)"

lemma plain_whole: "plain_query n q \<Longrightarrow> whole_query n q"
  by (simp add: plain_query_def)

section \<open>One table\<close>

text \<open>Rows that decode the content of a table.\<close>

definition decodes :: "content \<Rightarrow> l8node \<Rightarrow> (string, int32) gomap \<Rightarrow> L8OrmRow list \<Rightarrow> bool" where
  "decodes T m c rows \<longleftrightarrow> distinct (map (\<lambda>r. (ParentKey r, RecKey r)) rows) \<and>
     (\<lambda>r. (ParentKey r, RecKey r)) ` set rows = dom (T (TypeName m)) \<and>
     (\<forall>r \<in> set rows. \<forall>a \<in> set (scalar_names m).
        cells_of (Some c) r a = the (T (TypeName m) (ParentKey r, RecKey r)) a)"

lemma Row_cached: "Row E C (st\<lparr>selectStmt := x\<rparr>) = Row E C st"
proof -
  have "store_column E C (st\<lparr>selectStmt := x\<rparr>) = store_column E C st"
    by (simp add: fun_eq_iff store_column_def cong: option.case_cong)
  moreover have "fields_list (st\<lparr>selectStmt := x\<rparr>) = fields_list st" "NewArgs E (st\<lparr>selectStmt := x\<rparr>) = NewArgs E st"
    by (simp_all add: NewArgs_def fields_list_def)
  ultimately show ?thesis by (intro ext) (simp add: Row_def)
qed

lemma select_fields_columns:
  "fields_list (ensure_fields E (NewStatement m cols q)) = select_fields E m"
  by (simp add: select_fields_def ensure_fields_def NewStatement_def fields_list_def Let_def split: prod.split)

text \<open>The rows of a table are decoded.\<close>

lemma readRows_decodes:
  assumes inv: "orders_ok E" "stmt_node k" "TypeName k = TypeName m" "Attributes k = Attributes m"
    and c: "inj_on (column_index (Some c)) (set (scalar_names m))"
    and rep: "\<And>key. case T (TypeName m) key of
        None \<Rightarrow> M (TypeName m) key = None
      | Some cells \<Rightarrow> \<exists>row. M (TypeName m) key = Some row \<and> row_carries E m key row cells"
    and ks: "distinct ks" "set ks = dom (M (TypeName m))"
  shows "\<exists>rows. readRows E (ensure_fields E (NewStatement k (Some c) (Some q)))
       (map (\<lambda>key. map (the (M (TypeName m) key)) (select_fields E k)) ks) = Inr rows \<and> decodes T m c rows"
proof -
  let ?st = "ensure_fields E (NewStatement k (Some c) (Some q))"
  have names: "scalar_names k = scalar_names m" by (simp add: scalar_names_def inv(4))
  have one: "\<exists>r. Row E (scanner E) ?st (map (the (M (TypeName m) key)) (select_fields E k)) = Inr r \<and>
      (ParentKey r, RecKey r) = key \<and>
      (\<forall>a \<in> set (scalar_names m). cells_of (Some c) r a = the (T (TypeName m) key) a)"
    if key: "key \<in> set ks" for key
  proof -
    obtain row where row: "M (TypeName m) key = Some row" using key ks(2) by auto
    then obtain cells where cells: "T (TypeName m) key = Some cells" "row_carries E m key row cells"
      using rep [of key] by (auto split: option.splits)
    have "\<forall>p \<in> set (Attributes k). scalar_attr p \<longrightarrow> carries E (scanner E) (snd p) (row (fst p)) (the (cells (fst p)))"
      using cells(2) by (fastforce simp: row_carries_def inv(4))
    moreover have "row ''ParentKey'' = DText (fst key)" "row ''RecKey'' = DText (snd key)"
      using cells(2) by (simp_all add: row_carries_def)
    ultimately obtain r where r: "Row E (scanner E) ?st (map row (fields_list ?st)) = Inr r"
      "ParentKey r = fst key" "RecKey r = snd key"
      "\<forall>a \<in> set (scalar_names m). map_of (ColumnValues r) (column_index (Some c) a) = Some (the (cells a))"
      using row_decodes [OF inv(1,2) c [folded names], of row "fst key" "snd key" "scanner E" "\<lambda>a. the (cells a)" "Some q"]
      unfolding names by blast
    have "cells a \<noteq> None" if "a \<in> set (scalar_names m)" for a
      using cells(2) that by (fastforce simp: row_carries_def scalar_names_def)
    with r row cells(1) show ?thesis by (auto simp: select_fields_columns cells_of_def)
  qed
  then obtain g where g: "\<And>key. key \<in> set ks \<Longrightarrow>
      Row E (scanner E) ?st (map (the (M (TypeName m) key)) (select_fields E k)) = Inr (g key) \<and>
      (ParentKey (g key), RecKey (g key)) = key \<and>
      (\<forall>a \<in> set (scalar_names m). cells_of (Some c) (g key) a = the (T (TypeName m) key) a)"
    by metis
  have "readRows E ?st (map (\<lambda>key. map (the (M (TypeName m) key)) (select_fields E k)) ks) = Inr (map g ks)"
    unfolding readRows_def collect_comp using g by (intro collect_map) blast
  moreover have "decodes T m c (map g ks)"
  proof -
    have "map (\<lambda>r. (ParentKey r, RecKey r)) (map g ks) = ks" using g by (simp add: map_idI)
    moreover have "dom (M (TypeName m)) = dom (T (TypeName m))"
    proof (rule set_eqI)
      show "key \<in> dom (M (TypeName m)) \<longleftrightarrow> key \<in> dom (T (TypeName m))" for key
        using rep [of key] by (cases "T (TypeName m) key") auto
    qed
    moreover have "(\<lambda>r. (ParentKey r, RecKey r)) ` set (map g ks) = set (map (\<lambda>r. (ParentKey r, RecKey r)) (map g ks))"
      by (simp only: set_map)
    moreover have "cells_of (Some c) r a = the (T (TypeName m) (ParentKey r, RecKey r)) a"
      if "r \<in> set (map g ks)" "a \<in> set (scalar_names m)" for r a
      using that g by fastforce
    ultimately show ?thesis using ks unfolding decodes_def by metis
  qed
  ultimately show ?thesis by blast
qed

section \<open>All tables\<close>

text \<open>A result that is a value with \<open>P\<close>, or an error, which it is not if \<open>ok\<close>.\<close>

definition yields :: "bool \<Rightarrow> ('a \<Rightarrow> bool) \<Rightarrow> 'a res \<Rightarrow> bool" where
  "yields ok P r \<longleftrightarrow> (case r of Inr x \<Rightarrow> P x | Inl (Err e) \<Rightarrow> \<not> ok | Inl (Panic e) \<Rightarrow> False)"

lemma yields_simps [simp]:
  "yields ok P (Inr x) \<longleftrightarrow> P x" "yields ok P (Inl (Err e)) \<longleftrightarrow> \<not> ok" "\<not> yields ok P (Inl (Panic e))"
  by (simp_all add: yields_def)

lemma yields_bind:
  assumes "yields ok P r" "\<And>x. r = Inr x \<Longrightarrow> P x \<Longrightarrow> yields ok Q (f x)"
  shows "yields ok Q (rbind r f)"
proof (cases r)
  case (Inl e)
  with assms(1) show ?thesis by (cases e) simp_all
qed (use assms in simp)

lemma yields_mono: "yields ok P r \<Longrightarrow> (\<And>x. P x \<Longrightarrow> Q x) \<Longrightarrow> yields ok Q r"
  by (auto simp: yields_def split: sum.splits go_err.splits)

lemma never_panics_yields:
  assumes "never_panics (dbase E)" "m \<in> set (nodes_of n)"
  shows "yields (accepts_reads E n q) (\<lambda>u. True) (prepare (dbase E) d (query_text E q m))"
    and "yields (accepts_reads E n q) (\<lambda>u. True) (query_rows (dbase E) d (query_text E q m) [])"
  using assms unfolding yields_def never_panics_def accepts_reads_def
  by (auto split: sum.split go_err.split) (metis sum.distinct(1))+

text \<open>The statement of a table in a query for whole objects.\<close>

lemma select_plain:
  assumes "whole_query n q" "\<not> 0 < sint (Limit q) \<or> TypeName k \<noteq> TypeName n"
  shows "SelectStatement E p (NewStatement k cols (Some q)) =
     rbind (p (query_text E q k)) (\<lambda>u. Inr (Some (query_text E q k),
       (ensure_fields E (NewStatement k cols (Some q)))\<lparr>selectStmt := Some (query_text E q k)\<rparr>))"
proof -
  let ?st = "NewStatement k cols (Some q)"
  have "selectStmt ?st = None" "squery ?st = Some q" "node ?st = k" by (simp_all add: NewStatement_def)
  moreover have "Query2Sql E q (TypeName k) ?st = Inr ((query_text E q k, True), ensure_fields E ?st)"
  proof -
    obtain x where "root_condition q = Inr x" using assms(1) by (auto simp: whole_query_def)
    from where_condition [OF this] assms show ?thesis
      by (auto simp: Query2Sql_def select_list_def whole_query_def root_table_def select_fields_columns select_text_def query_text_def
          limit_offset_def Let_def)
  qed
  ultimately show ?thesis
    by (cases "p (query_text E q k)") (simp_all add: SelectStatement_def create_select_def)
qed

text \<open>A table of the schema: its node, and columns of their own for the scalars.\<close>

definition schema_table :: "l8node \<Rightarrow> string \<times> L8OrmTable \<Rightarrow> l8node \<Rightarrow> (string, int32) gomap \<Rightarrow> bool" where
  "schema_table n tt m c \<longleftrightarrow> m \<in> set (nodes_of n) \<and> TypeName m = fst tt \<and> Columns (snd tt) = Some c \<and>
     InstanceRows (snd tt) = None \<and> set (scalar_names m) \<subseteq> dom (map_of c) \<and>
     inj_on (column_index (Some c)) (set (scalar_names m))"

definition root_stmt :: "iquery \<Rightarrow> iquery statement option \<Rightarrow> bool" where
  "root_stmt q st \<longleftrightarrow> (\<forall>s. st = Some s \<longrightarrow> metaDataStmt s = None \<and> squery s = Some q)"

lemma read_table_yields:
  assumes inv: "orders_ok E" "sql_types E n" "never_panics (dbase E)" "delivers E n q seen" "plain_query n q"
    and T: "represents E (nodes_of n) (seen d) T" and tt: "schema_table n tt m c" and st: "root_stmt q st"
  shows "yields (accepts_reads E n q) (\<lambda>(data', st'). \<exists>rows. data' = add_rows (fst tt) rows data \<and> decodes T m c rows \<and>
      root_stmt q st' \<and> (st' = None \<longrightarrow> st = None \<and> \<not> same_table (fst tt) q))
    (read_table E q d (data, st) tt)"
proof -
  obtain tn t where tt': "tt = (tn, t)" by (cases tt)
  have m: "m \<in> set (nodes_of n)" "TypeName m = tn" "Columns t = Some c" "inj_on (column_index (Some c)) (set (scalar_names m))"
    using tt by (simp_all add: schema_table_def tt')
  obtain k where k: "nodeByTypeName E (TypeName m) = Some k" "TypeName k = TypeName m" "Attributes k = Attributes m"
    "k \<in> set (nodes_of n)" "stmt_node k"
    using sql_types_node [OF inv(2) m(1)] by metis
  let ?st = "ensure_fields E (NewStatement k (Some c) (Some q))"
  let ?st' = "?st\<lparr>selectStmt := Some (query_text E q k)\<rparr>"
  have "yields (accepts_reads E n q) (\<lambda>rows. decodes T m c rows) (readRows E ?st' rows)"
    if rows: "query_rows (dbase E) d (query_text E q k) [] = Inr (rows, err)" for rows err
  proof -
    obtain ks where ks: "distinct ks" "set ks = dom (seen d (TypeName m))"
      "rows = map (\<lambda>key. map (the (seen d (TypeName m) key)) (select_fields E k)) ks"
      using inv(4) k(2,4) rows unfolding delivers_def by metis
    have rep: "case T (TypeName m) key of None \<Rightarrow> seen d (TypeName m) key = None
        | Some cells \<Rightarrow> \<exists>row. seen d (TypeName m) key = Some row \<and> row_carries E m key row cells" for key
      using T m(1) unfolding represents_def by blast
    obtain rs where "readRows E ?st rows = Inr rs" "decodes T m c rs"
      using readRows_decodes [where M = "seen d" and q = q and T = T and m = m, OF inv(1) k(5,2,3) m(4) rep ks(1,2)]
      unfolding ks(3) by blast
    then show ?thesis by (simp add: readRows_def Row_cached)
  qed
  note rows = this
  have run: "read_table E q d (data, st) tt =
      rbind (prepare (dbase E) d (query_text E q k)) (\<lambda>u.
      rbind (query_rows (dbase E) d (query_text E q k) []) (\<lambda>(rows, err).
      rbind (readRows E ?st' rows) (\<lambda>dataRow.
        Inr (add_rows tn dataRow data, if same_table tn q then Some ?st' else st))))"
    using k(1) m(2,3) by (cases "prepare (dbase E) d (query_text E q k)")
      (simp_all add: read_table_def tt' select_plain [OF plain_whole [OF inv(5)]] inv(5) [unfolded plain_query_def])
  have st': "metaDataStmt ?st' = None" "squery ?st' = Some q"
    by (simp_all add: ensure_fields_def NewStatement_def Let_def split: prod.split)
  show ?thesis
    unfolding run
  proof (intro yields_bind [OF never_panics_yields(1) [OF inv(3) k(4)]] yields_bind [OF never_panics_yields(2) [OF inv(3) k(4)]])
    fix u x assume x: "query_rows (dbase E) d (query_text E q k) [] = Inr x"
    obtain rs err where p: "x = (rs, err)" by (cases x)
    show "yields (accepts_reads E n q) (\<lambda>(data', st'). \<exists>rows. data' = add_rows (fst tt) rows data \<and> decodes T m c rows \<and>
          root_stmt q st' \<and> (st' = None \<longrightarrow> st = None \<and> \<not> same_table (fst tt) q))
        (case x of (rows, err) \<Rightarrow> rbind (readRows E ?st' rows) (\<lambda>dataRow.
          Inr (add_rows tn dataRow data, if same_table tn q then Some ?st' else st)))"
      unfolding p prod.case
      by (rule yields_bind [OF rows [OF x [unfolded p]]]) (use st st' in \<open>auto simp: tt' root_stmt_def\<close>)
  qed
qed

text \<open>The loop over the tables fills each with its rows.\<close>

definition filled :: "content \<Rightarrow> l8node \<Rightarrow> (string \<times> L8OrmTable) list \<Rightarrow> L8OrmRData \<Rightarrow> bool" where
  "filled T n ts d \<longleftrightarrow> (\<forall>tt \<in> set ts. \<exists>m c rows. schema_table n tt m c \<and> decodes T m c rows \<and>
     map_of (Tables d) (fst tt) = Some (foldl addRowToTable (snd tt) rows))"

lemma add_rows_tables:
  "map_of (Tables data) tn = Some t \<Longrightarrow> map_of (Tables (add_rows tn rows data)) tn' =
     (if tn' = tn then Some (foldl addRowToTable t rows) else map_of (Tables data) tn')"
  by (simp add: add_rows_def on_table_def map_of_update)

lemma RootTypeName_add_rows [simp]: "RootTypeName (add_rows tn rows data) = RootTypeName data"
  by (simp add: add_rows_def on_table_def split: option.split)

lemma read_tables_yields:
  assumes inv: "orders_ok E" "sql_types E n" "never_panics (dbase E)" "delivers E n q seen" "plain_query n q"
    and T: "represents E (nodes_of n) (seen d) T"
  shows "distinct (map fst ts) \<Longrightarrow> \<forall>tt \<in> set ts. map_of (Tables data) (fst tt) = Some (snd tt) \<and> (\<exists>m c. schema_table n tt m c) \<Longrightarrow>
    root_stmt q st \<Longrightarrow>
    yields (accepts_reads E n q) (\<lambda>(data', st'). RootTypeName data' = RootTypeName data \<and> filled T n ts data' \<and>
        (\<forall>tn. tn \<notin> fst ` set ts \<longrightarrow> map_of (Tables data') tn = map_of (Tables data) tn) \<and>
        root_stmt q st' \<and> (st' = None \<longrightarrow> st = None \<and> (\<forall>tt \<in> set ts. \<not> same_table (fst tt) q)))
      (mfold (read_table E q d) (data, st) ts)"
proof (induction ts arbitrary: data st)
  case (Cons tt ts)
  obtain m c where mc: "schema_table n tt m c" using Cons.prems(2) by auto
  have tab: "map_of (Tables data) (fst tt) = Some (snd tt)" using Cons.prems(2) by simp
  show ?case
    unfolding mfold.simps
  proof (rule yields_bind [OF read_table_yields [OF inv T mc Cons.prems(3)]])
    fix x assume x: "case x of (data', st') \<Rightarrow> \<exists>rows. data' = add_rows (fst tt) rows data \<and> decodes T m c rows \<and>
      root_stmt q st' \<and> (st' = None \<longrightarrow> st = None \<and> \<not> same_table (fst tt) q)"
    obtain st1 rows where x: "x = (add_rows (fst tt) rows data, st1)" "decodes T m c rows" "root_stmt q st1"
      "st1 = None \<longrightarrow> st = None \<and> \<not> same_table (fst tt) q"
      using x by (cases x) auto
    let ?data = "add_rows (fst tt) rows data"
    have "\<forall>tt \<in> set ts. map_of (Tables ?data) (fst tt) = Some (snd tt) \<and> (\<exists>m c. schema_table n tt m c)"
    proof
      fix u assume u: "u \<in> set ts"
      then have "fst u \<noteq> fst tt" using distinct_fst_ConsD [OF Cons.prems(1)] by simp
      with u Cons.prems(2) show "map_of (Tables ?data) (fst u) = Some (snd u) \<and> (\<exists>m c. schema_table n u m c)"
        by (simp add: add_rows_tables [OF tab])
    qed
    from Cons.IH [OF _ this x(3)] Cons.prems(1)
    have rest: "yields (accepts_reads E n q) (\<lambda>(data', st'). RootTypeName data' = RootTypeName ?data \<and> filled T n ts data' \<and>
        (\<forall>tn. tn \<notin> fst ` set ts \<longrightarrow> map_of (Tables data') tn = map_of (Tables ?data) tn) \<and>
        root_stmt q st' \<and> (st' = None \<longrightarrow> st1 = None \<and> (\<forall>tt \<in> set ts. \<not> same_table (fst tt) q)))
      (mfold (read_table E q d) x ts)" by (simp add: x(1))
    show "yields (accepts_reads E n q) (\<lambda>(data', st'). RootTypeName data' = RootTypeName data \<and> filled T n (tt # ts) data' \<and>
        (\<forall>tn. tn \<notin> fst ` set (tt # ts) \<longrightarrow> map_of (Tables data') tn = map_of (Tables data) tn) \<and>
        root_stmt q st' \<and> (st' = None \<longrightarrow> st = None \<and> (\<forall>tt \<in> set (tt # ts). \<not> same_table (fst tt) q)))
      (mfold (read_table E q d) x ts)"
    proof (rule yields_mono [OF rest])
      fix y assume y: "case y of (data', st') \<Rightarrow> RootTypeName data' = RootTypeName ?data \<and> filled T n ts data' \<and>
        (\<forall>tn. tn \<notin> fst ` set ts \<longrightarrow> map_of (Tables data') tn = map_of (Tables ?data) tn) \<and>
        root_stmt q st' \<and> (st' = None \<longrightarrow> st1 = None \<and> (\<forall>tt \<in> set ts. \<not> same_table (fst tt) q))"
      obtain data' st' where p: "y = (data', st')" by (cases y)
      have "fst tt \<notin> fst ` set ts" using Cons.prems(1) by simp
      then have "map_of (Tables data') (fst tt) = Some (foldl addRowToTable (snd tt) rows)"
        using y by (simp add: p add_rows_tables [OF tab])
      with y mc x(2,4) show "case y of (data', st') \<Rightarrow> RootTypeName data' = RootTypeName data \<and> filled T n (tt # ts) data' \<and>
        (\<forall>tn. tn \<notin> fst ` set (tt # ts) \<longrightarrow> map_of (Tables data') tn = map_of (Tables data) tn) \<and>
        root_stmt q st' \<and> (st' = None \<longrightarrow> st = None \<and> (\<forall>tt \<in> set (tt # ts). \<not> same_table (fst tt) q))"
        by (auto simp: p filled_def add_rows_tables [OF tab])
    qed
  qed
qed (simp add: filled_def)

text \<open>A filled table has its rows at their places.\<close>

lemma rows_in_filled:
  assumes "InstanceRows t = None"
  shows "rows_in (foldl addRowToTable t rows) pk f =
     (let rs = filter (\<lambda>r. row_place r = (pk, f)) rows in if rs = [] then None else Some rs)"
proof (induction rows rule: rev_induct)
  case Nil
  then show ?case using assms by (simp add: rows_in_def)
next
  case (snoc r rows)
  let ?t = "foldl addRowToTable t rows"
  have step: "rows_in (foldl addRowToTable t (rows @ [r])) pk f =
      (if (pk, f) = row_place r then Some (rows_list ?t (row_place r) @ [r]) else rows_in ?t pk f)"
    by (simp add: addRowToTable_add_row_at rows_in_add_row_at row_place_def)
  show ?case
  proof (cases "(pk, f) = row_place r")
    case True
    then have "rows_list ?t (row_place r) = filter (\<lambda>s. row_place s = row_place r) rows"
      using snoc by (simp add: rows_list_def Let_def flip: True)
    with True show ?thesis unfolding step by simp
  next
    case False
    then have "row_place r \<noteq> (pk, f)" by simp
    with False snoc show ?thesis unfolding step by simp
  qed
qed

lemma Columns_foldl: "Columns (foldl addRowToTable t rows) = Columns t"
  by (induction rows arbitrary: t) simp_all

text \<open>Filled data present the content.\<close>

lemma filled_presents:
  assumes "filled T n ts d" "TypeName ` set (nodes_of n) \<subseteq> fst ` set ts" "sql_types E n"
  shows "presents (nodes_of n) d T"
  unfolding presents_def
proof (intro ballI allI)
  fix m pk f assume m: "m \<in> set (nodes_of n)"
  then have "TypeName m \<in> fst ` set ts" using assms(2) by blast
  then obtain tt where tt: "tt \<in> set ts" "fst tt = TypeName m" by (metis imageE)
  obtain k c rows where k: "schema_table n tt k c" "decodes T k c rows"
    "map_of (Tables d) (TypeName m) = Some (foldl addRowToTable (snd tt) rows)"
    using bspec [OF assms(1) [unfolded filled_def] tt(1)] unfolding tt(2) by blast
  then have s: "k \<in> set (nodes_of n)" "TypeName k = TypeName m" "Columns (snd tt) = Some c" "InstanceRows (snd tt) = None"
    "set (scalar_names k) \<subseteq> dom (map_of c)" using tt(2) by (simp_all add: schema_table_def)
  have names: "scalar_names k = scalar_names m"
    using assms(3) s(1,2) m unfolding sql_types_def scalar_names_def by metis
  let ?rs = "filter (\<lambda>r. row_place r = (pk, f)) rows"
  have cols: "columns_at d (TypeName m) = Some c" using k(3) s(3) by (simp add: columns_at_def Columns_foldl)
  have at: "rows_at d (TypeName m) pk f = (if ?rs = [] then None else Some ?rs)"
    using k(3) by (simp add: rows_at_def rows_in_filled [OF s(4)] Let_def)
  have dist: "distinct (map (\<lambda>r. (ParentKey r, RecKey r)) rows)"
    and dm: "(\<lambda>r. (ParentKey r, RecKey r)) ` set rows = dom (T (TypeName m))"
    and cells: "\<And>r a. r \<in> set rows \<Longrightarrow> a \<in> set (scalar_names m) \<Longrightarrow>
        cells_of (Some c) r a = the (T (TypeName m) (ParentKey r, RecKey r)) a"
    using k(2) unfolding decodes_def s(2) names by blast+
  have keys: "RecKey ` set ?rs = child_keys T (TypeName m) pk f"
  proof (rule set_eqI)
    fix rk
    have "rk \<in> RecKey ` set ?rs \<longleftrightarrow> nameOfField rk = f \<and> (pk, rk) \<in> (\<lambda>r. (ParentKey r, RecKey r)) ` set rows"
      by (auto simp: row_place_def)
    then show "rk \<in> RecKey ` set ?rs \<longleftrightarrow> rk \<in> child_keys T (TypeName m) pk f"
      unfolding dm by (auto simp: child_keys_def)
  qed
  have "distinct (map RecKey ?rs)"
    using dist by (auto simp: distinct_map inj_on_def row_place_def)
  moreover have "\<forall>r \<in> set ?rs. ParentKey r = pk \<and>
      (\<forall>a \<in> set (scalar_names m). cells_of (Some c) r a = the (T (TypeName m) (pk, RecKey r)) a)"
    using cells by (auto simp: row_place_def)
  ultimately show "presents_at d T m pk f"
    using at keys cols s(5) by (cases "?rs = []") (simp_all add: presents_at_def names)
qed

section \<open>The schema\<close>

lemma consistent_types: "sql_types E n \<Longrightarrow> wf_tree n \<Longrightarrow> consistent n"
  unfolding consistent_nodes sql_types_def wf_tree_def wf_node_def by metis

lemma numbered_columns_inj:
  assumes "distinct (map fst c)" "map snd c = map of_nat [1..<Suc (length c)]" "length c < 2 ^ 32"
  shows "inj_on (column_index (Some (c :: (string, int32) gomap))) (fst ` set c)"
proof (rule inj_onI)
  fix a b assume ab: "a \<in> fst ` set c" "b \<in> fst ` set c" "column_index (Some c) a = column_index (Some c) b"
  have "distinct (map snd c)"
    unfolding assms(2) distinct_map using assms(3)
    by (auto simp: inj_on_def of_nat_word32_inj simp del: upt_Suc)
  obtain i j where i: "i < length c" "fst (c ! i) = a" and j: "j < length c" "fst (c ! j) = b"
    using ab(1,2) by (auto simp: in_set_conv_nth)
  have at: "column_index (Some c) (fst (c ! k)) = snd (c ! k)" if "k < length c" for k
    using map_of_eq_Some_iff [OF assms(1), of "fst (c ! k)" "snd (c ! k)"] that by (simp add: column_index_def)
  have "map snd c ! i = map snd c ! j" using at [OF i(1)] at [OF j(1)] ab(3) i j by simp
  then have "i = j" using nth_eq_iff_index_eq [OF \<open>distinct (map snd c)\<close>] i(1) j(1) by (metis length_map)
  with i j show "a = b" by simp
qed

text \<open>The tables of a query for whole objects.\<close>

lemma plain_schema:
  assumes "orders_ok E" "wf_tree n" "sql_types E n" "whole_query n q"
  shows "\<exists>data. NewRelationsDataForQuery E q = Inr data \<and> RootTypeName data = TypeName n \<and>
    distinct (gkeys (Tables data)) \<and> fst ` set (Tables data) = TypeName ` set (nodes_of n) \<and>
    (\<forall>tt \<in> set (Tables data). \<exists>m c. schema_table n tt m c)"
proof -
  have cons: "consistent n" using assms(3,2) by (rule consistent_types)
  have q: "RootType q = n" "Properties q = []" using assms(4) by (simp_all add: whole_query_def)
  obtain data where d: "NewRelationsDataForQuery E q = Inr data"
    "set (gkeys (Tables data)) = TypeName ` Collect (reach n)"
    "\<And>m. reach n m \<Longrightarrow> \<exists>c. map_of (Tables data) (TypeName m) =
        Some \<lparr>Name = TypeName m, Columns = Some c, InstanceRows = None\<rparr> \<and>
       distinct (map fst c) \<and> set (map fst c) = set (scalar_names m) \<and> map snd c = map of_nat [1..<Suc (length c)]"
    using query_schema [OF assms(1), of q] cons q by auto
  have a: "adds_tables E n n (new_rdata (TypeName n)) data"
    using addTable_full [OF assms(1) cons reach.self, of "Some []" "new_rdata (TypeName n)"] d(1) q
    by (auto simp: NewRelationsDataForQuery_def new_rdata_def)
  have dist: "RootTypeName data = TypeName n" "distinct (gkeys (Tables data))"
    using a by (simp_all add: adds_tables_def new_rdata_def gkeys_def)
  have "\<exists>m c. schema_table n tt m c" if tt: "tt \<in> set (Tables data)" for tt
  proof -
    have "fst tt \<in> set (gkeys (Tables data))" using tt by (simp add: gkeys_def)
    then obtain m where m: "reach n m" "fst tt = TypeName m" using d(2) by auto
    then obtain c where c: "map_of (Tables data) (TypeName m) = Some \<lparr>Name = TypeName m, Columns = Some c, InstanceRows = None\<rparr>"
      "distinct (map fst c)" "set (map fst c) = set (scalar_names m)" "map snd c = map of_nat [1..<Suc (length c)]"
      using d(3) by blast
    have t: "snd tt = \<lparr>Name = TypeName m, Columns = Some c, InstanceRows = None\<rparr>"
      using tt c(1) dist(2) m(2) by (metis map_of_gkeys option.inject prod.collapse)
    have mn: "m \<in> set (nodes_of n)" using m(1) by (simp add: reach_nodes)
    have "length c = card (set (scalar_names m))" using c(2,3) by (metis distinct_card length_map)
    also have "\<dots> \<le> length (Attributes m)"
      using card_length [of "scalar_names m"] by (simp add: scalar_names_def) (meson le_trans length_filter_le)
    also have "\<dots> < 2 ^ 32" using assms(2) mn by (simp add: wf_tree_def wf_node_def)
    finally have "inj_on (column_index (Some c)) (set (scalar_names m))"
      using numbered_columns_inj [OF c(2,4)] c(3) by simp
    moreover have "set (scalar_names m) \<subseteq> dom (map_of c)" using c(3) by (simp add: dom_map_of_conv_image_fst)
    ultimately have "schema_table n tt m c" using mn m(2) t by (simp add: schema_table_def)
    then show ?thesis by blast
  qed
  moreover have "fst ` set (Tables data) = TypeName ` set (nodes_of n)"
    using d(2) by (simp add: gkeys_def reach_nodes [abs_def])
  ultimately show ?thesis using d(1) dist by blast
qed

section \<open>Reading objects\<close>

text \<open>The count of a query never panics.\<close>

lemma meta_data_yields:
  assumes "never_panics (dbase E)" "metaDataStmt st = None" "squery st = Some q" "whole_query n q"
  shows "\<exists>md. meta_data E d st = Inr md"
proof -
  obtain x where "root_condition q = Inr x" using assms(4) by (auto simp: whole_query_def)
  from where_condition [OF this] have "\<exists>sql. Query2CountSql (squery st) (TypeName (node st)) = Inr sql"
    using assms(3) by (simp add: Query2CountSql_def)
  then obtain sql where sql: "Query2CountSql (squery st) (TypeName (node st)) = Inr sql" ..
  have scan: "yields False (\<lambda>i. True) (rbind (Scan (scanner E) [TNamed KInt64 ''int''] row) (\<lambda>vs.
      rbind (value_int (Some (hd vs))) (\<lambda>i. Inr (Some i))))" for row
    by (cases row; cases "tl row")
      (auto simp: Scan_def scan_value_def scan_err_def rbind_def split: option.split)
  have run: "yields False (\<lambda>i. True) (count_rows E d sql)"
    unfolding count_rows_def
  proof (rule yields_bind [where P = "\<lambda>x. True"])
    show "yields False (\<lambda>x. True) (query_rows (dbase E) d sql [])"
      using assms(1) unfolding yields_def never_panics_def by (auto split: sum.split go_err.split)
  qed (use scan in \<open>auto split: prod.split list.split\<close>)
  have "prepare (dbase E) d sql \<noteq> Inl (Panic e)" "count_rows E d sql \<noteq> Inl (Panic e)" for e
    using assms(1) run by (auto simp: never_panics_def)
  then show ?thesis
    using assms(2) sql
    by (auto simp: meta_data_def MetaData_def rbind_def split: sum.split go_err.split option.split)
qed

lemma read_body_yields:
  assumes inv: "orders_ok E" "sql_types E n" "never_panics (dbase E)" "delivers E n q seen" "plain_query n q"
    and T: "represents E (nodes_of n) (seen d) T"
    and data: "RootTypeName data = TypeName n" "distinct (gkeys (Tables data))"
      "fst ` set (Tables data) = TypeName ` set (nodes_of n)" "\<forall>tt \<in> set (Tables data). \<exists>m c. schema_table n tt m c"
  shows "yields (accepts_reads E n q) (\<lambda>(data', md). RootTypeName data' = TypeName n \<and> presents (nodes_of n) data' T)
    (read_body E q data d)"
proof -
  define ts where "ts = range_loop (rng E (''ReadRelational'', RootTypeName data)) (Tables data)"
  have ts: "set ts = set (Tables data)" "distinct (map fst ts)"
    unfolding ts_def using set_range_loop [OF orders_okD(1) [OF inv(1)] data(2)]
      distinct_range_loop [OF orders_okD(1) [OF inv(1)] data(2)] by simp_all
  have each: "\<forall>tt \<in> set ts. map_of (Tables data) (fst tt) = Some (snd tt) \<and> (\<exists>m c. schema_table n tt m c)"
    using data(2,4) unfolding ts(1) by (simp add: map_of_gkeys)
  have root: "\<exists>tt \<in> set ts. same_table (fst tt) q"
  proof -
    have "TypeName n \<in> fst ` set (Tables data)" unfolding data(3) by simp
    then obtain tt where "tt \<in> set ts" "fst tt = TypeName n" unfolding ts(1) by (metis imageE)
    moreover have "same_table (TypeName n) q" using inv(5) by (simp add: same_table_def plain_query_def whole_query_def)
    ultimately show ?thesis by metis
  qed
  show ?thesis
    unfolding read_body_def ts_def [symmetric]
  proof (rule yields_bind [OF read_tables_yields [OF inv T ts(2) each]])
    show "root_stmt q None" by (simp add: root_stmt_def)
    fix x assume x: "case x of (data', st') \<Rightarrow> RootTypeName data' = RootTypeName data \<and> filled T n ts data' \<and>
        (\<forall>tn. tn \<notin> fst ` set ts \<longrightarrow> map_of (Tables data') tn = map_of (Tables data) tn) \<and>
        root_stmt q st' \<and> (st' = None \<longrightarrow> None = None \<and> (\<forall>tt \<in> set ts. \<not> same_table (fst tt) q))"
    obtain data' st' where p: "x = (data', st')" by (cases x)
    with x root obtain st where st: "st' = Some st" "metaDataStmt st = None" "squery st = Some q"
      by (auto simp: root_stmt_def)
    obtain md where md: "meta_data E d st = Inr md" using meta_data_yields [OF inv(3) st(2,3) plain_whole [OF inv(5)]] by blast
    have "presents (nodes_of n) data' T"
      using x by (intro filled_presents [OF _ _ inv(2), of T ts]) (simp_all add: p ts(1) data(3))
    then show "yields (accepts_reads E n q) (\<lambda>(data', md). RootTypeName data' = TypeName n \<and> presents (nodes_of n) data' T)
        (case x of (data, rootSt) \<Rightarrow> case rootSt of None \<Rightarrow> nil_panic
         | Some st \<Rightarrow> rbind (meta_data E d st) (\<lambda>md. Inr (data, md)))"
      using x data(1) by (simp add: p st md)
  qed
qed

text \<open>\<open>elementsOf\<close> gives the objects of a result in their order.\<close>

definition elements_ok :: "('d, 'x) pg_env_scheme \<Rightarrow> bool" where
  "elements_ok E \<longleftrightarrow> elementsOf E CNil = [] \<and> (\<forall>zs. elementsOf E (COrdered zs) = map Some zs)"

lemma populate_none:
  assumes "nodeOf E (TypeName n) = Some n" "collectTsAttrs n = []"
    and "\<forall>z \<in> set zs. type_of z = TPtr (TNamed KStruct (TypeName n))"
  shows "populateTsFields E d (map Some zs) = Inr (map Some zs)"
  using assms by (cases zs) (simp_all add: populateTsFields_def)

lemma query_result_ordered:
  assumes S: "elements_ok E" "collectTsAttrs n = []" and roots: "roots_ok E n ys"
    and z: "ConvertFrom E data md = Inr (COrdered zs, md)" "list_all2 (sim n) ys zs"
  shows "query_result E s data md = Inr (map Some zs, MdTotal md)"
proof -
  have "\<forall>z \<in> set zs. type_of z = TPtr (TNamed KStruct (TypeName n))"
  proof
    fix z assume "z \<in> set zs"
    then obtain i where i: "i < length zs" "zs ! i = z" by (auto simp: in_set_conv_nth)
    then have "conf E n (ys ! i)" using roots list_all2_lengthD [OF z(2)] by (simp add: roots_ok_def)
    moreover have "sim n (ys ! i) z" using list_all2_nthD2 [OF z(2) i(1)] i(2) by simp
    ultimately show "type_of z = TPtr (TNamed KStruct (TypeName n))" by (rule sim_type)
  qed
  moreover have "nodeOf E (TypeName n) = Some n" using roots by (simp add: roots_ok_def)
  ultimately show ?thesis
    using z(1) S(1) populate_none [OF _ S(2), of E zs s] by (simp add: query_result_def elements_ok_def)
qed

lemma query_result_holds:
  assumes S: "store_ok E n kept seen effect" "elements_ok E" "collectTsAttrs n = []"
    and ys: "ys \<noteq> [] \<longrightarrow> roots_ok E n ys" "has_roots E n ys T" "nodeOf E (TypeName n) = Some n"
    and d: "presents (nodes_of n) data T" "RootTypeName data = TypeName n"
  shows "\<exists>ys' zs. query_result E s data md = Inr (map Some zs, MdTotal md) \<and> mset ys' = mset ys \<and> list_all2 (sim n) ys' zs"
proof (cases "ys = []")
  case True
  have "rows_at data (TypeName n) [] (FieldName n) = None"
    using ys(2) True by (intro presents_none [OF d(1)]) (simp_all add: has_roots_def)
  then have "query_result E s data md = Inr ([], MdTotal md)"
    using d(2) ys(3) S(2) by (simp add: query_result_def ConvertFrom_def convertFrom.simps [of E n]
        TableAndRowsGet_rows elements_ok_def populateTsFields_def)
  with True show ?thesis by (intro exI [of _ "[]"]) simp
next
  case False
  have E: "orders_ok E" "wf_tree n" using S(1) by (simp_all add: store_ok_def)
  have roots: "roots_ok E n ys" using ys(1) False by simp
  obtain ys' zs where z: "ConvertFrom E data md = Inr (COrdered zs, md)" "mset ys' = mset ys" "list_all2 (sim n) ys' zs"
    using ConvertFrom_has_roots [where m = md, OF E roots d ys(2)] by (elim exE conjE)
  from query_result_ordered [OF S(2,3) roots_ok_mset [OF z(2) roots] z(1,3)] z(2,3) show ?thesis by blast
qed

text \<open>The objects whose root rows match.\<close>

definition selected ::
    "'a env_scheme \<Rightarrow> l8node \<Rightarrow> ((string \<Rightarrow> drv) \<Rightarrow> bool) \<Rightarrow> tables \<Rightarrow> gval list \<Rightarrow> gval list" where
  "selected E n match M ys = filter (\<lambda>y. match (the (M (TypeName n) ([], root_rec E n y)))) ys"

text \<open>The view of a query is represented by the content without the other root rows.\<close>

lemma picked_content:
  assumes "plain (FieldName n)" "holds E n ys T" "represents E (nodes_of n) M T"
  shows "\<exists>T'. represents E (nodes_of n) (picked n match M) T' \<and> has_roots E n (selected E n match M ys) T'"
proof -
  define T' where "T' = (\<lambda>tn key. if tn = TypeName n \<and> (\<exists>row. M tn key = Some row \<and> \<not> match row) then None else T tn key)"
  have R: "case T (TypeName m) key of None \<Rightarrow> M (TypeName m) key = None
      | Some cells \<Rightarrow> \<exists>row. M (TypeName m) key = Some row \<and> row_carries E m key row cells" if "m \<in> set (nodes_of n)" for m key
    using assms(3) that unfolding represents_def by blast
  have "represents E (nodes_of n) (picked n match M) T'"
    unfolding represents_def
  proof (intro ballI allI)
    fix m key assume "m \<in> set (nodes_of n)"
    then show "case T' (TypeName m) key of None \<Rightarrow> picked n match M (TypeName m) key = None
      | Some cells \<Rightarrow> \<exists>row. picked n match M (TypeName m) key = Some row \<and> row_carries E m key row cells"
      using R [of m key] by (cases "T (TypeName m) key"; cases "M (TypeName m) key"; cases "TypeName m = TypeName n")
        (simp_all add: T'_def picked_def)
  qed
  moreover have "has_roots E n (selected E n match M ys) T'"
    unfolding has_roots_def
  proof (intro conjI ballI)
    have h: "has_roots E n ys T" using holds_has_roots [OF assms(2,1)] .
    have row: "T' (TypeName n) ([], root_rec E n y) = (if y \<in> set (selected E n match M ys)
        then T (TypeName n) ([], root_rec E n y) else None)" if y: "y \<in> set ys" for y
    proof -
      have "T (TypeName n) ([], root_rec E n y) \<noteq> None"
        using h y by (auto simp: has_roots_def elim!: stored.cases)
      then obtain r where "M (TypeName n) ([], root_rec E n y) = Some r"
        using R [OF nodes_of_self, of "([], root_rec E n y)"] by auto
      with y show ?thesis by (simp add: T'_def selected_def)
    qed
    have sub: "set (selected E n match M ys) \<subseteq> set ys" by (simp add: selected_def)
    have keys: "child_keys T (TypeName n) [] (FieldName n) = root_rec E n ` set ys" using h by (simp add: has_roots_def)
    show "child_keys T' (TypeName n) [] (FieldName n) = root_rec E n ` set (selected E n match M ys)"
    proof (rule set_eqI, rule iffI)
      fix rk assume rk: "rk \<in> child_keys T' (TypeName n) [] (FieldName n)"
      then have "rk \<in> child_keys T (TypeName n) [] (FieldName n)"
        by (auto simp: child_keys_def T'_def split: if_splits)
      then obtain y where y: "y \<in> set ys" "rk = root_rec E n y" unfolding keys by auto
      then show "rk \<in> root_rec E n ` set (selected E n match M ys)"
        using rk row [OF y(1)] by (auto simp: child_keys_def split: if_splits)
    next
      fix rk assume "rk \<in> root_rec E n ` set (selected E n match M ys)"
      then obtain y where y: "y \<in> set (selected E n match M ys)" "rk = root_rec E n y" by auto
      with sub have "rk \<in> child_keys T (TypeName n) [] (FieldName n)" unfolding keys by auto
      with y row [of y] sub show "rk \<in> child_keys T' (TypeName n) [] (FieldName n)" by (auto simp: child_keys_def)
    qed
    fix y assume y: "y \<in> set (selected E n match M ys)"
    have "stored E T n y [] (root_rec E n y)" using h y sub by (auto simp: has_roots_def)
    then show "stored E T' n y [] (root_rec E n y)"
    proof (rule stored_frame)
      show "T' (TypeName n) ([], root_rec E n y) = T (TypeName n) ([], root_rec E n y)" using row [of y] y sub by auto
      fix tn pk rk assume "prefix ([] @ root_rec E n y) pk"
      then have "pk \<noteq> []" by (auto simp: root_rec_def bracketed_def)
      with assms(2) have "T (TypeName n) (pk, rk) = None" unfolding holds_def confined_def by blast
      then show "T' tn (pk, rk) = T tn (pk, rk)" by (auto simp: T'_def)
    qed
  qed
  ultimately show ?thesis by blast
qed

lemma Read_load:
  assumes S: "store_ok E n kept seen effect" "delivers E n q (\<lambda>d. picked n match (seen d))" "elements_ok E" "collectTsAttrs n = []"
    and q: "plain_query n q" and ys: "roots_ok E n ys"
    and s: "tables_ready E n s" "db_holds E n ys (kept (dbState s))"
  shows "yields (accepts_reads E n q) (\<lambda>(elems, md). \<exists>ys' zs. elems = map Some zs \<and> mset ys' = mset (selected E n match (kept (dbState s)) ys) \<and> list_all2 (sim n) ys' zs)
    (fst (Read E now q s))"
proof -
  have E: "orders_ok E" "wf_tree n" "sql_types E n" "transactional (dbase E) kept seen effect" "never_panics (dbase E)"
    using S(1) by (simp_all add: store_ok_def)
  have plain: "plain (FieldName n)" "nodeOf E (TypeName n) = Some n" using ys by (simp_all add: roots_ok_def)
  obtain T where T: "represents E (nodes_of n) (picked n match (kept (dbState s))) T"
    "has_roots E n (selected E n match (kept (dbState s)) ys) T"
    using s(2) picked_content [OF plain(1)] unfolding db_holds_def by blast
  have roots: "selected E n match (kept (dbState s)) ys \<noteq> [] \<longrightarrow> roots_ok E n (selected E n match (kept (dbState s)) ys)"
    using ys by (auto simp: roots_ok_def selected_def distinct_map_filter)
  obtain data where data: "NewRelationsDataForQuery E q = Inr data" "RootTypeName data = TypeName n"
    "distinct (gkeys (Tables data))" "fst ` set (Tables data) = TypeName ` set (nodes_of n)"
    "\<forall>tt \<in> set (Tables data). \<exists>m c. schema_table n tt m c"
    using plain_schema [OF E(1-3) plain_whole [OF q]] by blast
  have root: "RootType q = n" using q by (simp add: plain_query_def whole_query_def)
  obtain k where k: "nodeByTypeName E (TypeName n) = Some k" using sql_types_node [OF E(3) nodes_of_self] by metis
  have ver: "verifyTables E k s = (Inr (), s)"
    using s(1) k by (intro verifyTables_done E(1)) (simp add: tables_ready_def)
  obtain b d0 where b: "begin_tx (dbase E) (dbState s) = (b, d0)" by fastforce
  let ?body = "read_body E q data d0"
  have run: "fst (Read E now q s) = (case b of Inl e \<Rightarrow> Inl e | Inr u \<Rightarrow>
      rbind ?body (\<lambda>(data, md). query_result E (snd (commit_tx (dbase E) d0)) data md))"
    using q data(1) root k ver b
    by (cases b; cases ?body)
      (auto simp: Read_def plain_query_def whole_query_def ReadRelational_def abind_def ret_def on_db_def bracket_def reading_def
         split: go_err.split)
  show ?thesis
  proof (cases b)
    case (Inl e)
    have beg: "fst (begin_tx (dbase E) (dbState s)) = Inl e" using b Inl by simp
    have "fst (begin_tx (dbase E) (dbState s)) \<noteq> Inl (Panic m)" for m using E(5) by (simp add: never_panics_def)
    with beg obtain m where "e = Err m" by (cases e) auto
    moreover have "\<not> accepts_reads E n q" using beg by (metis accepts_reads_def sum.distinct(1))
    ultimately show ?thesis using run Inl by simp
  next
    case (Inr u)
    have "seen d0 = kept (dbState s)"
      using transactionalD(2) [OF E(4), of "dbState s" u] b Inr by simp
    then have rep: "represents E (nodes_of n) (picked n match (seen d0)) T" using T(1) by simp
    have "yields (accepts_reads E n q) (\<lambda>(data', md). RootTypeName data' = TypeName n \<and> presents (nodes_of n) data' T) ?body"
      using read_body_yields [OF E(1,3,5) S(2) q rep data(2-5)] .
    then have "yields (accepts_reads E n q) (\<lambda>(elems, md). \<exists>ys' zs. elems = map Some zs \<and> mset ys' = mset (selected E n match (kept (dbState s)) ys) \<and> list_all2 (sim n) ys' zs)
        (rbind ?body (\<lambda>(data, md). query_result E (snd (commit_tx (dbase E) d0)) data md))"
    proof (rule yields_bind)
      fix x :: "L8OrmRData \<times> metadata"
      assume x: "case x of (data', md) \<Rightarrow> RootTypeName data' = TypeName n \<and> presents (nodes_of n) data' T"
      obtain data' md where p: "x = (data', md)" by (cases x)
      from x obtain ys' zs where "query_result E (snd (commit_tx (dbase E) d0)) data' md = Inr (map Some zs, MdTotal md)"
        "mset ys' = mset (selected E n match (kept (dbState s)) ys)" "list_all2 (sim n) ys' zs"
        using query_result_holds [OF S(1,3,4) roots T(2) plain(2)] unfolding p by blast
      then show "yields (accepts_reads E n q) (\<lambda>(elems, md). \<exists>ys' zs. elems = map Some zs \<and> mset ys' = mset (selected E n match (kept (dbState s)) ys) \<and> list_all2 (sim n) ys' zs)
          (case x of (data, md) \<Rightarrow> query_result E (snd (commit_tx (dbase E) d0)) data md)"
        by (auto simp: p)
    qed
    with run Inr show ?thesis by simp
  qed
qed

end
