(* ===== verification/Pg_Remove.thy ===== *)
theory Pg_Remove
  imports Pg_Load
begin

text \<open>
  Deleting objects: the rows of the roots that match the condition of a query go, and the rows
  of all their parts, at any depth; the objects that do not match stay as they are.
\<close>

section \<open>The statements of a deletion\<close>

definition below_text :: "l8node \<Rightarrow> string list \<Rightarrow> string" where
  "below_text m keys = join_loop '' OR '' True (map (\<lambda>key. ''ParentKey LIKE '' @ quoted (key @ ''%'')) keys)
     (''DELETE FROM '' @ TypeName m @ '' WHERE '') @ '';''"

definition roots_text :: "iquery \<Rightarrow> l8node \<Rightarrow> string" where
  "roots_text q n = ''DELETE FROM '' @ TypeName n @ clause '' WHERE '' q @ '';''"

lemma DeleteByKeys_below:
  "DeleteByKeysStatement_sql (NewStatement m cols q) keys = (if keys = [] then None else Some (below_text m keys))"
  by (simp add: DeleteByKeysStatement_sql_def below_text_def NewStatement_def)

lemma DeleteStatement_roots:
  assumes "root_condition q = Inr x"
  shows "DeleteStatement_sql (NewStatement n cols (Some q)) [] = Inr (roots_text q n)"
proof (cases "Criteria q = NilIface")
  case True
  then show ?thesis by (simp add: DeleteStatement_sql_def roots_text_def NewStatement_def clause_def root_condition_def)
next
  case False
  with where_condition [OF assms] show ?thesis by (simp add: DeleteStatement_sql_def roots_text_def NewStatement_def)
qed

text \<open>
  What PostgreSQL documents of them: the first removes the rows whose parent key is like one
  of the patterns, as long as no key ends its literal, and the second those the condition is
  true of.
\<close>

definition like_keys :: "string list \<Rightarrow> string \<Rightarrow> bool" where
  "like_keys keys pk \<longleftrightarrow> (\<exists>k \<in> set keys. sql_like (k @ ''%'') pk)"

definition removed :: "(string \<Rightarrow> string \<times> string \<Rightarrow> bool) \<Rightarrow> tables \<Rightarrow> tables" where
  "removed gone M tn key = (if gone tn key then None else M tn key)"

definition no_quotes :: "string list \<Rightarrow> bool" where
  "no_quotes keys \<longleftrightarrow> (\<forall>k \<in> set keys. quote_char \<notin> set k)"

definition deletes ::
    "l8node \<Rightarrow> iquery \<Rightarrow> ((string \<Rightarrow> drv) \<Rightarrow> bool) \<Rightarrow> (string \<Rightarrow> sql_arg list \<Rightarrow> tables \<Rightarrow> tables) \<Rightarrow> bool" where
  "deletes n q match effect \<longleftrightarrow>
     (\<forall>m \<in> set (nodes_of n). \<forall>keys M. keys \<noteq> [] \<longrightarrow> no_quotes keys \<longrightarrow>
        effect (below_text m keys) [] M = removed (\<lambda>tn key. tn = TypeName m \<and> like_keys keys (fst key)) M) \<and>
     (\<forall>M. effect (roots_text q n) [] M = picked n (\<lambda>row. \<not> match row) M)"

definition accepts_deletes :: "('d, 'x) pg_env_scheme \<Rightarrow> l8node \<Rightarrow> iquery \<Rightarrow> bool" where
  "accepts_deletes E n q \<longleftrightarrow> accepts_reads E n q \<and>
     (\<forall>m \<in> set (nodes_of n). \<forall>keys d. no_quotes keys \<longrightarrow> keys \<noteq> [] \<longrightarrow> prepare (dbase E) d (below_text m keys) = Inr () \<and>
        (\<exists>u. fst (exec_stmt (dbase E) (below_text m keys) [] d) = Inr u)) \<and>
     (\<forall>d. prepare (dbase E) d (roots_text q n) = Inr () \<and> (\<exists>u. fst (exec_stmt (dbase E) (roots_text q n) [] d) = Inr u))"

text \<open>No other type of the tree has the name of the root up to case.\<close>

definition fold_apart :: "l8node \<Rightarrow> bool" where
  "fold_apart n \<longleftrightarrow> (\<forall>m \<in> set (nodes_of n). equal_fold (TypeName m) (TypeName n) \<longrightarrow> TypeName m = TypeName n)"

section \<open>The content that stays\<close>

definition free_keys :: "'a env_scheme \<Rightarrow> l8node \<Rightarrow> gval list \<Rightarrow> bool" where
  "free_keys E n ys \<longleftrightarrow> (\<forall>y \<in> set ys. like_free (root_rec E n y) \<and> quote_char \<notin> set (root_rec E n y))"

lemma like_keys_prefix:
  assumes "free_keys E n ys" "set keys = root_rec E n ` set ys"
  shows "like_keys keys pk \<longleftrightarrow> (\<exists>y \<in> set ys. prefix (root_rec E n y) pk)" "no_quotes keys"
proof -
  have "sql_like (root_rec E n y @ ''%'') pk \<longleftrightarrow> prefix (root_rec E n y) pk" if "y \<in> set ys" for y
    using assms(1) that by (intro sql_like_prefix) (simp add: free_keys_def)
  then show "like_keys keys pk \<longleftrightarrow> (\<exists>y \<in> set ys. prefix (root_rec E n y) pk)"
    by (simp add: like_keys_def assms(2))
  show "no_quotes keys" using assms by (auto simp: no_quotes_def free_keys_def)
qed

lemma same_root:
  assumes "keys_ok E n ys" "x \<in> set ys" "y \<in> set ys" "prefix (root_rec E n x) pk" "prefix (root_rec E n y) pk"
  shows "x = y"
proof -
  obtain u v where "root_rec E n x @ u = root_rec E n y @ v" using assms(4,5) by (auto simp: prefix_def)
  then have "Convert_Theorem.root_key E n x = Convert_Theorem.root_key E n y"
    using assms(1-3) bracketed_append_eq unfolding root_rec_def keys_ok_def by metis
  then show ?thesis using assms(1-3) by (auto simp: keys_ok_def distinct_map inj_on_def)
qed

lemma remaining_content:
  fixes match :: "(string \<Rightarrow> drv) \<Rightarrow> bool"
  assumes ok: "keys_ok E n ys" and h: "holds E n ys T" "represents E (nodes_of n) M T"
  defines "out \<equiv> selected E n match M ys"
  defines "gone \<equiv> (\<lambda>tn key. tn \<noteq> TypeName n \<and> (\<exists>y \<in> set out. prefix (root_rec E n y) (fst key)))"
  shows "db_holds E n (selected E n (\<lambda>row. \<not> match row) M ys) (picked n (\<lambda>row. \<not> match row) (removed gone M))"
proof -
  let ?rest = "selected E n (\<lambda>row. \<not> match row) M ys"
  define T' where "T' = (\<lambda>tn key. if gone tn key \<or> tn = TypeName n \<and> (\<exists>row. M tn key = Some row \<and> match row) then None else T tn key)"
  have R: "case T (TypeName m) key of None \<Rightarrow> M (TypeName m) key = None
      | Some cells \<Rightarrow> \<exists>row. M (TypeName m) key = Some row \<and> row_carries E m key row cells" if "m \<in> set (nodes_of n)" for m key
    using h(2) that unfolding represents_def by blast
  have root: "\<not> gone (TypeName n) key" for key by (simp add: gone_def)
  have "represents E (nodes_of n) (picked n (\<lambda>row. \<not> match row) (removed gone M)) T'"
    unfolding represents_def
  proof (intro ballI allI)
    fix m key assume "m \<in> set (nodes_of n)"
    then show "case T' (TypeName m) key of None \<Rightarrow> picked n (\<lambda>row. \<not> match row) (removed gone M) (TypeName m) key = None
      | Some cells \<Rightarrow> \<exists>row. picked n (\<lambda>row. \<not> match row) (removed gone M) (TypeName m) key = Some row \<and> row_carries E m key row cells"
      using R [of m key] root [of key]
      by (cases "T (TypeName m) key"; cases "M (TypeName m) key"; cases "TypeName m = TypeName n"; cases "gone (TypeName m) key")
        (simp_all add: T'_def picked_def removed_def)
  qed
  moreover have "holds E n ?rest T'"
    unfolding holds_def
  proof (intro conjI ballI)
    have st: "stored E T n y [] (root_rec E n y)" if "y \<in> set ys" for y using h(1) that by (simp add: holds_def)
    have conf: "tn = TypeName n \<and> pk = [] \<and> rk \<in> root_rec E n ` set ys \<or>
        tn \<noteq> TypeName n \<and> (\<exists>k \<in> root_rec E n ` set ys. prefix k pk)" if "T tn (pk, rk) \<noteq> None" for tn pk rk
      using h(1) that unfolding holds_def confined_def by blast
    have split: "y \<in> set ?rest \<longleftrightarrow> y \<notin> set out" if "y \<in> set ys" for y
      using that by (simp add: selected_def out_def)
    have sub: "set ?rest \<subseteq> set ys" "set out \<subseteq> set ys" by (auto simp: selected_def out_def)
    have row: "T' (TypeName n) ([], root_rec E n y) = (if y \<in> set ?rest then T (TypeName n) ([], root_rec E n y) else None)"
      if y: "y \<in> set ys" for y
    proof -
      have "T (TypeName n) ([], root_rec E n y) \<noteq> None" using st [OF y] by (auto elim!: stored.cases)
      then obtain r where "M (TypeName n) ([], root_rec E n y) = Some r"
        using R [OF nodes_of_self, of "([], root_rec E n y)"] by auto
      with y root show ?thesis by (simp add: T'_def selected_def)
    qed
    show "confined n (root_rec E n ` set ?rest) T'"
      unfolding confined_def
    proof (intro allI impI)
      fix tn pk rk assume t: "T' tn (pk, rk) \<noteq> None"
      then have "T tn (pk, rk) \<noteq> None" "\<not> gone tn (pk, rk)" by (auto simp: T'_def split: if_splits)
      with conf consider (root) y where "tn = TypeName n" "pk = []" "y \<in> set ys" "rk = root_rec E n y"
        | (part) y where "tn \<noteq> TypeName n" "y \<in> set ys" "prefix (root_rec E n y) pk" "\<not> gone tn (pk, rk)" by blast
      then show "tn = TypeName n \<and> pk = [] \<and> rk \<in> root_rec E n ` set ?rest \<or>
          tn \<noteq> TypeName n \<and> (\<exists>k \<in> root_rec E n ` set ?rest. prefix k pk)"
      proof cases
        case root
        with t row [of y] show ?thesis by (auto split: if_splits)
      next
        case part
        then have "y \<notin> set out" by (auto simp: gone_def)
        with part split show ?thesis by blast
      qed
    qed
    fix y assume y: "y \<in> set ?rest"
    then have ys: "y \<in> set ys" "y \<notin> set out" using sub split by auto
    show "stored E T' n y [] (root_rec E n y)"
    proof (rule stored_frame [OF st [OF ys(1)]])
      show "T' (TypeName n) ([], root_rec E n y) = T (TypeName n) ([], root_rec E n y)" using row [OF ys(1)] y by simp
      fix tn pk rk assume p: "prefix ([] @ root_rec E n y) pk"
      show "T' tn (pk, rk) = T tn (pk, rk)"
      proof (cases "tn = TypeName n")
        case True
        have "pk \<noteq> []" using p by (auto simp: root_rec_def bracketed_def)
        then have "T tn (pk, rk) = None" using conf [of tn pk rk] True by blast
        then show ?thesis by (simp add: T'_def)
      next
        case False
        have "\<not> gone tn (pk, rk)"
          using same_root [OF ok _ ys(1) _ p [simplified]] sub(2) ys(2) by (auto simp: gone_def)
        with False show ?thesis by (simp add: T'_def)
      qed
    qed
  qed
  ultimately show ?thesis unfolding db_holds_def by blast
qed

section \<open>The keys of the roots\<close>

lemma root_key_row:
  assumes "row ''ParentKey'' = DText pk" "row ''RecKey'' = DText rk"
  shows "Pg_Write.root_key C (map row (key_fields @ fs)) = Inr (pk @ rk)"
  using assms by (simp add: Pg_Write.root_key_def key_fields_def Scan_def string_type_def scan_value_def)

lemma root_keys_yield:
  assumes inv: "orders_ok E" "sql_types E n" "never_panics (dbase E)" "delivers E n q view" "plain_query n q"
    and T: "represents E (nodes_of n) (view d) T" and cols: "table_columns data (TypeName n) = Inr cols"
  shows "yields (accepts_reads E n q) (\<lambda>keys. set keys = (\<lambda>k. fst k @ snd k) ` dom (view d (TypeName n)))
    (readRootKeys E q data d)"
proof -
  obtain k where k: "nodeByTypeName E (TypeName n) = Some k" "TypeName k = TypeName n" "k \<in> set (nodes_of n)" "stmt_node k"
    using sql_types_node [OF inv(2) nodes_of_self] by metis
  have root: "RootType q = n" using inv(5) by (simp add: plain_query_def whole_query_def)
  have run: "readRootKeys E q data d =
      rbind (prepare (dbase E) d (query_text E q k)) (\<lambda>u.
      rbind (query_rows (dbase E) d (query_text E q k) []) (\<lambda>(rows, err).
        collect (Pg_Write.root_key (scanner E)) rows))"
    using root k(1) cols
    by (cases "prepare (dbase E) d (query_text E q k)") (simp_all add: readRootKeys_def select_plain [OF plain_whole [OF inv(5)]] inv(5) [unfolded plain_query_def])
  obtain fs where fs: "select_fields E k = key_fields @ fs"
    by (rule fields_known [OF inv(1) k(4), of None "None :: iquery option"]) (simp add: select_fields_def fields_list_def)
  have row: "Pg_Write.root_key (scanner E) (map (the (view d (TypeName k) key)) (select_fields E k)) = Inr (fst key @ snd key)"
    if key: "key \<in> dom (view d (TypeName k))" for key
  proof -
    obtain row where "view d (TypeName n) key = Some row" using key k(2) by auto
    moreover from this obtain cells where "row_carries E n key row cells"
      using T [unfolded represents_def, rule_format, OF nodes_of_self, of key] by (cases "T (TypeName n) key") auto
    ultimately show ?thesis
      using root_key_row [of row "fst key" "snd key" "scanner E" fs] by (simp add: fs k(2) row_carries_def)
  qed
  show ?thesis
    unfolding run
  proof (intro yields_bind [OF never_panics_yields(1) [OF inv(3) k(3)]] yields_bind [OF never_panics_yields(2) [OF inv(3) k(3)]])
    fix u x assume x: "query_rows (dbase E) d (query_text E q k) [] = Inr x"
    obtain rows err where p: "x = (rows, err)" by (cases x)
    obtain ks where ks: "set ks = dom (view d (TypeName k))"
      "rows = map (\<lambda>key. map (the (view d (TypeName k) key)) (select_fields E k)) ks"
      using inv(4) k(3) x unfolding p delivers_def by metis
    have "collect (Pg_Write.root_key (scanner E)) rows = Inr (map (\<lambda>key. fst key @ snd key) ks)"
      unfolding ks(2) collect_comp using row ks(1) by (intro collect_map) blast
    then show "yields (accepts_reads E n q) (\<lambda>keys. set keys = (\<lambda>k. fst k @ snd k) ` dom (view d (TypeName n)))
        (case x of (rows, err) \<Rightarrow> collect (Pg_Write.root_key (scanner E)) rows)"
      using ks(1) k(2) by (simp add: p)
  qed
qed

text \<open>The rows that a condition picks are those of the selected objects.\<close>

lemma picked_roots:
  assumes "holds E n ys T" "represents E (nodes_of n) M T"
  shows "dom (picked n match M (TypeName n)) = (\<lambda>y. ([], root_rec E n y)) ` set (selected E n match M ys)"
proof -
  have R: "T (TypeName n) key = None \<longleftrightarrow> M (TypeName n) key = None" for key
    using assms(2) [unfolded represents_def, rule_format, OF nodes_of_self, of key] by (cases "T (TypeName n) key") auto
  show ?thesis
  proof (rule set_eqI)
    fix key :: "string \<times> string"
    obtain pk rk where key: "key = (pk, rk)" by (cases key)
    show "key \<in> dom (picked n match M (TypeName n)) \<longleftrightarrow>
        key \<in> (\<lambda>y. ([], root_rec E n y)) ` set (selected E n match M ys)"
    proof
      assume "key \<in> dom (picked n match M (TypeName n))"
      then obtain row where row: "M (TypeName n) key = Some row" "match row"
        by (auto simp: picked_def split: option.splits if_splits)
      then have "T (TypeName n) (pk, rk) \<noteq> None" using R [of key] key by simp
      then have "pk = []" "rk \<in> root_rec E n ` set ys"
        using assms(1) unfolding holds_def confined_def by blast+
      then obtain y where "y \<in> set ys" "key = ([], root_rec E n y)" by (auto simp: key)
      with row show "key \<in> (\<lambda>y. ([], root_rec E n y)) ` set (selected E n match M ys)"
        by (intro image_eqI [of _ _ y]) (simp_all add: selected_def)
    next
      assume "key \<in> (\<lambda>y. ([], root_rec E n y)) ` set (selected E n match M ys)"
      then obtain y where y: "y \<in> set ys" "key = ([], root_rec E n y)" "match (the (M (TypeName n) key))"
        by (auto simp: selected_def)
      then have "T (TypeName n) key \<noteq> None" using assms(1) by (auto simp: holds_def elim!: stored.cases)
      then obtain row where "M (TypeName n) key = Some row" using R [of key] by auto
      with y(3) show "key \<in> dom (picked n match M (TypeName n))" by (simp add: picked_def dom_def)
    qed
  qed
qed

section \<open>Running a deletion\<close>

lemma fine_yields: "fine ok m \<Longrightarrow> yields ok (\<lambda>x. True) (fst (m d))"
  unfolding fine_def yields_def by (auto split: sum.split go_err.split) (metis sum.distinct(1))+

lemma yields_bracket:
  assumes "yields ok (\<lambda>x. True) (fst (begin_tx db d))" "\<And>u d'. begin_tx db d = (Inr u, d') \<Longrightarrow> yields ok P (fst (body d'))"
  shows "yields ok P (fst (bracket db rb body d))"
proof -
  obtain r d' where r: "begin_tx db d = (r, d')" by fastforce
  obtain b d'' where b: "body d' = (b, d'')" by fastforce
  show ?thesis
  proof (cases r)
    case (Inl e)
    with assms(1) r show ?thesis by (cases e) (simp_all add: bracket_def)
  next
    case (Inr u)
    then have "yields ok P b" using assms(2) [of u d'] r b by simp
    then show ?thesis using r b Inr
      by (cases b) (auto simp: bracket_def yields_def split: go_err.splits)
  qed
qed

lemma yields_reading:
  assumes "yields ok P (f d)" "\<And>x. P x \<Longrightarrow> yields ok Q (fst (g x d))"
  shows "yields ok Q (fst (abind (reading f) g d))"
proof (cases "f d")
  case (Inl e)
  with assms(1) show ?thesis by (cases e) (simp_all add: abind_def reading_def)
qed (use assms in \<open>simp add: abind_def reading_def\<close>)

lemma yields_if: "yields ok P r \<Longrightarrow> (ok' \<Longrightarrow> ok) \<Longrightarrow> yields ok' P r"
  by (auto simp: yields_def split: sum.splits go_err.splits)

lemma fine_statement:
  assumes "never_panics (dbase E)"
    and "ok \<Longrightarrow> \<forall>d. prepare (dbase E) d sql = Inr () \<and> (\<exists>u. fst (exec_stmt (dbase E) sql [] d) = Inr u)"
  shows "fine ok (abind (reading (\<lambda>d. prepare (dbase E) d sql)) (\<lambda>_. exec_stmt (dbase E) sql []))"
  using assms by (intro fine_bind) (auto simp: fine_def never_panics_def reading_def)

lemma delete_children_fine:
  assumes "sql_types E n" "never_panics (dbase E)" "fst tt \<in> TypeName ` set (nodes_of n)" "keys \<noteq> []" "no_quotes keys"
  shows "fine (accepts_deletes E n q) (delete_children E q keys tt)"
proof (cases "equal_fold (fst tt) (TypeName (RootType q))")
  case True
  then show ?thesis by (auto simp: delete_children_def split: prod.split)
next
  case False
  obtain k where k: "nodeByTypeName E (fst tt) = Some k" "k \<in> set (nodes_of n)"
    using sql_types_node [OF assms(1)] assms(3) by (metis imageE)
  have "fine (accepts_deletes E n q) (abind (reading (\<lambda>d. prepare (dbase E) d (below_text k keys)))
      (\<lambda>_. exec_stmt (dbase E) (below_text k keys) []))"
    using assms(2,4,5) k(2) by (intro fine_statement) (auto simp: accepts_deletes_def)
  then show ?thesis using False k(1) assms(4) by (cases tt) (simp add: delete_children_def DeleteByKeys_below)
qed

lemma delete_root_fine:
  assumes "sql_types E n" "never_panics (dbase E)" "plain_query n q" "table_columns data (TypeName n) = Inr cols"
  shows "fine (accepts_deletes E n q) (delete_root E q data)"
proof -
  obtain k where k: "nodeByTypeName E (TypeName n) = Some k" "TypeName k = TypeName n"
    using sql_types_node [OF assms(1) nodes_of_self] by metis
  obtain x where "root_condition q = Inr x" "RootType q = n" using assms(3) by (auto simp: plain_query_def whole_query_def)
  moreover have "roots_text q k = roots_text q n" by (simp add: roots_text_def k(2))
  ultimately have run: "delete_root E q data = abind (reading (\<lambda>d. rbind (prepare (dbase E) d (roots_text q n)) (\<lambda>_. Inr (roots_text q n))))
      (\<lambda>sql. exec_stmt (dbase E) sql [])"
    using k(1) assms(4) DeleteStatement_roots [of q x k cols] by (simp add: delete_root_def fun_eq_iff act_simps)
  show ?thesis
    unfolding run
  proof (rule fine_bind)
    show "fine (accepts_deletes E n q) (reading (\<lambda>d. rbind (prepare (dbase E) d (roots_text q n)) (\<lambda>_. Inr (roots_text q n))))"
      using assms(2) by (auto simp: fine_def reading_def rbind_def never_panics_def accepts_deletes_def split: sum.split)
    fix sql d d' assume "reading (\<lambda>d. rbind (prepare (dbase E) d (roots_text q n)) (\<lambda>_. Inr (roots_text q n))) d = (Inr sql, d')"
    then have "sql = roots_text q n" by (auto simp: reading_def rbind_eq_Inr)
    then show "fine (accepts_deletes E n q) (exec_stmt (dbase E) sql [])"
      using assms(2) by (auto simp: fine_def never_panics_def accepts_deletes_def)
  qed
qed

section \<open>What a deletion does to the tables\<close>

lemma removed_removed: "removed g (removed h M) = removed (\<lambda>tn key. g tn key \<or> h tn key) M"
  by (simp add: fun_eq_iff removed_def)

lemma children_script:
  assumes inv: "sql_types E n" "deletes n q match effect" "keys \<noteq> []" "no_quotes keys"
  shows "\<forall>tt \<in> set tts. fst tt \<in> TypeName ` set (nodes_of n) \<Longrightarrow> collect (child_delete E q keys) tts = Inr stmts \<Longrightarrow>
    run_script effect stmts M = removed (\<lambda>tn key. tn \<in> fst ` set tts \<and> like_keys keys (fst key)) M"
proof (induction tts arbitrary: stmts M)
  case Nil
  then show ?case by (simp add: fun_eq_iff removed_def)
next
  case (Cons tt tts)
  obtain k where k: "nodeByTypeName E (fst tt) = Some k" "TypeName k = fst tt" "k \<in> set (nodes_of n)"
    using sql_types_node [OF inv(1)] Cons.prems(1) by (metis imageE list.set_intros(1))
  have one: "child_delete E q keys tt = Inr (below_text k keys, [])"
    using k(1) inv(3) by (simp add: child_delete_def DeleteByKeys_below)
  with Cons.prems(2) obtain rest where rest: "collect (child_delete E q keys) tts = Inr rest"
    "stmts = (below_text k keys, []) # rest" by (auto simp: rbind_eq_Inr)
  have "effect (below_text k keys) [] M = removed (\<lambda>tn key. tn = fst tt \<and> like_keys keys (fst key)) M"
    using inv(2-4) k(2,3) unfolding deletes_def by metis
  then show ?case
    using Cons.IH [OF _ rest(1)] Cons.prems(1) by (simp add: rest(2) removed_removed disj_commute conj_disj_distribR)
qed

text \<open>
  The tables after the script: the parts below the keys are gone, and the roots that match.
\<close>

lemma represents_cong:
  "(\<And>m. m \<in> set N \<Longrightarrow> M' (TypeName m) = M (TypeName m)) \<Longrightarrow> represents E N M' T = represents E N M T"
  by (simp add: represents_def cong: option.case_cong)

lemma deletion_script:
  assumes inv: "sql_types E n" "deletes n q match effect" "fold_apart n" "plain_query n q"
    and keys: "keys \<noteq> []" "no_quotes keys"
    and data: "fst ` set (Tables data) = TypeName ` set (nodes_of n)" "mset children = mset (child_tables q data)"
    and run: "collect (child_delete E q keys) children = Inr stmts" "nodeByTypeName E (TypeName (RootType q)) = Some k"
      "DeleteStatement_sql (NewStatement k cols (Some q)) [] = Inr root"
    and m: "m \<in> set (nodes_of n)"
  shows "run_script effect (stmts @ [(root, [])]) M (TypeName m) =
    picked n (\<lambda>row. \<not> match row) (removed (\<lambda>tn key. tn \<noteq> TypeName n \<and> like_keys keys (fst key)) M) (TypeName m)"
proof -
  obtain x where q: "root_condition q = Inr x" "RootType q = n" using inv(4) by (auto simp: plain_query_def whole_query_def)
  have set: "set children = set (child_tables q data)" using data(2) by (rule mset_eq_setD)
  then have names: "\<forall>tt \<in> set children. fst tt \<in> TypeName ` set (nodes_of n)"
    by (auto simp: child_tables_def data(1) [symmetric])
  have child: "TypeName m \<in> fst ` set children \<longleftrightarrow> TypeName m \<noteq> TypeName n"
  proof
    assume "TypeName m \<in> fst ` set children"
    then show "TypeName m \<noteq> TypeName n" by (auto simp: set child_tables_def q(2) equal_fold_def)
  next
    assume "TypeName m \<noteq> TypeName n"
    then have "\<not> equal_fold (TypeName m) (TypeName n)" using inv(3) m by (auto simp: fold_apart_def)
    moreover have "TypeName m \<in> fst ` set (Tables data)" using data(1) m by simp
    ultimately show "TypeName m \<in> fst ` set children" by (force simp: set child_tables_def q(2))
  qed
  have k: "TypeName k = TypeName n"
    using sql_types_node [OF inv(1) nodes_of_self] run(2) q(2) by (metis option.inject)
  have "root = roots_text q n" using DeleteStatement_roots [OF q(1), of k cols] run(3) by (simp add: roots_text_def k)
  moreover have "effect (roots_text q n) [] = picked n (\<lambda>row. \<not> match row)" using inv(2) by (simp add: deletes_def fun_eq_iff)
  ultimately have "run_script effect (stmts @ [(root, [])]) M =
      picked n (\<lambda>row. \<not> match row) (removed (\<lambda>tn key. tn \<in> fst ` set children \<and> like_keys keys (fst key)) M)"
    using children_script [OF inv(1,2) keys names run(1)] by simp
  with child show ?thesis by (simp add: fun_eq_iff picked_def removed_def)
qed

section \<open>Deleting objects\<close>

lemma Delete_store:
  assumes S: "store_ok E n kept seen effect" "delivers E n q (\<lambda>d. picked n match (seen d))" "deletes n q match effect"
    and q: "plain_query n q" "fold_apart n"
    and ys: "keys_ok E n ys" "free_keys E n ys" "db_holds E n ys (kept (dbState s))"
    and run: "Delete E now q s = (r, s')"
  shows "(r = Inr () \<and> db_holds E n (selected E n (\<lambda>row. \<not> match row) (kept (dbState s)) ys) (kept (dbState s')) \<or>
      (\<exists>m. r = Inl (Err m)) \<and> kept (dbState s') = kept (dbState s)) \<and>
    (accepts_deletes E n q \<longrightarrow> r = Inr ())"
proof -
  let ?M = "kept (dbState s)" and ?d = "dbState s"
  have E: "orders_ok E" "wf_tree n" "sql_types E n" "transactional (dbase E) kept seen effect" "never_panics (dbase E)"
    "\<And>d. fst (commit_tx (dbase E) d) = Inr ()"
    using S(1) by (simp_all add: store_ok_def)
  have root: "RootType q = n" using q(1) by (simp add: plain_query_def whole_query_def)
  obtain data where data: "NewRelationsDataForQuery E q = Inr data" "distinct (gkeys (Tables data))"
    "fst ` set (Tables data) = TypeName ` set (nodes_of n)"
    using plain_schema [OF E(1-3) plain_whole [OF q(1)]] by blast
  obtain T where T: "holds E n ys T" "represents E (nodes_of n) ?M T" using ys(3) by (auto simp: db_holds_def)
  obtain T' where T': "represents E (nodes_of n) (picked n match ?M) T'" "has_roots E n (selected E n match ?M ys) T'"
    using picked_content [OF _ T] ys(1) by (auto simp: keys_ok_def)
  let ?out = "selected E n match ?M ys"
  have "TypeName n \<in> fst ` set (Tables data)" unfolding data(3) by simp
  then obtain cols where cols: "table_columns data (TypeName n) = Inr cols"
    by (cases "map_of (Tables data) (TypeName n)") (auto simp: table_columns_def map_of_eq_None_iff)
  have keys: "yields (accepts_reads E n q) (\<lambda>keys. set keys = root_rec E n ` set ?out) (readRootKeys E q data d)"
    if d: "seen d = ?M" for d
    using root_keys_yield [OF E(1,3,5) S(2) q(1) T'(1) [folded d] cols] d
    by (simp add: picked_roots [OF T] image_image)
  let ?run = "bracket (dbase E) True (delete_body E q data)"
  have free: "free_keys E n ?out" using ys(2) by (simp add: free_keys_def selected_def)
  have ok: "yields (accepts_deletes E n q) (\<lambda>u. True) (fst (?run ?d))"
  proof (rule yields_bracket)
    have "fine (accepts_deletes E n q) (begin_tx (dbase E))"
      using E(5) by (simp add: fine_def never_panics_def accepts_deletes_def accepts_reads_def)
    then show "yields (accepts_deletes E n q) (\<lambda>x. True) (fst (begin_tx (dbase E) ?d))" by (rule fine_yields)
    fix u d assume "begin_tx (dbase E) ?d = (Inr u, d)"
    then have d: "seen d = ?M" using transactionalD(2) [OF E(4), of ?d u] by simp
    let ?P = "\<lambda>ks. set ks = root_rec E n ` set ?out"
    have found: "yields (accepts_deletes E n q) ?P (readRootKeys E q data d)"
      using keys [OF d] by (rule yields_if) (simp add: accepts_deletes_def)
    show "yields (accepts_deletes E n q) (\<lambda>u. True) (fst (delete_body E q data d))"
      unfolding delete_body_def
    proof (rule yields_reading [where f = "readRootKeys E q data" and P = ?P, OF found])
      fix ks assume ks: "set ks = root_rec E n ` set ?out"
      then have nq: "no_quotes ks" using like_keys_prefix(2) [OF free] by blast
      show "yields (accepts_deletes E n q) (\<lambda>u. True) (fst ((if ks = [] then ret (Inr ()) else
          abind (afold (\<lambda>u tt. delete_children E q ks tt) ()
             (range_loop (rng E (''DeleteRelational'', RootTypeName data)) (Tables data)))
          (\<lambda>_. delete_root E q data)) d))"
      proof (cases "ks = []")
        case False
        have "fine (accepts_deletes E n q) (delete_children E q ks tt)"
          if "tt \<in> set (range_loop (rng E (''DeleteRelational'', RootTypeName data)) (Tables data))" for tt
        proof -
          have "tt \<in> set (Tables data)" using that by (metis range_loop_in prod.collapse)
          then have "fst tt \<in> TypeName ` set (nodes_of n)" unfolding data(3) [symmetric] by simp
          then show ?thesis using delete_children_fine [OF E(3,5) _ False nq] by blast
        qed
        then have "fine (accepts_deletes E n q) (abind (afold (\<lambda>u tt. delete_children E q ks tt) ()
             (range_loop (rng E (''DeleteRelational'', RootTypeName data)) (Tables data))) (\<lambda>_. delete_root E q data))"
          by (intro fine_bind fine_fold delete_root_fine [OF E(3,5) q(1) cols])
        with False show ?thesis by (simp add: fine_yields)
      qed (simp add: ret_def)
    qed
  qed
  have Delete: "r = fst (?run ?d)" "dbState s' = snd (?run ?d)"
    using run data(1) by (auto simp: Delete_def finally_invalidate_def on_db_def DeleteRelational_def abind_ret split: prod.splits)
  have run': "DeleteRelational E q ?d = (r, dbState s')"
    using data(1) by (simp add: DeleteRelational_def abind_ret Delete)
  show ?thesis
  proof (cases r)
    case (Inl e)
    then have "yields (accepts_deletes E n q) (\<lambda>u. True) (Inl e :: unit res)" using ok Delete(1) by simp
    with Inl obtain m where m: "r = Inl (Err m)" "\<not> accepts_deletes E n q" by (cases e) simp_all
    then have "?run ?d = (Inl (Err m), dbState s')" using Delete by (simp add: prod_eq_iff)
    then have "kept (dbState s') = ?M" using deleting.error_keeps [OF E(4)] by blast
    with m show ?thesis by simp
  next
    case (Inr u)
    obtain ks children stmts root e where del: "readRootKeys E q data (opened (dbase E) ?d) = Inr ks"
      "mset children = mset (child_tables q data)"
      "ks = [] \<and> seen e = ?M \<or>
       ks \<noteq> [] \<and> collect (child_delete E q ks) children = Inr stmts \<and>
       (\<exists>k cols. nodeByTypeName E (TypeName (RootType q)) = Some k \<and>
          DeleteStatement_sql (NewStatement k cols (Some q)) [] = Inr root) \<and>
       seen e = run_script effect (stmts @ [(root, [])]) ?M"
      "fst (commit_tx (dbase E) e) = Inr () \<longrightarrow> kept (dbState s') = seen e"
      using DeleteRelational_script [OF E(4,1) data(1,2) run' [unfolded Inr]] by blast
    have "?run ?d = (Inr u, dbState s')" using Delete Inr by (simp add: prod_eq_iff)
    then obtain u' where "fst (begin_tx (dbase E) ?d) = Inr u'" unfolding bracket_Inr by blast
    then have "seen (opened (dbase E) ?d) = ?M" using transactionalD(2) [OF E(4)] by (simp add: opened_def)
    from keys [OF this] del(1) have ks: "set ks = root_rec E n ` set ?out" by simp
    have kept: "kept (dbState s') = seen e" using del(4) E(6) by simp
    have rest: "db_holds E n (selected E n (\<lambda>row. \<not> match row) ?M ys)
        (picked n (\<lambda>row. \<not> match row) (removed (\<lambda>tn key. tn \<noteq> TypeName n \<and> like_keys ks (fst key)) ?M))"
      using remaining_content [OF ys(1) T, of match] like_keys_prefix(1) [OF free ks] by simp
    have agree: "seen e (TypeName m) = picked n (\<lambda>row. \<not> match row)
        (removed (\<lambda>tn key. tn \<noteq> TypeName n \<and> like_keys ks (fst key)) ?M) (TypeName m)" if m: "m \<in> set (nodes_of n)" for m
    proof (cases "ks = []")
      case True
      then have none: "set ?out = {}" using ks by simp
      have "picked n (\<lambda>row. \<not> match row) ?M (TypeName m) key = ?M (TypeName m) key" for key
      proof -
        have "dom (picked n match ?M (TypeName n)) = {}" using picked_roots [OF T, of match] none by simp
        then have "picked n match ?M (TypeName n) key = None" by blast
        then show ?thesis by (auto simp: picked_def split: option.splits if_splits)
      qed
      moreover have "removed (\<lambda>tn key. tn \<noteq> TypeName n \<and> like_keys ks (fst key)) ?M = ?M"
        by (simp add: True like_keys_def removed_def fun_eq_iff)
      ultimately show ?thesis using del(3) True by (intro ext) simp
    next
      case False
      then obtain k cols where script: "collect (child_delete E q ks) children = Inr stmts"
        "nodeByTypeName E (TypeName (RootType q)) = Some k"
        "DeleteStatement_sql (NewStatement k cols (Some q)) [] = Inr root"
        "seen e = run_script effect (stmts @ [(root, [])]) ?M" using del(3) by blast
      show ?thesis
        unfolding script(4) by (rule deletion_script [OF E(3) S(3) q(2,1) False like_keys_prefix(2) [OF free ks] data(3) del(2) script(1-3) m])
    qed
    have "db_holds E n (selected E n (\<lambda>row. \<not> match row) ?M ys) (kept (dbState s'))"
      using rest represents_cong [where M' = "seen e" and N = "nodes_of n", OF agree] unfolding db_holds_def kept by blast
    with Inr show ?thesis by simp
  qed
qed

end
