(* ===== verification/Pg_Page.thy ===== *)
theory Pg_Page
  imports Pg_Remove
begin

text \<open>
  Reading page by page: the record keys of a query, a page of them, and the objects of the
  page in the order of its keys.
\<close>

section \<open>The statements of a page\<close>

definition keys_text :: "iquery \<Rightarrow> l8node \<Rightarrow> string" where
  "keys_text q n = ''SELECT RecKey FROM '' @ TypeName n @ clause '' WHERE '' q @ order_by q"

definition by_keys_text :: "'a env_scheme \<Rightarrow> l8node \<Rightarrow> string list \<Rightarrow> string" where
  "by_keys_text E m keys = fst (Query2SqlByRecKeys E (TypeName m) keys (NewStatement m None (None :: iquery option)))"

lemma Query2RecKeys_text:
  assumes "root_condition q = Inr x" "RootType q = n"
  shows "Query2RecKeysSql q (TypeName n) = Inr (keys_text q n)"
proof (cases "Criteria q = NilIface")
  case True
  then show ?thesis by (simp add: Query2RecKeysSql_def keys_text_def clause_def root_condition_def)
next
  case False
  with where_condition [OF assms(1)] assms(2) show ?thesis
    by (simp add: Query2RecKeysSql_def keys_text_def root_table_def)
qed

lemma Query2SqlByRecKeys_text:
  "Query2SqlByRecKeys E (TypeName m) keys (NewStatement m cols q) =
     (by_keys_text E m keys, ensure_fields E (NewStatement m cols q))"
  by (simp add: by_keys_text_def Query2SqlByRecKeys_def select_fields_columns Let_def)

text \<open>
  The keys of a query are those of the rows its condition is true of, each once, in some
  order; a page has the rows of its keys; the other tables are read whole.
\<close>

definition lists_rows :: "(drv list list \<times> string option) res \<Rightarrow> ('k \<Rightarrow> drv list) \<Rightarrow> 'k set \<Rightarrow> bool" where
  "lists_rows r f K \<longleftrightarrow> (\<forall>rows err. r = Inr (rows, err) \<longrightarrow> (\<exists>ks. distinct ks \<and> set ks = K \<and> rows = map f ks))"

definition delivers_pages ::
    "('d, 'x) pg_env_scheme \<Rightarrow> l8node \<Rightarrow> iquery \<Rightarrow> ((string \<Rightarrow> drv) \<Rightarrow> bool) \<Rightarrow> ('d \<Rightarrow> tables) \<Rightarrow> bool" where
  "delivers_pages E n q match seen \<longleftrightarrow>
     (\<forall>d. lists_rows (query_rows (dbase E) d (keys_text q n) [])
        (\<lambda>k. [the (seen d (TypeName n) k) ''RecKey'']) (dom (picked n match (seen d) (TypeName n)))) \<and>
     (\<forall>m \<in> set (nodes_of n). \<forall>d.
        if TypeName m = TypeName n
        then \<forall>keys. keys \<noteq> [] \<longrightarrow> (\<forall>k \<in> set keys. valid_utf8 k) \<longrightarrow>
          lists_rows (query_rows (dbase E) d (by_keys_text E m keys) [])
            (\<lambda>k. map (the (seen d (TypeName m) k)) (select_fields E m)) {k \<in> dom (seen d (TypeName m)). snd k \<in> set keys}
        else lists_rows (query_rows (dbase E) d (select_text E m) [])
            (\<lambda>k. map (the (seen d (TypeName m) k)) (select_fields E m)) (dom (seen d (TypeName m))))"

lemma delivers_pagesD:
  assumes "delivers_pages E n q match seen" "m \<in> set (nodes_of n)"
  shows "TypeName m = TypeName n \<Longrightarrow> keys \<noteq> [] \<Longrightarrow> \<forall>k \<in> set keys. valid_utf8 k \<Longrightarrow>
      lists_rows (query_rows (dbase E) d (by_keys_text E m keys) [])
        (\<lambda>k. map (the (seen d (TypeName m) k)) (select_fields E m)) {k \<in> dom (seen d (TypeName m)). snd k \<in> set keys}"
    and "TypeName m \<noteq> TypeName n \<Longrightarrow> lists_rows (query_rows (dbase E) d (select_text E m) [])
        (\<lambda>k. map (the (seen d (TypeName m) k)) (select_fields E m)) (dom (seen d (TypeName m)))"
    and "lists_rows (query_rows (dbase E) d (keys_text q n) [])
        (\<lambda>k. [the (seen d (TypeName n) k) ''RecKey'']) (dom (picked n match (seen d) (TypeName n)))"
proof -
  note d = assms(1) [unfolded delivers_pages_def]
  note m = d [THEN conjunct2, rule_format, OF assms(2), of d]
  show "TypeName m = TypeName n \<Longrightarrow> keys \<noteq> [] \<Longrightarrow> \<forall>k \<in> set keys. valid_utf8 k \<Longrightarrow>
      lists_rows (query_rows (dbase E) d (by_keys_text E m keys) [])
        (\<lambda>k. map (the (seen d (TypeName m) k)) (select_fields E m)) {k \<in> dom (seen d (TypeName m)). snd k \<in> set keys}"
    using m by (simp add: Ball_def)
  show "TypeName m \<noteq> TypeName n \<Longrightarrow> lists_rows (query_rows (dbase E) d (select_text E m) [])
        (\<lambda>k. map (the (seen d (TypeName m) k)) (select_fields E m)) (dom (seen d (TypeName m)))"
    using m by (simp only: if_False)
  show "lists_rows (query_rows (dbase E) d (keys_text q n) [])
        (\<lambda>k. [the (seen d (TypeName n) k) ''RecKey'']) (dom (picked n match (seen d) (TypeName n)))"
    using d by (rule conjunct1 [THEN spec])
qed

definition accepts_pages :: "('d, 'x) pg_env_scheme \<Rightarrow> l8node \<Rightarrow> iquery \<Rightarrow> bool" where
  "accepts_pages E n q \<longleftrightarrow> (\<forall>d. \<exists>u. fst (begin_tx (dbase E) d) = Inr u) \<and>
     (\<forall>d. \<exists>rows. query_rows (dbase E) d (keys_text q n) [] = Inr rows) \<and>
     (\<forall>m \<in> set (nodes_of n). \<forall>d. prepare (dbase E) d (select_text E m) = Inr () \<and>
        (\<exists>rows. query_rows (dbase E) d (select_text E m) [] = Inr rows) \<and>
        (\<forall>keys. \<exists>rows. query_rows (dbase E) d (by_keys_text E m keys) [] = Inr rows))"

section \<open>One table of a page\<close>

definition shown :: "(string \<Rightarrow> 'k \<Rightarrow> bool) \<Rightarrow> (string \<Rightarrow> 'k \<Rightarrow> 'v option) \<Rightarrow> string \<Rightarrow> 'k \<Rightarrow> 'v option" where
  "shown P M tn key = (if P tn key then M tn key else None)"

definition on_page :: "l8node \<Rightarrow> string list \<Rightarrow> string \<Rightarrow> string \<times> string \<Rightarrow> bool" where
  "on_page n keys tn key \<longleftrightarrow>
     (if tn = TypeName n then snd key \<in> set keys else parentKeyMatchesRecKeys (fst key) keys)"

lemma dom_shown: "dom (shown P M tn) = {k \<in> dom (M tn). P tn k}"
  by (auto simp: shown_def split: if_splits)

lemma decodes_filter:
  assumes "decodes T m c rows" "filter p rows = filter (\<lambda>r. P (TypeName m) (ParentKey r, RecKey r)) rows"
  shows "decodes (shown P T) m c (filter p rows)"
proof -
  let ?key = "\<lambda>r. (ParentKey r, RecKey r)" and ?rs = "filter (\<lambda>r. P (TypeName m) (ParentKey r, RecKey r)) rows"
  have "distinct (map ?key ?rs)" using assms(1) by (simp add: decodes_def distinct_map_filter)
  moreover have "?key ` set ?rs = dom (shown P T (TypeName m))"
  proof -
    have "?key ` set rows = dom (T (TypeName m))" using assms(1) by (simp add: decodes_def)
    then have "{k \<in> dom (T (TypeName m)). P (TypeName m) k} = {k \<in> ?key ` set rows. P (TypeName m) k}" by simp
    then show ?thesis unfolding dom_shown by auto
  qed
  moreover have "\<forall>r \<in> set ?rs. \<forall>a \<in> set (scalar_names m).
      cells_of (Some c) r a = the (shown P T (TypeName m) (ParentKey r, RecKey r)) a"
    using assms(1) by (simp add: decodes_def shown_def)
  ultimately show ?thesis unfolding assms(2) by (simp add: decodes_def)
qed

lemma decodes_mset:
  assumes "mset rs = mset rows" "decodes T m c rows"
  shows "decodes T m c rs"
proof -
  let ?key = "\<lambda>r. (ParentKey r, RecKey r)"
  have "mset (map ?key rs) = mset (map ?key rows)" using assms(1) by simp
  then have "distinct (map ?key rs) = distinct (map ?key rows)" by (rule mset_eq_imp_distinct_iff)
  moreover have "set rs = set rows" using assms(1) by (rule mset_eq_setD)
  ultimately show ?thesis using assms(2) by (simp add: decodes_def)
qed

lemma map_filter_Some: "List.map_filter id (map Some xs) = xs"
  by (induction xs) (simp_all add: List.map_filter_simps)

text \<open>Keys of a page, each of which has a root row.\<close>

definition page_keys :: "l8node \<Rightarrow> content \<Rightarrow> string list \<Rightarrow> bool" where
  "page_keys n T keys \<longleftrightarrow> keys \<noteq> [] \<and> distinct keys \<and> (\<forall>k \<in> set keys. valid_utf8 k \<and> T (TypeName n) ([], k) \<noteq> None) \<and>
     (\<forall>key. T (TypeName n) key \<noteq> None \<longrightarrow> fst key = [])"

lemma sorted_page:
  assumes k: "page_keys n T keys" and d: "decodes (shown (on_page n keys) T) m c rows" and m: "TypeName m = TypeName n"
  shows "\<exists>sorted. sort_rows keys rows = Inr (map Some sorted) \<and> map RecKey sorted = keys \<and>
    decodes (shown (on_page n keys) T) m c sorted"
proof -
  have rows: "distinct (map (\<lambda>r. (ParentKey r, RecKey r)) rows)"
    "(\<lambda>r. (ParentKey r, RecKey r)) ` set rows = dom (shown (on_page n keys) T (TypeName n))"
    using d by (simp_all add: decodes_def m)
  have dom: "dom (shown (on_page n keys) T (TypeName n)) = (\<lambda>k. ([], k)) ` set keys"
    unfolding dom_shown using k by (force simp: page_keys_def on_page_def)
  have pk: "ParentKey r = []" if "r \<in> set rows" for r
  proof -
    have "(ParentKey r, RecKey r) \<in> (\<lambda>k. ([], k)) ` set keys" using that rows(2) dom by blast
    then show ?thesis by auto
  qed
  have dist: "distinct (map RecKey rows)"
    using rows(1) pk by (auto simp: distinct_map inj_on_def)
  have "snd ` (\<lambda>r. (ParentKey r, RecKey r)) ` set rows = set keys" unfolding rows(2) dom by (simp add: image_image)
  then have keys: "RecKey ` set rows = set keys" by (simp add: image_image)
  then have len: "length rows = length keys"
    using distinct_card [OF dist] distinct_card [of keys] k by (simp add: page_keys_def)
  obtain sorted where "sort_rows keys rows = Inr (map Some sorted)" "mset sorted = mset rows" "map RecKey sorted = keys"
    using sort_rows_page [of keys rows] dist keys len k by (auto simp: page_keys_def)
  then show ?thesis using decodes_mset [OF _ d] by blast
qed

lemma page_statements_yield:
  assumes "never_panics (dbase E)" "m \<in> set (nodes_of n)"
  shows "yields (accepts_pages E n q) (\<lambda>u. True) (prepare (dbase E) d (select_text E m))"
    and "yields (accepts_pages E n q) (\<lambda>u. True) (query_rows (dbase E) d (select_text E m) [])"
    and "yields (accepts_pages E n q) (\<lambda>u. True) (query_rows (dbase E) d (by_keys_text E m keys) [])"
  using assms unfolding yields_def never_panics_def accepts_pages_def
  by (auto split: sum.split go_err.split) (metis sum.distinct(1))+

lemma listed_decode:
  assumes inv: "orders_ok E" "stmt_node k" "TypeName k = TypeName m" "Attributes k = Attributes m"
    and c: "inj_on (column_index (Some c)) (set (scalar_names m))"
    and T: "represents E (nodes_of n) M T" "m \<in> set (nodes_of n)"
    and rows: "lists_rows (Inr (rows, err)) (\<lambda>key. map (the (M (TypeName m) key)) (select_fields E k)) {key \<in> dom (M (TypeName m)). P (TypeName m) key}"
  shows "\<exists>rs. readRows E (ensure_fields E (NewStatement k (Some c) (Some q))) rows = Inr rs \<and> decodes (shown P T) m c rs"
proof -
  obtain ks where ks: "distinct ks" "set ks = dom (shown P M (TypeName m))"
    "rows = map (\<lambda>key. map (the (M (TypeName m) key)) (select_fields E k)) ks"
    using rows unfolding lists_rows_def dom_shown by blast
  have "rows = map (\<lambda>key. map (the (shown P M (TypeName m) key)) (select_fields E k)) ks"
    unfolding ks(3)
  proof (rule map_cong [OF refl])
    fix key assume "key \<in> set ks"
    then have "shown P M (TypeName m) key = M (TypeName m) key" unfolding ks(2) by (auto simp: shown_def split: if_splits)
    then show "map (the (M (TypeName m) key)) (select_fields E k) = map (the (shown P M (TypeName m) key)) (select_fields E k)" by simp
  qed
  moreover have "case shown P T (TypeName m) key of None \<Rightarrow> shown P M (TypeName m) key = None
      | Some cells \<Rightarrow> \<exists>row. shown P M (TypeName m) key = Some row \<and> row_carries E m key row cells" for key
    using T(1) [unfolded represents_def, rule_format, OF T(2), of key]
    by (cases "P (TypeName m) key"; cases "T (TypeName m) key") (simp_all add: shown_def)
  ultimately show ?thesis
    using readRows_decodes [where M = "shown P M" and T = "shown P T" and q = q and m = m, OF inv c _ ks(1,2)] by simp
qed

lemma page_table_yields:
  assumes inv: "orders_ok E" "sql_types E n" "never_panics (dbase E)" "delivers_pages E n q match seen" "whole_query n q" "fold_apart n"
    and T: "represents E (nodes_of n) (seen d) T" "page_keys n T keys" and tt: "schema_table n tt m c"
  shows "yields (accepts_pages E n q) (\<lambda>data'. \<exists>rows. data' = add_rows (fst tt) rows data \<and>
      decodes (shown (on_page n keys) T) m c rows \<and> (fst tt = TypeName n \<longrightarrow> map RecKey rows = keys))
    (page_table E q keys d data tt)"
proof -
  obtain tn t where tt': "tt = (tn, t)" by (cases tt)
  have m: "m \<in> set (nodes_of n)" "TypeName m = tn" "Columns t = Some c" "inj_on (column_index (Some c)) (set (scalar_names m))"
    using tt by (simp_all add: schema_table_def tt')
  obtain k where k: "nodeByTypeName E (TypeName m) = Some k" "TypeName k = TypeName m" "Attributes k = Attributes m"
    "k \<in> set (nodes_of n)" "stmt_node k"
    using sql_types_node [OF inv(2) m(1)] by metis
  have root: "same_table tn q \<longleftrightarrow> tn = TypeName n"
    using inv(5,6) m(1,2) by (auto simp: same_table_def whole_query_def fold_apart_def equal_fold_def)
  let ?st = "ensure_fields E (NewStatement k (Some c) (Some q))"
  show ?thesis
  proof (cases "tn = TypeName n")
    case True
    have run: "page_table E q keys d data tt =
        rbind (query_rows (dbase E) d (by_keys_text E k keys) []) (\<lambda>(rows, err).
        rbind (readRows E ?st rows) (\<lambda>dataRow.
        rbind (sort_rows keys dataRow) (\<lambda>sorted. Inr (add_rows tn (List.map_filter id sorted) data))))"
      using True root k(1) m(2,3) Query2SqlByRecKeys_text [of E k keys "Some c" "Some q"]
      by (simp add: page_table_def tt' k(2))
    show ?thesis
      unfolding run
    proof (rule yields_bind [OF page_statements_yield(3) [OF inv(3) k(4)]])
      fix x assume x: "query_rows (dbase E) d (by_keys_text E k keys) [] = Inr x"
      obtain rows err where p: "x = (rows, err)" by (cases x)
      have "lists_rows (Inr x) (\<lambda>key. map (the (seen d (TypeName k) key)) (select_fields E k))
          {key \<in> dom (seen d (TypeName k)). snd key \<in> set keys}"
        using delivers_pagesD(1) [OF inv(4) k(4), of keys d] k(2) m(2) True T(2) x by (simp add: page_keys_def)
      then have "lists_rows (Inr (rows, err)) (\<lambda>key. map (the (seen d (TypeName m) key)) (select_fields E k))
          {key \<in> dom (seen d (TypeName m)). on_page n keys (TypeName m) key}"
        using True m(2) by (simp add: k(2) p on_page_def)
      from listed_decode [where P = "on_page n keys" and M = "seen d", OF inv(1) k(5,2,3) m(4) T(1) m(1) this] obtain rs where
        rs: "readRows E ?st rows = Inr rs" "decodes (shown (on_page n keys) T) m c rs" by blast
      obtain sorted where "sort_rows keys rs = Inr (map Some sorted)" "map RecKey sorted = keys"
        "decodes (shown (on_page n keys) T) m c sorted"
        using sorted_page [OF T(2) rs(2)] True m(2) by blast
      with rs(1) show "yields (accepts_pages E n q) (\<lambda>data'. \<exists>rows. data' = add_rows (fst tt) rows data \<and>
          decodes (shown (on_page n keys) T) m c rows \<and> (fst tt = TypeName n \<longrightarrow> map RecKey rows = keys))
        (case x of (rows, err) \<Rightarrow> rbind (readRows E ?st rows) (\<lambda>dataRow.
          rbind (sort_rows keys dataRow) (\<lambda>sorted. Inr (add_rows tn (List.map_filter id sorted) data))))"
        by (auto simp: p tt' map_filter_Some)
    qed
  next
    case False
    let ?st' = "?st\<lparr>selectStmt := Some (select_text E k)\<rparr>"
    have other: "TypeName k \<noteq> TypeName n" using False k(2) m(2) by simp
    have sql: "query_text E q k = select_text E k"
      using other inv(5) by (simp add: query_text_def root_table_def whole_query_def)
    have run: "page_table E q keys d data tt =
        rbind (prepare (dbase E) d (select_text E k)) (\<lambda>u.
        rbind (query_rows (dbase E) d (select_text E k) []) (\<lambda>(rows, err).
        rbind (readRows E ?st' rows) (\<lambda>dataRow.
          Inr (add_rows tn (filter (\<lambda>row. parentKeyMatchesRecKeys (ParentKey row) keys) dataRow) data))))"
      using False root k(1) m(2,3) other
      by (cases "prepare (dbase E) d (select_text E k)") (simp_all add: page_table_def tt' select_plain [OF inv(5)] sql Let_def)
    show ?thesis
      unfolding run
    proof (intro yields_bind [OF page_statements_yield(1) [OF inv(3) k(4)]] yields_bind [OF page_statements_yield(2) [OF inv(3) k(4)]])
      fix u x assume x: "query_rows (dbase E) d (select_text E k) [] = Inr x"
      obtain rows err where p: "x = (rows, err)" by (cases x)
      have "lists_rows (Inr x) (\<lambda>key. map (the (seen d (TypeName k) key)) (select_fields E k)) (dom (seen d (TypeName k)))"
        using delivers_pagesD(2) [OF inv(4) k(4) other, of d] x by simp
      then have "lists_rows (Inr (rows, err)) (\<lambda>key. map (the (seen d (TypeName m) key)) (select_fields E k))
          {key \<in> dom (seen d (TypeName m)). (\<lambda>tn key. True) (TypeName m) key}"
        by (simp add: k(2) p)
      from listed_decode [where P = "\<lambda>tn key. True" and M = "seen d", OF inv(1) k(5,2,3) m(4) T(1) m(1) this] obtain rs where
        rs: "readRows E ?st rows = Inr rs" "decodes (shown (\<lambda>tn key. True) T) m c rs" by blast
      have "shown (\<lambda>tn key. True) T = T" by (simp add: fun_eq_iff shown_def)
      then have "decodes (shown (on_page n keys) T) m c (filter (\<lambda>row. parentKeyMatchesRecKeys (ParentKey row) keys) rs)"
        using rs(2) False m(2) by (intro decodes_filter) (simp_all add: on_page_def)
      moreover have "readRows E ?st' rows = Inr rs" using rs(1) by (simp add: readRows_def Row_cached)
      ultimately show "yields (accepts_pages E n q) (\<lambda>data'. \<exists>rows. data' = add_rows (fst tt) rows data \<and>
          decodes (shown (on_page n keys) T) m c rows \<and> (fst tt = TypeName n \<longrightarrow> map RecKey rows = keys))
        (case x of (rows, err) \<Rightarrow> rbind (readRows E ?st' rows) (\<lambda>dataRow.
          Inr (add_rows tn (filter (\<lambda>row. parentKeyMatchesRecKeys (ParentKey row) keys) dataRow) data)))"
        using False by (auto simp: p tt')
    qed
  qed
qed

section \<open>All tables of a page\<close>

definition page_filled ::
    "content \<Rightarrow> l8node \<Rightarrow> string list \<Rightarrow> (string \<times> L8OrmTable) list \<Rightarrow> L8OrmRData \<Rightarrow> bool" where
  "page_filled T n keys ts d \<longleftrightarrow> (\<forall>tt \<in> set ts. \<exists>m c rows. schema_table n tt m c \<and> decodes T m c rows \<and>
     (fst tt = TypeName n \<longrightarrow> map RecKey rows = keys) \<and>
     map_of (Tables d) (fst tt) = Some (foldl addRowToTable (snd tt) rows))"

lemma page_filled_filled: "page_filled T n keys ts d \<Longrightarrow> filled T n ts d"
  unfolding page_filled_def filled_def by blast

lemma page_tables_yield:
  assumes inv: "orders_ok E" "sql_types E n" "never_panics (dbase E)" "delivers_pages E n q match seen" "whole_query n q" "fold_apart n"
    and T: "represents E (nodes_of n) (seen d) T" "page_keys n T keys"
  shows "distinct (map fst ts) \<Longrightarrow> \<forall>tt \<in> set ts. map_of (Tables data) (fst tt) = Some (snd tt) \<and> (\<exists>m c. schema_table n tt m c) \<Longrightarrow>
    yields (accepts_pages E n q) (\<lambda>data'. RootTypeName data' = RootTypeName data \<and>
        page_filled (shown (on_page n keys) T) n keys ts data' \<and>
        (\<forall>tn. tn \<notin> fst ` set ts \<longrightarrow> map_of (Tables data') tn = map_of (Tables data) tn))
      (mfold (page_table E q keys d) data ts)"
proof (induction ts arbitrary: data)
  case (Cons tt ts)
  let ?T = "shown (on_page n keys) T"
  obtain m c where mc: "schema_table n tt m c" using Cons.prems(2) by auto
  have tab: "map_of (Tables data) (fst tt) = Some (snd tt)" using Cons.prems(2) by simp
  show ?case
    unfolding mfold.simps
  proof (rule yields_bind [OF page_table_yields [OF inv T mc]])
    fix x assume "\<exists>rows. x = add_rows (fst tt) rows data \<and> decodes ?T m c rows \<and> (fst tt = TypeName n \<longrightarrow> map RecKey rows = keys)"
    then obtain rows where x: "x = add_rows (fst tt) rows data" "decodes ?T m c rows" "fst tt = TypeName n \<longrightarrow> map RecKey rows = keys"
      by blast
    have "\<forall>tt \<in> set ts. map_of (Tables x) (fst tt) = Some (snd tt) \<and> (\<exists>m c. schema_table n tt m c)"
    proof
      fix u assume u: "u \<in> set ts"
      then have "fst u \<noteq> fst tt" using distinct_fst_ConsD [OF Cons.prems(1)] by simp
      with u Cons.prems(2) show "map_of (Tables x) (fst u) = Some (snd u) \<and> (\<exists>m c. schema_table n u m c)"
        by (simp add: x(1) add_rows_tables [OF tab])
    qed
    from Cons.IH [OF _ this] Cons.prems(1)
    have rest: "yields (accepts_pages E n q) (\<lambda>data'. RootTypeName data' = RootTypeName x \<and> page_filled ?T n keys ts data' \<and>
        (\<forall>tn. tn \<notin> fst ` set ts \<longrightarrow> map_of (Tables data') tn = map_of (Tables x) tn))
      (mfold (page_table E q keys d) x ts)" by simp
    show "yields (accepts_pages E n q) (\<lambda>data'. RootTypeName data' = RootTypeName data \<and> page_filled ?T n keys (tt # ts) data' \<and>
        (\<forall>tn. tn \<notin> fst ` set (tt # ts) \<longrightarrow> map_of (Tables data') tn = map_of (Tables data) tn))
      (mfold (page_table E q keys d) x ts)"
    proof (rule yields_mono [OF rest])
      fix data' assume y: "RootTypeName data' = RootTypeName x \<and> page_filled ?T n keys ts data' \<and>
        (\<forall>tn. tn \<notin> fst ` set ts \<longrightarrow> map_of (Tables data') tn = map_of (Tables x) tn)"
      have "fst tt \<notin> fst ` set ts" using Cons.prems(1) by simp
      then have "map_of (Tables data') (fst tt) = Some (foldl addRowToTable (snd tt) rows)"
        using y by (simp add: x(1) add_rows_tables [OF tab])
      with y mc x(2,3) show "RootTypeName data' = RootTypeName data \<and> page_filled ?T n keys (tt # ts) data' \<and>
        (\<forall>tn. tn \<notin> fst ` set (tt # ts) \<longrightarrow> map_of (Tables data') tn = map_of (Tables data) tn)"
        by (auto simp: page_filled_def x(1) add_rows_tables [OF tab])
    qed
  qed
qed (simp add: page_filled_def)

text \<open>The objects of a page are in its content, with all of their parts.\<close>

lemma prefix_contains: "prefix t s \<Longrightarrow> str_contains s t"
  by (cases s) auto

lemma page_has_roots:
  assumes "plain (FieldName n)" "holds E n ys T"
  shows "has_roots E n (filter (\<lambda>y. root_rec E n y \<in> set keys) ys) (shown (on_page n keys) T)"
  unfolding has_roots_def
proof (intro conjI ballI)
  have h: "has_roots E n ys T" using holds_has_roots [OF assms(2,1)] .
  have "child_keys (shown (on_page n keys) T) (TypeName n) [] (FieldName n) = child_keys T (TypeName n) [] (FieldName n) \<inter> set keys"
    by (auto simp: child_keys_def shown_def on_page_def split: if_splits)
  then show "child_keys (shown (on_page n keys) T) (TypeName n) [] (FieldName n) =
      root_rec E n ` set (filter (\<lambda>y. root_rec E n y \<in> set keys) ys)"
    using h by (auto simp: has_roots_def)
  fix y assume "y \<in> set (filter (\<lambda>y. root_rec E n y \<in> set keys) ys)"
  then have y: "y \<in> set ys" "root_rec E n y \<in> set keys" by simp_all
  then have "stored E T n y [] (root_rec E n y)" using h by (simp add: has_roots_def)
  then show "stored E (shown (on_page n keys) T) n y [] (root_rec E n y)"
  proof (rule stored_frame)
    show "shown (on_page n keys) T (TypeName n) ([], root_rec E n y) = T (TypeName n) ([], root_rec E n y)"
      using y(2) by (simp add: shown_def on_page_def)
    fix tn pk rk assume p: "prefix ([] @ root_rec E n y) pk"
    show "shown (on_page n keys) T tn (pk, rk) = T tn (pk, rk)"
    proof (cases "tn = TypeName n")
      case True
      have "pk \<noteq> []" using p by (auto simp: root_rec_def bracketed_def)
      with assms(2) True have "T tn (pk, rk) = None" unfolding holds_def confined_def by blast
      then show ?thesis by (simp add: shown_def)
    next
      case False
      have "str_contains pk (root_rec E n y)" using p by (intro prefix_contains) simp
      with y(2) False show ?thesis by (auto simp: shown_def on_page_def parentKeyMatchesRecKeys_def list_ex_iff)
    qed
  qed
qed

lemma page_objects:
  assumes "roots_ok E n ys" "holds E n ys T" "page_keys n T keys"
  shows "\<exists>ys'. map (root_rec E n) ys' = keys \<and> set ys' \<subseteq> set ys \<and> roots_ok E n ys' \<and>
    has_roots E n ys' (shown (on_page n keys) T)"
proof -
  let ?page = "filter (\<lambda>y. root_rec E n y \<in> set keys) ys"
  have plain: "plain (FieldName n)" "distinct (map (Convert_Theorem.root_key E n) ys)" using assms(1) by (simp_all add: roots_ok_def)
  have keys: "keys \<noteq> []" "distinct keys" "\<And>k. k \<in> set keys \<Longrightarrow> T (TypeName n) ([], k) \<noteq> None"
    using assms(3) by (auto simp: page_keys_def)
  have "k \<in> root_rec E n ` set ys" if "k \<in> set keys" for k
    using keys(3) [OF that] assms(2) unfolding holds_def confined_def by blast
  then have set: "set keys = root_rec E n ` set ?page" by auto
  have dist: "distinct (map (Convert_Theorem.root_key E n) ?page)" using plain(2) by (simp add: distinct_map_filter)
  obtain ys' where ys': "mset ys' = mset ?page" "map (root_rec E n) ys' = keys"
    using roots_by_keys [OF keys(2) set dist] .
  have "?page \<noteq> []" using set keys(1) by (metis image_is_empty set_empty)
  then have "roots_ok E n ?page" using assms(1) dist by (auto simp: roots_ok_def)
  then have "roots_ok E n ys'" by (rule roots_ok_mset [OF ys'(1)])
  moreover have "has_roots E n ys' (shown (on_page n keys) T)"
    using has_roots_mset [OF ys'(1) page_has_roots [OF plain(1) assms(2)]] .
  moreover have "set ys' \<subseteq> set ys" using mset_eq_setD [OF ys'(1)] by auto
  ultimately show ?thesis using ys'(2) by blast
qed

section \<open>The result of a page\<close>

definition page_result ::
    "'a env_scheme \<Rightarrow> l8node \<Rightarrow> gval list \<Rightarrow> string list \<Rightarrow> metadata \<Rightarrow> query_result \<Rightarrow> bool" where
  "page_result E n ys keys md r \<longleftrightarrow> (\<exists>ys' zs. r = (map Some zs, MdTotal md) \<and> map (root_rec E n) ys' = keys \<and>
     set ys' \<subseteq> set ys \<and> list_all2 (sim n) ys' zs)"

lemma page_body_yields:
  assumes inv: "orders_ok E" "wf_tree n" "sql_types E n" "never_panics (dbase E)" "delivers_pages E n q match seen" "whole_query n q"
      "fold_apart n" "elements_ok E" "collectTsAttrs n = []"
    and ys: "roots_ok E n ys" "holds E n ys T"
    and T: "represents E (nodes_of n) (seen d) T" "page_keys n T keys"
    and data: "RootTypeName data = TypeName n" "distinct (gkeys (Tables data))"
      "fst ` set (Tables data) = TypeName ` set (nodes_of n)" "\<forall>tt \<in> set (Tables data). \<exists>m c. schema_table n tt m c"
  shows "yields (accepts_pages E n q) (page_result E n ys keys md) (page_body E q keys md data d)"
proof -
  let ?T = "shown (on_page n keys) T"
  define ts where "ts = range_loop (rng E (''readByRecKeys'', RootTypeName data)) (Tables data)"
  have ts: "set ts = set (Tables data)" "distinct (map fst ts)"
    unfolding ts_def using set_range_loop [OF orders_okD(1) [OF inv(1)] data(2)]
      distinct_range_loop [OF orders_okD(1) [OF inv(1)] data(2)] by simp_all
  have each: "\<forall>tt \<in> set ts. map_of (Tables data) (fst tt) = Some (snd tt) \<and> (\<exists>m c. schema_table n tt m c)"
    using data(2,4) unfolding ts(1) by (simp add: map_of_gkeys)
  have plain: "plain (FieldName n)" using ys(1) by (simp add: roots_ok_def)
  obtain ys' where ys': "map (root_rec E n) ys' = keys" "set ys' \<subseteq> set ys" "roots_ok E n ys'" "has_roots E n ys' ?T"
    using page_objects [OF ys T(2)] by blast
  show ?thesis
    unfolding page_body_def ts_def [symmetric]
  proof (rule yields_bind [OF page_tables_yield [OF inv(1,3-7) T ts(2) each]])
    fix data' assume x: "RootTypeName data' = RootTypeName data \<and> page_filled ?T n keys ts data' \<and>
        (\<forall>tn. tn \<notin> fst ` set ts \<longrightarrow> map_of (Tables data') tn = map_of (Tables data) tn)"
    then have pres: "presents (nodes_of n) data' ?T"
      using page_filled_filled by (intro filled_presents [OF _ _ inv(3), of ?T ts]) (auto simp: ts(1) data(3))
    have "TypeName n \<in> fst ` set ts" unfolding ts(1) data(3) by simp
    then obtain tt where tt: "tt \<in> set ts" "fst tt = TypeName n" by (metis imageE)
    then obtain m c rows where rows: "schema_table n tt m c" "decodes ?T m c rows" "map RecKey rows = keys"
      "map_of (Tables data') (TypeName n) = Some (foldl addRowToTable (snd tt) rows)"
      using x unfolding page_filled_def by metis
    have "row_place r = ([], FieldName n)" if r: "r \<in> set rows" for r
    proof -
      have "(ParentKey r, RecKey r) \<in> (\<lambda>r. (ParentKey r, RecKey r)) ` set rows" using r by blast
      then have "(ParentKey r, RecKey r) \<in> dom (?T (TypeName n))"
        using rows(1,2) tt(2) by (simp add: decodes_def schema_table_def)
      then have "ParentKey r = []" using T(2) by (auto simp: dom_shown page_keys_def)
      moreover have "RecKey r \<in> root_rec E n ` set ys'"
        using r rows(3) ys'(1) by (metis image_eqI list.set_map)
      ultimately show ?thesis using nameOfField_root [OF plain] by (auto simp: row_place_def)
    qed
    moreover have "rows \<noteq> []" using rows(3) T(2) by (auto simp: page_keys_def)
    ultimately have at: "rows_at data' (TypeName n) [] (FieldName n) = Some rows"
      using rows(1,4) by (simp add: rows_at_def rows_in_filled schema_table_def Let_def)
    have rt: "RootTypeName data' = TypeName n" using x data(1) by simp
    obtain zs where z: "ConvertFrom E data' md = Inr (COrdered zs, md)" "list_all2 (sim n) ys' zs"
      using ConvertFrom_ordered [OF inv(1,2) ys'(3) pres rt ys'(4) at, of md] rows(3) ys'(1) by auto
    from query_result_ordered [OF inv(8,9) ys'(3) z, of d] z(2) ys'(1,2)
    show "yields (accepts_pages E n q) (page_result E n ys keys md) (query_result E d data' md)"
      unfolding page_result_def by auto
  qed
qed

end
