(* ===== verification/Demo_Store.thy ===== *)
theory Demo_Store
  imports Pg_Page Demo_Db
begin

text \<open>
  A database in memory to evaluate the theorems about objects at: it executes the inserts,
  selects and deletions of the demonstration type.
\<close>

section \<open>A database in memory\<close>

text \<open>
  Its state is the list of the rows inserted by committed transactions and in the open one,
  each with its table and its columns.
\<close>

type_synonym inserts = "(string \<times> string list \<times> sql_arg list) list"

record mem_db =
  kept_rows :: inserts
  seen_rows :: inserts

definition mem_nodes :: "l8node list" where
  "mem_nodes = nodes_of demo_node"

definition tables_of :: "inserts \<Rightarrow> tables" where
  "tables_of xs = fold (\<lambda>(tn, fs, args). upsert tn fs args) xs (\<lambda>tn. Map.empty)"

definition insert_key :: "string \<times> string list \<times> sql_arg list \<Rightarrow> string \<times> string" where
  "insert_key x = (case x of (tn, fs, args) \<Rightarrow>
     (cell_text (table_row fs args ''ParentKey''), cell_text (table_row fs args ''RecKey'')))"

definition keys_in :: "inserts \<Rightarrow> string \<Rightarrow> (string \<times> string) list" where
  "keys_in xs tn = remdups (map insert_key (filter (\<lambda>x. fst x = tn) xs))"

text \<open>
  It executes the inserts and the selects of the type, deletions below keys, whose patterns it
  reads from the literals of the text, the select and the deletion of \<open>some_orders\<close>, the
  record keys of \<open>paged_orders\<close>, and selects of the rows of record keys, which it reads from the
  IN list of the text.
\<close>

definition all_orders :: iquery where
  "all_orders = demo_query\<lparr>Properties := [], Criteria := NilIface, Aggregates := [], IsAggregate := False, Limit := 0\<rparr>"

definition some_orders :: iquery where
  "some_orders = demo_query\<lparr>Properties := [],
     Criteria := Obj (Expression (Obj (Condition (Obj (Comparator ''Name'' ''='' ''o1'' demo_prop NilIface)) [] NilIface)) [] NilIface),
     Aggregates := [], IsAggregate := False, SortBy := [], Limit := 0\<rparr>"

definition paged_orders :: iquery where
  "paged_orders = all_orders\<lparr>SortBy := [], Limit := 1\<rparr>"

definition is_o1 :: "(string \<Rightarrow> drv) \<Rightarrow> bool" where
  "is_o1 row \<longleftrightarrow> row ''Name'' \<noteq> DNull \<and> drv_string (fmt_float demo_conv) (row ''Name'') = ''o1''"

function literals :: "string \<Rightarrow> string list" where
  "literals s =
     (case dropWhile (\<lambda>c. c \<noteq> quote_char) s of
        [] \<Rightarrow> []
      | q # t \<Rightarrow> takeWhile (\<lambda>c. c \<noteq> quote_char) t # literals (tl (dropWhile (\<lambda>c. c \<noteq> quote_char) t)))"
  by pat_completeness auto
termination
proof (relation "measure length")
  fix s q t assume "dropWhile (\<lambda>c. c \<noteq> quote_char) s = q # t"
  then have "Suc (length t) \<le> length s" using length_dropWhile_le [of "\<lambda>c. c \<noteq> quote_char" s] by simp
  moreover have "length (tl (dropWhile (\<lambda>c. c \<noteq> quote_char) t)) \<le> length t"
    using length_dropWhile_le [of "\<lambda>c. c \<noteq> quote_char" t] by simp
  ultimately show "(tl (dropWhile (\<lambda>c. c \<noteq> quote_char) t), s) \<in> measure length" by simp
qed simp

declare literals.simps [simp del]

definition below_start :: "l8node \<Rightarrow> string" where
  "below_start m = ''DELETE FROM '' @ TypeName m @ '' WHERE ParentKey LIKE ''"

definition like_any :: "string list \<Rightarrow> string \<Rightarrow> bool" where
  "like_any ps pk \<longleftrightarrow> list_ex (\<lambda>p. sql_like p pk) ps"

definition mem_run :: "string \<Rightarrow> sql_arg list \<Rightarrow> inserts \<Rightarrow> inserts option" where
  "mem_run sql args xs =
     (case find (\<lambda>m. insert_text demo_env m = sql) mem_nodes of
        Some m \<Rightarrow> Some (xs @ [(TypeName m, select_fields demo_env m, args)])
      | None \<Rightarrow>
          (case find (\<lambda>m. prefix (below_start m) sql) mem_nodes of
             Some m \<Rightarrow> Some (filter (\<lambda>x. \<not> (fst x = TypeName m \<and> like_any (literals sql) (fst (insert_key x)))) xs)
           | None \<Rightarrow>
               if sql = roots_text some_orders demo_node
               then Some (filter (\<lambda>x. \<not> (fst x = ''Order'' \<and> is_o1 (the (tables_of xs ''Order'' (insert_key x))))) xs)
               else None))"

definition rows_start :: "l8node \<Rightarrow> string" where
  "rows_start m = ''SELECT '' @ comma_sep '','' (select_fields demo_env m) @ '' FROM '' @ TypeName m @ '' WHERE RecKey IN (''"

definition mem_select :: "string \<Rightarrow> inserts \<Rightarrow> drv list list" where
  "mem_select sql xs =
     (case find (\<lambda>m. select_text demo_env m = sql) mem_nodes of
        Some m \<Rightarrow> map (\<lambda>k. map (the (tables_of xs (TypeName m) k)) (select_fields demo_env m)) (keys_in xs (TypeName m))
      | None \<Rightarrow>
          if sql = query_text demo_env some_orders demo_node
          then map (\<lambda>k. map (the (tables_of xs ''Order'' k)) (select_fields demo_env demo_node))
                 (filter (\<lambda>k. is_o1 (the (tables_of xs ''Order'' k))) (keys_in xs ''Order''))
          else if sql = keys_text paged_orders demo_node
          then map (\<lambda>k. [the (tables_of xs ''Order'' k) ''RecKey'']) (keys_in xs ''Order'')
          else
            (case find (\<lambda>m. prefix (rows_start m) sql) mem_nodes of
               None \<Rightarrow> []
             | Some m \<Rightarrow>
                 (case read_in_list (length sql) (drop (length (rows_start m)) sql) of
                    None \<Rightarrow> []
                  | Some (keys, rest) \<Rightarrow>
                      map (\<lambda>k. map (the (tables_of xs (TypeName m) k)) (select_fields demo_env m))
                        (filter (\<lambda>k. snd k \<in> set keys) (keys_in xs (TypeName m))))))"

definition mem_database :: "mem_db database" where
  "mem_database = \<lparr>
     begin_tx = (\<lambda>d. (Inr (), d\<lparr>seen_rows := kept_rows d\<rparr>)),
     prepare = (\<lambda>d sql. Inr ()),
     exec_stmt = (\<lambda>sql args d.
       case mem_run sql args (seen_rows d) of
         None \<Rightarrow> (Inl (Err ''exec''), d)
       | Some xs \<Rightarrow> (Inr (), d\<lparr>seen_rows := xs\<rparr>)),
     query_rows = (\<lambda>d sql args. Inr (mem_select sql (seen_rows d), None)),
     query_columns = (\<lambda>d sql. 1),
     commit_tx = (\<lambda>d. (Inr (), d\<lparr>kept_rows := seen_rows d\<rparr>)),
     rollback_tx = (\<lambda>d. (Inr (), d)),
     db_exec = (\<lambda>sql d. (Inr (), d)),
     close_db = ret (Inr ())\<rparr>"

text \<open>What its statements do to the tables.\<close>

definition mem_effect :: "string \<Rightarrow> sql_arg list \<Rightarrow> tables \<Rightarrow> tables" where
  "mem_effect sql args M =
     (case find (\<lambda>m. insert_text demo_env m = sql) mem_nodes of
        Some m \<Rightarrow> upsert (TypeName m) (select_fields demo_env m) args M
      | None \<Rightarrow>
          (case find (\<lambda>m. prefix (below_start m) sql) mem_nodes of
             Some m \<Rightarrow> removed (\<lambda>tn key. tn = TypeName m \<and> like_any (literals sql) (fst key)) M
           | None \<Rightarrow>
               if sql = roots_text some_orders demo_node then picked demo_node (\<lambda>row. \<not> is_o1 row) M else M))"

definition mem_pg :: "mem_db pg_env" where
  "mem_pg = demo_over mem_database"

lemma mem_fields: "ensure_fields mem_pg = (ensure_fields demo_env :: iquery statement \<Rightarrow> iquery statement)"
  by (simp add: fun_eq_iff ensure_fields_def fieldsOf_def mem_pg_def demo_over_def cong: option.case_cong)

lemma mem_texts:
  "insert_text mem_pg = insert_text demo_env" "select_text mem_pg = select_text demo_env"
  "select_fields mem_pg = select_fields demo_env"
  unfolding fun_eq_iff insert_text_def select_text_def select_fields_def mem_fields by blast+

lemma mem_query_text: "query_text mem_pg = query_text demo_env"
  unfolding fun_eq_iff query_text_def mem_texts by blast

lemma mem_distinct:
  "distinct (map (insert_text demo_env) mem_nodes)" "distinct (map (select_text demo_env) mem_nodes)"
  by code_simp+

lemma find_own:
  assumes "distinct (map f xs)" "x \<in> set xs"
  shows "find (\<lambda>y. f y = f x) xs = Some x"
  using assms by (induction xs) (auto dest: imageI)

lemma tables_of_snoc: "tables_of (xs @ [(tn, fs, args)]) = upsert tn fs args (tables_of xs)"
  by (simp add: tables_of_def)

lemma keys_in_dom: "set (keys_in xs tn) = dom (tables_of xs tn)"
proof (induction xs rule: rev_induct)
  case Nil
  then show ?case by (simp add: keys_in_def tables_of_def)
next
  case (snoc x xs)
  obtain tn' fs args where x: "x = (tn', fs, args)" by (cases x)
  from snoc show ?case
    unfolding x tables_of_snoc by (auto simp: keys_in_def upsert_def insert_key_def Let_def)
qed

text \<open>Deleting rows by their keys.\<close>

lemma tables_of_filter:
  "tables_of (filter (\<lambda>x. \<not> gone (fst x) (insert_key x)) xs) = removed gone (tables_of xs)"
proof (induction xs rule: rev_induct)
  case Nil
  then show ?case by (simp add: tables_of_def removed_def fun_eq_iff)
next
  case (snoc x xs)
  obtain tn fs args where x: "x = (tn, fs, args)" by (cases x)
  have key: "insert_key x = (cell_text (table_row fs args ''ParentKey''), cell_text (table_row fs args ''RecKey''))"
    by (simp add: insert_key_def x)
  show ?case
  proof (cases "gone tn (insert_key x)")
    case True
    then have "removed gone (upsert tn fs args (tables_of xs)) = removed gone (tables_of xs)"
      by (auto simp: fun_eq_iff removed_def upsert_def key Let_def)
    with snoc True show ?thesis unfolding x tables_of_snoc filter_append by (simp add: x)
  next
    case False
    then have "removed gone (upsert tn fs args (tables_of xs)) = upsert tn fs args (removed gone (tables_of xs))"
      by (auto simp: fun_eq_iff removed_def upsert_def key Let_def)
    with snoc False show ?thesis unfolding x filter_append by (simp add: tables_of_snoc x)
  qed
qed

lemma mem_run_effect:
  assumes "mem_run sql args xs = Some ys"
  shows "tables_of ys = mem_effect sql args (tables_of xs)"
proof (cases "find (\<lambda>m. insert_text demo_env m = sql) mem_nodes")
  case (Some m)
  with assms show ?thesis by (auto simp: mem_run_def mem_effect_def tables_of_snoc)
next
  case ins: None
  show ?thesis
  proof (cases "find (\<lambda>m. prefix (below_start m) sql) mem_nodes")
    case (Some m)
    with assms ins show ?thesis
      using tables_of_filter [of "\<lambda>tn key. tn = TypeName m \<and> like_any (literals sql) (fst key)" xs]
      by (auto simp: mem_run_def mem_effect_def)
  next
    case None
    have "removed (\<lambda>tn key. tn = ''Order'' \<and> is_o1 (the (tables_of xs ''Order'' key))) (tables_of xs) =
        picked demo_node (\<lambda>row. \<not> is_o1 row) (tables_of xs)"
      by (auto simp: fun_eq_iff removed_def picked_def demo_node_def split: option.split)
    with assms ins None show ?thesis
      using tables_of_filter [of "\<lambda>tn key. tn = ''Order'' \<and> is_o1 (the (tables_of xs ''Order'' key))" xs]
      by (auto simp: mem_run_def mem_effect_def split: if_splits)
  qed
qed

lemma mem_inserts: "m \<in> set mem_nodes \<Longrightarrow> find (\<lambda>k. insert_text demo_env k = insert_text demo_env m) mem_nodes = Some m"
  by (rule find_own [OF mem_distinct(1)])

text \<open>It is a store of the demonstration type.\<close>

lemma mem_store: "store_ok mem_pg demo_node (\<lambda>d. tables_of (kept_rows d)) (\<lambda>d. tables_of (seen_rows d)) mem_effect"
  unfolding store_ok_def
proof (intro conjI allI)
  show "orders_ok mem_pg" by (simp add: mem_pg_def)
  show "wf_tree demo_node" by (rule demo_wf)
  show "sql_types mem_pg demo_node" unfolding sql_types_def by code_simp
  show "transactional (dbase mem_pg) (\<lambda>d. tables_of (kept_rows d)) (\<lambda>d. tables_of (seen_rows d)) mem_effect"
    by (auto simp: transactional_def mem_pg_def demo_over_def mem_database_def mem_run_effect split: option.split)
  show "upserts mem_pg demo_node mem_effect"
    unfolding upserts_def Let_def insert_text_columns mem_texts select_fields_columns
    using mem_inserts by (simp add: mem_effect_def mem_nodes_def)
  show "never_panics (dbase mem_pg)"
    by (auto simp: never_panics_def mem_pg_def demo_over_def mem_database_def split: option.split)
  show "fst (commit_tx (dbase mem_pg) d) = Inr ()" for d
    by (simp add: mem_pg_def demo_over_def mem_database_def)
qed

lemma mem_accepts: "accepts_rows mem_pg demo_node" "accepts_reads mem_pg demo_node q"
  unfolding accepts_rows_def accepts_reads_def mem_texts
  using mem_inserts by (simp_all add: mem_run_def mem_pg_def demo_over_def mem_database_def flip: mem_nodes_def)

text \<open>The selects deliver the rows of their views.\<close>

lemma mem_select_view:
  assumes "select_text demo_env m = sql" "m \<in> set mem_nodes"
  shows "\<exists>ks. distinct ks \<and> set ks = dom (tables_of xs (TypeName m)) \<and>
    mem_select sql xs = map (\<lambda>k. map (the (tables_of xs (TypeName m) k)) (select_fields demo_env m)) ks"
proof -
  have "find (\<lambda>k. select_text demo_env k = sql) mem_nodes = Some m"
    using find_own [OF mem_distinct(2) assms(2)] assms(1) by simp
  then have "mem_select sql xs = map (\<lambda>k. map (the (tables_of xs (TypeName m) k)) (select_fields demo_env m)) (keys_in xs (TypeName m))"
    by (simp add: mem_select_def)
  moreover have "distinct (keys_in xs (TypeName m))" by (simp add: keys_in_def)
  ultimately show ?thesis using keys_in_dom by blast
qed

lemma picked_all [simp]: "picked n (\<lambda>row. True) M = M"
  by (simp add: fun_eq_iff picked_def split: option.split)

lemma mem_rows: "query_rows (dbase mem_pg) d sql args = Inr (mem_select sql (seen_rows d), None)"
  by (simp add: mem_pg_def demo_over_def mem_database_def)

lemma mem_delivers: "delivers mem_pg demo_node all_orders (\<lambda>d. picked demo_node (\<lambda>row. True) (tables_of (seen_rows d)))"
  unfolding delivers_def mem_query_text mem_texts mem_rows picked_all
proof (intro ballI allI impI)
  fix m and d :: mem_db and rows err
  assume m: "m \<in> set (nodes_of demo_node)" and q: "Inr (mem_select (query_text demo_env all_orders m) (seen_rows d), None) = Inr (rows, err)"
  have "select_text demo_env m = query_text demo_env all_orders m" by (simp add: query_text_def all_orders_def)
  from mem_select_view [OF this, of "seen_rows d"] m q
  show "\<exists>ks. distinct ks \<and> set ks = dom (tables_of (seen_rows d) (TypeName m)) \<and>
      rows = map (\<lambda>k. map (the (tables_of (seen_rows d) (TypeName m) k)) (select_fields demo_env m)) ks"
    by (simp add: mem_nodes_def)
qed

lemma some_text:
  "find (\<lambda>m. select_text demo_env m = query_text demo_env some_orders demo_node) mem_nodes = None"
  "\<forall>m \<in> set mem_nodes. TypeName m = ''Order'' \<longleftrightarrow> m = demo_node"
  by code_simp+

lemma mem_delivers_some: "delivers mem_pg demo_node some_orders (\<lambda>d. picked demo_node is_o1 (tables_of (seen_rows d)))"
  unfolding delivers_def mem_query_text mem_texts mem_rows
proof (intro ballI allI impI)
  fix m and d :: mem_db and rows err
  let ?M = "tables_of (seen_rows d)"
  assume m: "m \<in> set (nodes_of demo_node)" and q: "Inr (mem_select (query_text demo_env some_orders m) (seen_rows d), None) = Inr (rows, err)"
  show "\<exists>ks. distinct ks \<and> set ks = dom (picked demo_node is_o1 ?M (TypeName m)) \<and>
      rows = map (\<lambda>k. map (the (picked demo_node is_o1 ?M (TypeName m) k)) (select_fields demo_env m)) ks"
  proof (cases "m = demo_node")
    case True
    let ?ks = "filter (\<lambda>k. is_o1 (the (?M ''Order'' k))) (keys_in (seen_rows d) ''Order'')"
    have n: "TypeName demo_node = ''Order''" by (simp add: demo_node_def)
    have dom: "set ?ks = dom (picked demo_node is_o1 ?M ''Order'')"
      using keys_in_dom [of "seen_rows d" "''Order''"] by (auto simp: picked_def n split: option.splits if_splits)
    have "rows = map (\<lambda>k. map (the (?M ''Order'' k)) (select_fields demo_env demo_node)) ?ks"
      using q some_text(1) by (simp add: True mem_select_def)
    also have "\<dots> = map (\<lambda>k. map (the (picked demo_node is_o1 ?M ''Order'' k)) (select_fields demo_env demo_node)) ?ks"
    proof (rule map_cong [OF refl])
      fix k assume "k \<in> set ?ks"
      then have "picked demo_node is_o1 ?M ''Order'' k = ?M ''Order'' k"
        unfolding dom by (auto simp: picked_def split: option.splits if_splits)
      then show "map (the (?M ''Order'' k)) (select_fields demo_env demo_node) =
          map (the (picked demo_node is_o1 ?M ''Order'' k)) (select_fields demo_env demo_node)" by simp
    qed
    finally show ?thesis using dom unfolding True n by (intro exI [of _ ?ks]) (simp add: keys_in_def)
  next
    case False
    then have n: "TypeName m \<noteq> TypeName demo_node" using some_text(2) m by (simp add: mem_nodes_def demo_node_def)
    then have "select_text demo_env m = query_text demo_env some_orders m"
      by (simp add: query_text_def some_orders_def root_table_def demo_query_def)
    moreover have "picked demo_node is_o1 ?M (TypeName m) = ?M (TypeName m)"
      using n by (simp add: fun_eq_iff picked_def split: option.split)
    ultimately show ?thesis using mem_select_view [of m _ "seen_rows d"] m q by (simp add: mem_nodes_def)
  qed
qed

text \<open>It delivers the pages of a query.\<close>

lemma by_keys_start:
  "by_keys_text demo_env m keys = rows_start m @ comma_sep '','' (map (\<lambda>key. quoted (escapeSQL key)) keys) @ '')''"
  by (simp add: by_keys_text_def Query2SqlByRecKeys_def rows_start_def join_loop_True select_fields_columns Let_def)

lemma in_list_length: "length keys \<le> length (comma_sep '','' (map (\<lambda>key. quoted (escapeSQL key)) keys))"
proof -
  have "length ks \<le> length (concat (map ((#) CHR '','' \<circ> f) ks))" for f and ks :: "string list"
    by (induction ks) simp_all
  then show ?thesis by (cases keys) (simp_all add: comma_sep_Cons quoted_def le_SucI trans_le_add2)
qed

lemma find_unique:
  assumes "x \<in> set xs" "P x" "\<And>y. y \<in> set xs \<Longrightarrow> P y \<Longrightarrow> y = x"
  shows "find P xs = Some x"
proof (cases "find P xs")
  case None
  with assms(1,2) show ?thesis by (auto simp: find_None_iff)
next
  case (Some y)
  then have "y \<in> set xs" "P y" by (auto simp: find_Some_iff)
  with assms(3) Some show ?thesis by simp
qed

lemma mem_starts:
  "\<forall>m \<in> set mem_nodes. take 6 (select_text demo_env m) = ''Select''"
  "take 6 (query_text demo_env some_orders demo_node) = ''Select''"
  "keys_text paged_orders demo_node = ''SELECT RecKey FROM Order''"
  "map rows_start mem_nodes = [''SELECT ParentKey,RecKey,Name FROM Order WHERE RecKey IN ('',
     ''SELECT ParentKey,RecKey,Text FROM Line WHERE RecKey IN ('', ''SELECT ParentKey,RecKey,Text FROM Tag WHERE RecKey IN ('',
     ''SELECT ParentKey,RecKey,Text FROM Addr WHERE RecKey IN ('']"
  by code_simp+

lemma find_start:
  assumes "m \<in> set mem_nodes"
  shows "find (\<lambda>k. prefix (rows_start k) (rows_start m @ s)) mem_nodes = Some m"
proof (rule find_unique [where P = "\<lambda>k. prefix (rows_start k) (rows_start m @ s)", OF assms])
  let ?S = "set (map rows_start mem_nodes)"
  fix k assume k: "k \<in> set mem_nodes" "prefix (rows_start k) (rows_start m @ s)"
  have "rows_start k \<in> ?S" "rows_start m \<in> ?S" using k(1) assms by simp_all
  then have "rows_start k = rows_start m" using k(2) unfolding mem_starts(4) by auto
  moreover have "distinct (map rows_start mem_nodes)" unfolding mem_starts(4) by simp
  ultimately show "k = m" using k(1) assms by (simp add: distinct_map inj_on_def)
qed simp

lemma mem_select_rows:
  assumes "m \<in> set mem_nodes" "keys \<noteq> []" "\<forall>k \<in> set keys. valid_utf8 k"
  shows "mem_select (by_keys_text demo_env m keys) xs =
    map (\<lambda>k. map (the (tables_of xs (TypeName m) k)) (select_fields demo_env m))
      (filter (\<lambda>k. snd k \<in> set keys) (keys_in xs (TypeName m)))"
proof -
  let ?sql = "by_keys_text demo_env m keys"
  let ?list = "comma_sep '','' (map (\<lambda>key. quoted (escapeSQL key)) keys) @ '')''"
  have sql: "?sql = rows_start m @ ?list" by (rule by_keys_start)
  have "rows_start m \<in> set (map rows_start mem_nodes)" using assms(1) by simp
  then have start: "take 6 ?sql = ''SELECT''" "?sql \<noteq> ''SELECT RecKey FROM Order''"
    unfolding sql mem_starts(4) by auto
  have "find (\<lambda>m. select_text demo_env m = ?sql) mem_nodes = None"
    using mem_starts(1) start(1) by (auto simp: find_None_iff)
  moreover have "?sql \<noteq> query_text demo_env some_orders demo_node" using mem_starts(2) start(1) by auto
  moreover have "read_in_list (length ?sql) ?list = Some (keys, [])"
    using read_in_list_keys [OF assms(3,2), of "length ?sql" "[]"] in_list_length [of keys] by (simp add: sql)
  ultimately show ?thesis
    using start(2) find_start [OF assms(1)] by (simp add: mem_select_def sql mem_starts(3))
qed

lemma mem_by_keys: "by_keys_text mem_pg = by_keys_text demo_env"
  unfolding fun_eq_iff by_keys_text_def Query2SqlByRecKeys_def mem_fields by blast

lemma lists_rowsI:
  "distinct ks \<Longrightarrow> set ks = K \<Longrightarrow> lists_rows (Inr (map f ks, err)) f K"
  unfolding lists_rows_def by blast

lemma mem_delivers_pages: "delivers_pages mem_pg demo_node paged_orders (\<lambda>row. True) (\<lambda>d. tables_of (seen_rows d))"
  unfolding delivers_pages_def mem_texts mem_by_keys mem_rows picked_all
proof (intro conjI ballI allI)
  have n: "TypeName demo_node = ''Order''" by (simp add: demo_node_def)
  fix d :: mem_db
  let ?M = "tables_of (seen_rows d)"
  have "find (\<lambda>m. select_text demo_env m = ''SELECT RecKey FROM Order'') mem_nodes = None"
    "query_text demo_env some_orders demo_node \<noteq> ''SELECT RecKey FROM Order''"
    using mem_starts(1,2) by (auto simp: find_None_iff)
  then have "mem_select (keys_text paged_orders demo_node) (seen_rows d) =
      map (\<lambda>k. [the (?M ''Order'' k) ''RecKey'']) (keys_in (seen_rows d) ''Order'')"
    by (simp add: mem_select_def mem_starts(3))
  then show "lists_rows (Inr (mem_select (keys_text paged_orders demo_node) (seen_rows d), None))
      (\<lambda>k. [the (?M (TypeName demo_node) k) ''RecKey'']) (dom (?M (TypeName demo_node)))"
    using keys_in_dom by (simp add: n lists_rowsI keys_in_def)
next
  fix m and d :: mem_db assume m: "m \<in> set (nodes_of demo_node)"
  let ?M = "tables_of (seen_rows d)"
  show "if TypeName m = TypeName demo_node
     then \<forall>keys. keys \<noteq> [] \<longrightarrow> (\<forall>k \<in> set keys. valid_utf8 k) \<longrightarrow>
       lists_rows (Inr (mem_select (by_keys_text demo_env m keys) (seen_rows d), None))
         (\<lambda>k. map (the (?M (TypeName m) k)) (select_fields demo_env m)) {k \<in> dom (?M (TypeName m)). snd k \<in> set keys}
     else lists_rows (Inr (mem_select (select_text demo_env m) (seen_rows d), None))
         (\<lambda>k. map (the (?M (TypeName m) k)) (select_fields demo_env m)) (dom (?M (TypeName m)))"
  proof (cases "TypeName m = TypeName demo_node")
    case True
    have "lists_rows (Inr (mem_select (by_keys_text demo_env m keys) (seen_rows d), None))
         (\<lambda>k. map (the (?M (TypeName m) k)) (select_fields demo_env m)) {k \<in> dom (?M (TypeName m)). snd k \<in> set keys}"
      if "keys \<noteq> []" "\<forall>k \<in> set keys. valid_utf8 k" for keys
      using mem_select_rows [OF m [folded mem_nodes_def] that] keys_in_dom [of "seen_rows d" "TypeName m"]
      by (auto simp: keys_in_def intro!: lists_rowsI)
    with True show ?thesis by simp
  next
    case False
    with mem_select_view [of m "select_text demo_env m" "seen_rows d"] m show ?thesis
      unfolding mem_nodes_def lists_rows_def by auto
  qed
qed

lemma mem_accepts_pages: "accepts_pages mem_pg demo_node q"
  unfolding accepts_pages_def by (simp add: mem_pg_def demo_over_def mem_database_def)

text \<open>The patterns of a deletion below keys are read back from its text.\<close>

lemma literals_plain: "quote_char \<notin> set u \<Longrightarrow> literals (u @ s) = literals s"
proof -
  assume "quote_char \<notin> set u"
  then have "dropWhile (\<lambda>c. c \<noteq> quote_char) (u @ s) = dropWhile (\<lambda>c. c \<noteq> quote_char) s"
    by (intro dropWhile_append2) auto
  then show ?thesis by (simp add: literals.simps [of "u @ s"] literals.simps [of s])
qed

lemma literals_quoted: "quote_char \<notin> set u \<Longrightarrow> literals (quoted u @ s) = u # literals s"
proof -
  assume u: "quote_char \<notin> set u"
  have q: "quoted u @ s = quote_char # u @ quote_char # s" by (simp add: quoted_def)
  have "takeWhile (\<lambda>c. c \<noteq> quote_char) (u @ quote_char # s) = u" "dropWhile (\<lambda>c. c \<noteq> quote_char) (u @ quote_char # s) = quote_char # s"
    using u by (subst takeWhile_append2 dropWhile_append2; auto)+
  then show ?thesis unfolding q by (subst literals.simps) simp
qed

lemma literals_patterns:
  assumes "no_quotes keys" "keys \<noteq> []" "m \<in> set mem_nodes"
  shows "literals (below_text m keys) = map (\<lambda>key. key @ ''%'') keys"
proof -
  obtain k ks where keys: "keys = k # ks" using assms(2) by (cases keys) auto
  have pat: "quote_char \<notin> set (key @ ''%'')" if "key \<in> set keys" for key
    using assms(1) that by (auto simp: no_quotes_def)
  have name: "quote_char \<notin> set (''DELETE FROM '' @ TypeName m @ '' WHERE '' @ ''ParentKey LIKE '')"
    using assms(3) by (auto simp: mem_nodes_def demo_node_def scalar_node_def)
  have rest: "literals (concat (map (\<lambda>y. '' OR '' @ y) (map (\<lambda>key. ''ParentKey LIKE '' @ quoted (key @ ''%'')) xs)) @ '';'') =
      map (\<lambda>key. key @ ''%'') xs" if "set xs \<subseteq> set keys" for xs
    using that
  proof (induction xs)
    case Nil
    then show ?case by (simp add: literals.simps [of "'';''"])
  next
    case (Cons x xs)
    have "literals ('' OR ParentKey LIKE '' @ quoted (x @ ''%'') @ t) = (x @ ''%'') # literals t" for t
      using pat Cons.prems by (subst literals_plain) (simp_all add: literals_quoted del: append_Cons)
    with Cons show ?case by simp
  qed
  have "below_text m keys = (''DELETE FROM '' @ TypeName m @ '' WHERE '' @ ''ParentKey LIKE '') @
      quoted (k @ ''%'') @ concat (map (\<lambda>y. '' OR '' @ y) (map (\<lambda>key. ''ParentKey LIKE '' @ quoted (key @ ''%'')) ks)) @ '';''"
    by (simp add: below_text_def join_loop_True comma_sep_Cons keys del: comma_sep.simps join_loop.simps)
  moreover have "set ks \<subseteq> set keys" by (auto simp: keys)
  ultimately show ?thesis
    using literals_plain [OF name] literals_quoted [OF pat] rest [of ks] by (simp add: keys del: append_Cons)
qed

lemma some_condition: "root_condition some_orders = Inr (True, ''(Name='' @ quoted ''o1'' @ '')'')"
  by code_simp

lemma mem_names:
  "m \<in> set mem_nodes \<Longrightarrow> TypeName m \<in> {''Order'', ''Line'', ''Tag'', ''Addr''}"
  "m \<in> set mem_nodes \<Longrightarrow> k \<in> set mem_nodes \<Longrightarrow> TypeName m = TypeName k \<Longrightarrow> m = k"
proof -
  have names: "map TypeName mem_nodes = [''Order'', ''Line'', ''Tag'', ''Addr'']" by code_simp
  then have "set (map TypeName mem_nodes) = {''Order'', ''Line'', ''Tag'', ''Addr''}" by simp
  then show "m \<in> set mem_nodes \<Longrightarrow> TypeName m \<in> {''Order'', ''Line'', ''Tag'', ''Addr''}" by auto
  have "distinct (map TypeName mem_nodes)" unfolding names by simp
  then show "m \<in> set mem_nodes \<Longrightarrow> k \<in> set mem_nodes \<Longrightarrow> TypeName m = TypeName k \<Longrightarrow> m = k"
    by (auto simp: distinct_map inj_on_def)
qed

lemma below_apart:
  assumes "m \<in> set mem_nodes"
  shows "take 6 (insert_text demo_env m) \<noteq> ''DELETE''"
    and "k \<in> set mem_nodes \<Longrightarrow> prefix (below_start m) (below_start k) \<Longrightarrow> m = k"
    and "\<not> prefix (below_start m) (roots_text some_orders demo_node)"
proof -
  have "\<forall>m \<in> set mem_nodes. take 6 (insert_text demo_env m) \<noteq> ''DELETE''" by code_simp
  with assms show "take 6 (insert_text demo_env m) \<noteq> ''DELETE''" by blast
  show "k \<in> set mem_nodes \<Longrightarrow> prefix (below_start m) (below_start k) \<Longrightarrow> m = k"
    using mem_names(1) [OF assms] mem_names(1) [of k] mem_names(2) [OF assms, of k] by (auto simp: below_start_def)
  have "roots_text some_orders demo_node = ''DELETE FROM Order WHERE (Name='' @ quoted ''o1'' @ '');''"
    by (simp add: roots_text_def clause_def some_condition demo_node_def)
  then show "\<not> prefix (below_start m) (roots_text some_orders demo_node)"
    using mem_names(1) [OF assms] by (auto simp: below_start_def)
qed

lemma no_insert: "take 6 sql = ''DELETE'' \<Longrightarrow> find (\<lambda>m. insert_text demo_env m = sql) mem_nodes = None"
  using below_apart(1) by (auto simp: find_None_iff)

lemma find_below:
  assumes "keys \<noteq> []" "m \<in> set mem_nodes"
  shows "find (\<lambda>k. prefix (below_start k) (below_text m keys)) mem_nodes = Some m" "take 6 (below_text m keys) = ''DELETE''"
proof -
  have start: "prefix (below_start m) (below_text m keys)"
    using assms(1) by (cases keys)
      (simp_all add: below_text_def below_start_def join_loop_True comma_sep_Cons prefix_def del: comma_sep.simps join_loop.simps)
  show "find (\<lambda>k. prefix (below_start k) (below_text m keys)) mem_nodes = Some m"
  proof (rule find_unique [where P = "\<lambda>k. prefix (below_start k) (below_text m keys)", OF assms(2) start])
    fix k assume k: "k \<in> set mem_nodes" "prefix (below_start k) (below_text m keys)"
    then have "prefix (below_start k) (below_start m) \<or> prefix (below_start m) (below_start k)"
      using start prefix_same_cases by blast
    with below_apart(2) [OF k(1) assms(2)] below_apart(2) [OF assms(2) k(1)] show "k = m" by blast
  qed
  show "take 6 (below_text m keys) = ''DELETE''" using start by (auto simp: prefix_def below_start_def)
qed

lemma mem_deletes: "deletes demo_node some_orders is_o1 mem_effect"
  unfolding deletes_def mem_nodes_def [symmetric]
proof (intro conjI ballI allI impI)
  fix m and keys :: "string list" and M assume m: "m \<in> set mem_nodes" "keys \<noteq> []" "no_quotes keys"
  have "like_any (literals (below_text m keys)) pk = like_keys keys pk" for pk
    using literals_patterns [OF m(3,2,1)] by (simp add: like_any_def like_keys_def list_ex_iff)
  then show "mem_effect (below_text m keys) [] M = removed (\<lambda>tn key. tn = TypeName m \<and> like_keys keys (fst key)) M"
    using find_below [OF m(2,1)] no_insert by (simp add: mem_effect_def)
next
  fix M
  have "take 6 (roots_text some_orders demo_node) = ''DELETE''" by (simp add: roots_text_def)
  then have "find (\<lambda>m. insert_text demo_env m = roots_text some_orders demo_node) mem_nodes = None" by (rule no_insert)
  moreover have "find (\<lambda>m. prefix (below_start m) (roots_text some_orders demo_node)) mem_nodes = None"
    using below_apart(3) by (auto simp: find_None_iff)
  ultimately show "mem_effect (roots_text some_orders demo_node) [] M = picked demo_node (\<lambda>row. \<not> is_o1 row) M"
    by (simp add: mem_effect_def)
qed

lemma mem_accepts_deletes: "accepts_deletes mem_pg demo_node some_orders"
proof -
  have run: "\<exists>ys. mem_run sql [] xs = Some ys"
    if "find (\<lambda>m. prefix (below_start m) sql) mem_nodes \<noteq> None \<or> sql = roots_text some_orders demo_node" for sql xs
    using that by (auto simp: mem_run_def split: option.split)
  have exec: "fst (exec_stmt (dbase mem_pg) sql [] d) = (case mem_run sql [] (seen_rows d) of None \<Rightarrow> Inl (Err ''exec'') | Some xs \<Rightarrow> Inr ())"
    "prepare (dbase mem_pg) d sql = Inr ()" for sql d
    by (simp_all add: mem_pg_def demo_over_def mem_database_def split: option.split)
  show ?thesis
    unfolding accepts_deletes_def exec mem_nodes_def [symmetric]
  proof (intro conjI ballI allI impI mem_accepts(2))
    fix m and keys :: "string list" and d :: mem_db assume m: "m \<in> set mem_nodes" "keys \<noteq> []"
    show "\<exists>u. (case mem_run (below_text m keys) [] (seen_rows d) of None \<Rightarrow> Inl (Err ''exec'') | Some xs \<Rightarrow> Inr ()) = (Inr u :: unit res)"
      using run [of "below_text m keys" "seen_rows d"] find_below(1) [OF m(2,1)] by auto
  next
    fix d :: mem_db
    show "\<exists>u. (case mem_run (roots_text some_orders demo_node) [] (seen_rows d) of None \<Rightarrow> Inl (Err ''exec'') | Some xs \<Rightarrow> Inr ()) = (Inr u :: unit res)"
      using run [of "roots_text some_orders demo_node" "seen_rows d"] by auto
  qed simp_all
qed


text \<open>Two orders, and a plugin over an empty database whose tables are verified.\<close>

definition mem_s0 :: "mem_db pg" where
  "mem_s0 = (NewPostgres 0 \<lparr>kept_rows = [], seen_rows = []\<rparr>)\<lparr>verifyed := collectTables mem_pg demo_node []\<rparr>"

definition mem_orders :: "gval list" where
  "mem_orders = [demo_order ''o1'', demo_order ''o2'']"

lemma all_condition: "root_condition all_orders = Inr (False, [])"
  by code_simp

lemma mem_plain: "plain_query demo_node all_orders" "plain_query demo_node some_orders"
proof -
  have "\<exists>x. root_condition all_orders = Inr x" "\<exists>x. root_condition some_orders = Inr x"
    using some_condition all_condition by blast+
  then show "plain_query demo_node all_orders" "plain_query demo_node some_orders"
    unfolding plain_query_def whole_query_def by (simp_all only:) (simp_all add: all_orders_def some_orders_def demo_query_def)
qed

lemma mem_whole: "whole_query demo_node paged_orders"
proof -
  have "root_condition paged_orders = root_condition all_orders" by (simp add: paged_orders_def root_condition_def)
  then have "\<exists>x. root_condition paged_orders = Inr x" unfolding all_condition by blast
  then show ?thesis unfolding whole_query_def by (simp add: paged_orders_def all_orders_def demo_query_def)
qed

lemma mem_utf8: "\<forall>y \<in> set mem_orders. valid_utf8 (root_rec mem_pg demo_node y)"
  by code_simp

lemma mem_roots: "roots_ok mem_pg demo_node mem_orders"
  unfolding mem_orders_def by code_simp

lemma survives_text:
  assumes "TypeName x = ''string''" "\<not> IsMap x" "\<not> IsSlice x"
  shows "survives mem_pg x (bytes_of mem_pg (GString s))"
  using assms bytes_for_ok
  by (simp add: survives_def bytes_of_def mem_pg_def demo_over_def demo_env_def)

lemma mem_ready: "\<forall>z \<in> set mem_orders. sql_ready mem_pg demo_node z"
  by (auto simp: mem_orders_def demo_order_def demo_text_def demo_node_def scalar_node_def sql_ready_struct
      sub_elems_def enumerate_eq_zip intro!: survives_text)

lemma mem_verified: "tables_ready mem_pg demo_node mem_s0"
  by (simp add: tables_ready_def mem_s0_def mem_pg_def demo_over_def) (simp add: demo_node_def)

lemma mem_empty: "db_holds mem_pg demo_node [] (tables_of (kept_rows (dbState mem_s0)))"
proof -
  have "holds mem_pg demo_node [] (\<lambda>tn. Map.empty)" by (simp add: holds_def confined_def)
  moreover have "represents mem_pg (nodes_of demo_node) (tables_of (kept_rows (dbState mem_s0))) (\<lambda>tn. Map.empty)"
    by (simp add: represents_def tables_of_def mem_s0_def NewPostgres_def)
  ultimately show ?thesis unfolding db_holds_def by blast
qed

lemma mem_containers: "object_new_ok mem_pg" "elements_ok mem_pg" "collectTsAttrs demo_node = []"
  by (simp_all add: object_new_ok_def elements_ok_def mem_pg_def demo_over_def) code_simp

lemma mem_args: "length [None, None] = length mem_orders" "mem_orders \<noteq> []" "POST \<noteq> PATCH"
  by (simp_all add: mem_orders_def)

lemma mem_written:
  "\<exists>s. Write mem_pg 0 POST \<lparr>Element = Some (hd mem_orders), Elements = map Some mem_orders, Keys = [None, None]\<rparr> mem_s0 = (Inr (), s) \<and>
     db_holds mem_pg demo_node mem_orders (tables_of (kept_rows (dbState s))) \<and> tables_ready mem_pg demo_node s"
proof -
  have roots: "roots_ok mem_pg demo_node ([] @ mem_orders)" using mem_roots by simp
  obtain j r s where w: "Write mem_pg 0 POST \<lparr>Element = Some (hd mem_orders), Elements = map Some mem_orders, Keys = [None, None]\<rparr> mem_s0 = (r, s)"
    "db_holds mem_pg demo_node ([] @ take (500 * j) mem_orders) (tables_of (kept_rows (dbState s)))"
    "if length mem_orders \<le> 500 * j then r = Inr () else \<exists>m. r = Inl (Err m)"
    "accepts_rows mem_pg demo_node \<longrightarrow> r = Inr ()" "tables_ready mem_pg demo_node s"
    using Write_store [OF mem_store mem_containers(1) mem_args(3) roots mem_args(2) mem_ready mem_args(1) mem_verified mem_empty, of 0]
    by blast
  from w(3,4) mem_accepts(1) have r: "r = Inr ()" "length mem_orders \<le> 500 * j" by (metis sum.distinct(1))+
  then have "db_holds mem_pg demo_node mem_orders (tables_of (kept_rows (dbState s)))" using w(2) by simp
  with w(1,5) r(1) show ?thesis by blast
qed

text \<open>The condition selects the first order.\<close>

lemma mem_is_o1:
  assumes "db_holds mem_pg demo_node ys M" "demo_order nm \<in> set ys"
  shows "is_o1 (the (M ''Order'' ([], root_rec mem_pg demo_node (demo_order nm)))) \<longleftrightarrow> nm = ''o1''"
proof -
  let ?key = "([], root_rec mem_pg demo_node (demo_order nm))"
  obtain T where T: "holds mem_pg demo_node ys T" "represents mem_pg (nodes_of demo_node) M T"
    using assms(1) by (auto simp: db_holds_def)
  have p: "(''Name'', scalar_node ''Name'') \<in> set (Attributes demo_node)" "scalar_attr (''Name'', scalar_node ''Name'')"
    "TypeName demo_node = ''Order''"
    by (simp_all add: demo_node_def scalar_node_def)
  have "stored mem_pg T demo_node (demo_order nm) [] (root_rec mem_pg demo_node (demo_order nm))"
    using T(1) assms(2) by (simp add: holds_def)
  then obtain cells where cells: "T ''Order'' ?key = Some cells" "cells ''Name'' = Some (bytes_of mem_pg (GString nm))"
    by (cases; use p in \<open>fastforce simp: demo_order_def\<close>)
  then obtain row where row: "M ''Order'' ?key = Some row" "row_carries mem_pg demo_node ?key row cells"
    using T(2) [unfolded represents_def, rule_format, OF nodes_of_self, of ?key] by (auto simp: p(3))
  then have "carries mem_pg (scanner mem_pg) (scalar_node ''Name'') (row ''Name'') (bytes_for nm)"
    using p cells(2) by (fastforce simp: row_carries_def bytes_of_def mem_pg_def demo_over_def demo_env_def bytes_for_ok)
  then have name: "row ''Name'' \<noteq> DNull" "bytes_for (drv_string (fmt_float demo_conv) (row ''Name'')) = bytes_for nm"
    by (auto simp: carries_def scan_value_def scan_type_def string_type_def store_bytes_def encoded_def scalar_node_def
        scan_err_def mem_pg_def demo_over_def demo_env_def bytes_for_ok split: if_splits)
  from arg_cong [OF name(2), of demo_dec] have "drv_string (fmt_float demo_conv) (row ''Name'') = nm"
    by (simp add: bytes_for_ok)
  with name(1) row(1) show ?thesis by (simp add: is_o1_def)
qed

lemma mem_selected:
  assumes "db_holds mem_pg demo_node mem_orders M"
  shows "selected mem_pg demo_node is_o1 M mem_orders = [demo_order ''o1'']"
    and "selected mem_pg demo_node (\<lambda>row. \<not> is_o1 row) M mem_orders = [demo_order ''o2'']"
proof -
  have n: "TypeName demo_node = ''Order''" by (simp add: demo_node_def)
  have "is_o1 (the (M ''Order'' ([], root_rec mem_pg demo_node (demo_order nm)))) \<longleftrightarrow> nm = ''o1''"
    if "nm \<in> {''o1'', ''o2''}" for nm
    using mem_is_o1 [OF assms, of nm] that by (auto simp: mem_orders_def)
  then show "selected mem_pg demo_node is_o1 M mem_orders = [demo_order ''o1'']"
    "selected mem_pg demo_node (\<lambda>row. \<not> is_o1 row) M mem_orders = [demo_order ''o2'']"
    by (simp_all add: selected_def n mem_orders_def)
qed

lemma mem_free: "fold_apart demo_node" "free_keys mem_pg demo_node mem_orders"
proof -
  show "fold_apart demo_node" unfolding fold_apart_def by code_simp
  show "free_keys mem_pg demo_node mem_orders" unfolding free_keys_def by code_simp
qed

end
