(* ===== verification/Pg_Objects.thy ===== *)
theory Pg_Objects
  imports Demo_Store
begin

text \<open>
  Objects through the database: what a write and a deletion promise, and that what was written
  is read back.  They are evaluated at a database in memory.
\<close>

section \<open>Writing over rows\<close>

text \<open>
  C6. What a write does to the tables, whatever they hold: also older versions of the
  objects written.  Commits of the database succeed, as in all that follows: Write does not
  report one that fails.  Posting or putting conforming objects does not panic.  The rows at the keys
  of the objects and of their parts carry their data afterwards, and every other row of the
  tables is exactly as it was: a write removes nothing, so an object that is put with fewer
  elements than it had keeps the rows of the old ones.  If the write reports an error this
  holds of the batches of 500 objects before the one that failed; it succeeds when the database
  accepts the inserts of the type.
\<close>

theorem Write_overlays_rows:
  assumes "store_ok E n kept seen effect" "object_new_ok E" "action \<noteq> PATCH"
    and "roots_ok E n zs" "\<forall>z \<in> set zs. sql_ready E n z" "length ks = length zs" "tables_ready E n s"
  shows "\<exists>j T r s'. Write E now action \<lparr>Element = Some (hd zs), Elements = map Some zs, Keys = ks\<rparr> s = (r, s') \<and>
     holds E n (take (500 * j) zs) T \<and>
     (\<forall>m \<in> set (nodes_of n). \<forall>key.
        (case T (TypeName m) key of
           None \<Rightarrow> kept (dbState s') (TypeName m) key = kept (dbState s) (TypeName m) key
         | Some cells \<Rightarrow> \<exists>row. kept (dbState s') (TypeName m) key = Some row \<and> row_carries E m key row cells)) \<and>
     (if length zs \<le> 500 * j then r = Inr () else \<exists>m. r = Inl (Err m)) \<and>
     (accepts_rows E n \<longrightarrow> r = Inr ())"
  using Write_overlays [OF assms, of now] unfolding overlays_def by blast

text \<open>The order \<open>o1\<close> with two lines, put again with one: the row of the second line stays.\<close>

definition short_order :: gval where
  "short_order = GPtr (demo_struct ''Order'') (Some (GStruct ''Order''
     [(''Name'', GString ''o1''),
      (''Lines'', GSlice (TPtr (demo_struct ''Line'')) (Some [demo_text ''Line'' ''n''])),
      (''Tags'', GMap (TNamed KString ''string'') (TPtr (demo_struct ''Tag'')) None),
      (''Addr'', GPtr (demo_struct ''Addr'') None)]))"

definition old_line :: "string \<times> string" where
  "old_line = (root_rec mem_pg demo_node short_order, bracketed ''Lines'' (nat_str 1))"

abbreviation put_one :: "gval \<Rightarrow> mem_db pg \<Rightarrow> unit res \<times> mem_db pg" where
  "put_one z \<equiv> Write mem_pg 0 PUT \<lparr>Element = Some (hd [z]), Elements = map Some [z], Keys = [None]\<rparr>"

abbreviation line_row :: "mem_db pg \<Rightarrow> (string \<Rightarrow> drv) option" where
  "line_row s \<equiv> tables_of (kept_rows (dbState s)) ''Line'' old_line"

lemma short_ready: "roots_ok mem_pg demo_node [short_order]" "sql_ready mem_pg demo_node short_order"
  by code_simp (auto simp: short_order_def demo_text_def demo_node_def scalar_node_def sql_ready_struct
      sub_elems_def enumerate_eq_zip intro!: survives_text)

lemma order_ready: "roots_ok mem_pg demo_node [demo_order ''o1'']" "sql_ready mem_pg demo_node (demo_order ''o1'')"
  using mem_roots mem_ready by (auto simp: roots_ok_def mem_orders_def)

text \<open>The rows of the lines of an order.\<close>

definition line_keys :: "gval \<Rightarrow> string list" where
  "line_keys y = elem_keys ''Lines'' (sub_elems mem_pg (the (map_of (Attributes demo_node) ''Lines''))
     (case field_by_name ''Lines'' (struct_of y) of Inr (Some f) \<Rightarrow> f | _ \<Rightarrow> y))"

lemma line_keys_row:
  assumes "holds mem_pg demo_node [y] T" "roots_ok mem_pg demo_node [y]" "root_rec mem_pg demo_node y = fst old_line"
  shows "T ''Line'' old_line \<noteq> None \<longleftrightarrow> bracketed ''Lines'' (nat_str 1) \<in> set (line_keys y)"
proof -
  let ?p = "(''Lines'', the (map_of (Attributes demo_node) ''Lines''))"
  have p: "?p \<in> set (Attributes demo_node)" "sub_attr ?p" "TypeName (snd ?p) = ''Line''" "FieldName (snd ?p) = ''Lines''"
    by code_simp+
  have "conf mem_pg demo_node y" using assms(2) by (simp add: roots_ok_def)
  then obtain fs where y: "y = GPtr (TNamed KStruct (TypeName demo_node)) (Some (GStruct (TypeName demo_node) fs))"
    "conf mem_pg demo_node (GPtr (TNamed KStruct (TypeName demo_node)) (Some (GStruct (TypeName demo_node) fs)))"
    by (metis conf_shape)
  then obtain f where f: "map_of fs ''Lines'' = Some f" using conf_attrs(2) [OF y(2) p(1,2)] by auto
  have "stored mem_pg T demo_node y [] (root_rec mem_pg demo_node y)" using assms(1) by (simp add: holds_def)
  then have "child_keys T (TypeName (snd ?p)) (fst old_line) (FieldName (snd ?p)) =
      set (elem_keys (FieldName (snd ?p)) (sub_elems mem_pg (snd ?p) (the (map_of fs (fst ?p)))))"
    unfolding y(1) assms(3) [unfolded y(1)] by cases (use p(1,2) in \<open>simp only: append_Nil\<close>)
  then have "child_keys T ''Line'' (fst old_line) ''Lines'' = set (line_keys y)"
    using f unfolding p(3,4) by (simp add: line_keys_def y(1) struct_of_def)
  moreover have "nameOfField (bracketed ''Lines'' (nat_str 1)) = ''Lines''" by code_simp
  ultimately show ?thesis by (auto simp: child_keys_def old_line_def set_eq_iff)
qed

lemma old_line_row:
  "holds mem_pg demo_node [demo_order ''o1''] T \<Longrightarrow> T ''Line'' old_line \<noteq> None"
  "holds mem_pg demo_node [short_order] T \<Longrightarrow> T ''Line'' old_line = None"
proof -
  have r: "root_rec mem_pg demo_node (demo_order ''o1'') = fst old_line" "root_rec mem_pg demo_node short_order = fst old_line"
    "bracketed ''Lines'' (nat_str 1) \<in> set (line_keys (demo_order ''o1''))"
    "bracketed ''Lines'' (nat_str 1) \<notin> set (line_keys short_order)"
    by code_simp+
  show "holds mem_pg demo_node [demo_order ''o1''] T \<Longrightarrow> T ''Line'' old_line \<noteq> None"
    using line_keys_row [OF _ order_ready(1) r(1)] r(3) by blast
  show "holds mem_pg demo_node [short_order] T \<Longrightarrow> T ''Line'' old_line = None"
    using line_keys_row [OF _ short_ready(1) r(2)] r(4) by blast
qed

theorem Write_overlays_rows_witness:
  "\<exists>s s'. put_one short_order s = (Inr (), s') \<and> line_row s \<noteq> None \<and> line_row s' = line_row s"
proof -
  let ?kept = "\<lambda>d. tables_of (kept_rows d)"
  have "\<exists>m \<in> set (nodes_of demo_node). TypeName m = ''Line''" by code_simp
  then obtain m where m: "m \<in> set (nodes_of demo_node)" "TypeName m = ''Line''" ..
  have one: "PUT \<noteq> PATCH" "length [None] = length [z]" for z :: gval by simp_all
  have ready: "\<forall>z \<in> set [demo_order ''o1'']. sql_ready mem_pg demo_node z" "\<forall>z \<in> set [short_order]. sql_ready mem_pg demo_node z"
    using order_ready(2) short_ready(2) by simp_all
  have whole: "take (500 * j) [z] = [z]" if "if length [z] \<le> 500 * j then r = Inr () else \<exists>m. r = Inl (Err m)" "r = Inr ()"
    for j z and r :: "unit res" using that by (cases j) auto
  obtain j T r s where w: "holds mem_pg demo_node (take (500 * j) [demo_order ''o1'']) T"
    "overlays mem_pg (nodes_of demo_node) T (?kept (dbState mem_s0)) (?kept (dbState s))"
    "if length [demo_order ''o1''] \<le> 500 * j then r = Inr () else \<exists>m. r = Inl (Err m)"
    "accepts_rows mem_pg demo_node \<longrightarrow> r = Inr ()" "tables_ready mem_pg demo_node s"
    using Write_overlays [OF mem_store mem_containers(1) one(1) order_ready(1) ready(1) one(2) mem_verified] by blast
  have "T ''Line'' old_line \<noteq> None" using w(1) whole [OF w(3)] w(4) mem_accepts(1) old_line_row(1) by simp
  then have some: "line_row s \<noteq> None"
    using overlaysD [OF w(2) m(1), of old_line] unfolding m(2) by (auto split: option.splits)
  obtain j T r s' where w': "put_one short_order s = (r, s')" "holds mem_pg demo_node (take (500 * j) [short_order]) T"
    "\<forall>m \<in> set (nodes_of demo_node). \<forall>key.
        (case T (TypeName m) key of
           None \<Rightarrow> ?kept (dbState s') (TypeName m) key = ?kept (dbState s) (TypeName m) key
         | Some cells \<Rightarrow> \<exists>row. ?kept (dbState s') (TypeName m) key = Some row \<and> row_carries mem_pg m key row cells)"
    "if length [short_order] \<le> 500 * j then r = Inr () else \<exists>m. r = Inl (Err m)"
    "accepts_rows mem_pg demo_node \<longrightarrow> r = Inr ()"
    using Write_overlays_rows [OF mem_store mem_containers(1) one(1) short_ready(1) ready(2) one(2) w(5), of 0] by blast
  have "T ''Line'' old_line = None" using w'(2) whole [OF w'(4)] w'(5) mem_accepts(1) old_line_row(2) by simp
  then have "line_row s' = line_row s" using w'(3) [rule_format, OF m(1), of old_line] unfolding m(2) by simp
  with some w'(1,5) mem_accepts(1) show ?thesis by blast
qed

section \<open>Writing objects\<close>

text \<open>
  C8. What a write of objects promises.  The database holds root objects of a type, and
  conforming objects with other primary keys are posted or put; commits of the database
  succeed (Write does not report one that fails).  The write does not panic.
  If it reports success the database holds the old and the new objects, every part of them
  and nothing else, whatever the orders of the range loops; if it reports an error, it holds
  the old ones and the batches of 500 objects before the one that failed, and no part of
  another.  It succeeds when the database accepts the inserts of the type.
\<close>

theorem Write_adds_objects:
  assumes "store_ok E n kept seen effect" "object_new_ok E" "action \<noteq> PATCH"
    and "roots_ok E n (ys @ zs)" "zs \<noteq> []" "\<forall>z \<in> set zs. sql_ready E n z" "length ks = length zs"
    and "tables_ready E n s" "db_holds E n ys (kept (dbState s))"
  shows "\<exists>j r s'. Write E now action \<lparr>Element = Some (hd zs), Elements = map Some zs, Keys = ks\<rparr> s = (r, s') \<and>
     db_holds E n (ys @ take (500 * j) zs) (kept (dbState s')) \<and>
     (if length zs \<le> 500 * j then r = Inr () else \<exists>m. r = Inl (Err m)) \<and>
     (accepts_rows E n \<longrightarrow> r = Inr ())"
  using Write_store [OF assms] by blast

theorem Write_adds_objects_witness:
  "\<exists>r s'. Write mem_pg 0 POST \<lparr>Element = Some (hd mem_orders), Elements = map Some mem_orders, Keys = [None, None]\<rparr> mem_s0 =
     (Inr (), s') \<and> db_holds mem_pg demo_node mem_orders (tables_of (kept_rows (dbState s')))"
proof -
  have roots: "roots_ok mem_pg demo_node ([] @ mem_orders)" using mem_roots by simp
  have len: "length [None, None] = length mem_orders" "mem_orders \<noteq> []" "POST \<noteq> PATCH" by (simp_all add: mem_orders_def)
  obtain j r s' where w: "Write mem_pg 0 POST \<lparr>Element = Some (hd mem_orders), Elements = map Some mem_orders, Keys = [None, None]\<rparr> mem_s0 = (r, s')"
    "db_holds mem_pg demo_node ([] @ take (500 * j) mem_orders) (tables_of (kept_rows (dbState s')))"
    "if length mem_orders \<le> 500 * j then r = Inr () else \<exists>m. r = Inl (Err m)" "accepts_rows mem_pg demo_node \<longrightarrow> r = Inr ()"
    using Write_adds_objects [OF mem_store mem_containers(1) len(3) roots len(2) mem_ready len(1) mem_verified mem_empty, of 0]
    by blast
  from w(3,4) mem_accepts(1) have "length mem_orders \<le> 500 * j" by (metis sum.distinct(1))
  with w mem_accepts(1) show ?thesis by auto
qed

section \<open>Writing and reading\<close>

text \<open>
  C1. Objects through the database, whose commits succeed and which accepts the statements of
  the type.  Objects posted or put to a database that holds others
  of their type are read back by a query for whole objects with a condition on its root table,
  or with none: the result has exactly the objects that were there and the new ones whose rows
  the condition is true of, in some order, each equal to what was written up to the
  order of the entries of Go maps.  This is the whole way, from the elements over their
  relational data, the statements and the tables to the elements of the result, for every
  order of the range loops and every order in which the database delivers rows.
\<close>

theorem write_then_read:
  assumes "store_ok E n kept seen effect" "object_new_ok E" "delivers E n q (\<lambda>d. picked n match (seen d))" "elements_ok E"
    and "accepts_rows E n" "accepts_reads E n q" "collectTsAttrs n = []" "action \<noteq> PATCH" "plain_query n q"
    and "roots_ok E n (ys @ zs)" "zs \<noteq> []" "\<forall>z \<in> set zs. sql_ready E n z" "length ks = length zs"
    and "tables_ready E n s" "db_holds E n ys (kept (dbState s))"
  shows "\<exists>s' elems md xs os.
     Write E now action \<lparr>Element = Some (hd zs), Elements = map Some zs, Keys = ks\<rparr> s = (Inr (), s') \<and>
     fst (Read E later q s') = Inr (elems, md) \<and>
     elems = map Some os \<and> list_all2 (sim n) xs os \<and>
     mset xs = mset (filter (\<lambda>y. match (the (kept (dbState s') (TypeName n) ([], root_rec E n y)))) (ys @ zs))"
proof -
  obtain j r s' where w: "Write E now action \<lparr>Element = Some (hd zs), Elements = map Some zs, Keys = ks\<rparr> s = (r, s')"
    "db_holds E n (ys @ take (500 * j) zs) (kept (dbState s'))"
    "if length zs \<le> 500 * j then r = Inr () else \<exists>m. r = Inl (Err m)"
    "accepts_rows E n \<longrightarrow> r = Inr ()" "tables_ready E n s'"
    using Write_store [OF assms(1,2,8,10-15), of now] by blast
  from w(3,4) assms(5) have r: "r = Inr ()" "length zs \<le> 500 * j" by (metis sum.distinct(1))+
  then have "db_holds E n (ys @ zs) (kept (dbState s'))" using w(2) by simp
  from Read_load [OF assms(1,3,4,7,9,10) w(5) this, of later] assms(6)
  obtain elems md xs os where "fst (Read E later q s') = Inr (elems, md)" "elems = map Some os"
    "mset xs = mset (selected E n match (kept (dbState s')) (ys @ zs))" "list_all2 (sim n) xs os"
    by (auto simp: yields_def split: sum.splits go_err.splits)
  with w(1) r(1) show ?thesis unfolding selected_def by blast
qed

theorem write_then_read_witness:
  "\<exists>s' elems md xs os.
     Write mem_pg 0 POST \<lparr>Element = Some (hd mem_orders), Elements = map Some mem_orders, Keys = [None, None]\<rparr> mem_s0 =
       (Inr (), s') \<and>
     fst (Read mem_pg 1 some_orders s') = Inr (elems, md) \<and>
     elems = map Some os \<and> list_all2 (sim demo_node) xs os \<and> mset xs = {#demo_order ''o1''#}"
proof -
  have roots: "roots_ok mem_pg demo_node ([] @ mem_orders)" using mem_roots by simp
  obtain s where w: "Write mem_pg 0 POST \<lparr>Element = Some (hd mem_orders), Elements = map Some mem_orders, Keys = [None, None]\<rparr> mem_s0 = (Inr (), s)"
    "db_holds mem_pg demo_node mem_orders (tables_of (kept_rows (dbState s)))"
    using mem_written by blast
  from write_then_read [OF mem_store mem_containers(1) mem_delivers_some mem_containers(2) mem_accepts mem_containers(3)
      mem_args(3) mem_plain(2) roots mem_args(2) mem_ready mem_args(1) mem_verified mem_empty, of 0 1]
  obtain s' elems md xs os where r: "Write mem_pg 0 POST \<lparr>Element = Some (hd mem_orders), Elements = map Some mem_orders, Keys = [None, None]\<rparr> mem_s0 =
       (Inr (), s')" "fst (Read mem_pg 1 some_orders s') = Inr (elems, md)" "elems = map Some os" "list_all2 (sim demo_node) xs os"
     "mset xs = mset (selected mem_pg demo_node is_o1 (tables_of (kept_rows (dbState s'))) mem_orders)"
    unfolding selected_def by auto
  from r(1) w have "s' = s" by simp
  with r(5) mem_selected(1) [OF w(2)] have "mset xs = {#demo_order ''o1''#}" by simp
  with r(1-4) show ?thesis by blast
qed

section \<open>Deleting\<close>



end
