(* ===== verification/Pg_Paging.thy ===== *)
theory Pg_Paging
  imports Demo_Store
begin

text \<open>
  Reading objects page by page through the index: the first page of a query finds its record
  keys and caches them, the next ones are served from the cache.
\<close>

section \<open>One page\<close>

text \<open>Distinct keys of objects of the database.\<close>

definition known_keys :: "'a env_scheme \<Rightarrow> l8node \<Rightarrow> gval list \<Rightarrow> string list \<Rightarrow> bool" where
  "known_keys E n ys keys \<longleftrightarrow> distinct keys \<and> set keys \<subseteq> root_rec E n ` set ys"

lemma known_page_keys:
  assumes "known_keys E n ys keys" "keys \<noteq> []" "holds E n ys T" "\<forall>y \<in> set ys. valid_utf8 (root_rec E n y)"
  shows "page_keys n T keys"
  unfolding page_keys_def
proof (intro conjI ballI allI impI)
  show "keys \<noteq> []" "distinct keys" using assms(1,2) by (simp_all add: known_keys_def)
  fix k assume "k \<in> set keys"
  then obtain y where y: "y \<in> set ys" "k = root_rec E n y" using assms(1) by (auto simp: known_keys_def)
  then show "valid_utf8 k" using assms(4) by simp
  have "stored E T n y [] (root_rec E n y)" using assms(3) y(1) by (simp add: holds_def)
  then show "T (TypeName n) ([], k) \<noteq> None" unfolding y(2) by (auto elim!: stored.cases)
next
  fix key assume t: "T (TypeName n) key \<noteq> None"
  obtain pk rk where key: "key = (pk, rk)" by (cases key)
  show "fst key = []" using t assms(3) unfolding key holds_def confined_def by fastforce
qed

lemma page_begin_yields:
  "never_panics (dbase E) \<Longrightarrow> yields (accepts_pages E n q) (\<lambda>x. True) (fst (begin_tx (dbase E) d))"
  unfolding yields_def never_panics_def accepts_pages_def
  by (auto split: sum.split go_err.split)

lemma readByRecKeys_yields:
  assumes S: "store_ok E n kept seen effect" "delivers_pages E n q match seen" "whole_query n q" "fold_apart n"
      "elements_ok E" "collectTsAttrs n = []"
    and ys: "roots_ok E n ys" "db_holds E n ys (kept (dbState s))" "\<forall>y \<in> set ys. valid_utf8 (root_rec E n y)"
    and keys: "known_keys E n ys keys"
  shows "yields (accepts_pages E n q) (page_result E n ys keys md) (fst (readByRecKeys E q keys md s))"
proof (cases "keys = []")
  case True
  then show ?thesis by (simp add: readByRecKeys_def page_result_def ret_def)
next
  case False
  have E: "orders_ok E" "wf_tree n" "sql_types E n" "transactional (dbase E) kept seen effect" "never_panics (dbase E)"
    using S(1) by (simp_all add: store_ok_def)
  obtain T where T: "holds E n ys T" "represents E (nodes_of n) (kept (dbState s)) T"
    using ys(2) unfolding db_holds_def by blast
  obtain data where data: "NewRelationsDataForQuery E q = Inr data" "RootTypeName data = TypeName n"
    "distinct (gkeys (Tables data))" "fst ` set (Tables data) = TypeName ` set (nodes_of n)"
    "\<forall>tt \<in> set (Tables data). \<exists>m c. schema_table n tt m c"
    using plain_schema [OF E(1-3) S(3)] by blast
  have "fst (readByRecKeys E q keys md s) = fst (bracket (dbase E) False (reading (page_body E q keys md data)) (dbState s))"
    using False data(1) by (simp add: readByRecKeys_def abind_def ret_def on_db_def split: prod.split)
  moreover have "yields (accepts_pages E n q) (page_result E n ys keys md)
      (fst (bracket (dbase E) False (reading (page_body E q keys md data)) (dbState s)))"
  proof (rule yields_bracket [OF page_begin_yields [OF E(5)]])
    fix u d assume "begin_tx (dbase E) (dbState s) = (Inr u, d)"
    then have "seen d = kept (dbState s)" using transactionalD(2) [OF E(4), of "dbState s" u] by simp
    then have "represents E (nodes_of n) (seen d) T" using T(2) by simp
    from page_body_yields [OF E(1-3,5) S(2-6) ys(1) T(1) this known_page_keys [OF keys False T(1) ys(3)] data(2-5)]
    show "yields (accepts_pages E n q) (page_result E n ys keys md) (fst (reading (page_body E q keys md data) d))"
      by (simp add: reading_def)
  qed
  ultimately show ?thesis by simp
qed

text \<open>What the record keys are read as.\<close>

definition listed ::
    "('d, 'x) pg_env_scheme \<Rightarrow> l8node \<Rightarrow> iquery \<Rightarrow> ('d \<Rightarrow> tables) \<Rightarrow> tables \<Rightarrow> string list \<Rightarrow> bool" where
  "listed E n q seen M keys \<longleftrightarrow>
     (\<exists>d err. seen d = M \<and> query_rows (dbase E) d (keys_text q n) [] = Inr (map (\<lambda>k. [DText k]) keys, err))"

lemma read_keys_yield:
  assumes inv: "never_panics (dbase E)" "sql_types E n" "delivers_pages E n q match seen" "whole_query n q"
    and T: "holds E n ys T" "represents E (nodes_of n) (seen d) T"
    and k: "TypeName k = TypeName n"
  shows "yields (accepts_pages E n q) (\<lambda>(keys, md). listed E n q seen (seen d) keys \<and>
      distinct keys \<and> set keys = root_rec E n ` set (selected E n match (seen d) ys)) (rec_keys_body E q k d)"
proof -
  let ?K = "dom (picked n match (seen d) (TypeName n))"
  obtain x where q: "root_condition q = Inr x" "RootType q = n" using inv(4) by (auto simp: whole_query_def)
  have K: "?K = (\<lambda>y. ([], root_rec E n y)) ` set (selected E n match (seen d) ys)"
    using picked_roots [OF T] .
  have row: "the (seen d (TypeName n) key) ''RecKey'' = DText (snd key)" if key: "key \<in> ?K" for key
  proof -
    obtain row where "seen d (TypeName n) key = Some row" using key by (auto simp: picked_def dom_def split: option.splits)
    moreover from this obtain cells where "row_carries E n key row cells"
      using T(2) [unfolded represents_def, rule_format, OF nodes_of_self, of key] by (cases "T (TypeName n) key") auto
    ultimately show ?thesis by (simp add: row_carries_def)
  qed
  obtain md where md: "meta_data E d (NewStatement k None (Some q)) = Inr md"
    using meta_data_yields [of E "NewStatement k None (Some q)" q n d] inv(1,4) by (auto simp: NewStatement_def)
  have run: "rec_keys_body E q k d = rbind (query_rows (dbase E) d (keys_text q n) []) (\<lambda>(rows, err).
      rbind (collect (\<lambda>row. rbind (Scan (scanner E) [string_type] row) (\<lambda>vs. assert_string (hd vs))) rows)
        (\<lambda>keys. rbind (meta_data E d (NewStatement k None (Some q))) (\<lambda>md. Inr (keys, md))))"
    using Query2RecKeys_text [OF q] by (simp add: rec_keys_body_def q(2))
  show ?thesis
    unfolding run
  proof (rule yields_bind [where P = "\<lambda>x. True"])
    show "yields (accepts_pages E n q) (\<lambda>x. True) (query_rows (dbase E) d (keys_text q n) [])"
      using inv(1) unfolding yields_def never_panics_def accepts_pages_def
      by (auto split: sum.split go_err.split) (metis sum.distinct(1))+
    fix x assume x: "query_rows (dbase E) d (keys_text q n) [] = Inr x"
    obtain rows err where p: "x = (rows, err)" by (cases x)
    obtain ks where ks: "distinct ks" "set ks = ?K" "rows = map (\<lambda>k. [the (seen d (TypeName n) k) ''RecKey'']) ks"
      using delivers_pagesD(3) [OF inv(3) nodes_of_self, of d] x unfolding p lists_rows_def by blast
    then have rows: "rows = map (\<lambda>k. [DText k]) (map snd ks)" using row by simp
    have "collect (\<lambda>row. rbind (Scan (scanner E) [string_type] row) (\<lambda>vs. assert_string (hd vs))) rows = Inr (map snd ks)"
      unfolding rows collect_comp by (intro collect_map) (simp add: Scan_def string_type_def scan_value_def)
    moreover have "distinct (map snd ks)"
      using ks(1,2) unfolding K by (auto simp: distinct_map inj_on_def)
    moreover have "set (map snd ks) = root_rec E n ` set (selected E n match (seen d) ys)"
      using ks(2) unfolding K by (simp add: image_image)
    moreover have "listed E n q seen (seen d) (map snd ks)" using x unfolding listed_def p rows by blast
    ultimately show "yields (accepts_pages E n q) (\<lambda>(keys, md). listed E n q seen (seen d) keys \<and>
        distinct keys \<and> set keys = root_rec E n ` set (selected E n match (seen d) ys))
      (case x of (rows, err) \<Rightarrow> rbind (collect (\<lambda>row. rbind (Scan (scanner E) [string_type] row) (\<lambda>vs. assert_string (hd vs))) rows)
        (\<lambda>keys. rbind (meta_data E d (NewStatement k None (Some q))) (\<lambda>md. Inr (keys, md))))"
      using md by (simp add: p)
  qed
qed

lemma readRecKeys_yields:
  assumes S: "store_ok E n kept seen effect" "delivers_pages E n q match seen" "whole_query n q"
    and s: "tables_ready E n s" "db_holds E n ys (kept (dbState s))"
  shows "yields (accepts_pages E n q) (\<lambda>(keys, md). listed E n q seen (kept (dbState s)) keys \<and>
      distinct keys \<and> set keys = root_rec E n ` set (selected E n match (kept (dbState s)) ys))
    (fst (readRecKeys E q s))"
proof -
  have E: "orders_ok E" "sql_types E n" "transactional (dbase E) kept seen effect" "never_panics (dbase E)"
    using S(1) by (simp_all add: store_ok_def)
  obtain T where T: "holds E n ys T" "represents E (nodes_of n) (kept (dbState s)) T"
    using s(2) unfolding db_holds_def by blast
  obtain k where k: "nodeByTypeName E (TypeName n) = Some k" "TypeName k = TypeName n"
    using sql_types_node [OF E(2) nodes_of_self] by metis
  have ver: "verifyTables E k s = (Inr (), s)"
    using s(1) k by (intro verifyTables_done E(1)) (simp add: tables_ready_def)
  have "RootType q = n" using S(3) by (simp add: whole_query_def)
  then have "fst (readRecKeys E q s) = fst (bracket (dbase E) False (reading (rec_keys_body E q k)) (dbState s))"
    using k(1) ver by (simp add: readRecKeys_def abind_def on_db_def split: prod.split)
  moreover have "yields (accepts_pages E n q) (\<lambda>(keys, md). listed E n q seen (kept (dbState s)) keys \<and>
      distinct keys \<and> set keys = root_rec E n ` set (selected E n match (kept (dbState s)) ys))
      (fst (bracket (dbase E) False (reading (rec_keys_body E q k)) (dbState s)))"
  proof (rule yields_bracket [OF page_begin_yields [OF E(4)]])
    fix u d assume "begin_tx (dbase E) (dbState s) = (Inr u, d)"
    then have d: "seen d = kept (dbState s)" using transactionalD(2) [OF E(3), of "dbState s" u] by simp
    from read_keys_yield [OF E(4,2) S(2,3) T(1) T(2) [folded d] k(2)]
    show "yields (accepts_pages E n q) (\<lambda>(keys, md). listed E n q seen (kept (dbState s)) keys \<and>
        distinct keys \<and> set keys = root_rec E n ` set (selected E n match (kept (dbState s)) ys))
      (fst (reading (rec_keys_body E q k) d))"
      by (simp add: reading_def d)
  qed
  ultimately show ?thesis by simp
qed

section \<open>Pages from the index\<close>

text \<open>A query for the pages of whole objects, for which the security filter is off.\<close>

definition paged_query :: "('d, 'x) pg_env_scheme \<Rightarrow> l8node \<Rightarrow> iquery \<Rightarrow> bool" where
  "paged_query E n q \<longleftrightarrow> whole_query n q \<and> \<not> IsAggregate q \<and> 0 < sint (Limit q) \<and> (security E = None \<or> AAAId q = [])"

abbreviation page_key :: "iquery \<Rightarrow> int64" where
  "page_key q \<equiv> index_key (QHash q) (AAAId q)"

abbreviation at_page :: "iquery \<Rightarrow> nat \<Rightarrow> iquery" where
  "at_page q p \<equiv> q\<lparr>Page := word_of_nat p\<rparr>"

lemma keys_text_at_page: "keys_text (at_page q p) = keys_text q"
  by (simp add: fun_eq_iff keys_text_def clause_def order_by_def root_condition_def)

lemma at_page_query [simp]:
  "paged_query E n (at_page q p) = paged_query E n q" "whole_query n (at_page q p) = whole_query n q"
  "delivers_pages E n (at_page q p) match seen = delivers_pages E n q match seen"
  "accepts_pages E n (at_page q p) = accepts_pages E n q"
proof -
  have "root_condition (at_page q p) = root_condition q" by (simp add: root_condition_def)
  then show "whole_query n (at_page q p) = whole_query n q" by (simp add: whole_query_def)
  then show "paged_query E n (at_page q p) = paged_query E n q" by (simp add: paged_query_def)
  show "delivers_pages E n (at_page q p) match seen = delivers_pages E n q match seen"
    "accepts_pages E n (at_page q p) = accepts_pages E n q"
    by (simp_all add: delivers_pages_def accepts_pages_def keys_text_at_page)
qed

lemma page_slice:
  assumes "0 < sint (Limit q)" "int p * sint (Limit q) < 2 ^ 31"
  shows "pageKeys cq (Page (at_page q p)) (Limit (at_page q p)) =
    Inr (take (nat (sint (Limit q))) (drop (p * nat (sint (Limit q))) (recKeys cq)))"
proof -
  have "int p * 1 \<le> int p * sint (Limit q)" using assms(1) by (intro mult_left_mono) simp_all
  with assms(2) have "int p < 2 ^ 31" by simp
  then have sp: "sint (word_of_nat p :: int32) = int p"
    by (simp add: signed_of_nat signed_take_bit_int_eq_self_iff)
  have "nat (int p * sint (Limit q)) = p * nat (sint (Limit q))" using assms(1) by (simp add: nat_mult_distrib)
  with pageKeys_slice [of "Limit q" "word_of_nat p" cq] assms sp show ?thesis by simp
qed

definition has_entry :: "iquery \<Rightarrow> string list \<Rightarrow> 'd pg \<Rightarrow> bool" where
  "has_entry q keys s \<longleftrightarrow> (\<exists>cq. fst (index_lookup (page_key q) (pgIndex s)) = Some cq \<and> recKeys cq = keys)"

lemma has_entry_touch:
  "has_entry q keys s \<Longrightarrow> has_entry q keys (s\<lparr>pgIndex := index_touch now (page_key q) (pgIndex s)\<rparr>)"
  by (auto simp: has_entry_def index_lookup_def index_touch_def touch_def update_conv' split: option.splits if_splits)

lemma has_entry_store:
  "has_entry q keys (s\<lparr>pgIndex := index_store (page_key q) (new_entry keys md (indexStamp (pgIndex s))) (pgIndex s)\<rparr>)"
  by (simp add: has_entry_def index_lookup_def index_store_def new_entry_def update_conv')

text \<open>What reading leaves as it is.\<close>

definition same_data :: "('d \<Rightarrow> 's) \<Rightarrow> 'd pg \<Rightarrow> 'd pg \<Rightarrow> bool" where
  "same_data kept s s' \<longleftrightarrow> kept (dbState s') = kept (dbState s) \<and> verifyed s' = verifyed s"

lemma readByRecKeys_state:
  assumes "transactional (dbase E) kept seen effect"
  shows "same_data kept s (snd (readByRecKeys E q keys md s))" "pgIndex (snd (readByRecKeys E q keys md s)) = pgIndex s"
proof -
  show "pgIndex (snd (readByRecKeys E q keys md s)) = pgIndex s"
    by (simp add: readByRecKeys_def abind_def ret_def on_db_def split: prod.split sum.split)
  have "kept (snd (bracket (dbase E) False (reading f) (dbState s))) = kept (dbState s)" for f :: "'a \<Rightarrow> query_result res"
    by (rule reading_keeps [OF assms])
  then show "same_data kept s (snd (readByRecKeys E q keys md s))"
    by (simp add: same_data_def readByRecKeys_def abind_def ret_def on_db_def case_prod_beta split: sum.split)
qed

lemma readRecKeys_state:
  assumes S: "store_ok E n kept seen effect" "whole_query n q" and s: "tables_ready E n s"
  shows "same_data kept s (snd (readRecKeys E q s))" "pgIndex (snd (readRecKeys E q s)) = pgIndex s"
proof -
  have E: "orders_ok E" "sql_types E n" "transactional (dbase E) kept seen effect"
    using S(1) by (simp_all add: store_ok_def)
  obtain k where k: "nodeByTypeName E (TypeName n) = Some k"
    using sql_types_node [OF E(2) nodes_of_self] by metis
  have "verifyTables E k s = (Inr (), s)"
    using s k by (intro verifyTables_done E(1)) (simp add: tables_ready_def)
  moreover have "RootType q = n" using S(2) by (simp add: whole_query_def)
  ultimately have run: "readRecKeys E q s = on_db (bracket (dbase E) False (reading (rec_keys_body E q k))) s"
    using k by (simp add: readRecKeys_def abind_def)
  have "kept (snd (bracket (dbase E) False (reading (rec_keys_body E q k)) (dbState s))) = kept (dbState s)"
    by (rule reading_keeps [OF E(3)])
  then show "same_data kept s (snd (readRecKeys E q s))" "pgIndex (snd (readRecKeys E q s)) = pgIndex s"
    by (simp_all add: run same_data_def on_db_def case_prod_beta)
qed

section \<open>A page of a query\<close>

text \<open>The record keys of a query on tables \<open>M\<close> that hold \<open>ys\<close>.\<close>

definition query_keys ::
    "('d, 'x) pg_env_scheme \<Rightarrow> l8node \<Rightarrow> iquery \<Rightarrow> ((string \<Rightarrow> drv) \<Rightarrow> bool) \<Rightarrow> ('d \<Rightarrow> tables) \<Rightarrow> tables \<Rightarrow> gval list \<Rightarrow> string list \<Rightarrow> bool" where
  "query_keys E n q match seen M ys keys \<longleftrightarrow>
     listed E n q seen M keys \<and> distinct keys \<and> set keys = root_rec E n ` set (selected E n match M ys)"

lemma query_keys_known: "query_keys E n q match seen M ys keys \<Longrightarrow> known_keys E n ys (take l (drop k keys))"
  unfolding query_keys_def known_keys_def selected_def
  by (auto dest!: in_set_takeD in_set_dropD)

text \<open>A page read with no entry in the index caches the keys; with an entry it takes them from there.\<close>

lemma Read_page:
  assumes S: "store_ok E n kept seen effect" "delivers_pages E n q match seen" "paged_query E n q" "fold_apart n"
      "elements_ok E" "collectTsAttrs n = []"
    and ys: "roots_ok E n ys" "db_holds E n ys (kept (dbState s))" "\<forall>y \<in> set ys. valid_utf8 (root_rec E n y)"
    and s: "tables_ready E n s" "int p * sint (Limit q) < 2 ^ 31"
  defines "L \<equiv> nat (sint (Limit q))"
  defines "page keys r \<equiv> \<exists>md. page_result E n ys (take L (drop (p * L) keys)) md r"
  shows Read_page_miss: "fst (index_lookup (page_key q) (pgIndex s)) = None \<Longrightarrow>
      \<exists>r s'. Read E now (at_page q p) s = (r, s') \<and> same_data kept s s' \<and>
        yields (accepts_pages E n q) (\<lambda>r. \<exists>keys. query_keys E n q match seen (kept (dbState s)) ys keys \<and> page keys r \<and> has_entry q keys s') r"
    and Read_page_hit: "has_entry q keys s \<Longrightarrow> query_keys E n q match seen (kept (dbState s)) ys keys \<Longrightarrow>
      \<exists>r s'. Read E now (at_page q p) s = (r, s') \<and> same_data kept s s' \<and> has_entry q keys s' \<and>
        yields (accepts_pages E n q) (page keys) r"
proof -
  have q: "\<not> IsAggregate q" "0 < sint (Limit q)" "whole_query n q" "security E = None \<or> AAAId q = []"
    using S(3) by (simp_all add: paged_query_def)
  have t: "transactional (dbase E) kept seen effect" using S(1) by (simp add: store_ok_def)
  have slice: "pageKeys cq (word_of_nat p) (Limit q) = Inr (take L (drop (p * L) (recKeys cq)))" for cq
    using page_slice [OF q(2) s(2), of cq] by (simp add: L_def)
  have run: "yields (accepts_pages E n q) (page_result E n ys keys md) (fst (readByRecKeys E (at_page q p) keys md s'))"
    if "known_keys E n ys keys" "same_data kept s s'" for keys md s'
    using readByRecKeys_yields [of E n kept seen effect "at_page q p" match ys s' keys md] S q(3) ys that
    by (simp add: same_data_def)
  show "\<exists>r s'. Read E now (at_page q p) s = (r, s') \<and> same_data kept s s' \<and> has_entry q keys s' \<and>
        yields (accepts_pages E n q) (page keys) r"
    if h: "has_entry q keys s" and k: "query_keys E n q match seen (kept (dbState s)) ys keys" for keys
  proof -
    obtain cq st where cq: "index_lookup (page_key q) (pgIndex s) = (Some cq, st)" "recKeys cq = keys"
      using h by (cases "index_lookup (page_key q) (pgIndex s)") (auto simp: has_entry_def)
    let ?s = "s\<lparr>pgIndex := index_touch now (page_key q) (pgIndex s)\<rparr>" and ?keys = "take L (drop (p * L) keys)"
    have s': "same_data kept s ?s" "has_entry q keys ?s" using has_entry_touch [OF h] by (simp_all add: same_data_def)
    obtain r s1 where r: "readByRecKeys E (at_page q p) ?keys (cmetadata cq) ?s = (r, s1)" by fastforce
    have "Read E now (at_page q p) s = (r, s1)"
      using q(1,2) cq slice [of cq] r by (simp add: Read_def readWithIndex_def abind_def ret_def)
    moreover have "same_data kept s s1" "has_entry q keys s1"
      using readByRecKeys_state [OF t, where s = ?s and q = "at_page q p" and keys = ?keys and md = "cmetadata cq"] r s' by (simp_all add: same_data_def has_entry_def)
    moreover have "yields (accepts_pages E n q) (page keys) r"
      using run [OF query_keys_known [OF k] s'(1), of L "p * L" "cmetadata cq"] r
      by (auto simp: page_def elim!: yields_mono)
    ultimately show ?thesis by blast
  qed
  show "\<exists>r s'. Read E now (at_page q p) s = (r, s') \<and> same_data kept s s' \<and>
        yields (accepts_pages E n q) (\<lambda>r. \<exists>keys. query_keys E n q match seen (kept (dbState s)) ys keys \<and> page keys r \<and> has_entry q keys s') r"
    if miss: "fst (index_lookup (page_key q) (pgIndex s)) = None"
  proof -
    have look: "index_lookup (page_key q) (pgIndex s) = (None, indexStamp (pgIndex s))"
      using miss by (auto simp: index_lookup_def split: option.splits if_splits)
    obtain r0 s0 where r0: "readRecKeys E (at_page q p) s = (r0, s0)" by fastforce
    have s0: "same_data kept s s0" "pgIndex s0 = pgIndex s"
      using readRecKeys_state [OF S(1) _ s(1), of "at_page q p"] q(3) r0 by simp_all
    have listed: "listed E n (at_page q p) seen M = listed E n q seen M" for M
      by (simp add: fun_eq_iff listed_def keys_text_at_page)
    have y0: "yields (accepts_pages E n q) (\<lambda>(keys, md). query_keys E n q match seen (kept (dbState s)) ys keys) r0"
      using readRecKeys_yields [of E n kept seen effect "at_page q p" match s ys] S(1,2) q(3) s(1) ys(2) r0
      by (simp add: query_keys_def listed)
    show ?thesis
    proof (cases r0)
      case (Inl e)
      then have "Read E now (at_page q p) s = (Inl e, s0)"
        using q(1,2) look r0 by (simp add: Read_def readWithIndex_def abind_def)
      with y0 s0 Inl show ?thesis by (cases e) auto
    next
      case (Inr x)
      obtain keys md where x: "x = (keys, md)" by (cases x)
      have k: "query_keys E n q match seen (kept (dbState s)) ys keys" using y0 Inr x by simp
      let ?keys = "take L (drop (p * L) keys)" and ?entry = "new_entry keys md (indexStamp (pgIndex s))"
      let ?s = "s0\<lparr>pgIndex := index_store (page_key q) ?entry (pgIndex s0)\<rparr>"
      have sec: "apply_security E (at_page q p) keys md = ret (Inr (keys, md))"
        using q(4) by (auto simp: apply_security_def split: option.split)
      have s': "same_data kept s ?s" "has_entry q keys ?s"
        using s0 has_entry_store [where s = s0 and q = q and keys = keys and md = md] by (simp_all add: same_data_def)
      obtain r s1 where r: "readByRecKeys E (at_page q p) ?keys md ?s = (r, s1)" by fastforce
      have "Read E now (at_page q p) s = (r, s1)"
        using q(1,2) look r0 Inr x sec slice [of ?entry] r
        by (simp add: Read_def readWithIndex_def abind_def ret_def new_entry_def)
      moreover have "same_data kept s s1" "has_entry q keys s1"
        using readByRecKeys_state [OF t, where s = ?s and q = "at_page q p" and keys = ?keys and md = md] r s'
        by (simp_all add: same_data_def has_entry_def)
      moreover have "yields (accepts_pages E n q) (\<lambda>r. \<exists>keys. query_keys E n q match seen (kept (dbState s)) ys keys \<and>
          page keys r \<and> has_entry q keys s1) r"
        using run [OF query_keys_known [OF k] s'(1), of L "p * L" md] r k calculation(3)
        by (auto simp: page_def elim!: yields_mono)
      ultimately show ?thesis by blast
    qed
  qed
qed

section \<open>All pages\<close>

text \<open>A client that asks for page after page.\<close>

fun read_pages ::
    "('d, 'x) pg_env_scheme \<Rightarrow> (nat \<Rightarrow> int) \<Rightarrow> iquery \<Rightarrow> nat list \<Rightarrow> (query_result list, 'd pg) act" where
  "read_pages E now q [] = ret (Inr [])"
| "read_pages E now q (p # ps) =
     abind (Read E (now p) (at_page q p)) (\<lambda>r. abind (read_pages E now q ps) (\<lambda>rs. ret (Inr (r # rs))))"

definition page_results ::
    "'a env_scheme \<Rightarrow> l8node \<Rightarrow> gval list \<Rightarrow> nat \<Rightarrow> string list \<Rightarrow> nat list \<Rightarrow> query_result list \<Rightarrow> bool" where
  "page_results E n ys L keys ps rs \<longleftrightarrow>
     list_all2 (\<lambda>p r. \<exists>md. page_result E n ys (take L (drop (p * L) keys)) md r) ps rs"

lemma read_pages_hit:
  assumes S: "store_ok E n kept seen effect" "delivers_pages E n q match seen" "paged_query E n q" "fold_apart n"
      "elements_ok E" "collectTsAttrs n = []"
    and ys: "roots_ok E n ys" "\<forall>y \<in> set ys. valid_utf8 (root_rec E n y)"
    and keys: "query_keys E n q match seen M ys keys"
  shows "\<forall>p \<in> set ps. int p * sint (Limit q) < 2 ^ 31 \<Longrightarrow> tables_ready E n s \<Longrightarrow> db_holds E n ys (kept (dbState s)) \<Longrightarrow>
    kept (dbState s) = M \<Longrightarrow> has_entry q keys s \<Longrightarrow>
    \<exists>r s'. read_pages E now q ps s = (r, s') \<and> same_data kept s s' \<and>
      yields (accepts_pages E n q) (page_results E n ys (nat (sint (Limit q))) keys ps) r"
proof (induction ps arbitrary: s)
  case Nil
  then show ?case by (simp add: ret_def same_data_def page_results_def)
next
  case (Cons p ps)
  have p: "int p * sint (Limit q) < 2 ^ 31" using Cons.prems(1) by simp
  obtain r s1 where r: "Read E (now p) (at_page q p) s = (r, s1)" "same_data kept s s1" "has_entry q keys s1"
    "yields (accepts_pages E n q) (\<lambda>r. \<exists>md. page_result E n ys (take (nat (sint (Limit q))) (drop (p * nat (sint (Limit q))) keys)) md r) r"
    using Read_page_hit [OF S ys(1) Cons.prems(3) ys(2) Cons.prems(2) p Cons.prems(5), of "now p"] keys Cons.prems(4) by blast
  show ?case
  proof (cases r)
    case (Inl e)
    with r show ?thesis by (cases e) (auto simp: abind_def)
  next
    case (Inr x)
    have s1: "tables_ready E n s1" "kept (dbState s1) = M"
      using r(2) Cons.prems(2,4) by (simp_all add: same_data_def tables_ready_cong [of s1 s])
    then obtain rs s2 where rs: "read_pages E now q ps s1 = (rs, s2)" "same_data kept s1 s2"
      "yields (accepts_pages E n q) (page_results E n ys (nat (sint (Limit q))) keys ps) rs"
      using Cons.IH [of s1] Cons.prems(1,3,4) r(3) by auto
    have d: "same_data kept s s2" using r(2) rs(2) by (simp add: same_data_def)
    show ?thesis
    proof (cases rs)
      case (Inl e)
      with r(1) Inr rs d show ?thesis by (cases e) (auto simp: abind_def)
    next
      case (Inr y)
      with r(1,4) \<open>r = Inr x\<close> rs d show ?thesis by (auto simp: abind_def ret_def page_results_def)
    qed
  qed
qed

lemma read_pages_miss:
  assumes S: "store_ok E n kept seen effect" "delivers_pages E n q match seen" "paged_query E n q" "fold_apart n"
      "elements_ok E" "collectTsAttrs n = []"
    and ys: "roots_ok E n ys" "db_holds E n ys (kept (dbState s))" "\<forall>y \<in> set ys. valid_utf8 (root_rec E n y)"
    and s: "tables_ready E n s" "\<forall>p \<in> set (p # ps). int p * sint (Limit q) < 2 ^ 31"
      "fst (index_lookup (page_key q) (pgIndex s)) = None"
  shows "\<exists>r s'. read_pages E now q (p # ps) s = (r, s') \<and> same_data kept s s' \<and>
    yields (accepts_pages E n q) (\<lambda>rs. \<exists>keys. query_keys E n q match seen (kept (dbState s)) ys keys \<and>
      page_results E n ys (nat (sint (Limit q))) keys (p # ps) rs) r"
proof -
  let ?L = "nat (sint (Limit q))" and ?M = "kept (dbState s)"
  have p: "int p * sint (Limit q) < 2 ^ 31" using s(2) by simp
  obtain r s1 where r: "Read E (now p) (at_page q p) s = (r, s1)" "same_data kept s s1"
    "yields (accepts_pages E n q) (\<lambda>r. \<exists>keys. query_keys E n q match seen ?M ys keys \<and>
       (\<exists>md. page_result E n ys (take ?L (drop (p * ?L) keys)) md r) \<and> has_entry q keys s1) r"
    using Read_page_miss [OF S ys s(1) p s(3), of "now p"] by blast
  show ?thesis
  proof (cases r)
    case (Inl e)
    with r show ?thesis by (cases e) (auto simp: abind_def)
  next
    case (Inr x)
    obtain keys md where x: "query_keys E n q match seen ?M ys keys" "page_result E n ys (take ?L (drop (p * ?L) keys)) md x"
      "has_entry q keys s1" using r(3) Inr by auto
    have s1: "tables_ready E n s1" "kept (dbState s1) = ?M"
      using r(2) s(1) by (simp_all add: same_data_def tables_ready_cong [of s1 s])
    then obtain rs s2 where rs: "read_pages E now q ps s1 = (rs, s2)" "same_data kept s1 s2"
      "yields (accepts_pages E n q) (page_results E n ys ?L keys ps) rs"
      using read_pages_hit [OF S ys(1,3) x(1), of ps s1 now] s(2) ys(2) x(3) by auto
    have d: "same_data kept s s2" using r(2) rs(2) by (simp add: same_data_def)
    show ?thesis
    proof (cases rs)
      case (Inl e)
      with r(1) Inr rs d show ?thesis by (cases e) (auto simp: abind_def)
    next
      case (Inr y)
      have "page_results E n ys ?L keys (p # ps) (x # y)" using x(2) rs(3) Inr by (auto simp: page_results_def)
      with r(1) \<open>r = Inr x\<close> Inr rs(1) d x(1) show ?thesis by (auto simp: abind_def ret_def)
    qed
  qed
qed

text \<open>Put together, the pages are the objects of the keys, in the order of the keys.\<close>

lemma pages_together:
  assumes "page_results E n ys L keys ps rs"
  shows "\<exists>xs os. concat (map fst rs) = map Some os \<and> list_all2 (sim n) xs os \<and> set xs \<subseteq> set ys \<and>
    map (root_rec E n) xs = concat (map (\<lambda>p. take L (drop (p * L) keys)) ps) \<and> (\<forall>r \<in> set rs. length (fst r) \<le> L)"
  using assms unfolding page_results_def
proof (induction rule: list_all2_induct)
  case (Cons p ps r rs)
  from Cons.hyps(1) obtain ys' zs where r: "fst r = map Some zs" "map (root_rec E n) ys' = take L (drop (p * L) keys)"
    "set ys' \<subseteq> set ys" "list_all2 (sim n) ys' zs" unfolding page_result_def by auto
  from Cons.IH obtain xs os where rs: "concat (map fst rs) = map Some os" "list_all2 (sim n) xs os" "set xs \<subseteq> set ys"
    "map (root_rec E n) xs = concat (map (\<lambda>p. take L (drop (p * L) keys)) ps)" "\<forall>r \<in> set rs. length (fst r) \<le> L" by blast
  have "length zs = length (take L (drop (p * L) keys))" using r(2,4) by (metis length_map list_all2_lengthD)
  then have "length (fst r) \<le> L" by (simp add: r(1))
  then show ?case
    using r rs by (intro exI [of _ "ys' @ xs"] exI [of _ "zs @ os"]) (simp add: list_all2_appendI)
qed simp

lemma keys_objects:
  assumes "keys_ok E n ys" "set xs \<subseteq> set ys" "distinct (map (root_rec E n) xs)"
    "root_rec E n ` set xs = root_rec E n ` set (selected E n match M ys)"
  shows "mset xs = mset (selected E n match M ys)"
proof -
  let ?sel = "selected E n match M ys"
  have inj: "inj_on (root_rec E n) (set ys)"
    using same_root [OF assms(1)] by (metis inj_onI prefix_order.refl)
  have sub: "set ?sel \<subseteq> set ys" by (auto simp: selected_def)
  have "set xs = set ?sel" using inj_on_image_eq_iff [OF inj assms(2) sub] assms(4) by blast
  moreover have "distinct xs" using assms(3) by (simp add: distinct_map)
  moreover have "distinct ys" using assms(1) by (auto simp: keys_ok_def distinct_map)
  then have "distinct ?sel" by (simp add: selected_def)
  ultimately show ?thesis by (simp add: set_eq_iff_mset_eq_distinct)
qed

text \<open>
  C3. Paging through the objects of a query.  The database holds root objects of a type, and
  a client asks for the pages 0 to m - 1 of a query for whole objects that the index has
  no entry of; commits of the database succeed, the record keys are UTF-8, no time series field is
  in the type and no security filter applies.  No page panics, and nothing changes in the tables.  If no page reports an error,
  no page has more objects than the limit, and the pages put together are exactly
  the objects whose rows the condition is true of, each once, with all of their parts, when
  m pages are enough for all objects; and they are in the order in which the database delivers
  the record keys of the query with its ORDER BY.  The pages succeed when the database accepts
  the statements.  They are as long and as many as their 32-bit positions allow.
\<close>

theorem paging_reads_all:
  assumes "store_ok E n kept seen effect" "delivers_pages E n q match seen" "paged_query E n q" "fold_apart n"
      "elements_ok E" "collectTsAttrs n = []"
    and "roots_ok E n ys" "db_holds E n ys (kept (dbState s))" "\<forall>y \<in> set ys. valid_utf8 (root_rec E n y)"
    and "tables_ready E n s" "fst (index_lookup (page_key q) (pgIndex s)) = None"
    and "length ys \<le> m * nat (sint (Limit q))" "int m * sint (Limit q) \<le> 2 ^ 31"
  shows "\<exists>r s'. read_pages E now q [0..<m] s = (r, s') \<and> kept (dbState s') = kept (dbState s) \<and>
     ((\<exists>pages xs os. r = Inr pages \<and> (\<forall>page \<in> set pages. int (length (fst page)) \<le> sint (Limit q)) \<and>
         concat (map fst pages) = map Some os \<and> list_all2 (sim n) xs os \<and>
         mset xs = mset (filter (\<lambda>y. match (the (kept (dbState s) (TypeName n) ([], root_rec E n y)))) ys) \<and>
         listed E n q seen (kept (dbState s)) (map (root_rec E n) xs)) \<or>
      (\<exists>e. r = Inl (Err e)) \<and> \<not> accepts_pages E n q)"
proof -
  let ?L = "nat (sint (Limit q))" and ?M = "kept (dbState s)"
  have L: "0 < sint (Limit q)" using assms(3) by (simp add: paged_query_def)
  have "ys \<noteq> []" using assms(7) by (simp add: roots_ok_def)
  with assms(12) obtain k where m: "m = Suc k" by (cases m) auto
  then have ps: "[0..<m] = 0 # [1..<m]" by (simp add: upt_conv_Cons)
  have fits: "\<forall>p \<in> set (0 # [1..<m]). int p * sint (Limit q) < 2 ^ 31"
  proof
    fix p assume "p \<in> set (0 # [1..<m])"
    then have "int p < int m" using m by auto
    then have "int p * sint (Limit q) < int m * sint (Limit q)" using L by simp
    with assms(13) show "int p * sint (Limit q) < 2 ^ 31" by simp
  qed
  obtain r s' where r: "read_pages E now q [0..<m] s = (r, s')" "same_data kept s s'"
    "yields (accepts_pages E n q) (\<lambda>rs. \<exists>keys. query_keys E n q match seen ?M ys keys \<and>
      page_results E n ys ?L keys [0..<m] rs) r"
    using read_pages_miss [OF assms(1-10) fits assms(11), of now] unfolding ps by blast
  have same: "kept (dbState s') = ?M" using r(2) by (simp add: same_data_def)
  show ?thesis
  proof (cases r)
    case (Inl e)
    with r(1,3) same show ?thesis by (cases e) auto
  next
    case (Inr rs)
    then obtain keys where k: "query_keys E n q match seen ?M ys keys" "page_results E n ys ?L keys [0..<m] rs"
      using r(3) by auto
    obtain xs os where x: "concat (map fst rs) = map Some os" "list_all2 (sim n) xs os" "set xs \<subseteq> set ys"
      "map (root_rec E n) xs = concat (map (\<lambda>p. take ?L (drop (p * ?L) keys)) [0..<m])" "\<forall>r \<in> set rs. length (fst r) \<le> ?L"
      using pages_together [OF k(2)] by blast
    have keys: "distinct keys" "set keys = root_rec E n ` set (selected E n match ?M ys)" "listed E n q seen ?M keys"
      using k(1) by (simp_all add: query_keys_def)
    have ok: "keys_ok E n ys" using roots_keys_ok [OF assms(7)] .
    have "length keys = card (root_rec E n ` set (selected E n match ?M ys))"
      using distinct_card [OF keys(1)] keys(2) by simp
    also have "\<dots> \<le> card (set ys)"
      by (rule order_trans [OF card_image_le card_mono]) (auto simp: selected_def)
    also have "\<dots> \<le> length ys" by (rule card_length)
    finally have "map (root_rec E n) xs = keys"
      using x(4) concat_pages [of ?L keys m] L assms(12) by simp
    moreover from this have "mset xs = mset (selected E n match ?M ys)"
      using keys_objects [OF ok x(3), of match ?M] keys(1,2) by (metis list.set_map)
    moreover have "\<forall>page \<in> set rs. int (length (fst page)) \<le> sint (Limit q)" using x(5) L by (simp add: le_nat_iff)
    ultimately show ?thesis using r(1) same Inr x(1,2) keys(3) unfolding selected_def by blast
  qed
qed

theorem paging_reads_all_witness:
  "\<exists>s pages s' xs os. db_holds mem_pg demo_node mem_orders (tables_of (kept_rows (dbState s))) \<and>
     read_pages mem_pg (\<lambda>p. 1) paged_orders [0..<2] s = (Inr pages, s') \<and> (\<forall>page \<in> set pages. length (fst page) \<le> 1) \<and>
     concat (map fst pages) = map Some os \<and> list_all2 (sim demo_node) xs os \<and> mset xs = mset mem_orders"
proof -
  obtain s0 :: "mem_db pg" where s0: "db_holds mem_pg demo_node mem_orders (tables_of (kept_rows (dbState s0)))"
    "tables_ready mem_pg demo_node s0"
    using mem_written by blast
  define s where "s = s0\<lparr>pgIndex := new_index 0\<rparr>"
  have s: "db_holds mem_pg demo_node mem_orders (tables_of (kept_rows (dbState s)))" "tables_ready mem_pg demo_node s"
    "fst (index_lookup (page_key paged_orders) (pgIndex s)) = None"
    using s0 by (simp_all add: s_def tables_ready_def index_lookup_def new_index_def)
  have limit: "sint (Limit paged_orders) = 1" "\<not> IsAggregate paged_orders" "AAAId paged_orders = []"
    by (simp_all add: paged_orders_def all_orders_def demo_query_def)
  have q: "paged_query mem_pg demo_node paged_orders" "sint (Limit paged_orders) = 1"
    using mem_whole limit by (simp_all add: paged_query_def)
  have len: "length mem_orders \<le> 2 * nat (sint (Limit paged_orders))" "int 2 * sint (Limit paged_orders) \<le> 2 ^ 31"
    by (simp_all add: q(2) mem_orders_def)
  from paging_reads_all [OF mem_store mem_delivers_pages q(1) mem_free(1) mem_containers(2,3) mem_roots s(1) mem_utf8 s(2,3) len, of "\<lambda>p. 1"]
    mem_accepts_pages
  obtain pages s' xs os where "read_pages mem_pg (\<lambda>p. 1) paged_orders [0..<2] s = (Inr pages, s')"
    "\<forall>page \<in> set pages. int (length (fst page)) \<le> 1" "concat (map fst pages) = map Some os"
    "list_all2 (sim demo_node) xs os" "mset xs = mset mem_orders"
    unfolding q(2) by auto
  then show ?thesis using s(1) by auto
qed

end
