(* ===== verification/Convert_Typing.thy ===== *)
theory Convert_Typing
  imports Convert_Scalars
begin

text \<open>
  The types of what is read.  Nothing is assumed of the relational data or of the serialiser:
  the columns may hold any bytes, of any type, and rows may be missing, doubled or out of order.
\<close>

section \<open>Instances of a type\<close>

text \<open>A value with the fields of another one, each of the same type.\<close>

definition same_shape :: "gval \<Rightarrow> gval \<Rightarrow> bool" where
  "same_shape v0 v \<longleftrightarrow>
     (case (v0, v) of
        (GStruct tn0 zs, GStruct tn fs) \<Rightarrow>
          tn = tn0 \<and> map fst fs = map fst zs \<and> map (type_of \<circ> snd) fs = map (type_of \<circ> snd) zs
      | _ \<Rightarrow> v = v0)"

text \<open>The objects a field refers to, without nil pointers.\<close>

definition refers :: "gval \<Rightarrow> gval set" where
  "refers f =
     {x \<in> (case f of GPtr t y \<Rightarrow> {f} | GSlice t (Some xs) \<Rightarrow> set xs | GMap kt vt (Some m) \<Rightarrow> snd ` set m | _ \<Rightarrow> {}).
        \<not> nil_value x}"

text \<open>
  \<open>built E n y\<close>: \<open>y\<close> is an instance of the type of \<open>n\<close>, as the registry makes them, where at
  most the scalar, the sub-table and the time series fields were set, and sub-table fields to
  instances of their types.
\<close>

inductive built :: "'a env_scheme \<Rightarrow> l8node \<Rightarrow> gval \<Rightarrow> bool" for E where
  builtI: "newInstance E (TypeName n) = Inr (GPtr t (Some v0)) \<Longrightarrow> same_shape v0 v \<Longrightarrow>
     (\<And>a f. a \<notin> set (gkeys (Attributes n)) \<Longrightarrow> field_by_name a v = Inr (Some f) \<Longrightarrow>
        field_by_name a v0 = Inr (Some f)) \<Longrightarrow>
     (\<And>a m f. (a, m) \<in> set (Attributes n) \<Longrightarrow> sub_attr (a, m) \<Longrightarrow> field_by_name a v = Inr (Some f) \<Longrightarrow>
        field_by_name a v0 = Inr (Some f) \<or> (\<forall>x \<in> refers f. built E m x)) \<Longrightarrow>
     built E n (GPtr t (Some v))"

inductive_cases builtE: "built E n y"

section \<open>Setting fields\<close>

lemma same_shape_refl [simp]: "same_shape v v"
  by (simp add: same_shape_def split: gval.split)

lemma same_shape_trans: "same_shape u v \<Longrightarrow> same_shape v w \<Longrightarrow> same_shape u w"
  by (auto simp: same_shape_def split: gval.splits)

lemma types_set_assoc:
  "map_of fs n = Some y \<Longrightarrow> type_of x = type_of y \<Longrightarrow>
     map (type_of \<circ> snd) (set_assoc n x fs) = map (type_of \<circ> snd) fs"
  by (induction fs) (auto split: if_splits)

lemma set_field_shape:
  assumes "set_field n x v = Inr w"
  shows "same_shape v w" "field_by_name m w = (if m = n then Inr (Some x) else field_by_name m v)"
proof -
  from assms obtain tn fs y where v: "v = GStruct tn fs" "map_of fs n = Some y" "type_of x = type_of y"
    "w = GStruct tn (set_assoc n x fs)"
    by (auto simp: set_field_def split: gval.splits option.splits if_splits)
  then show "same_shape v w" by (simp add: same_shape_def types_set_assoc)
  from v show "field_by_name m w = (if m = n then Inr (Some x) else field_by_name m v)"
    by (simp add: map_of_set_assoc)
qed

text \<open>
  What a step of rebuilding may do to a struct: it keeps the shape and sets at most one field,
  to a value with the property \<open>P\<close>.
\<close>

definition sets_field :: "string \<Rightarrow> (gval \<Rightarrow> bool) \<Rightarrow> gval \<Rightarrow> gval \<Rightarrow> bool" where
  "sets_field a P v w \<longleftrightarrow> w = v \<or> (\<exists>x. set_field a x v = Inr w \<and> P x)"

lemma sets_fieldI: "set_field a x v = Inr w \<Longrightarrow> P x \<Longrightarrow> sets_field a P v w"
  by (auto simp: sets_field_def)

lemma sets_field_refl [simp]: "sets_field a P v v"
  by (simp add: sets_field_def)

lemma SetValueFromRow_sets:
  assumes "SetValueFromRow E i a row v = Inr w"
  shows "sets_field a (\<lambda>x. True) v w"
proof -
  have "w = v \<or> (\<exists>x. set_field a x v = Inr w)"
    using assms unfolding SetValueFromRow_def
    by (auto simp: rbind_eq_Inr split: option.splits if_splits)
  then show ?thesis by (auto simp: sets_field_def)
qed

lemma range_loop_first: "range_loop ord m = (k, x) # es \<Longrightarrow> (k, x) \<in> set m"
  by (rule range_loop_in [where ord = ord]) simp

text \<open>The objects of a result, and of a value that is stored into a field.\<close>

fun objects :: "cf_result \<Rightarrow> gval set" where
  "objects CNil = {}"
| "objects (COrdered xs) = set xs"
| "objects (CRows rows) = snd ` set rows"
| "objects (CVal v) = refers v"


lemma refers_nil [simp]: "nil_value x \<Longrightarrow> refers x = {}"
  by (cases x) (auto simp: refers_def nil_value_def split: option.splits)

lemma refers_pointer [simp]: "refers (GPtr t (Some x)) = {GPtr t (Some x)}"
  by (auto simp: refers_def nil_value_def)

lemma refers_built:
  assumes "\<not> nil_value x \<Longrightarrow> built E n x" "y \<in> refers x"
  shows "built E n y"
proof (cases "nil_value x")
  case False
  then have "built E n x" by (rule assms(1))
  moreover from this obtain t v where "x = GPtr t (Some v)" by (auto elim: builtE)
  ultimately show ?thesis using assms(2) by simp
qed (use assms(2) in simp)

lemma SetValueFromSubTable_sets:
  assumes "SetValueFromSubTable E a r v = Inr w" "\<forall>x \<in> objects r. built E m x"
  shows "sets_field a (\<lambda>x. \<forall>y \<in> refers x. built E m y) v w"
proof (cases r)
  case CNil
  with assms(1) show ?thesis by (simp add: SetValueFromSubTable_def)
next
  case (COrdered xs)
  with assms(1) show ?thesis by (simp add: SetValueFromSubTable_def)
next
  case (CRows rows)
  let ?loop = "range_loop (rng E (''SetValueFromSubTable'', a)) rows"
  obtain k x es where "?loop = (k, x) # es" and x: "set_field a x v = Inr w"
    using assms(1) by (cases ?loop) (auto simp: CRows SetValueFromSubTable_def rbind_eq_Inr split: if_splits)
  then have "(k, x) \<in> set rows" by (intro range_loop_first)
  then have "built E m x" using assms(2) by (force simp: CRows)
  then show ?thesis by (intro sets_fieldI [OF x] ballI) (rule refers_built)
next
  case (CVal x)
  have whole: "\<forall>y \<in> refers x. built E m y" using assms(2) by (simp add: CVal)
  have "set_field a x v = Inr w \<or> (\<exists>kt vt es k y. x = GMap kt vt (Some es) \<and> (k, y) \<in> set es \<and> set_field a y v = Inr w)"
  proof (cases "\<exists>kt vt es. x = GMap kt vt es")
    case True
    then obtain kt vt m where x: "x = GMap kt vt m" by blast
    let ?loop = "range_loop (krng E (''SetValueFromSubTable'', a)) (case m of None \<Rightarrow> [] | Some es \<Rightarrow> es)"
    from assms(1) obtain f where f: "(if kind_of f \<noteq> KMap then
          (case ?loop of [] \<Rightarrow> Inl (Panic ''index out of range'') | (k, y) # _ \<Rightarrow> set_field a y v)
        else set_field a x v) = Inr w"
      unfolding CVal x SetValueFromSubTable_def cf_result.case gval.case rbind_eq_Inr by blast
    show ?thesis
    proof (cases "kind_of f \<noteq> KMap")
      case False
      with f show ?thesis by simp
    next
      case kind: True
      with f obtain k y rest where y: "?loop = (k, y) # rest" "set_field a y v = Inr w"
        by (cases ?loop) auto
      from y(1) have "(k, y) \<in> set (case m of None \<Rightarrow> [] | Some es \<Rightarrow> es)" by (rule range_loop_first)
      with y(2) x show ?thesis by (cases m) auto
    qed
  next
    case False
    with assms(1) show ?thesis
      by (cases x) (simp_all add: CVal SetValueFromSubTable_def rbind_eq_Inr)
  qed
  then show ?thesis
  proof (elim disjE exE conjE)
    assume "set_field a x v = Inr w"
    with whole show ?thesis by (rule sets_fieldI [rotated])
  next
    fix kt vt es k y assume y: "x = GMap kt vt (Some es)" "(k, y) \<in> set es" "set_field a y v = Inr w"
    have "built E m y" if "\<not> nil_value y" using y(1,2) whole that by (force simp: refers_def)
    then show ?thesis by (intro sets_fieldI [OF y(3)] ballI) (rule refers_built)
  qed
qed

section \<open>Slices and maps from rows\<close>

lemma convertRowsToSlice_objects:
  assumes "convertRowsToSlice E rows m = Inr v" "\<forall>(k, x) \<in> set rows. P x"
  shows "\<forall>x \<in> refers v. P x"
proof -
  obtain t slice where v: "v = GSlice (TPtr t) (Some slice)" and
    run: "mfold (\<lambda>slice (key, value). rbind (GetSliceIndex key) (\<lambda>index.
              if 0 \<le> index \<and> index < int (length slice) then
                (if type_of value = TPtr t then Inr (slice[nat index := value])
                 else Inl (Panic ''reflect.Set: value is not assignable''))
              else Inl (Panic ''reflect: slice index out of range'')))
      (replicate (length rows) (GPtr t None))
      (range_loop (rng E (''convertRowsToSlice'', FieldName m)) rows) = Inr slice"
    using assms(1) unfolding convertRowsToSlice_def by (auto simp only: rbind_eq_Inr sum.inject)
  have "\<forall>x \<in> set slice. nil_value x \<or> P x"
  proof (rule mfold_invariant [OF run, where P = "\<lambda>slice. \<forall>x \<in> set slice. nil_value x \<or> P x"])
    show "\<forall>x \<in> set (replicate (length rows) (GPtr t None)). nil_value x \<or> P x" by (simp add: nil_value_def)
    fix s p s'
    assume s: "\<forall>x \<in> set s. nil_value x \<or> P x"
      and p: "p \<in> set (range_loop (rng E (''convertRowsToSlice'', FieldName m)) rows)"
      and step: "(case p of (key, value) \<Rightarrow> rbind (GetSliceIndex key) (\<lambda>index.
              if 0 \<le> index \<and> index < int (length s) then
                (if type_of value = TPtr t then Inr (s[nat index := value])
                 else Inl (Panic ''reflect.Set: value is not assignable''))
              else Inl (Panic ''reflect: slice index out of range''))) = Inr s'"
    obtain k x where kx: "p = (k, x)" by (cases p)
    then have "P x" using range_loop_in [of k x] p assms(2) by blast
    moreover obtain i where "s' = s[i := x]"
      using step unfolding kx by (auto simp: rbind_eq_Inr split: if_splits)
    ultimately show "\<forall>y \<in> set s'. nil_value y \<or> P y"
      using s set_update_subset_insert [of s i x] by auto
  qed
  then show ?thesis by (auto simp: v refers_def)
qed

lemma convertRowsToMap_objects:
  assumes "convertRowsToMap E rows m = Inr v" "\<forall>(k, x) \<in> set rows. P x"
  shows "\<forall>x \<in> refers v. P x"
proof -
  obtain t kt es where v: "v = GMap kt (TPtr t) (Some es)" and
    run: "mfold (\<lambda>newMap (key, value). rbind (GetMapIndex E key) (\<lambda>index.
              if type_of index = kt \<and> type_of value = TPtr t
              then Inr (AList.update index value newMap)
              else Inl (Panic ''reflect.SetMapIndex: value is not assignable'')))
      [] (range_loop (rng E (''convertRowsToMap'', FieldName m)) rows) = Inr es"
    using assms(1) unfolding convertRowsToMap_def by (auto simp only: rbind_eq_Inr sum.inject)
  have "\<forall>e \<in> set es. P (snd e)"
  proof (rule mfold_invariant [OF run, where P = "\<lambda>es. \<forall>e \<in> set es. P (snd e)"])
    fix s p s'
    assume s: "\<forall>e \<in> set s. P (snd e)"
      and p: "p \<in> set (range_loop (rng E (''convertRowsToMap'', FieldName m)) rows)"
      and step: "(case p of (key, value) \<Rightarrow> rbind (GetMapIndex E key) (\<lambda>index.
              if type_of index = kt \<and> type_of value = TPtr t
              then Inr (AList.update index value s)
              else Inl (Panic ''reflect.SetMapIndex: value is not assignable''))) = Inr s'"
    obtain k x where kx: "p = (k, x)" by (cases p)
    then have "P x" using range_loop_in [of k x] p assms(2) by blast
    moreover obtain i where "s' = AList.update i x s"
      using step unfolding kx by (auto simp: rbind_eq_Inr split: if_splits)
    ultimately show "\<forall>e \<in> set s'. P (snd e)"
      using s by (auto dest!: in_AList_update)
  qed simp
  then show ?thesis by (auto simp: v refers_def)
qed

section \<open>Rebuilding one row\<close>

text \<open>The premises of \<open>built\<close>, as an invariant of the loops over the attributes.\<close>

definition partly :: "'a env_scheme \<Rightarrow> l8node \<Rightarrow> gval \<Rightarrow> gval \<Rightarrow> bool" where
  "partly E n v0 v \<longleftrightarrow> same_shape v0 v \<and>
     (\<forall>a f. a \<notin> set (gkeys (Attributes n)) \<longrightarrow> field_by_name a v = Inr (Some f) \<longrightarrow> field_by_name a v0 = Inr (Some f)) \<and>
     (\<forall>a m f. (a, m) \<in> set (Attributes n) \<longrightarrow> sub_attr (a, m) \<longrightarrow> field_by_name a v = Inr (Some f) \<longrightarrow>
        field_by_name a v0 = Inr (Some f) \<or> (\<forall>x \<in> refers f. built E m x))"

lemma partly_refl: "partly E n v v"
  by (simp add: partly_def)

lemma built_partly:
  "built E n y \<longleftrightarrow> (\<exists>t v0 v. y = GPtr t (Some v) \<and> newInstance E (TypeName n) = Inr (GPtr t (Some v0)) \<and> partly E n v0 v)"
proof
  show "\<exists>t v0 v. y = GPtr t (Some v) \<and> newInstance E (TypeName n) = Inr (GPtr t (Some v0)) \<and> partly E n v0 v" if "built E n y"
    using that by cases (simp add: partly_def)
next
  assume "\<exists>t v0 v. y = GPtr t (Some v) \<and> newInstance E (TypeName n) = Inr (GPtr t (Some v0)) \<and> partly E n v0 v"
  then obtain t v0 v where y: "y = GPtr t (Some v)" and new: "newInstance E (TypeName n) = Inr (GPtr t (Some v0))"
    and v: "partly E n v0 v" by blast
  from v show "built E n y" unfolding y partly_def by (intro builtI [OF new]) simp_all
qed

lemma partly_sets:
  assumes v: "partly E n v0 v" "sets_field a P v w" "(a, m) \<in> set (Attributes n)" "distinct (gkeys (Attributes n))"
    and P: "\<And>x. sub_attr (a, m) \<Longrightarrow> P x \<Longrightarrow> \<forall>y \<in> refers x. built E m y"
  shows "partly E n v0 w"
proof (cases "w = v")
  case False
  with v(2) obtain x where x: "set_field a x v = Inr w" "P x" by (auto simp: sets_field_def)
  note field = set_field_shape(2) [OF x(1)]
  have m: "k = m" if "(a, k) \<in> set (Attributes n)" for k
    using v(3,4) that by (auto simp: gkeys_def dest: eq_key_imp_eq_value)
  have "same_shape v0 w"
    using v(1) set_field_shape(1) [OF x(1)] by (auto simp: partly_def intro: same_shape_trans)
  moreover have "field_by_name b v0 = Inr (Some f)"
    if "b \<notin> set (gkeys (Attributes n))" "field_by_name b w = Inr (Some f)" for b f
  proof -
    have "b \<noteq> a" using that(1) v(3) by (force simp: gkeys_def)
    with that v(1) show ?thesis unfolding partly_def by (simp add: field)
  qed
  moreover have "field_by_name b v0 = Inr (Some f) \<or> (\<forall>y \<in> refers f. built E k y)"
    if k: "(b, k) \<in> set (Attributes n)" "sub_attr (b, k)" "field_by_name b w = Inr (Some f)" for b k f
  proof (cases "b = a")
    case True
    with k m have "k = m" "f = x" by (simp_all add: field)
    with P [OF _ x(2)] k(2) True show ?thesis by simp
  next
    case False
    with k have "field_by_name b v = Inr (Some f)" by (simp add: field)
    with v(1) k(1,2) show ?thesis unfolding partly_def by blast
  qed
  ultimately show ?thesis unfolding partly_def by blast
qed (use v(1) in simp)

section \<open>Rebuilding objects\<close>

definition attrs_distinct :: "l8node \<Rightarrow> bool" where
  "attrs_distinct n \<longleftrightarrow> (\<forall>m \<in> set (nodes_of n). distinct (gkeys (Attributes m)))"

lemma attrs_distinctD: "attrs_distinct n \<Longrightarrow> distinct (gkeys (Attributes n))"
  by (simp add: attrs_distinct_def nodes_of_self)

lemma attrs_distinct_sub:
  assumes "attrs_distinct n" "(a, m) \<in> set (Attributes n)" "sub_attr (a, m)"
  shows "attrs_distinct m"
  using assms nodes_of_sub unfolding attrs_distinct_def by blast

lemma read_attr_sets:
  "read_attr E cols row v (a, m) = Inr w \<Longrightarrow> IsStruct m \<and> w = v \<or> \<not> IsStruct m \<and> sets_field a (\<lambda>x. True) v w"
  by (auto simp: read_attr_def split: if_splits option.splits intro: SetValueFromRow_sets)

lemma convert_row_built:
  assumes run: "convert_row E n cols d row = Inr y" and dist: "distinct (gkeys (Attributes n))"
    and sub: "\<And>a m pk r. (a, m) \<in> set (Attributes n) \<Longrightarrow> sub_attr (a, m) \<Longrightarrow> convertFrom E m pk d = Inr r \<Longrightarrow>
      \<forall>x \<in> objects r. built E m x"
  shows "built E n y"
proof -
  let ?key = "KeyForRow row"
  let ?attrs = "range_loop (rng E (''convertFrom:attributes'', ?key)) (Attributes n)"
  let ?subs = "range_loop (rng E (''convertFrom:subTables'', ?key)) (filter sub_attr (Attributes n))"
  obtain i where i: "newInstance E (TypeName n) = Inr i" using run unfolding convert_row_unfold by (auto simp: rbind_eq_Inr)
  obtain t v0 where new: "newInstance E (TypeName n) = Inr (GPtr t (Some v0))"
    using run i unfolding convert_row_unfold by (cases i) (auto split: option.splits)
  with run obtain v1 v2 where v1: "mfold (read_attr E cols row) v0 ?attrs = Inr v1"
    and v2: "mfold (read_sub E ?key d) v1 ?subs = Inr v2" and y: "y = GPtr t (Some v2)"
    unfolding convert_row_unfold by (auto simp: rbind_eq_Inr)
  have "partly E n v0 v1"
  proof (rule mfold_invariant [OF v1 partly_refl])
    fix v p w assume v: "partly E n v0 v" "p \<in> set ?attrs" "read_attr E cols row v p = Inr w"
    obtain a m where p: "p = (a, m)" by (cases p)
    have am: "(a, m) \<in> set (Attributes n)" using v(2) by (auto simp: p dest!: range_loop_in)
    from read_attr_sets [OF v(3) [unfolded p]] show "partly E n v0 w"
    proof
      assume "\<not> IsStruct m \<and> sets_field a (\<lambda>x. True) v w"
      then show ?thesis using partly_sets [OF v(1) _ am dist, of "\<lambda>x. True" w] by simp
    qed (use v(1) in simp)
  qed
  then have "partly E n v0 v2"
  proof (rule mfold_invariant [OF v2])
    fix v p w assume v: "partly E n v0 v" "p \<in> set ?subs" "read_sub E ?key d v p = Inr w"
    obtain a m where p: "p = (a, m)" by (cases p)
    have am: "(a, m) \<in> set (Attributes n)" "sub_attr (a, m)"
      using v(2) by (auto simp: p dest!: range_loop_in)
    obtain r where r: "convertFrom E m ?key d = Inr r" "SetValueFromSubTable E a r v = Inr w"
      using v(3) by (auto simp: p read_sub_def rbind_eq_Inr)
    have "sets_field a (\<lambda>x. \<forall>y \<in> refers x. built E m y) v w"
      by (rule SetValueFromSubTable_sets [OF r(2) sub [OF am r(1)]])
    then show "partly E n v0 w" by (rule partly_sets [OF v(1) _ am(1) dist])
  qed
  with new y show ?thesis unfolding built_partly by blast
qed

text \<open>The rows of a node give one instance each.\<close>

lemma read_rows_objects:
  assumes run: "read_rows E n cols d rs = Inr (rows, ordered)"
    and P: "\<And>row y. row \<in> set rs \<Longrightarrow> convert_row E n cols d row = Inr y \<Longrightarrow> P y"
  shows "(\<forall>(k, x) \<in> set rows. P x) \<and> (\<forall>x \<in> set ordered. P x) \<and> length ordered = length rs"
  using assms
proof (induction rs arbitrary: rows ordered rule: rev_induct)
  case (snoc row rs)
  from snoc.prems(1) obtain rows0 ordered0 y where s: "read_rows E n cols d rs = Inr (rows0, ordered0)"
    "convert_row E n cols d row = Inr y" "rows = AList.update (RecKey row) y rows0" "ordered = ordered0 @ [y]"
    unfolding read_rows_def by (auto simp: mfold_append rbind_eq_Inr)
  have "(\<forall>(k, x) \<in> set rows0. P x) \<and> (\<forall>x \<in> set ordered0. P x) \<and> length ordered0 = length rs"
    by (intro snoc.IH [OF s(1)] snoc.prems(2)) simp_all
  moreover have "P y" using snoc.prems(2) [OF _ s(2)] by simp
  ultimately show ?case using s(3,4) by (auto dest: in_AList_update)
qed (simp add: read_rows_def)

text \<open>The number of objects is the number of rows, where they are not put into a slice or map.\<close>

lemma must_Inr: "must r = Inr x \<longleftrightarrow> r = Inr x"
  by (cases r rule: must.cases) simp_all

theorem convertFrom_built:
  assumes "convertFrom E n pk d = Inr r" "attrs_distinct n"
  shows "(\<forall>x \<in> objects r. built E n x) \<and>
     (\<forall>ys. r = COrdered ys \<longrightarrow> (\<exists>rs. rows_at d (TypeName n) pk (FieldName n) = Some rs \<and> length ys = length rs))"
  using assms
proof (induction n arbitrary: pk r rule: measure_induct_rule [where f = size])
  case (less n)
  show ?case
  proof (cases "rows_at d (TypeName n) pk (FieldName n)")
    case None
    with less.prems(1) show ?thesis by (auto simp: convertFrom_unfold)
  next
    case (Some rs)
    then obtain t rows ordered where rows: "read_rows E n (columns_at d (TypeName n)) d rs = Inr (rows, ordered)"
      and fin: "finish_rows E n pk (rows, ordered) = Inr r"
      using less.prems(1) by (auto simp: convertFrom_unfold rbind_eq_Inr)
    have sub: "\<forall>x \<in> objects r'. built E m x"
      if "(a, m) \<in> set (Attributes n)" "sub_attr (a, m)" "convertFrom E m pk' d = Inr r'" for a m pk' r'
      using less.IH [OF size_Attributes [OF that(1)] that(3) attrs_distinct_sub [OF less.prems(2) that(1,2)]] by blast
    have "(\<forall>(k, x) \<in> set rows. built E n x) \<and> (\<forall>x \<in> set ordered. built E n x) \<and> length ordered = length rs"
      by (rule read_rows_objects [OF rows]) (rule convert_row_built [OF _ attrs_distinctD [OF less.prems(2)] sub])
    then have all: "\<forall>(k, x) \<in> set rows. built E n x" "\<forall>x \<in> set ordered. built E n x" "length ordered = length rs" by blast+
    from fin consider (slice) v where "convertRowsToSlice E rows n = Inr v" "r = CVal v"
      | (map) v where "convertRowsToMap E rows n = Inr v" "r = CVal v"
      | (roots) "r = COrdered ordered" | (single) "r = CRows rows"
      by (auto simp: finish_rows_def rbind_eq_Inr must_Inr split: if_splits)
    then show ?thesis
    proof cases
      case slice
      with convertRowsToSlice_objects [OF _ all(1)] show ?thesis by simp
    next
      case map
      with convertRowsToMap_objects [OF _ all(1)] show ?thesis by simp
    next
      case roots
      with all Some show ?thesis by simp
    next
      case single
      with all(1) show ?thesis by auto
    qed
  qed
qed

end
