(* ===== verification/Pg_Typing.thy ===== *)
theory Pg_Typing
  imports Convert_Typing Pg_Objects
begin

text \<open>
  The objects of a read: whatever the database holds, and whichever way the read takes, they are
  instances of the type of the query.
\<close>

section \<open>What results and actions return\<close>

text \<open>A result that, if it is a value, has the property \<open>P\<close>; errors and panics are free.\<close>

definition value_is :: "('a \<Rightarrow> bool) \<Rightarrow> 'a res \<Rightarrow> bool" where
  "value_is P r \<longleftrightarrow> (\<forall>x. r = Inr x \<longrightarrow> P x)"

lemma value_is_simps [simp]: "value_is P (Inr x) \<longleftrightarrow> P x" "value_is P (Inl e)"
  by (simp_all add: value_is_def)

lemma value_isD: "value_is P r \<Longrightarrow> r = Inr x \<Longrightarrow> P x"
  by simp

lemma value_is_bind: "value_is Q r \<Longrightarrow> (\<And>x. Q x \<Longrightarrow> value_is P (f x)) \<Longrightarrow> value_is P (rbind r f)"
  by (cases r) simp_all

lemma value_is_skip: "(\<And>x. value_is P (f x)) \<Longrightarrow> value_is P (rbind r f)"
  by (cases r) simp_all

lemma value_is_mfold:
  assumes "P s" "\<And>s x. P s \<Longrightarrow> x \<in> set xs \<Longrightarrow> value_is P (f s x)"
  shows "value_is P (mfold f s xs)"
  using assms
proof (induction xs arbitrary: s)
  case (Cons x xs)
  then show ?case by (auto intro!: value_is_bind [where Q = P])
qed simp

text \<open>The same of actions, which return a result in every state.\<close>

definition gives :: "('a \<Rightarrow> bool) \<Rightarrow> ('a, 'd) act \<Rightarrow> bool" where
  "gives P m \<longleftrightarrow> (\<forall>d x d'. m d = (Inr x, d') \<longrightarrow> P x)"

lemma givesD: "gives P m \<Longrightarrow> m d = (Inr x, d') \<Longrightarrow> P x"
  unfolding gives_def by blast

lemma gives_ret: "(\<And>x. r = Inr x \<Longrightarrow> P x) \<Longrightarrow> gives P (ret r)"
  by (simp add: gives_def ret_def)

lemma gives_bind:
  assumes "gives Q m" "\<And>x. Q x \<Longrightarrow> gives P (f x)"
  shows "gives P (abind m f)"
  unfolding gives_def abind_eq_Inr using assms by (meson givesD)

lemma gives_any: "gives (\<lambda>x. True) m"
  by (simp add: gives_def)

lemma gives_skip: "(\<And>x. gives P (f x)) \<Longrightarrow> gives P (abind m f)"
  by (rule gives_bind [OF gives_any])

lemma gives_on_db: "gives P m \<Longrightarrow> gives P (on_db m)"
  by (auto simp: gives_def on_db_def split: prod.splits)

lemma gives_bracket: "gives P m \<Longrightarrow> gives P (bracket db rb m)"
  by (auto simp: gives_def bracket_def split: prod.splits sum.splits go_err.splits)

lemma gives_reading: "(\<And>d x. f d = Inr x \<Longrightarrow> P x) \<Longrightarrow> gives P (reading f)"
  by (simp add: gives_def reading_def)

section \<open>The type of the relational data\<close>

lemma RootTypeName_on_table [simp]: "RootTypeName (on_table tn f data) = RootTypeName data"
  by (simp add: on_table_def split: option.split)

lemma nil_panic_value [simp]: "value_is P nil_panic"
  by (simp add: nil_panic_def)

lemma add_property_root:
  "value_is (\<lambda>(data', subs). RootTypeName data' = RootTypeName data) (add_property E n (data, subs) p)"
  unfolding add_property_def prod.case
  by (intro value_is_skip) (auto split: prod.split option.split)

lemma addTable_root: "value_is (\<lambda>data'. RootTypeName data' = RootTypeName data) (addTable E n ps data)"
proof (induction n arbitrary: ps data rule: measure_induct_rule [where f = size])
  case (less n)
  let ?data = "data\<lparr>Tables := AList.update (TypeName n) (new_table (TypeName n)) (Tables data)\<rparr>"
  let ?P = "\<lambda>d. RootTypeName d = RootTypeName data"
  have sub: "value_is ?P (addTable E m qs d)" if "(a, m) \<in> set (Attributes n)" "?P d" for a m qs d
    using less.IH [OF size_Attributes [OF that(1)], of d qs] that(2) by simp
  have all: "value_is ?P (mfold (\<lambda>data (attrName, attr). if IsStruct attr then
        (if IsTimeSeriesType (TypeName attr) then Inr data else addTable E attr None data) else Inr data)
      (on_table (TypeName n) (SetColumns E n) ?data)
      (range_loop (rng E (''addTable'', TypeName n)) (Attributes n)))"
    by (rule value_is_mfold) (auto dest!: range_loop_in intro!: sub)
  have some: "value_is ?P (rbind (mfold (add_property E n) (?data, []) (q # qs)) (\<lambda>(data, subs).
      mfold (\<lambda>data subProperty. rbind (getAttrName E subProperty n) (\<lambda>(attrName, property).
          case map_of (Attributes n) attrName of None \<Rightarrow> nil_panic
          | Some attr \<Rightarrow> addTable E attr (Some [property]) data)) data subs))" for q qs
  proof (rule value_is_bind [where Q = "\<lambda>(d, subs). ?P d"])
    show "value_is (\<lambda>(d, subs). ?P d) (mfold (add_property E n) (?data, []) (q # qs))"
    proof (rule value_is_mfold)
      fix s :: "L8OrmRData \<times> string list" and p
      assume "case s of (d, subs) \<Rightarrow> ?P d"
      then show "value_is (\<lambda>(d, subs). ?P d) (add_property E n s p)"
        using add_property_root [of "fst s" E n "snd s" p] by (simp add: case_prod_beta)
    qed simp
    fix s :: "L8OrmRData \<times> string list"
    assume "case s of (d, subs) \<Rightarrow> ?P d"
    then show "value_is ?P (case s of (data, subs) \<Rightarrow> mfold (\<lambda>data subProperty.
        rbind (getAttrName E subProperty n) (\<lambda>(attrName, property).
          case map_of (Attributes n) attrName of None \<Rightarrow> nil_panic
          | Some attr \<Rightarrow> addTable E attr (Some [property]) data)) data subs)"
      by (cases s) (auto intro!: value_is_mfold value_is_skip sub split: option.split dest: map_of_SomeD)
  qed
  show ?case
    using all some by (subst addTable.simps) (simp add: Let_def split: list.split)
qed

lemma query_root: "value_is (\<lambda>data. RootTypeName data = TypeName (RootType q)) (NewRelationsDataForQuery E q)"
  using addTable_root [of "new_rdata (TypeName (RootType q))"] by (simp add: NewRelationsDataForQuery_def new_rdata_def)

lemma read_table_root:
  "value_is (\<lambda>(data', st'). RootTypeName data' = RootTypeName data) (read_table E q d (data, st) tt)"
  by (cases tt) (auto simp: read_table_def intro!: value_is_skip split: option.split)

lemma read_body_root:
  "value_is (\<lambda>(data', md). RootTypeName data' = RootTypeName data) (read_body E q data d)"
proof -
  let ?Q = "\<lambda>(d, st). RootTypeName d = RootTypeName data"
  have "value_is ?Q (mfold (read_table E q d) (data, None)
      (range_loop (rng E (''ReadRelational'', RootTypeName data)) (Tables data)))"
  proof (rule value_is_mfold)
    fix s :: "L8OrmRData \<times> iquery statement option" and p
    assume "?Q s"
    then show "value_is ?Q (read_table E q d s p)"
      using read_table_root [of "fst s" E q d "snd s" p] by (simp add: case_prod_beta)
  qed simp
  then show ?thesis
    unfolding read_body_def by (rule value_is_bind) (auto split: option.split intro!: value_is_skip)
qed

lemma page_table_root:
  "value_is (\<lambda>data'. RootTypeName data' = RootTypeName data) (page_table E q keys d data tt)"
  by (cases tt) (auto simp: page_table_def Let_def intro!: value_is_skip split: option.split prod.split)

section \<open>Objects of a type\<close>

text \<open>
  What the program relies on: the introspector knows the type by its name, the registry makes
  instances of it, the attributes of a type have different names, and the elements of a
  result are the objects converted.
\<close>

definition registered :: "('d, 'x) pg_env_scheme \<Rightarrow> l8node \<Rightarrow> bool" where
  "registered E n \<longleftrightarrow> nodeOf E (TypeName n) = Some n \<and> attrs_distinct n \<and> \<not> IsSlice n \<and> \<not> IsMap n \<and>
     (\<exists>v. newInstance E (TypeName n) = Inr (GPtr (TNamed KStruct (TypeName n)) (Some v))) \<and>
     elementsOf E CNil = [] \<and> (\<forall>zs. elementsOf E (COrdered zs) = map Some zs)"

definition typed_elems :: "('d, 'x) pg_env_scheme \<Rightarrow> l8node \<Rightarrow> rvalue list \<Rightarrow> bool" where
  "typed_elems E n elems \<longleftrightarrow> (\<forall>e \<in> set elems. \<exists>y. e = Some y \<and> built E n y)"

lemma ConvertFrom_typed:
  assumes "registered E n" "RootTypeName data = TypeName n"
  shows "value_is (\<lambda>(resp, md'). typed_elems E n (elementsOf E resp)) (ConvertFrom E data md)"
  unfolding value_is_def
proof (intro allI impI)
  fix p assume "ConvertFrom E data md = Inr p"
  then obtain resp where p: "p = (resp, md)" and run: "convertFrom E n [] data = Inr resp"
    using assms by (auto simp: ConvertFrom_def registered_def rbind_eq_Inr)
  have built: "\<forall>x \<in> objects resp. built E n x"
    using convertFrom_built [OF run] assms(1) by (simp add: registered_def)
  have "resp = CNil \<or> (\<exists>zs. resp = COrdered zs)"
    using run assms(1)
    by (auto simp: convertFrom_unfold registered_def rbind_eq_Inr finish_rows_def split: option.splits)
  with built assms(1) show "case p of (resp, md') \<Rightarrow> typed_elems E n (elementsOf E resp)"
    by (auto simp: p registered_def typed_elems_def)
qed

text \<open>Filling the time series fields keeps an instance.\<close>

lemma populate_attr_sets:
  "value_is (sets_field a (\<lambda>x. True) v) (populate_attr E d tn key can v a)"
proof -
  have set: "value_is (sets_field a (\<lambda>x. True) v) (set_field a x v)" for x
    unfolding value_is_def by (auto intro: sets_fieldI)
  show ?thesis
    unfolding populate_attr_def
    by (auto simp: set split: sum.split go_err.split option.split gval.split intro!: value_is_skip)
qed

lemma populate_element_built:
  assumes "built E n y" "distinct (gkeys (Attributes n))"
  shows "value_is (\<lambda>e. \<exists>y. e = Some y \<and> built E n y) (populate_element E d tn n (Some y))"
proof -
  obtain t v0 v where y: "y = GPtr t (Some v)" "newInstance E (TypeName n) = Inr (GPtr t (Some v0))" "partly E n v0 v"
    using assms(1) by (auto simp: built_partly)
  let ?key = "primaryKeyOf E n v"
  have "value_is (partly E n v0) (mfold (\<lambda>v (attrName, attr). populate_attr E d tn ?key (kind_of (Some y) = KPtr) v attrName) v
      (range_loop (rng E (''populateTsFields'', ?key)) (collectTsAttrs n)))"
  proof (rule value_is_mfold [where P = "partly E n v0"])
    show "partly E n v0 v" by (rule y(3))
    fix w p assume w: "partly E n v0 w" "p \<in> set (range_loop (rng E (''populateTsFields'', ?key)) (collectTsAttrs n))"
    obtain a m where p: "p = (a, m)" by (cases p)
    with w(2) have m: "(a, m) \<in> set (Attributes n)" "\<not> sub_attr (a, m)"
      by (auto simp: collectTsAttrs_def dest!: range_loop_in)
    have "partly E n v0 u" if "sets_field a (\<lambda>x. True) w u" for u
      using partly_sets [OF w(1) that m(1) assms(2)] m(2) by blast
    then show "value_is (partly E n v0) (case p of (attrName, attr) \<Rightarrow>
        populate_attr E d tn ?key (kind_of (Some y) = KPtr) w attrName)"
      using populate_attr_sets [of a w E d tn ?key "kind_of (Some y) = KPtr"] by (simp add: p value_is_def)
  qed
  then have "value_is (\<lambda>e. \<exists>y. e = Some y \<and> built E n y)
      (rbind (mfold (\<lambda>v (attrName, attr). populate_attr E d tn ?key (kind_of (Some y) = KPtr) v attrName) v
        (range_loop (rng E (''populateTsFields'', ?key)) (collectTsAttrs n))) (\<lambda>v. Inr (Some (GPtr t (Some v)))))"
    by (rule value_is_bind) (simp add: built_partly y(2))
  with assms(1) y(1) show ?thesis by (simp add: populate_element_def Let_def)
qed

lemma populateTsFields_typed:
  assumes "registered E n" "typed_elems E n elems"
  shows "value_is (typed_elems E n) (populateTsFields E d elems)"
proof (cases elems)
  case (Cons e rest)
  with assms(2) obtain y where y: "e = Some y" "built E n y" by (auto simp: typed_elems_def)
  then have t: "type_of y = TPtr (TNamed KStruct (TypeName n))"
    using assms(1) by (auto simp: registered_def elim: builtE)
  have dist: "distinct (gkeys (Attributes n))" using assms(1) by (auto simp: registered_def attrs_distinctD)
  have "value_is (typed_elems E n) (collect (populate_element E d tn n) es)" if "typed_elems E n es" for es tn
    using that
  proof (induction es)
    case (Cons e es)
    then obtain z where z: "e = Some z" "built E n z" by (auto simp: typed_elems_def)
    from Cons.prems have es: "typed_elems E n es" by (simp add: typed_elems_def)
    have rest: "value_is (typed_elems E n) (collect (populate_element E d tn n) es)" by (rule Cons.IH [OF es])
    show ?case
      unfolding z(1) collect.simps
      by (intro value_is_bind [OF populate_element_built [OF z(2) dist]] value_is_bind [OF rest])
        (auto simp: typed_elems_def)
  qed (simp add: typed_elems_def)
  then show ?thesis
    using assms t by (simp add: Cons y(1) populateTsFields_def registered_def del: collect.simps)
qed (simp add: populateTsFields_def typed_elems_def)

lemma query_result_elems:
  assumes "registered E n" "RootTypeName data = TypeName n"
  shows "value_is (\<lambda>(elems, md). typed_elems E n elems) (query_result E d data md)"
  unfolding query_result_def
proof (rule value_is_bind [OF ConvertFrom_typed [OF assms]])
  fix p :: "cf_result \<times> metadata"
  assume p: "case p of (resp, md') \<Rightarrow> typed_elems E n (elementsOf E resp)"
  obtain resp md' where "p = (resp, md')" by (cases p)
  with p show "value_is (\<lambda>(elems, md). typed_elems E n elems)
      (case p of (resp, md) \<Rightarrow> rbind (populateTsFields E d (elementsOf E resp)) (\<lambda>elements. Inr (elements, MdTotal md)))"
    by (auto intro!: value_is_bind [OF populateTsFields_typed [OF assms(1)]])
qed

section \<open>The ways of a read\<close>

text \<open>A page through the record keys, the index, and the relational data as a whole.\<close>

definition typed_result :: "('d, 'x) pg_env_scheme \<Rightarrow> l8node \<Rightarrow> query_result \<Rightarrow> bool" where
  "typed_result E n r \<longleftrightarrow> typed_elems E n (fst r)"

lemma query_result_typed:
  assumes "registered E n" "RootTypeName data = TypeName n"
  shows "value_is (typed_result E n) (query_result E d data md)"
  using query_result_elems [OF assms, of d md]
  by (simp add: typed_result_def value_is_def case_prod_beta)

lemma readByRecKeys_typed:
  assumes "registered E (RootType q)"
  shows "gives (typed_result E (RootType q)) (readByRecKeys E q keys md)"
proof -
  let ?root = "\<lambda>data. RootTypeName data = TypeName (RootType q)"
  have page: "value_is (typed_result E (RootType q)) (page_body E q keys md data d)" if "?root data" for data :: L8OrmRData and d
    unfolding page_body_def
  proof (rule value_is_bind)
    show "value_is ?root (mfold (page_table E q keys d) data
        (range_loop (rng E (''readByRecKeys'', RootTypeName data)) (Tables data)))"
    proof (rule value_is_mfold)
      fix s :: L8OrmRData and p
      assume "?root s"
      then show "value_is ?root (page_table E q keys d s p)" using page_table_root [of s E q keys d p] by simp
    qed (rule that)
  qed (rule query_result_typed [OF assms])
  have "gives (typed_result E (RootType q)) (abind (ret (NewRelationsDataForQuery E q)) (\<lambda>data.
      on_db (bracket (dbase E) False (reading (page_body E q keys md data)))))"
  proof (rule gives_bind)
    show "gives ?root (ret (NewRelationsDataForQuery E q))" by (rule gives_ret) (rule value_isD [OF query_root])
    fix data :: L8OrmRData
    assume "?root data"
    then show "gives (typed_result E (RootType q)) (on_db (bracket (dbase E) False (reading (page_body E q keys md data))))"
      by (intro gives_on_db gives_bracket gives_reading) (rule value_isD [OF page])
  qed
  then show ?thesis
    unfolding readByRecKeys_def by (cases "keys = []") (auto simp: gives_def ret_def typed_result_def typed_elems_def)
qed

lemma readWithIndex_typed:
  assumes "registered E (RootType q)"
  shows "gives (typed_result E (RootType q)) (readWithIndex E now q)"
proof -
  let ?P = "typed_result E (RootType q)"
  have page: "?P x" if "abind (ret r) (\<lambda>page. readByRecKeys E q page md) s = (Inr x, s')" for r md s x s'
    using that unfolding abind_eq_Inr by (elim exE conjE) (rule givesD [OF readByRecKeys_typed [OF assms]])
  show ?thesis
    unfolding gives_def
  proof (intro allI impI)
    fix s x s' assume run: "readWithIndex E now q s = (Inr x, s')"
    obtain hit stamp where look: "index_lookup (index_key (QHash q) (AAAId q)) (pgIndex s) = (hit, stamp)" by fastforce
    show "?P x"
    proof (cases hit)
      case None
      with run look show ?thesis
        by (auto simp: readWithIndex_def Let_def abind_eq_Inr [where m = "readRecKeys E q"]
            abind_eq_Inr [where m = "apply_security E q keys md" for keys md] abind_eq_Inr [where m = "\<lambda>s. (Inr (), f s)" for f]
            dest!: page)
    next
      case (Some cached)
      with run look show ?thesis by (auto simp: readWithIndex_def Let_def dest!: page)
    qed
  qed
qed

lemma ReadRelational_root: "gives (\<lambda>(data, md). RootTypeName data = TypeName (RootType q)) (ReadRelational E q)"
proof -
  let ?P = "\<lambda>(data, md). RootTypeName data = TypeName (RootType q)"
  show ?thesis
    unfolding ReadRelational_def
  proof (rule gives_bind)
    show "gives (\<lambda>data. RootTypeName data = TypeName (RootType q)) (ret (NewRelationsDataForQuery E q))"
      by (rule gives_ret) (rule value_isD [OF query_root])
    fix data :: L8OrmRData
    assume "RootTypeName data = TypeName (RootType q)"
    then have "value_is ?P (read_body E q data d)" for d using read_body_root [of data E q d] by simp
    then show "gives ?P (abind (case nodeByTypeName E (TypeName (RootType q)) of
        None \<Rightarrow> ret (Inr ()) | Some rootNode \<Rightarrow> verifyTables E rootNode) (\<lambda>_.
      on_db (bracket (dbase E) False (reading (read_body E q data)))))"
      by (intro gives_skip gives_on_db gives_bracket gives_reading) (rule value_isD)
  qed
qed

lemma Read_rows_typed:
  assumes "registered E (RootType q)" "\<not> IsAggregate q"
  shows "gives (typed_result E (RootType q)) (Read E now q)"
proof (cases "0 < sint (Limit q)")
  case True
  with assms readWithIndex_typed show ?thesis by (simp add: Read_def [abs_def])
next
  case False
  have "gives (typed_result E (RootType q)) (abind (ReadRelational E q) (\<lambda>(data, md) s. (query_result E (dbState s) data md, s)))"
  proof (rule gives_bind [OF ReadRelational_root])
    fix p :: "L8OrmRData \<times> metadata"
    assume p: "case p of (data, md) \<Rightarrow> RootTypeName data = TypeName (RootType q)"
    show "gives (typed_result E (RootType q)) (case p of (data, md) \<Rightarrow> \<lambda>s. (query_result E (dbState s) data md, s))"
      using p value_isD [OF query_result_typed [OF assms(1)]] by (auto simp: gives_def split: prod.splits)
  qed
  with False assms(2) show ?thesis by (simp add: Read_def [abs_def])
qed

section \<open>Objects of the in-memory engine\<close>

lemma mem_registered: "registered mem_pg demo_node"
proof -
  have "attrs_distinct demo_node" unfolding attrs_distinct_def by code_simp
  then show ?thesis
    by (simp add: registered_def mem_pg_def demo_over_def demo_env_def demo_new_def demo_struct_def) (simp add: demo_node_def)
qed

lemma mem_read:
  "\<exists>s elems md s'. Read mem_pg 1 all_orders s = (Inr (elems, md), s') \<and> length elems = 2"
proof -
  obtain s :: "mem_db pg" where w: "db_holds mem_pg demo_node mem_orders (tables_of (kept_rows (dbState s)))" "tables_ready mem_pg demo_node s"
    using mem_written by blast
  note load = Read_load [OF mem_store mem_delivers mem_containers(2,3) mem_plain(1) mem_roots w(2,1), of 1]
  then obtain elems md ys zs where "fst (Read mem_pg 1 all_orders s) = Inr (elems, md)"
    "elems = map Some zs" "mset ys = mset mem_orders" "list_all2 (sim demo_node) ys zs"
    using mem_accepts(2) by (auto simp: yields_def selected_def split: sum.splits go_err.splits)
  moreover from this have "length elems = 2"
    using size_mset [of ys] size_mset [of mem_orders] by (simp add: mem_orders_def list_all2_lengthD)
  ultimately show ?thesis by (metis prod.collapse)
qed

text \<open>
  C5. Type safety of reading.  Whatever rows the database delivers, and whatever bytes their
  columns hold, the objects of a read that succeeds are instances of the queried type: pointers
  to structs with the fields the registry gives the type, each of its declared type, where only
  attributes were set, and where the elements of sub-table fields are such instances of the
  types of those fields.  This holds for reads of all rows and for pages, whether their keys come
  from the index or from the database.
\<close>

theorem Read_well_typed:
  assumes "registered E (RootType q)" "\<not> IsAggregate q" "Read E now q s = (Inr (elems, md), s')"
  shows "\<forall>e \<in> set elems. \<exists>y. e = Some y \<and> built E (RootType q) y"
  using givesD [OF Read_rows_typed [OF assms(1,2)] assms(3)] by (simp add: typed_result_def typed_elems_def)

theorem Read_well_typed_witness:
  "\<exists>s elems md s'. Read mem_pg 1 all_orders s = (Inr (elems, md), s') \<and> length elems = 2 \<and>
     (\<forall>e \<in> set elems. \<exists>y. e = Some y \<and> built mem_pg demo_node y)"
proof -
  have q: "RootType all_orders = demo_node" "\<not> IsAggregate all_orders" using mem_plain by (simp_all add: plain_query_def whole_query_def)
  obtain s elems md s' where r: "Read mem_pg 1 all_orders s = (Inr (elems, md), s')" "length elems = 2" using mem_read by blast
  from Read_well_typed [OF _ q(2) r(1)] mem_registered q(1) r show ?thesis by auto
qed

end
