(* ===== verification/Type_Pointers.thy ===== *)
theory Type_Pointers
  imports Pg_Schema_Correct
begin

text \<open>
  The introspector links the nodes of types by pointers, so that a type that contains itself,
  directly or through others, is a cycle of nodes.  Here \<open>collectTables\<close> is translated over such a graph,
  with a bounded stack: it returns on every finite graph, and on a graph without cycles, which is
  what a value of \<open>l8node\<close> unfolds, it is \<open>collectTables\<close>.
\<close>

section \<open>Graphs of type nodes\<close>

record gnode =
  GTypeName :: string
  GIsStruct :: bool
  GAttributes :: "(string, nat) gomap"

type_synonym type_graph = "nat \<Rightarrow> gnode"

definition table_node :: "gnode \<Rightarrow> bool" where
  "table_node m \<longleftrightarrow> GIsStruct m \<and> \<not> IsTimeSeriesType (GTypeName m)"

definition sub_nodes :: "type_graph \<Rightarrow> nat \<Rightarrow> nat set" where
  "sub_nodes g p = {q \<in> snd ` set (GAttributes (g p)). table_node (g q)}"

inductive points :: "type_graph \<Rightarrow> nat \<Rightarrow> nat \<Rightarrow> bool" for g p where
  here: "points g p p"
| there: "points g p q \<Longrightarrow> r \<in> sub_nodes g q \<Longrightarrow> points g p r"

lemma points_trans: "points g q r \<Longrightarrow> points g p q \<Longrightarrow> points g p r"
  by (induction rule: points.induct) (auto intro: points.intros)

text \<open>Finitely many nodes, whose attributes are Go maps to nodes; nodes of one type have sub-tables of the same types.\<close>

definition graph_ok :: "type_graph \<Rightarrow> nat set \<Rightarrow> bool" where
  "graph_ok g A \<longleftrightarrow> finite A \<and> (\<forall>p \<in> A. distinct (gkeys (GAttributes (g p))) \<and> snd ` set (GAttributes (g p)) \<subseteq> A)"

definition typed_graph :: "type_graph \<Rightarrow> nat set \<Rightarrow> bool" where
  "typed_graph g A \<longleftrightarrow> (\<forall>p \<in> A. \<forall>q \<in> A. GTypeName (g p) = GTypeName (g q) \<longrightarrow>
     (\<lambda>r. GTypeName (g r)) ` sub_nodes g p = (\<lambda>r. GTypeName (g r)) ` sub_nodes g q)"

lemma sub_nodes_in: "graph_ok g A \<Longrightarrow> p \<in> A \<Longrightarrow> q \<in> sub_nodes g p \<Longrightarrow> q \<in> A"
  unfolding graph_ok_def sub_nodes_def by blast

section \<open>Collecting tables\<close>

text \<open>
  Postgres.go, collectTables, over pointers.  Every call takes a frame of a stack of \<open>depth\<close>
  frames; without one the program dies.
\<close>

fun collect_graph ::
    "'a env_scheme \<Rightarrow> type_graph \<Rightarrow> nat \<Rightarrow> nat \<Rightarrow> (string, bool) gomap \<Rightarrow> (string, bool) gomap res" where
  "collect_graph E g 0 p tables = Inl (Panic ''stack overflow'')"
| "collect_graph E g (Suc depth) p tables =
     mfold (\<lambda>tables (attrName, q).
              if GIsStruct (g q) then
                (if IsTimeSeriesType (GTypeName (g q)) then Inr tables
                 else if map_of tables (GTypeName (g q)) = None then collect_graph E g depth q tables
                 else Inr tables)
              else Inr tables)
       (AList.update (GTypeName (g p)) True tables)
       (range_loop (rng E (''collectTables'', GTypeName (g p))) (GAttributes (g p)))"

text \<open>What a call adds to the names that were there, on a graph of the names \<open>N\<close>.\<close>

definition collects :: "type_graph \<Rightarrow> nat set \<Rightarrow> nat \<Rightarrow> string set \<Rightarrow> string set \<Rightarrow> bool" where
  "collects g A p old new \<longleftrightarrow> old \<subseteq> new \<and> new \<subseteq> old \<union> (\<lambda>q. GTypeName (g q)) ` Collect (points g p) \<and>
     (\<forall>q \<in> A. GTypeName (g q) \<in> new - old \<longrightarrow> (\<lambda>r. GTypeName (g r)) ` sub_nodes g q \<subseteq> new)"

lemma collects_refl: "collects g A p S S"
  by (simp add: collects_def)

lemma collects_trans: "collects g A p R S \<Longrightarrow> collects g A p S T \<Longrightarrow> collects g A p R T"
proof -
  assume *: "collects g A p R S" "collects g A p S T"
  then have sub: "R \<subseteq> S" "S \<subseteq> T" by (simp_all add: collects_def)
  have "(\<lambda>r. GTypeName (g r)) ` sub_nodes g q \<subseteq> T" if "q \<in> A" "GTypeName (g q) \<in> T - R" for q
  proof (cases "GTypeName (g q) \<in> S")
    case True
    then have "(\<lambda>r. GTypeName (g r)) ` sub_nodes g q \<subseteq> S" using *(1) that unfolding collects_def by blast
    with sub(2) show ?thesis by (rule order_trans [rotated])
  next
    case False
    then show ?thesis using *(2) that unfolding collects_def by blast
  qed
  with * sub show "collects g A p R T" by (auto simp: collects_def)
qed

lemma collects_below:
  assumes "collects g A q S T" "points g p q"
  shows "collects g A p S T"
proof -
  have "Collect (points g q) \<subseteq> Collect (points g p)" using points_trans assms(2) by blast
  with assms(1) show ?thesis unfolding collects_def by blast
qed

text \<open>The loop over the attributes of a node, when the calls it makes return.\<close>

lemma attributes_collected:
  assumes "\<And>x T. x \<in> set xs \<Longrightarrow> P T \<Longrightarrow>
      \<exists>T'. f T x = Inr T' \<and> P T' \<and> collects g A p (names_of T) (names_of T') \<and>
        (table_node (g (snd x)) \<longrightarrow> GTypeName (g (snd x)) \<in> names_of T')"
  shows "P T \<Longrightarrow> \<exists>T'. mfold f T xs = Inr T' \<and> collects g A p (names_of T) (names_of T') \<and>
    (\<forall>x \<in> set xs. table_node (g (snd x)) \<longrightarrow> GTypeName (g (snd x)) \<in> names_of T')"
  using assms
proof (induction xs arbitrary: T)
  case (Cons x xs)
  obtain T1 where T1: "f T x = Inr T1" "P T1" "collects g A p (names_of T) (names_of T1)"
    "table_node (g (snd x)) \<longrightarrow> GTypeName (g (snd x)) \<in> names_of T1"
    using Cons.prems(2) [of x T] Cons.prems(1) by auto
  obtain T2 where T2: "mfold f T1 xs = Inr T2" "collects g A p (names_of T1) (names_of T2)"
    "\<forall>x \<in> set xs. table_node (g (snd x)) \<longrightarrow> GTypeName (g (snd x)) \<in> names_of T2"
    using Cons.IH [OF T1(2)] Cons.prems(2) by auto
  have "names_of T1 \<subseteq> names_of T2" using T2(2) by (simp add: collects_def)
  with T1 T2 collects_trans [OF T1(3) T2(2)] show ?case by (intro exI [of _ T2]) auto
qed (simp add: collects_refl)

text \<open>A stack with a frame for every name that was not seen yet is enough.\<close>

lemma collect_graph_returns:
  assumes "orders_ok E" "graph_ok g A" "typed_graph g A"
  shows "p \<in> A \<Longrightarrow> GTypeName (g p) \<notin> names_of T \<Longrightarrow> card ((\<lambda>q. GTypeName (g q)) ` A - names_of T) \<le> depth \<Longrightarrow>
    \<exists>T'. collect_graph E g depth p T = Inr T' \<and> collects g A p (names_of T) (names_of T') \<and> GTypeName (g p) \<in> names_of T'"
proof (induction depth arbitrary: p T)
  case 0
  let ?N = "(\<lambda>q. GTypeName (g q)) ` A - names_of T"
  have "finite ?N" using assms(2) by (simp add: graph_ok_def)
  moreover have "GTypeName (g p) \<in> ?N" using 0 by blast
  moreover have "card ?N = 0" using 0(3) by simp
  ultimately show ?case by (metis card_eq_0_iff empty_iff)
next
  case (Suc depth)
  let ?name = "\<lambda>q. GTypeName (g q)"
  let ?T = "AList.update (?name p) True T" and ?xs = "range_loop (rng E (''collectTables'', ?name p)) (GAttributes (g p))"
  have xs: "set ?xs = set (GAttributes (g p))"
    using assms(2) Suc.prems(1) unfolding graph_ok_def by (intro set_range_loop [OF orders_okD(1) [OF assms(1)]]) blast
  have fin: "finite (?name ` A)" using assms(2) by (simp add: graph_ok_def)
  have names: "names_of ?T = insert (?name p) (names_of T)" by (simp add: names_of_def set_gkeys_update)
  have left: "card (?name ` A - names_of S) \<le> depth" if "names_of ?T \<subseteq> names_of S" for S
  proof -
    have "card (?name ` A - names_of S) < card (?name ` A - names_of T)"
      using that Suc.prems(1,2) fin unfolding names by (intro psubset_card_mono) auto
    with Suc.prems(3) show ?thesis by simp
  qed
  define f where "f = (\<lambda>tables (attrName :: string, q).
      if GIsStruct (g q) then
        (if IsTimeSeriesType (?name q) then Inr tables
         else if map_of tables (?name q) = None then collect_graph E g depth q tables
         else Inr tables)
      else Inr tables)"
  have step: "\<exists>S'. f S x = Inr S' \<and> names_of ?T \<subseteq> names_of S' \<and> collects g A p (names_of S) (names_of S') \<and>
      (table_node (g (snd x)) \<longrightarrow> ?name (snd x) \<in> names_of S')"
    if x: "x \<in> set ?xs" and S: "names_of ?T \<subseteq> names_of S" for x S
  proof -
    obtain a q where aq: "x = (a, q)" by (cases x)
    have qA: "q \<in> A" using x xs assms(2) Suc.prems(1) by (force simp: aq graph_ok_def)
    have seen: "map_of S (?name q) = None \<longleftrightarrow> ?name q \<notin> names_of S"
      using map_of_eq_None_iff [of S "?name q"] by (simp add: names_of_def gkeys_def)
    show ?thesis
    proof (cases "table_node (g q) \<and> ?name q \<notin> names_of S")
      case True
      have "points g p q" using True x xs
        by (intro points.there [OF points.here]) (force simp: sub_nodes_def aq)
      moreover obtain S' where "collect_graph E g depth q S = Inr S'" "collects g A q (names_of S) (names_of S')" "?name q \<in> names_of S'"
        using Suc.IH [OF qA _ left [OF S]] True by blast
      moreover have "f S x = collect_graph E g depth q S" using True seen by (simp add: f_def aq table_node_def)
      moreover from this have "names_of S \<subseteq> names_of S'" using calculation(3) by (simp add: collects_def)
      ultimately show ?thesis using S collects_below aq by (intro exI [of _ S']) auto
    next
      case False
      then have "f S x = Inr S" using seen by (auto simp: f_def aq table_node_def)
      with False S show ?thesis by (auto simp: aq collects_refl)
    qed
  qed
  obtain T' where T': "mfold f ?T ?xs = Inr T'" "collects g A p (names_of ?T) (names_of T')"
    "\<forall>x \<in> set ?xs. table_node (g (snd x)) \<longrightarrow> ?name (snd x) \<in> names_of T'"
    using attributes_collected [where P = "\<lambda>S. names_of ?T \<subseteq> names_of S" and f = f and xs = ?xs and T = ?T, OF step order_refl]
    by blast
  have "collects g A p (names_of T) (names_of T')"
    unfolding collects_def
  proof (intro conjI ballI impI)
    show "names_of T \<subseteq> names_of T'" using T'(2) names by (auto simp: collects_def)
    have "?name p \<in> ?name ` Collect (points g p)" by (simp add: points.here)
    then show "names_of T' \<subseteq> names_of T \<union> ?name ` Collect (points g p)" using T'(2) unfolding names collects_def by blast
    fix q assume q: "q \<in> A" "?name q \<in> names_of T' - names_of T"
    show "?name ` sub_nodes g q \<subseteq> names_of T'"
    proof (cases "?name q = ?name p")
      case True
      then have "?name ` sub_nodes g q = ?name ` sub_nodes g p"
        using assms(3) [unfolded typed_graph_def, rule_format, OF q(1) Suc.prems(1)] by blast
      moreover have "?name ` sub_nodes g p \<subseteq> names_of T'" using T'(3) xs by (auto simp: sub_nodes_def)
      ultimately show ?thesis by simp
    next
      case False
      with q T'(2) show ?thesis unfolding names collects_def by blast
    qed
  qed
  moreover have "?name p \<in> names_of T'" using T'(2) names by (auto simp: collects_def)
  moreover have "collect_graph E g (Suc depth) p T = Inr T'" using T'(1) by (simp add: f_def)
  ultimately show ?case by blast
qed

text \<open>
  C13. Recursive types.  The nodes of types may form any finite graph, cycles included.
  The search for the tables of a type returns on it, without ever having more calls open than
  there are types, and finds exactly the types that the root reaches through sub-tables, whatever the range orders.
\<close>

theorem collectTables_terminates:
  assumes "orders_ok E" "graph_ok g A" "typed_graph g A" "p \<in> A" "card ((\<lambda>q. GTypeName (g q)) ` A) \<le> depth"
  shows "\<exists>tables. collect_graph E g depth p [] = Inr tables \<and>
     set (gkeys tables) = (\<lambda>q. GTypeName (g q)) ` {q. points g p q}"
proof -
  let ?name = "\<lambda>q. GTypeName (g q)"
  obtain T where T: "collect_graph E g depth p [] = Inr T" "collects g A p {} (names_of T)" "?name p \<in> names_of T"
    using collect_graph_returns [OF assms(1-4), of "[]" depth] assms(5) by (auto simp: names_of_def gkeys_def)
  have "q \<in> A \<and> ?name q \<in> names_of T" if "points g p q" for q
    using that
  proof induction
    case (there q r)
    then have "r \<in> A" using sub_nodes_in [OF assms(2)] by blast
    with there T(2) show ?case unfolding collects_def by blast
  qed (use assms(4) T(3) in simp)
  then have "names_of T = ?name ` {q. points g p q}" using T(2) unfolding collects_def by auto
  with T(1) show ?thesis by (auto simp: names_of_def)
qed

text \<open>An employee has a manager, who is an employee, and a department, which has a head.\<close>

definition cyclic_types :: type_graph where
  "cyclic_types p = (if p = 0 then \<lparr>GTypeName = ''Employee'', GIsStruct = True, GAttributes = [(''Manager'', 0), (''Dept'', 1), (''Name'', 2)]\<rparr>
     else if p = 1 then \<lparr>GTypeName = ''Department'', GIsStruct = True, GAttributes = [(''Head'', 0)]\<rparr>
     else \<lparr>GTypeName = ''string'', GIsStruct = False, GAttributes = []\<rparr>)"

theorem collectTables_terminates_witness:
  "\<exists>tables. collect_graph demo_env cyclic_types 3 0 [] = Inr tables \<and>
     set (gkeys tables) = (\<lambda>q. GTypeName (cyclic_types q)) ` {q. points cyclic_types 0 q}"
proof (rule collectTables_terminates)
  show "orders_ok demo_env" by (rule orders_ok_demo)
  show "graph_ok cyclic_types {0, 1, 2}" by (simp add: graph_ok_def cyclic_types_def gkeys_def)
  show "typed_graph cyclic_types {0, 1, 2}" by (simp add: typed_graph_def cyclic_types_def)
  show "card ((\<lambda>q. GTypeName (cyclic_types q)) ` {0, 1, 2}) \<le> 3" by (rule order_trans [OF card_image_le]) simp_all
qed simp

section \<open>Graphs without cycles\<close>

text \<open>The unfolding of a graph at its nodes.\<close>

definition unfolding_of :: "type_graph \<Rightarrow> nat set \<Rightarrow> (nat \<Rightarrow> l8node) \<Rightarrow> bool" where
  "unfolding_of g A t \<longleftrightarrow> (\<forall>p \<in> A. TypeName (t p) = GTypeName (g p) \<and> IsStruct (t p) = GIsStruct (g p) \<and>
     Attributes (t p) = map (\<lambda>(a, q). (a, t q)) (GAttributes (g p)))"

lemma range_loop_map: "range_loop ord (map (\<lambda>(a, q). (a, h q)) m) = map (\<lambda>(a, q). (a, h q)) (range_loop ord m)"
proof -
  have keys: "gkeys (map (\<lambda>(a, q). (a, h q)) m) = gkeys m" by (simp add: gkeys_def case_prod_beta comp_def)
  have "map_of (map (\<lambda>(a, q). (a, h q)) m) k = map_option h (map_of m k)" for k by (simp add: map_of_map)
  moreover have "List.map_filter (\<lambda>k. map_option (Pair k) (map_option h (map_of m k))) ks =
      map (\<lambda>(a, q). (a, h q)) (List.map_filter (\<lambda>k. map_option (Pair k) (map_of m k)) ks)" for ks
    by (induction ks) (auto simp: List.map_filter_simps split: option.split)
  ultimately show ?thesis by (simp add: range_loop_def keys)
qed

theorem collect_graph_tree:
  assumes "graph_ok g A" "unfolding_of g A t"
  shows "p \<in> A \<Longrightarrow> size (t p) \<le> depth \<Longrightarrow> collect_graph E g depth p T = Inr (collectTables E (t p) T)"
proof (induction depth arbitrary: p T)
  case 0
  then show ?case by (cases "t p") simp
next
  case (Suc depth)
  let ?ord = "rng E (''collectTables'', GTypeName (g p))"
  define F where "F = (\<lambda>(attrName :: string, attr) tables.
     if IsStruct attr then
       (if IsTimeSeriesType (TypeName attr) then tables
        else if map_of tables (TypeName attr) = None then collectTables E attr tables else tables)
     else tables)"
  have p: "TypeName (t p) = GTypeName (g p)" "Attributes (t p) = map (\<lambda>(a, q). (a, t q)) (GAttributes (g p))"
    using assms(2) Suc.prems(1) by (simp_all add: unfolding_of_def)
  have call: "(if GIsStruct (g q) then
        if IsTimeSeriesType (GTypeName (g q)) then Inr S
        else if map_of S (GTypeName (g q)) = None then collect_graph E g depth q S else Inr S
      else Inr S) = Inr (F (a, t q) S)" if "(a, q) \<in> set (GAttributes (g p))" for a q S
  proof -
    have q: "q \<in> A" using that assms(1) Suc.prems(1) by (force simp: graph_ok_def)
    have "(a, t q) \<in> set (Attributes (t p))" using that by (force simp: p(2))
    then have "size (t q) \<le> depth" using size_Attributes Suc.prems(2) by fastforce
    from Suc.IH [OF q this] q assms(2) show ?thesis by (simp add: F_def unfolding_of_def)
  qed
  have "collect_graph E g (Suc depth) p T =
      Inr (fold (\<lambda>x. F (fst x, t (snd x))) (range_loop ?ord (GAttributes (g p))) (AList.update (GTypeName (g p)) True T))"
    unfolding collect_graph.simps by (rule mfold_Inr_fold) (use call in \<open>auto dest!: range_loop_in\<close>)
  also have "\<dots> = Inr (fold F (range_loop ?ord (Attributes (t p))) (AList.update (GTypeName (g p)) True T))"
    unfolding p(2) range_loop_map by (simp add: fold_map comp_def case_prod_beta)
  also have "\<dots> = Inr (collectTables E (t p) T)"
    unfolding collectTables.simps [of E "t p"] F_def p(1) ..
  finally show ?case .
qed

end
