(* ===== verification/Orm_Svc.thy ===== *)
theory Orm_Svc
  imports Pg_Read
begin

text \<open>
  persist/*: the service in front of an ORM plugin.  It keeps an optional cache of elements in
  front of the plugin, calls the callbacks of the application around writes, and routes time
  series queries to the time series plugin.  The plugins, the callbacks, the cache and the
  parser of queries are behind interfaces: they are the parameters of \<open>svc_env\<close>, actions on
  the world outside of the service and on the cache.  An \<open>Inl (Err m)\<close> of such an action is an
  error it returns, an \<open>Inl (Panic m)\<close> a panic, which passes through the service.
\<close>

section \<open>The service and what it talks to\<close>

text \<open>A container of elements as a request: notifications and filters are marked.\<close>

record request = ielements +
  Notification :: bool
  FilterMode :: bool
  RequestQuery :: "iquery res"

text \<open>
  Responses: \<open>object.NewError\<close>, \<open>object.New\<close> with an error or a payload,
  \<open>object.NewQueryResult\<close>, the request itself, and a nil container.
\<close>

datatype payload = Nothing | Single gval | Points "gval list" | L8Empty

datatype response =
    RespError string
  | RespNew "string option" payload
  | RespRows "rvalue list" result_md
  | RespSame request
  | RespNil

text \<open>What a callback answers: nil, one element, or a slice of elements.\<close>

datatype cb_answer = CbNil | CbOne gval | CbMany "rvalue list"

text \<open>
  Arguments of the service level agreement: a plugin (which may be an ORM, a time series
  database, or both) or a boolean.
\<close>

datatype svc_arg = ArgPlugin (is_orm: bool) (is_tsdb: bool) | ArgBool bool | ArgOther

record 'w callbacks =
  cbBefore :: "rvalue \<Rightarrow> action \<Rightarrow> bool \<Rightarrow> (cb_answer \<times> bool, 'w) act"
  cbAfter :: "rvalue \<Rightarrow> action \<Rightarrow> bool \<Rightarrow> (cb_answer \<times> bool, 'w) act"

record ('w, 'c) svc_env =
  ormRead :: "iquery \<Rightarrow> (query_result, 'w) act"
  ormWrite :: "action \<Rightarrow> ielements \<Rightarrow> (unit, 'w) act"
  ormDelete :: "iquery \<Rightarrow> (unit, 'w) act"
  ormClose :: "(unit, 'w) act"
  tsAdd :: "L8TSDBNotification option list \<Rightarrow> (unit, 'w) act"
  tsGet :: "string \<Rightarrow> int64 \<Rightarrow> int64 \<Rightarrow> (gval list, 'w) act"
  tsClose :: "(unit, 'w) act"
  callback :: "'w callbacks option"
  cacheNew :: "rvalue list \<Rightarrow> 'c"
  cacheSize :: "'c \<Rightarrow> nat"
  cacheLookup :: "rvalue \<Rightarrow> (gval, 'c) act"
  cacheStore :: "rvalue \<Rightarrow> (unit, 'c) act"
  cacheMerge :: "rvalue \<Rightarrow> (unit, 'c) act"
  cacheRemove :: "rvalue \<Rightarrow> (unit, 'c) act"
  cachePage :: "int \<Rightarrow> int \<Rightarrow> iquery \<Rightarrow> (rvalue list \<times> result_md, 'c) act"
  cacheCounts :: "'c \<Rightarrow> (string, int64) gomap"
  container :: "bool \<Rightarrow> rvalue list \<Rightarrow> request"
  svcNode :: "string \<Rightarrow> l8node option"
  primaryFields :: "l8node \<Rightarrow> string list res"
  primaryValue :: "rvalue \<Rightarrow> string \<times> string option"
  parseQuery :: "string \<Rightarrow> iquery res"
  typeString :: "gtyp \<Rightarrow> string"
  serviceItem :: gval
  svcArgs :: "svc_arg list"
  registrations :: "(unit, 'w) act list"

text \<open>The state: the world, whether the plugins are attached, the cache.\<close>

record ('w, 'c) svc =
  world :: 'w
  attached :: bool
  scache :: "'c option"
  tsAttached :: bool

definition on_world :: "('a, 'w) act \<Rightarrow> ('a, ('w, 'c) svc) act" where
  "on_world m s = (case m (world s) of (r, w) \<Rightarrow> (r, s\<lparr>world := w\<rparr>))"

definition on_orm :: "('a, 'w) act \<Rightarrow> ('a, ('w, 'c) svc) act" where
  "on_orm m s = (if attached s then on_world m s else (nil_panic, s))"

text \<open>An action on the cache, and its answer when there is none.\<close>

definition on_cache :: "'a \<Rightarrow> ('a, 'c) act \<Rightarrow> ('a, ('w, 'c) svc) act" where
  "on_cache none m s =
     (case scache s of
        None \<Rightarrow> (Inr none, s)
      | Some c \<Rightarrow> (case m c of (r, c) \<Rightarrow> (r, s\<lparr>scache := Some c\<rparr>)))"

text \<open>Continue with what an action returned, error or not; a panic passes.\<close>

definition attempt :: "('a, 's) act \<Rightarrow> ((string + 'a) \<Rightarrow> ('b, 's) act) \<Rightarrow> ('b, 's) act" where
  "attempt m f s =
     (case m s of
        (Inl (Panic p), s) \<Rightarrow> (Inl (Panic p), s)
      | (Inl (Err e), s) \<Rightarrow> f (Inl e) s
      | (Inr x, s) \<Rightarrow> f (Inr x) s)"

definition dropped :: "('a, 's) act \<Rightarrow> (unit, 's) act" where
  "dropped m = attempt m (\<lambda>r. ret (Inr ()))"

section \<open>The cache\<close>

text \<open>OrmCache.go.  Errors of storing and merging are not looked at.\<close>

definition cacheGet :: "('w, 'c) svc_env \<Rightarrow> rvalue \<Rightarrow> (gval option, ('w, 'c) svc) act" where
  "cacheGet E x = on_cache None (attempt (cacheLookup E x) (\<lambda>r. ret (Inr (case r of Inl e \<Rightarrow> None | Inr v \<Rightarrow> Some v))))"

definition cachePost :: "('w, 'c) svc_env \<Rightarrow> rvalue \<Rightarrow> (unit, ('w, 'c) svc) act" where
  "cachePost E x = on_cache () (dropped (cacheStore E x))"

definition cachePatch :: "('w, 'c) svc_env \<Rightarrow> rvalue \<Rightarrow> (unit, ('w, 'c) svc) act" where
  "cachePatch E x = on_cache () (dropped (cacheMerge E x))"

definition cacheDelete :: "('w, 'c) svc_env \<Rightarrow> rvalue \<Rightarrow> (unit, ('w, 'c) svc) act" where
  "cacheDelete E x = on_cache () (cacheRemove E x)"

definition page_start :: "iquery \<Rightarrow> int" where
  "page_start q = sint (Page q) * sint (Limit q)"

definition page_block :: "iquery \<Rightarrow> int" where
  "page_block q = (if sint (Limit q) = 0 then 100 else sint (Limit q))"

definition cacheFetch ::
    "('w, 'c) svc_env \<Rightarrow> iquery \<Rightarrow> ((rvalue list \<times> result_md) option, ('w, 'c) svc) act" where
  "cacheFetch E q =
     on_cache None (\<lambda>c.
       if cacheSize E c = 0 then (Inr None, c)
       else abind (cachePage E (page_start q) (page_block q) q) (\<lambda>(values, md).
              ret (Inr (if IsAggregate q then Some (values, md)
                        else if values = [] \<and> page_start q = 0 then None
                        else Some (values, md)))) c)"

definition cacheElements :: "('w, 'c) svc_env \<Rightarrow> rvalue list \<Rightarrow> (unit, ('w, 'c) svc) act" where
  "cacheElements E rows s =
     (case scache s of
        None \<Rightarrow> (Inr (), s)
      | Some c \<Rightarrow> afold (\<lambda>u x. if x = None then ret (Inr ()) else cachePost E x) () rows s)"

text \<open>A failed read is an error container, which is returned as it is.\<close>

definition fetchFromDbAndCache :: "('w, 'c) svc_env \<Rightarrow> iquery \<Rightarrow> (response, ('w, 'c) svc) act" where
  "fetchFromDbAndCache E q =
     attempt (on_orm (ormRead E q)) (\<lambda>r. case r of
       Inl e \<Rightarrow> ret (Inr (RespError e))
     | Inr (rows, md) \<Rightarrow> abind (cacheElements E rows) (\<lambda>_. ret (Inr (RespRows rows md))))"

definition loadCacheInitElements :: "('w, 'c) svc_env \<Rightarrow> (rvalue list, ('w, 'c) svc) act" where
  "loadCacheInitElements E =
     abind (ret (typ_elem (type_of (serviceItem E)))) (\<lambda>t.
     attempt (ret (parseQuery E (''select * from '' @ typ_name t))) (\<lambda>r. case r of
       Inl e \<Rightarrow> ret (Inr [])
     | Inr q \<Rightarrow>
         attempt (on_orm (ormRead E q)) (\<lambda>r. case r of
           Inl e \<Rightarrow> ret (Inr [])
         | Inr (rows, md) \<Rightarrow> ret (Inr (filter (\<lambda>x. x \<noteq> None) rows)))))"

definition cacheMetadata :: "('w, 'c) svc_env \<Rightarrow> ('w, 'c) svc \<Rightarrow> (string, int64) gomap option" where
  "cacheMetadata E s = map_option (cacheCounts E) (scache s)"

section \<open>Callbacks\<close>

datatype before_result = BeforeError string | BeforeStop | BeforeElems "rvalue list"

fun before_loop ::
    "(rvalue \<Rightarrow> action \<Rightarrow> bool \<Rightarrow> (cb_answer \<times> bool, 's) act) \<Rightarrow> action \<Rightarrow> bool
     \<Rightarrow> rvalue list \<Rightarrow> rvalue list \<Rightarrow> (before_result, 's) act" where
  "before_loop F action note [] elems = ret (Inr (BeforeElems elems))"
| "before_loop F action note (elem # rest) elems =
     attempt (F elem action note) (\<lambda>r. case r of
       Inl e \<Rightarrow> ret (Inr (BeforeError e))
     | Inr (before, cont) \<Rightarrow>
         if \<not> cont then ret (Inr BeforeStop)
         else before_loop F action note rest
                (elems @ (case before of CbNil \<Rightarrow> [elem] | CbOne x \<Rightarrow> [Some x] | CbMany xs \<Rightarrow> xs)))"

text \<open>An error container, no container and stop, or a container and go on.\<close>

definition Before ::
    "('w, 'c) svc_env \<Rightarrow> action \<Rightarrow> request \<Rightarrow> (string + request option, ('w, 'c) svc) act" where
  "Before E action pb =
     (case callback E of
        None \<Rightarrow> ret (Inr (Inr (Some pb)))
      | Some cb \<Rightarrow>
          abind (on_world (before_loop (cbBefore cb) action (Notification pb) (Elements pb) [])) (\<lambda>r.
            ret (Inr (case r of
              BeforeError e \<Rightarrow> Inl e
            | BeforeStop \<Rightarrow> Inr None
            | BeforeElems elems \<Rightarrow> Inr (Some (container E (Notification pb) elems))))))"

text \<open>After: the loop stops at an error or a refusal; \<open>do\<close> ignores what it made.\<close>

fun after_loop ::
    "(rvalue \<Rightarrow> action \<Rightarrow> bool \<Rightarrow> (cb_answer \<times> bool, 's) act) \<Rightarrow> action \<Rightarrow> bool \<Rightarrow> rvalue list \<Rightarrow> (unit, 's) act" where
  "after_loop F action note [] = ret (Inr ())"
| "after_loop F action note (elem # rest) =
     attempt (F elem action note) (\<lambda>r. case r of
       Inl e \<Rightarrow> ret (Inr ())
     | Inr (after, cont) \<Rightarrow> if \<not> cont then ret (Inr ()) else after_loop F action note rest)"

definition After :: "('w, 'c) svc_env \<Rightarrow> action \<Rightarrow> request \<Rightarrow> (unit, ('w, 'c) svc) act" where
  "After E action pb =
     (case callback E of
        None \<Rightarrow> ret (Inr ())
      | Some cb \<Rightarrow> on_world (after_loop (cbAfter cb) action (Notification pb) (Elements pb)))"

section \<open>Queries by example\<close>

text \<open>\<open>reflect.Value.String\<close>: the text of a string, and a description of anything else.\<close>

definition value_string :: "('w, 'c) svc_env \<Rightarrow> rvalue \<Rightarrow> string" where
  "value_string E v =
     (case v of
        None \<Rightarrow> ''<invalid Value>''
      | Some (GString t) \<Rightarrow> t
      | Some x \<Rightarrow> ''<'' @ typeString E (type_of x) @ '' Value>'')"

text \<open>The struct an interface value points to; anything else panics.\<close>

definition struct_of :: "rvalue \<Rightarrow> gval res" where
  "struct_of v =
     (case v of
        Some (GPtr t (Some x)) \<Rightarrow> Inr x
      | _ \<Rightarrow> Inl (Panic ''reflect: call of reflect.Value.Elem on wrong Value''))"

fun key_terms :: "('w, 'c) svc_env \<Rightarrow> gval \<Rightarrow> string list \<Rightarrow> bool \<Rightarrow> string res" where
  "key_terms E x [] first = Inr []"
| "key_terms E x (f # fs) first =
     rbind (field_by_name f x) (\<lambda>v.
     rbind (key_terms E x fs False) (\<lambda>rest.
       Inr ((if first then [] else '' and '') @ f @ ''='' @
            (if kind_of v = KString then quoted (value_string E v) else value_string E v) @ rest)))"

definition ElementToQuery :: "('w, 'c) svc_env \<Rightarrow> ielements \<Rightarrow> iquery res" where
  "ElementToQuery E pb =
     rbind (struct_of (Element pb)) (\<lambda>x.
     rbind (typ_elem (type_of (serviceItem E))) (\<lambda>t.
       let aside = typ_name (type_of x); bside = typ_name t in
       case (if aside = bside then svcNode E bside else None) of
         None \<Rightarrow> Inl (Err (''Element does not match '' @ bside @ '' != '' @ aside))
       | Some n \<Rightarrow>
           rbind (primaryFields E n) (\<lambda>fs.
           rbind (key_terms E x fs True) (\<lambda>terms.
             parseQuery E (''select * from '' @ bside @ '' where '' @ terms)))))"

text \<open>utils.go, KeyOf: an error is logged, the key is returned all the same.\<close>

definition svc_KeyOf :: "('w, 'c) svc_env \<Rightarrow> ielements \<Rightarrow> string" where
  "svc_KeyOf E elements = (case primaryValue E (Element elements) of (key, err) \<Rightarrow> key)"

section \<open>Writes\<close>

text \<open>
  elemList: a single element with a field \<open>List\<close> stands for the elements of the list.  The
  field of a generated list message is a slice.
\<close>

definition elemList :: "('w, 'c) svc_env \<Rightarrow> request \<Rightarrow> request res" where
  "elemList E pb =
     (if length (Elements pb) = 1 \<and> Element pb \<noteq> None then
        (case deref (Element pb) of
           None \<Rightarrow> Inl (Panic ''reflect: call of FieldByName on zero Value'')
         | Some v \<Rightarrow>
             rbind (field_by_name ''List'' v) (\<lambda>fieldList.
               case fieldList of
                 None \<Rightarrow> Inr pb
               | Some f \<Rightarrow> rbind (slice_elems f) (\<lambda>xs. Inr (container E False (map Some xs)))))
      else Inr pb)"

definition cache_one ::
    "('w, 'c) svc_env \<Rightarrow> action \<Rightarrow> request \<Rightarrow> rvalue \<Rightarrow> (unit, ('w, 'c) svc) act" where
  "cache_one E action pb elem =
     (if elem = None then ret (Inr ())
      else if action = POST \<or> action = PUT then cachePost E elem
      else if action = PATCH then
        abind (cacheGet E elem) (\<lambda>hit.
        abind (if hit \<noteq> None then ret (Inr ())
               else attempt (ret (ElementToQuery E (ielements.truncate pb))) (\<lambda>r. case r of
                 Inl e \<Rightarrow> ret (Inr ())
               | Inr q \<Rightarrow> abind (fetchFromDbAndCache E q) (\<lambda>_. ret (Inr ())))) (\<lambda>_.
        cachePatch E elem))
      else ret (Inr ()))"

definition cacheAction ::
    "('w, 'c) svc_env \<Rightarrow> action \<Rightarrow> request \<Rightarrow> (unit, ('w, 'c) svc) act" where
  "cacheAction E action pb s =
     (case scache s of
        None \<Rightarrow> (Inr (), s)
      | Some c \<Rightarrow> afold (\<lambda>u elem. cache_one E action pb elem) () (Elements pb) s)"

definition do_action ::
    "('w, 'c) svc_env \<Rightarrow> action \<Rightarrow> request \<Rightarrow> (response, ('w, 'c) svc) act" where
  "do_action E action pb =
     abind (ret (elemList E pb)) (\<lambda>pb.
     abind (Before E action pb) (\<lambda>b. case b of
       Inl e \<Rightarrow> ret (Inr (RespError e))
     | Inr None \<Rightarrow> ret (Inr (RespNew None L8Empty))
     | Inr (Some pb) \<Rightarrow>
         abind (cacheAction E action pb) (\<lambda>_.
         attempt (on_orm (ormWrite E action (ielements.truncate pb))) (\<lambda>r. case r of
           Inl e \<Rightarrow> ret (Inr (RespError e))
         | Inr u \<Rightarrow> abind (After E action pb) (\<lambda>_. ret (Inr (RespNew None L8Empty)))))))"

definition svc_Post :: "('w, 'c) svc_env \<Rightarrow> request \<Rightarrow> (response, ('w, 'c) svc) act" where
  "svc_Post E = do_action E POST"

definition svc_Put :: "('w, 'c) svc_env \<Rightarrow> request \<Rightarrow> (response, ('w, 'c) svc) act" where
  "svc_Put E = do_action E PUT"

definition svc_Patch :: "('w, 'c) svc_env \<Rightarrow> request \<Rightarrow> (response, ('w, 'c) svc) act" where
  "svc_Patch E = do_action E PATCH"

section \<open>Deletes\<close>

text \<open>\<open>object.New(err, nil)\<close> of an error value.\<close>

definition outcome :: "(string + unit) \<Rightarrow> response" where
  "outcome r = RespNew (case r of Inl e \<Rightarrow> Some e | Inr u \<Rightarrow> None) Nothing"

definition svc_Delete :: "('w, 'c) svc_env \<Rightarrow> request \<Rightarrow> (response, ('w, 'c) svc) act" where
  "svc_Delete E pb =
     (if FilterMode pb then
        abind (dropped (cacheDelete E (Element pb))) (\<lambda>_.
        attempt (ret (ElementToQuery E (ielements.truncate pb))) (\<lambda>r. case r of
          Inl e \<Rightarrow> ret (Inr (RespError e))
        | Inr q \<Rightarrow> attempt (on_orm (ormDelete E q)) (\<lambda>r. ret (Inr (outcome r)))))
      else
        attempt (ret (RequestQuery pb)) (\<lambda>r. case r of
          Inl e \<Rightarrow> ret (Inr (RespError e))
        | Inr q \<Rightarrow>
            abind (cacheFetch E q) (\<lambda>cached.
            attempt (on_orm (ormDelete E q)) (\<lambda>r. case r of
              Inl e \<Rightarrow> ret (Inr (outcome (Inl e)))
            | Inr u \<Rightarrow>
                abind (case cached of
                         None \<Rightarrow> ret (Inr ())
                       | Some (values, md) \<Rightarrow>
                           afold (\<lambda>u x. if x = None then ret (Inr ()) else dropped (cacheDelete E x)) () values)
                  (\<lambda>_. ret (Inr (outcome (Inr ()))))))))"

section \<open>Time series\<close>

text \<open>
  \<open>strconv.ParseInt\<close> in base 10 with 64 bits, error dropped: zero for a text that is no
  number, the nearest bound for one out of range.  Digits are read up to the first that
  overflows 64 unsigned bits.
\<close>

fun scan_uint :: "string \<Rightarrow> nat \<Rightarrow> nat option" where
  "scan_uint [] n = Some n"
| "scan_uint (c # cs) n =
     (if \<not> is_digit c then None
      else if (2 ^ 64 - 1) div 10 + 1 \<le> n then Some (2 ^ 64 - 1)
      else if 2 ^ 64 - 1 < 10 * n + digit_val c then Some (2 ^ 64 - 1)
      else scan_uint cs (10 * n + digit_val c))"

definition parseTimestamp :: "string \<Rightarrow> int64" where
  "parseTimestamp s =
     (let neg = (s \<noteq> [] \<and> hd s = CHR ''-'');
          ds = (if s \<noteq> [] \<and> (hd s = CHR ''-'' \<or> hd s = CHR ''+'') then tl s else s)
      in case (if ds = [] then None else scan_uint ds 0) of
           None \<Rightarrow> 0
         | Some n \<Rightarrow>
             if \<not> neg \<and> 2 ^ 63 \<le> n then word_of_int (2 ^ 63 - 1)
             else if neg \<and> 2 ^ 63 < n then word_of_int (- (2 ^ 63))
             else word_of_int (if neg then - int n else int n))"

type_synonym ts_params = "string \<times> int64 \<times> int64"

definition comparator_param :: "comparator \<Rightarrow> ts_params \<Rightarrow> ts_params" where
  "comparator_param cmp p =
     (case p of (propertyId, start, e) \<Rightarrow>
        if CLeft cmp = ''PropertyId'' then (CRight cmp, start, e)
        else if CLeft cmp = ''Tsdbstart'' then (propertyId, parseTimestamp (CRight cmp), e)
        else if CLeft cmp = ''Tsdbend'' then (propertyId, start, parseTimestamp (CRight cmp))
        else p)"

text \<open>
  The loops compare interfaces to nil, which does not catch an interface with a nil pointer
  in it (package stmt does, with \<open>isNil\<close>): the next call reads a field of the nil receiver.
\<close>

function condition_params :: "condition iface \<Rightarrow> ts_params \<Rightarrow> ts_params res" where
  "condition_params NilIface p = Inr p"
| "condition_params NilPtr p = nil_panic"
| "condition_params (Obj (Condition cmp op nxt)) p =
     rbind (case cmp of NilIface \<Rightarrow> Inr p | NilPtr \<Rightarrow> nil_panic | Obj c \<Rightarrow> Inr (comparator_param c p))
       (\<lambda>p. condition_params nxt p)"
  by pat_completeness auto
termination by (relation "measure (\<lambda>(c, p). size_iface size c)") auto

function expression_params :: "qexpression iface \<Rightarrow> ts_params \<Rightarrow> ts_params res" where
  "expression_params NilIface p = Inr p"
| "expression_params NilPtr p = nil_panic"
| "expression_params (Obj (Expression cond op nxt)) p =
     rbind (condition_params cond p) (\<lambda>p. expression_params nxt p)"
  by pat_completeness auto
termination by (relation "measure (\<lambda>(c, p). size_iface size c)") auto

definition extractTsdbParams :: "iquery \<Rightarrow> ts_params res" where
  "extractTsdbParams q =
     rbind (expression_params (Criteria q) ([], 0, 0)) (\<lambda>(propertyId, start, e).
       if propertyId = [] then Inl (Err ''propertyId is required for TSDB query'')
       else if start = 0 \<or> e = 0 then Inl (Err ''tsdbstart and tsdbend are required for TSDB query'')
       else Inr (propertyId, start, e))"

definition isTsdbQuery :: "iquery \<Rightarrow> bool" where
  "isTsdbQuery q \<longleftrightarrow> TypeName (RootType q) = ''L8TSDBQuery''"

definition svc_AddTSDB ::
    "('w, 'c) svc_env \<Rightarrow> L8TSDBNotification option list \<Rightarrow> (unit, ('w, 'c) svc) act" where
  "svc_AddTSDB E notifications s =
     (if tsAttached s then dropped (on_world (tsAdd E notifications)) s else (Inr (), s))"

text \<open>No plugin and an error both give no points.\<close>

definition svc_GetTSDB ::
    "('w, 'c) svc_env \<Rightarrow> string \<Rightarrow> int64 \<Rightarrow> int64 \<Rightarrow> (gval list, ('w, 'c) svc) act" where
  "svc_GetTSDB E propertyId start e s =
     (if tsAttached s
      then attempt (on_world (tsGet E propertyId start e))
             (\<lambda>r. ret (Inr (case r of Inl e \<Rightarrow> [] | Inr ps \<Rightarrow> ps))) s
      else (Inr [], s))"

definition handleTsdbQuery :: "('w, 'c) svc_env \<Rightarrow> iquery \<Rightarrow> (response, ('w, 'c) svc) act" where
  "handleTsdbQuery E q s =
     (if \<not> tsAttached s then (Inr (RespError ''TSDB is not configured''), s)
      else attempt (ret (extractTsdbParams q)) (\<lambda>r. case r of
        Inl e \<Rightarrow> ret (Inr (RespError e))
      | Inr (propertyId, start, e) \<Rightarrow>
          abind (svc_GetTSDB E propertyId start e) (\<lambda>points. ret (Inr (RespNew None (Points points))))) s)"

section \<open>Reads\<close>

definition svc_Get :: "('w, 'c) svc_env \<Rightarrow> request \<Rightarrow> (response, ('w, 'c) svc) act" where
  "svc_Get E pb =
     (if FilterMode pb then
        abind (cacheGet E (Element pb)) (\<lambda>hit. case hit of
          Some cached \<Rightarrow> ret (Inr (RespNew None (Single cached)))
        | None \<Rightarrow>
            attempt (ret (ElementToQuery E (ielements.truncate pb))) (\<lambda>r. case r of
              Inl e \<Rightarrow> ret (Inr (RespError e))
            | Inr q \<Rightarrow>
                abind (fetchFromDbAndCache E q) (\<lambda>result.
                  ret (Inr (case result of RespError e \<Rightarrow> RespSame pb | _ \<Rightarrow> result)))))
      else
        attempt (ret (RequestQuery pb)) (\<lambda>r. case r of
          Inl e \<Rightarrow> ret (Inr (RespError e))
        | Inr q \<Rightarrow>
            if isTsdbQuery q then handleTsdbQuery E q
            else
              abind (cacheFetch E q) (\<lambda>cached. case cached of
                Some (values, md) \<Rightarrow> ret (Inr (RespRows values md))
              | None \<Rightarrow> fetchFromDbAndCache E q)))"

section \<open>Lifecycle\<close>

text \<open>
  Activate: the registrations (the two types, and the decorators of the primary, unique and
  non-unique keys that the agreement has) are calls of the resources, done in order up to
  the first error.  Then the cache is loaded, if the second argument says so, and the third
  argument is taken as the time series plugin if it is one.
\<close>

definition svc_Activate :: "('w, 'c) svc_env \<Rightarrow> (unit, ('w, 'c) svc) act" where
  "svc_Activate E =
     (case svcArgs E of
        [] \<Rightarrow> ret (Inl (Panic ''index out of range''))
      | a # args \<Rightarrow>
          if \<not> (case a of ArgPlugin o' t \<Rightarrow> o' | _ \<Rightarrow> False) then ret (Inl (Panic ''interface conversion''))
          else
            abind (\<lambda>s. (Inr (), s\<lparr>attached := True\<rparr>)) (\<lambda>_.
            abind (afold (\<lambda>u m. on_world m) () (registrations E)) (\<lambda>_.
            abind (case args of
                     ArgBool True # rest \<Rightarrow>
                       abind (loadCacheInitElements E) (\<lambda>init s. (Inr (), s\<lparr>scache := Some (cacheNew E init)\<rparr>))
                   | _ \<Rightarrow> ret (Inr ())) (\<lambda>_.
            case args of
              b # ArgPlugin o' True # rest \<Rightarrow> (\<lambda>s. (Inr (), s\<lparr>tsAttached := True\<rparr>))
            | _ \<Rightarrow> ret (Inr ())))))"

text \<open>DeActivate: the error of closing the plugin is returned.\<close>

definition svc_DeActivate :: "('w, 'c) svc_env \<Rightarrow> (unit, ('w, 'c) svc) act" where
  "svc_DeActivate E s0 =
     (let s = s0\<lparr>scache := None\<rparr> in
      abind (\<lambda>s. if tsAttached s
                 then abind (dropped (on_world (tsClose E))) (\<lambda>_ s. (Inr (), s\<lparr>tsAttached := False\<rparr>)) s
                 else (Inr (), s))
        (\<lambda>_. attempt (on_orm (ormClose E)) (\<lambda>r s.
               (case r of Inl e \<Rightarrow> Inl (Err e) | Inr u \<Rightarrow> Inr (), s\<lparr>attached := False\<rparr>))) s)"

end
