(* ===== verification/Demo_Svc.thy ===== *)
theory Demo_Svc
  imports Orm_Svc Pg_Read_Correct
begin

text \<open>
  A service over the database of \<open>Demo_Db\<close>, with a cache of elements by their name, to
  evaluate the theorems at.
\<close>

type_synonym demo_cache = "(string, gval) gomap"

definition demo_key :: "rvalue \<Rightarrow> string option" where
  "demo_key x =
     (case deref x of
        Some (GStruct tn fs) \<Rightarrow> (case map_of fs ''Name'' of Some (GString s) \<Rightarrow> Some s | _ \<Rightarrow> None)
      | _ \<Rightarrow> None)"

definition no_key :: "'a res" where
  "no_key = Inl (Err ''no primary key'')"

definition demo_lookup :: "rvalue \<Rightarrow> (gval, demo_cache) act" where
  "demo_lookup x c =
     (case demo_key x of
        None \<Rightarrow> (no_key, c)
      | Some k \<Rightarrow> ((case map_of c k of None \<Rightarrow> Inl (Err ''not found'') | Some v \<Rightarrow> Inr v), c))"

definition demo_store :: "rvalue \<Rightarrow> (unit, demo_cache) act" where
  "demo_store x c =
     (case (x, demo_key x) of
        (Some v, Some k) \<Rightarrow> (Inr (), AList.update k v c)
      | _ \<Rightarrow> (no_key, c))"

definition demo_remove :: "rvalue \<Rightarrow> (unit, demo_cache) act" where
  "demo_remove x c =
     (case demo_key x of
        None \<Rightarrow> (no_key, c)
      | Some k \<Rightarrow> (Inr (), filter (\<lambda>e. fst e \<noteq> k) c))"

definition demo_page :: "int \<Rightarrow> int \<Rightarrow> iquery \<Rightarrow> (rvalue list \<times> result_md, demo_cache) act" where
  "demo_page start n q c =
     (if n < 0 then (no_key, c)
      else (Inr (map (\<lambda>e. Some (snd e)) (take (nat n) (drop (nat start) c)), MdTotal (Some (int (length c)))), c))"

definition demo_container :: "bool \<Rightarrow> rvalue list \<Rightarrow> request" where
  "demo_container note xs =
     \<lparr>Element = (case xs of [] \<Rightarrow> None | x # r \<Rightarrow> x), Elements = xs,
      Keys = map (\<lambda>i. Some (GString (nat_str i))) [0..<length xs],
      Notification = note, FilterMode = False, RequestQuery = Inl (Err ''no query'')\<rparr>"

definition demo_svc :: "(demo_state pg, demo_cache) svc_env" where
  "demo_svc = \<lparr>
     ormRead = Read demo_pg 0, ormWrite = Write demo_pg 0, ormDelete = Delete demo_pg 0, ormClose = Close demo_pg,
     tsAdd = AddTSDB demo_pg, tsGet = (\<lambda>i a b. on_db (reading (GetTSDB demo_pg i a b))), tsClose = Close demo_pg,
     callback = None, cacheNew = (\<lambda>xs. snd (afold (\<lambda>u x. demo_store x) () xs [])),
     cacheSize = length, cacheLookup = demo_lookup, cacheStore = demo_store, cacheMerge = demo_store,
     cacheRemove = demo_remove, cachePage = demo_page, cacheCounts = (\<lambda>c. []),
     container = demo_container,
     svcNode = (\<lambda>t. if t = ''Order'' then Some demo_node else None),
     primaryFields = (\<lambda>n. Inr [''Name'']), primaryValue = (\<lambda>x. ([], None)),
     parseQuery = (\<lambda>t. Inr demo_query), typeString = typ_name,
     serviceItem = GPtr (demo_struct ''Order'') None,
     svcArgs = [ArgPlugin True True, ArgBool True], registrations = []\<rparr>"

text \<open>An order by name, the service before any request, and one whose cache has an order.\<close>

definition demo_named :: "string \<Rightarrow> gval" where
  "demo_named nm = GPtr (demo_struct ''Order'') (Some (GStruct ''Order'' [(''Name'', GString nm)]))"

definition demo_svc0 :: "(demo_state pg, demo_cache) svc" where
  "demo_svc0 = \<lparr>world = demo_s0\<lparr>verifyed := [(''Order'', True), (''Line'', True), (''Tag'', True), (''Addr'', True),
       (''string'', True)]\<rparr>,
     attached = True, scache = Some [(''o1'', demo_named ''o1'')], tsAttached = False\<rparr>"

definition demo_by_key :: "string \<Rightarrow> request" where
  "demo_by_key nm = (demo_container False [Some (demo_named nm)])\<lparr>FilterMode := True\<rparr>"

definition demo_by_query :: "iquery \<Rightarrow> request" where
  "demo_by_query q = (demo_container False [])\<lparr>RequestQuery := Inr q\<rparr>"

text \<open>Every type of the introspector of \<^const>\<open>demo_pg\<close> has its tables verified.\<close>

lemma demo_nodes: "nodeByTypeName demo_pg t = Some n \<Longrightarrow> n \<in> set (demo_node # map snd (Attributes demo_node))"
  by (auto simp: demo_pg_def demo_over_def image_iff dest!: map_of_SomeD split: if_splits) force

lemma demo_svc_ready: "all_verified demo_pg q (world demo_svc0)"
proof -
  let ?known = "[''Order'', ''Line'', ''Tag'', ''Addr'', ''string'']"
  have k: "gkeys (verifyed (world demo_svc0)) = ?known" by code_simp
  have "\<forall>n \<in> set (demo_node # map snd (Attributes demo_node)). \<forall>t \<in> set (gkeys (collectTables demo_pg n [])). t \<in> set ?known"
    by code_simp
  with demo_nodes k show ?thesis unfolding all_verified_def by (metis subsetI)
qed

end
