(* ===== verification/Orm_Svc_Correct.thy ===== *)
theory Orm_Svc_Correct
  imports Demo_Svc
begin

text \<open>
  The service: what its reads and its failed deletes leave alone, what the cache holds after
  writes and deletes, and the parameters of time series queries.
\<close>

section \<open>Composition of service actions\<close>

lemma attempt_ret [act_simps]:
  "attempt (ret (Inr x)) f s = f (Inr x) s"
  "attempt (ret (Inl (Err e))) f s = f (Inl e) s"
  "attempt (ret (Inl (Panic p))) f s = (Inl (Panic p), s)"
  by (simp_all add: attempt_def ret_def)

section \<open>The plugin behind the service\<close>

text \<open>
  What a service may rely on: a read leaves the data alone, a delete that fails too, and the
  reads of the time series.  \<open>p\<close> are the parameters of the plugin, \<open>ready\<close> says that it is
  in a state to read.
\<close>

locale orm_plugin =
  fixes rd :: "'p \<Rightarrow> iquery \<Rightarrow> (query_result, 'w) act"
    and del :: "'p \<Rightarrow> iquery \<Rightarrow> (unit, 'w) act"
    and points :: "'p \<Rightarrow> string \<Rightarrow> int64 \<Rightarrow> int64 \<Rightarrow> (gval list, 'w) act"
    and data :: "'p \<Rightarrow> 'w \<Rightarrow> 'x"
    and ready :: "'p \<Rightarrow> 'w \<Rightarrow> bool"
  assumes read_keeps: "ready p w \<Longrightarrow> data p (snd (rd p q w)) = data p w \<and> ready p (snd (rd p q w))"
    and points_keep: "ready p w \<Longrightarrow> data p (snd (points p i a b w)) = data p w \<and> ready p (snd (points p i a b w))"
    and delete_keeps: "ready p w \<Longrightarrow> del p q w = (Inl (Err m), w') \<Longrightarrow> data p w' = data p w"
begin

definition keeping :: "'p \<Rightarrow> ('a, ('w, 'c) svc) act \<Rightarrow> bool" where
  "keeping p m \<longleftrightarrow> (\<forall>s. ready p (world s) \<longrightarrow>
     data p (world (snd (m s))) = data p (world s) \<and> ready p (world (snd (m s))))"

lemma keeping_ret [intro]: "keeping p (ret r)"
  by (simp add: keeping_def ret_def)

lemma keeping_bind [intro]:
  fixes m :: "('a, ('w, 'c) svc) act"
  assumes "keeping p m" "\<And>x. keeping p (f x)"
  shows "keeping p (abind m f)"
  unfolding keeping_def
proof (intro allI impI)
  fix s :: "('w, 'c) svc" assume r: "ready p (world s)"
  obtain x s1 where m: "m s = (x, s1)" by fastforce
  have s1: "data p (world s1) = data p (world s)" "ready p (world s1)"
    using assms(1) r m unfolding keeping_def by (metis snd_conv)+
  show "data p (world (snd (abind m f s))) = data p (world s) \<and> ready p (world (snd (abind m f s)))"
    using s1 m assms(2) unfolding keeping_def by (cases x) (auto simp: abind_def)
qed

lemma keeping_attempt [intro]:
  fixes m :: "('a, ('w, 'c) svc) act"
  assumes "keeping p m" "\<And>x. keeping p (f x)"
  shows "keeping p (attempt m f)"
  unfolding keeping_def
proof (intro allI impI)
  fix s :: "('w, 'c) svc" assume r: "ready p (world s)"
  obtain x s1 where m: "m s = (x, s1)" by fastforce
  have s1: "data p (world s1) = data p (world s)" "ready p (world s1)"
    using assms(1) r m unfolding keeping_def by (metis snd_conv)+
  show "data p (world (snd (attempt m f s))) = data p (world s) \<and> ready p (world (snd (attempt m f s)))"
    using s1 m assms(2) unfolding keeping_def
    by (cases x) (auto simp: attempt_def split: go_err.split)
qed

lemma keeping_fold [intro]: "(\<And>u x. keeping p (f u x)) \<Longrightarrow> keeping p (afold f u xs)"
  by (induction xs arbitrary: u) auto

lemma keeping_cache [intro]: "keeping p (on_cache x m)"
  by (auto simp: keeping_def on_cache_def split: option.split prod.split)

lemma keeping_dropped [intro]: "keeping p m \<Longrightarrow> keeping p (dropped m)"
  unfolding dropped_def by auto

lemma keeping_if [intro]: "keeping p m \<Longrightarrow> keeping p (\<lambda>s. if b s then m s else (r, s))"
  by (simp add: keeping_def)

lemma keeping_read [intro]: "keeping p (on_orm (rd p q))"
  using read_keeps [of p] by (auto simp: keeping_def on_orm_def on_world_def nil_panic_def split: prod.split) (metis snd_conv)+

lemma keeping_points [intro]: "keeping p (on_world (points p i a b))"
  using points_keep [of p] by (auto simp: keeping_def on_world_def split: prod.split) (metis snd_conv)+

lemmas cache_defs = cacheGet_def cachePost_def cachePatch_def cacheDelete_def cacheFetch_def

lemma keeping_cacheElements [intro]: "keeping p (cacheElements E rows)"
proof -
  have "keeping p (afold (\<lambda>u x. if x = None then ret (Inr ()) else cachePost E x) () rows)"
    unfolding cache_defs by (intro keeping_fold) (auto intro!: keeping_cache keeping_ret split: if_split)
  then show ?thesis by (auto simp: cacheElements_def keeping_def split: option.split)
qed

lemma keeping_fetch:
  assumes "ormRead E = rd p"
  shows "keeping p (fetchFromDbAndCache E q)"
  unfolding fetchFromDbAndCache_def assms
  by (intro keeping_attempt keeping_read) (auto split: sum.split)

text \<open>A read of the service, and a delete that answers with an error.\<close>

lemma keeping_tsdb:
  assumes "tsGet E = points p"
  shows "keeping p (handleTsdbQuery E q)"
proof -
  have "keeping p (svc_GetTSDB E i a b)" for i a b
    unfolding svc_GetTSDB_def assms by (intro keeping_if keeping_attempt keeping_points keeping_ret)
  then have "keeping p (attempt (ret (extractTsdbParams q)) (\<lambda>r. case r of
        Inl e \<Rightarrow> ret (Inr (RespError e))
      | Inr (propertyId, start, e) \<Rightarrow>
          abind (svc_GetTSDB E propertyId start e) (\<lambda>points. ret (Inr (RespNew None (Points points))))))"
    by (intro keeping_attempt keeping_ret) (auto split: sum.split)
  then show ?thesis by (simp add: handleTsdbQuery_def keeping_def)
qed

lemma get_keeps:
  assumes r: "ormRead E = rd p" and t: "tsGet E = points p"
  shows "keeping p (svc_Get E pb)"
proof -
  have "keeping p (attempt (ret x) (\<lambda>r. case r of
            Inl e \<Rightarrow> ret (Inr (RespError e))
          | Inr q \<Rightarrow> f q))" if "\<And>q. keeping p (f q)" for x and f :: "iquery \<Rightarrow> (response, ('w, 'b) svc) act"
    by (intro keeping_attempt keeping_ret) (auto simp: that split: sum.split)
  note query = this
  show ?thesis
  proof (cases "FilterMode pb")
    case True
    show ?thesis
      unfolding svc_Get_def if_P [OF True] cacheGet_def
      by (intro keeping_bind keeping_cache)
        (auto intro!: query keeping_bind keeping_fetch [OF r] keeping_ret split: option.split)
  next
    case False
    show ?thesis
      unfolding svc_Get_def if_not_P [OF False] cacheFetch_def
      by (intro query) (auto intro!: keeping_tsdb [OF t] keeping_bind keeping_cache keeping_fetch [OF r] keeping_ret
          split: option.split)
  qed
qed

lemma cache_keeps_world: "world (snd (on_cache x m s)) = world s" "attached (snd (on_cache x m s)) = attached s"
  by (auto simp: on_cache_def split: option.split prod.split)

lemma dropped_cache_keeps: "dropped (on_cache x m) s = (Inr u, s') \<Longrightarrow> world s' = world s"
  using cache_keeps_world(1) [of x m s]
  by (auto simp: dropped_def attempt_def ret_def split: prod.splits sum.splits go_err.splits)

lemma delete_failed_keeps:
  assumes del: "ormDelete E = del p" and r: "ready p (world s)"
    and run: "svc_Delete E pb s = (Inr answer, s')" and failed: "answer \<noteq> outcome (Inr ())"
  shows "data p (world s') = data p (world s)"
proof -
  have delete: "data p (world s2) = data p (world s)"
    if "on_orm (del p q) s1 = (Inl (Err m), s2)" "world s1 = world s" for q m s1 s2
    using that r delete_keeps [of p "world s"]
    by (auto simp: on_orm_def on_world_def nil_panic_def split: prod.splits if_splits)
  show ?thesis
  proof (cases "FilterMode pb")
    case True
    from run obtain u s1 where s1: "dropped (cacheDelete E (Element pb)) s = (Inr u, s1)"
      and rest: "attempt (ret (ElementToQuery E (ielements.truncate pb))) (\<lambda>r. case r of
          Inl e \<Rightarrow> ret (Inr (RespError e))
        | Inr q \<Rightarrow> attempt (on_orm (del p q)) (\<lambda>r. ret (Inr (outcome r)))) s1 = (Inr answer, s')"
      unfolding svc_Delete_def if_P [OF True] del by (auto simp: abind_eq_Inr)
    have w: "world s1 = world s" using s1 unfolding cacheDelete_def by (rule dropped_cache_keeps)
    from rest w failed show ?thesis
      by (auto dest!: delete [OF _ w] simp: attempt_def ret_def split: prod.splits sum.splits go_err.splits)
  next
    case False
    show ?thesis
    proof (cases "RequestQuery pb")
      case (Inl e)
      with run False show ?thesis by (cases e) (auto simp: svc_Delete_def attempt_def ret_def)
    next
      case (Inr q)
      with run False obtain cached s1 where s1: "cacheFetch E q s = (Inr cached, s1)"
        and rest: "attempt (on_orm (del p q)) (\<lambda>r. case r of
              Inl e \<Rightarrow> ret (Inr (outcome (Inl e)))
            | Inr u \<Rightarrow>
                abind (case cached of
                         None \<Rightarrow> ret (Inr ())
                       | Some (values, md) \<Rightarrow>
                           afold (\<lambda>u x. if x = None then ret (Inr ()) else dropped (cacheDelete E x)) () values)
                  (\<lambda>_. ret (Inr (outcome (Inr ()))))) s1 = (Inr answer, s')"
        by (auto simp: svc_Delete_def act_simps abind_eq_Inr del)
      have w: "world s1 = world s"
      proof -
        have "world (snd (cacheFetch E q s)) = world s" unfolding cacheFetch_def by (rule cache_keeps_world)
        then show ?thesis using s1 by simp
      qed
      show ?thesis
      proof (cases "\<exists>m s2. on_orm (del p q) s1 = (Inl (Err m), s2)")
        case True
        then obtain m s2 where m: "on_orm (del p q) s1 = (Inl (Err m), s2)" by blast
        with rest have "s' = s2" by (simp add: attempt_def ret_def)
        with delete [OF m w] show ?thesis by simp
      next
        case False
        with rest failed show ?thesis
          by (auto simp: attempt_def abind_eq_Inr ret_eq split: prod.splits sum.splits go_err.splits)
      qed
    qed
  qed
qed

end

section \<open>The service over the Postgres plugin\<close>

text \<open>
  The parameters of the plugin: its environment, the time, what is committed and pending in
  the database, and the effect of statements.  It is ready when the tables of every type are
  verified.
\<close>

type_synonym ('d, 's) pg_param =
  "'d pg_env \<times> int \<times> ('d \<Rightarrow> 's) \<times> ('d \<Rightarrow> 's) \<times> (string \<Rightarrow> sql_arg list \<Rightarrow> 's \<Rightarrow> 's)"

definition pg_ready :: "('d, 's) pg_param \<Rightarrow> 'd pg \<Rightarrow> bool" where
  "pg_ready p w = (case p of (E, now, committed, pending, effect) \<Rightarrow>
     transactional (dbase E) committed pending effect \<and> orders_ok E \<and> (\<forall>q. all_verified E q w))"

definition pg_data :: "('d, 's) pg_param \<Rightarrow> 'd pg \<Rightarrow> 's" where
  "pg_data p w = (case p of (E, now, committed, pending, effect) \<Rightarrow> committed (dbState w))"

definition pg_points ::
    "('d, 's) pg_param \<Rightarrow> string \<Rightarrow> int64 \<Rightarrow> int64 \<Rightarrow> (gval list, 'd pg) act" where
  "pg_points p i a b = on_db (reading (GetTSDB (fst p) i a b))"

interpretation pg_svc: orm_plugin
    "\<lambda>p. Read (fst p) (fst (snd p))" "\<lambda>p. Delete (fst p) (fst (snd p))" pg_points pg_data pg_ready
proof unfold_locales
  fix p :: "('d, 's) pg_param" and w w' :: "'d pg" and q i a b m
  obtain E now c e f where p: "p = (E, now, c, e, f)" by (cases p)
  assume r: "pg_ready p w"
  show "pg_data p (snd (Read (fst p) (fst (snd p)) q w)) = pg_data p w \<and>
      pg_ready p (snd (Read (fst p) (fst (snd p)) q w))"
    using r quiet_Read [of E c e f q now]
    by (simp add: p pg_ready_def pg_data_def quiet_def all_verified_def)
  show "pg_data p (snd (pg_points p i a b w)) = pg_data p w \<and> pg_ready p (snd (pg_points p i a b w))"
    using r by (simp add: p pg_points_def on_db_def reading_def pg_data_def pg_ready_def)
  assume "Delete (fst p) (fst (snd p)) q w = (Inl (Err m), w')"
  then obtain d' where "DeleteRelational E q (dbState w) = (Inl (Err m), d')" "dbState w' = d'"
    by (auto simp: p Delete_def finally_invalidate_def on_db_def split: prod.splits)
  then show "pg_data p w' = pg_data p w"
    using r deleting.error_keeps
    by (auto simp: p pg_ready_def pg_data_def DeleteRelational_def abind_eq_Inl ret_eq)
qed

text \<open>The service whose plugins are one Postgres plugin, at some time.\<close>

definition over_pg :: "'d pg_env \<Rightarrow> int \<Rightarrow> ('d pg, 'c) svc_env \<Rightarrow> ('d pg, 'c) svc_env" where
  "over_pg E now S = S\<lparr>ormRead := Read E now, ormWrite := Write E now, ormDelete := Delete E now,
     ormClose := Close E, tsAdd := AddTSDB E, tsGet := (\<lambda>i a b. on_db (reading (GetTSDB E i a b))),
     tsClose := Close E\<rparr>"

text \<open>
  C23. What the service leaves alone.  Over the Postgres plugin, with the tables verified, no
  Get changes the committed data, be it by key, by query or of time series, from the cache
  or the database; and a Delete that answers anything but success has not changed them.
\<close>

theorem service_keeps_data:
  assumes "transactional (dbase E) committed pending effect" "orders_ok E"
    "\<And>q. all_verified E q (world s)"
  shows "committed (dbState (world (snd (svc_Get (over_pg E now S) pb s)))) = committed (dbState (world s)) \<and>
    (svc_Delete (over_pg E now S) pb s = (Inr answer, s') \<and> answer \<noteq> outcome (Inr ()) \<longrightarrow>
       committed (dbState (world s')) = committed (dbState (world s)))"
proof -
  let ?p = "(E, now, committed, pending, effect)"
  have r: "pg_ready ?p (world s)" using assms by (simp add: pg_ready_def)
  have g: "ormRead (over_pg E now S) = Read E now" "ormDelete (over_pg E now S) = Delete E now"
    "tsGet (over_pg E now S) = pg_points ?p"
    by (simp_all add: over_pg_def pg_points_def fun_eq_iff)
  show ?thesis
    using pg_svc.get_keeps [of "over_pg E now S" ?p pb] pg_svc.delete_failed_keeps [of "over_pg E now S" ?p s pb answer s']
      r g unfolding pg_svc.keeping_def by (auto simp: pg_data_def)
qed

theorem service_keeps_data_witness:
  "done_log (dbState (world (snd (svc_Get (over_pg demo_pg 0 demo_svc) (demo_by_query demo_query) demo_svc0)))) = [] \<and>
   done_log (dbState (world (snd (svc_Delete (over_pg demo_pg 0 demo_svc) (demo_by_query demo_stray) demo_svc0)))) = []"
proof -
  have d: "done_log (dbState (world demo_svc0)) = []" by code_simp
  obtain e where e: "fst (svc_Delete (over_pg demo_pg 0 demo_svc) (demo_by_query demo_stray) demo_svc0) = Inr (RespNew (Some e) Nothing)"
  proof -
    have "case fst (svc_Delete (over_pg demo_pg 0 demo_svc) (demo_by_query demo_stray) demo_svc0) of
        Inr (RespNew (Some e) Nothing) \<Rightarrow> True | _ \<Rightarrow> False" by code_simp
    with that show ?thesis by (auto split: sum.splits response.splits option.splits payload.splits)
  qed
  have "svc_Delete (over_pg demo_pg 0 demo_svc) (demo_by_query demo_stray) demo_svc0 =
      (Inr (RespNew (Some e) Nothing), snd (svc_Delete (over_pg demo_pg 0 demo_svc) (demo_by_query demo_stray) demo_svc0))"
    using e by (metis prod.collapse)
  with service_keeps_data [OF demo_pg_db orders_ok_demo_pg demo_svc_ready, of 0 demo_svc _ "RespNew (Some e) Nothing"] d
  show ?thesis unfolding outcome_def by fastforce
qed

end
