(* ===== verification/Orm_Svc_Cache.thy ===== *)
theory Orm_Svc_Cache
  imports Orm_Svc_Correct
begin

text \<open>
  The service and its cache: what the cache holds after writes and deletes, and what a Get
  answers then; the parameters of time series queries; queries by example.
\<close>

section \<open>The cache\<close>

text \<open>
  What the package of the cache documents: it keeps elements by their primary key (\<open>key\<close>,
  absent for an element without one).  \<open>look\<close> is what it holds, \<open>merge\<close> the effect of a
  partial update.  Reading does not change it, and a page has at most the asked number of
  elements.
\<close>

definition cache_laws ::
    "('w, 'c) svc_env \<Rightarrow> ('c \<Rightarrow> 'k \<Rightarrow> gval option) \<Rightarrow> (rvalue \<Rightarrow> 'k option) \<Rightarrow> bool" where
  "cache_laws E look key \<longleftrightarrow>
     (\<forall>x c k v. key x = Some k \<and> look c k = Some v \<longrightarrow>
        fst (cacheLookup E x c) = Inr v \<and> look (snd (cacheLookup E x c)) = look c) \<and>
     (\<forall>v c k. key (Some v) = Some k \<longrightarrow>
        fst (cacheStore E (Some v) c) = Inr () \<and> look (snd (cacheStore E (Some v) c)) = (look c)(k \<mapsto> v)) \<and>
     (\<forall>v c. key (Some v) = None \<longrightarrow>
        (\<exists>m. fst (cacheStore E (Some v) c) = Inl (Err m)) \<and> look (snd (cacheStore E (Some v) c)) = look c) \<and>
     (\<forall>x c k. key x = Some k \<longrightarrow>
        fst (cacheRemove E x c) = Inr () \<and> look (snd (cacheRemove E x c)) = (look c)(k := None)) \<and>
     (\<forall>x c. key x = None \<longrightarrow>
        (\<exists>m. fst (cacheRemove E x c) = Inl (Err m)) \<and> look (snd (cacheRemove E x c)) = look c) \<and>
     (\<forall>i n q c. look (snd (cachePage E i n q c)) = look c) \<and>
     (\<forall>i n q c xs md. fst (cachePage E i n q c) = Inr (xs, md) \<longrightarrow> int (length xs) \<le> n)"

lemma cache_lawsD:
  assumes "cache_laws E look key"
  shows "key x = Some k \<Longrightarrow> look c k = Some v \<Longrightarrow>
      fst (cacheLookup E x c) = Inr v \<and> look (snd (cacheLookup E x c)) = look c"
    and "key (Some v) = Some k \<Longrightarrow>
      fst (cacheStore E (Some v) c) = Inr () \<and> look (snd (cacheStore E (Some v) c)) = (look c)(k \<mapsto> v)"
    and "key (Some v) = None \<Longrightarrow>
      (\<exists>m. fst (cacheStore E (Some v) c) = Inl (Err m)) \<and> look (snd (cacheStore E (Some v) c)) = look c"
    and "key x = Some k \<Longrightarrow>
      fst (cacheRemove E x c) = Inr () \<and> look (snd (cacheRemove E x c)) = (look c)(k := None)"
    and "key x = None \<Longrightarrow>
      (\<exists>m. fst (cacheRemove E x c) = Inl (Err m)) \<and> look (snd (cacheRemove E x c)) = look c"
    and "look (snd (cachePage E i n q c)) = look c"
    and "fst (cachePage E i n q c) = Inr (xs, md) \<Longrightarrow> int (length xs) \<le> n"
  using assms unfolding cache_laws_def by simp_all blast

text \<open>Storing elements one by one: the last element of a key stays.\<close>

definition store_one :: "(rvalue \<Rightarrow> 'k option) \<Rightarrow> rvalue \<Rightarrow> ('k \<Rightarrow> gval option) \<Rightarrow> 'k \<Rightarrow> gval option" where
  "store_one key x m = (case x of None \<Rightarrow> m | Some v \<Rightarrow> (case key x of None \<Rightarrow> m | Some k \<Rightarrow> m(k \<mapsto> v)))"

lemma cachePost_store:
  assumes laws: "cache_laws E look key" and c: "scache s = Some c"
  shows "\<exists>c'. cachePost E (Some v) s = (Inr (), s\<lparr>scache := Some c'\<rparr>) \<and> look c' = store_one key (Some v) (look c)"
proof -
  obtain r c' where r: "cacheStore E (Some v) c = (r, c')" by fastforce
  show ?thesis
    using cache_lawsD(2) [OF laws, of v _ c] cache_lawsD(3) [OF laws, of v c] c
    by (cases "key (Some v)") (auto simp: cachePost_def on_cache_def dropped_def attempt_def ret_def r store_one_def)
qed

lemma cacheAction_stores:
  assumes laws: "cache_laws E look key" and "action = POST \<or> action = PUT"
  shows "scache s = Some c \<Longrightarrow> \<exists>c'. afold (\<lambda>u elem. cache_one E action pb elem) () xs s = (Inr (), s\<lparr>scache := Some c'\<rparr>) \<and>
    look c' = fold (store_one key) xs (look c)"
proof (induction xs arbitrary: s c)
  case Nil
  then show ?case by (intro exI [of _ c]) (cases s, simp add: ret_def)
next
  case (Cons x xs)
  obtain c1 where c1: "cache_one E action pb x s = (Inr (), s\<lparr>scache := Some c1\<rparr>)" "look c1 = store_one key x (look c)"
  proof (cases x)
    case None
    then show ?thesis using that [of c] Cons.prems by (cases s) (simp add: cache_one_def ret_def store_one_def)
  next
    case (Some v)
    from cachePost_store [OF laws Cons.prems, of v] obtain c' where
      "cachePost E (Some v) s = (Inr (), s\<lparr>scache := Some c'\<rparr>)" "look c' = store_one key (Some v) (look c)" by blast
    with that [of c'] Some assms(2) show ?thesis by (auto simp: cache_one_def)
  qed
  from Cons.IH [of "s\<lparr>scache := Some c1\<rparr>" c1] c1 show ?case by (auto simp: abind_def)
qed

text \<open>A Get by key that the cache can answer.\<close>

lemma get_hit:
  assumes laws: "cache_laws E look key" and c: "scache s = Some c"
    and req: "FilterMode pb" "key (Element pb) = Some k" "look c k = Some v"
  shows "fst (svc_Get E pb s) = Inr (RespNew None (Single v)) \<and> world (snd (svc_Get E pb s)) = world s"
proof -
  obtain c' where "cacheLookup E (Element pb) c = (Inr v, c')"
    using cache_lawsD(1) [OF laws req(2,3)] by (cases "cacheLookup E (Element pb) c") auto
  then show ?thesis
    using c req(1) by (simp add: svc_Get_def cacheGet_def on_cache_def attempt_def abind_def ret_def)
qed

text \<open>
  C14. Reading one's writes.  Without callbacks, after a Post or Put of elements every Get by
  the key of one of them answers from the cache, with the last element of that key, whether
  the write to the database succeeded or not: the cache is changed before the write and
  not rolled back when the write fails.
\<close>

theorem post_then_get:
  assumes "cache_laws E look key" "callback E = None" "action = POST \<or> action = PUT"
    and "scache s = Some c" "elemList E pb = Inr elems"
    and "do_action E action pb s = (Inr answer, s')"
    and "FilterMode req" "key (Element req) = Some k"
    and "fold (store_one key) (Elements elems) (look c) k = Some v"
  shows "fst (svc_Get E req s') = Inr (RespNew None (Single v)) \<and>
    (answer = RespNew None L8Empty \<or> (\<exists>e w. ormWrite E action (ielements.truncate elems) (world s) = (Inl (Err e), w) \<and> answer = RespError e))"
proof -
  obtain c' where c': "cacheAction E action elems s = (Inr (), s\<lparr>scache := Some c'\<rparr>)"
      "look c' = fold (store_one key) (Elements elems) (look c)"
    using cacheAction_stores [OF assms(1,3,4)] assms(4) by (auto simp: cacheAction_def)
  let ?s = "s\<lparr>scache := Some c'\<rparr>"
  have run: "attempt (on_orm (ormWrite E action (ielements.truncate elems))) (\<lambda>r. case r of
           Inl e \<Rightarrow> ret (Inr (RespError e))
         | Inr u \<Rightarrow> abind (After E action elems) (\<lambda>_. ret (Inr (RespNew None L8Empty)))) ?s = (Inr answer, s')"
    using assms(2,5,6) c'(1) by (simp add: do_action_def act_simps Before_def abind_def ret_def)
  have "scache s' = Some c' \<and> (answer = RespNew None L8Empty \<or>
      (\<exists>e w. ormWrite E action (ielements.truncate elems) (world s) = (Inl (Err e), w) \<and> answer = RespError e))"
    using run assms(2)
    by (auto simp: attempt_def on_orm_def on_world_def After_def abind_def ret_def nil_panic_def
        split: prod.splits sum.splits go_err.splits if_splits)
  then show ?thesis using get_hit [OF assms(1) _ assms(7,8), of s' c' v] c'(2) assms(9) by simp
qed

lemma demo_cache_laws: "cache_laws demo_svc map_of demo_key"
proof -
  have filter: "map_of (filter (\<lambda>e. fst e \<noteq> k) c) = (map_of c)(k := None)" for c :: demo_cache and k
    by (induction c) auto
  show ?thesis
    by (auto simp: cache_laws_def demo_svc_def demo_lookup_def demo_store_def demo_remove_def demo_page_def
        map_of_update filter no_key_def fun_eq_iff split: option.split)
qed

theorem post_then_get_witness:
  "fst (svc_Get demo_svc (demo_by_key ''fail'') (snd (do_action demo_svc POST
      (demo_container False [Some (demo_named ''fail'')]) demo_svc0))) =
     Inr (RespNew None (Single (demo_named ''fail''))) \<and>
   fst (do_action demo_svc POST (demo_container False [Some (demo_named ''fail'')]) demo_svc0) = Inr (RespError ''exec'')"
proof -
  let ?pb = "demo_container False [Some (demo_named ''fail'')]"
  have a: "fst (do_action demo_svc POST ?pb demo_svc0) = Inr (RespError ''exec'')" by code_simp
  have e: "elemList demo_svc ?pb = Inr ?pb" by code_simp
  have c: "scache demo_svc0 = Some [(''o1'', demo_named ''o1'')]" by code_simp
  have "callback demo_svc = None" by (simp add: demo_svc_def)
  moreover have "do_action demo_svc POST ?pb demo_svc0 = (Inr (RespError ''exec''), snd (do_action demo_svc POST ?pb demo_svc0))"
    using a by (metis prod.collapse)
  moreover have "FilterMode (demo_by_key ''fail'')" "demo_key (Element (demo_by_key ''fail'')) = Some ''fail''" by code_simp+
  moreover have "fold (store_one demo_key) (Elements ?pb) (map_of [(''o1'', demo_named ''o1'')]) ''fail'' = Some (demo_named ''fail'')"
    by (simp add: demo_container_def store_one_def demo_key_def demo_named_def)
  ultimately show ?thesis
    using post_then_get [OF demo_cache_laws _ disjI1 [OF refl] c e] a by blast
qed

section \<open>Deletes\<close>

definition drop_one :: "(rvalue \<Rightarrow> 'k option) \<Rightarrow> rvalue \<Rightarrow> ('k \<Rightarrow> gval option) \<Rightarrow> 'k \<Rightarrow> gval option" where
  "drop_one key x m = (if x = None then m else (case key x of None \<Rightarrow> m | Some k \<Rightarrow> m(k := None)))"

lemma cacheDelete_drops:
  assumes laws: "cache_laws E look key" and c: "scache s = Some c"
  shows "\<exists>c'. dropped (cacheDelete E (Some v)) s = (Inr (), s\<lparr>scache := Some c'\<rparr>) \<and> look c' = drop_one key (Some v) (look c)"
proof -
  obtain r c' where r: "cacheRemove E (Some v) c = (r, c')" by fastforce
  show ?thesis
    using cache_lawsD(4) [OF laws, of "Some v" _ c] cache_lawsD(5) [OF laws, of "Some v" c] c
    by (cases "key (Some v)") (auto simp: cacheDelete_def on_cache_def dropped_def attempt_def ret_def r drop_one_def)
qed

lemma cacheDelete_loop:
  assumes laws: "cache_laws E look key"
  shows "scache s = Some c \<Longrightarrow>
    \<exists>c'. afold (\<lambda>u x. if x = None then ret (Inr ()) else dropped (cacheDelete E x)) () xs s = (Inr (), s\<lparr>scache := Some c'\<rparr>) \<and>
      look c' = fold (drop_one key) xs (look c)"
proof (induction xs arbitrary: s c)
  case Nil
  then show ?case by (intro exI [of _ c]) (cases s, simp add: ret_def)
next
  case (Cons x xs)
  obtain c1 where c1: "(if x = None then ret (Inr ()) else dropped (cacheDelete E x)) s = (Inr (), s\<lparr>scache := Some c1\<rparr>)"
      "look c1 = drop_one key x (look c)"
  proof (cases x)
    case None
    then show ?thesis using that [of c] Cons.prems by (cases s) (simp add: ret_def drop_one_def)
  next
    case (Some v)
    with cacheDelete_drops [OF laws Cons.prems, of v] that show ?thesis by auto
  qed
  from Cons.IH [of "s\<lparr>scache := Some c1\<rparr>" c1] c1 show ?case by (auto simp: abind_def)
qed

lemma fold_drop_one:
  "fold (drop_one key) xs m k = (if \<exists>x \<in> set xs. x \<noteq> None \<and> key x = Some k then None else m k)"
  by (induction xs arbitrary: m) (auto simp: drop_one_def split: option.split)

text \<open>
  C31. What a delete takes from the cache.  A delete by query that succeeds removes from the
  cache exactly the elements of the one page that the cache gave for the query before, at
  most as many as the limit, or one hundred if there is none, however many records the
  query deletes from the database.
\<close>

theorem delete_by_query_cache:
  assumes laws: "cache_laws E look key" and c: "scache s = Some c" "cacheSize E c \<noteq> 0"
    and q: "\<not> FilterMode pb" "RequestQuery pb = Inr q"
    and page: "fst (cachePage E (page_start q) (page_block q) q c) = Inr (values, md)"
    and run: "svc_Delete E pb s = (Inr (outcome (Inr ())), s')"
  shows "\<exists>c'. scache s' = Some c' \<and> int (length values) \<le> page_block q \<and>
    (\<forall>k. look c' k = (if \<exists>x \<in> set values. x \<noteq> None \<and> key x = Some k then None else look c k))"
proof -
  obtain c1 where c1: "cachePage E (page_start q) (page_block q) q c = (Inr (values, md), c1)"
    using page by (cases "cachePage E (page_start q) (page_block q) q c") auto
  have look1: "look c1 = look c" using cache_lawsD(6) [OF laws] c1 by (metis snd_conv)
  obtain cached where fetch: "cacheFetch E q s = (Inr cached, s\<lparr>scache := Some c1\<rparr>)"
    and cached: "cached = Some (values, md) \<or> cached = None \<and> values = []"
    using c c1 by (simp add: cacheFetch_def on_cache_def abind_def ret_def)
  let ?drop = "\<lambda>s2. (case cached of
                 None \<Rightarrow> ret (Inr ())
               | Some (values, md) \<Rightarrow>
                   afold (\<lambda>u x. if x = None then ret (Inr ()) else dropped (cacheDelete E x)) () values) s2"
  obtain w2 where s2: "?drop (s\<lparr>scache := Some c1, world := w2\<rparr>) = (Inr (), s')"
  proof -
    from run q fetch have r: "attempt (on_orm (ormDelete E q)) (\<lambda>r. case r of
              Inl e \<Rightarrow> ret (Inr (outcome (Inl e)))
            | Inr u \<Rightarrow> abind ?drop (\<lambda>_. ret (Inr (outcome (Inr ()))))) (s\<lparr>scache := Some c1\<rparr>)
          = (Inr (outcome (Inr ())), s')"
      by (simp add: svc_Delete_def act_simps) (simp add: abind_def)
    obtain x s3 where x: "on_orm (ormDelete E q) (s\<lparr>scache := Some c1\<rparr>) = (x, s3)" by fastforce
    then have s3: "\<exists>w. s3 = s\<lparr>scache := Some c1, world := w\<rparr>"
      by (cases s) (auto simp: on_orm_def on_world_def nil_panic_def split: if_splits prod.splits)
    have "x = Inr () \<and> ?drop s3 = (Inr (), s')"
      using r x by (auto simp: attempt_def ret_def outcome_def abind_eq_Inr split: sum.splits go_err.splits)
    with s3 that show ?thesis by auto
  qed
  have "\<exists>c'. scache s' = Some c' \<and> look c' = fold (drop_one key) values (look c)"
    using cached
  proof
    assume "cached = Some (values, md)"
    with s2 cacheDelete_loop [OF laws, of "s\<lparr>scache := Some c1, world := w2\<rparr>" c1 "values"] look1
    show ?thesis by auto
  next
    assume "cached = None \<and> values = []"
    with s2 look1 show ?thesis by (auto simp: ret_def)
  qed
  then show ?thesis
    using cache_lawsD(7) [OF laws page] by (auto simp: fold_drop_one)
qed

theorem delete_by_query_cache_witness:
  "\<exists>c'. scache (snd (svc_Delete demo_svc (demo_by_query (demo_query\<lparr>Page := 0\<rparr>)) demo_svc0)) = Some c' \<and>
    int (length [Some (demo_named ''o1'')]) \<le> page_block (demo_query\<lparr>Page := 0\<rparr>) \<and> map_of c' ''o1'' = None"
proof -
  let ?q = "demo_query\<lparr>Page := 0\<rparr>" and ?c = "[(''o1'', demo_named ''o1'')]"
  have a: "fst (svc_Delete demo_svc (demo_by_query ?q) demo_svc0) = Inr (outcome (Inr ()))" by code_simp
  have run: "svc_Delete demo_svc (demo_by_query ?q) demo_svc0 =
      (Inr (outcome (Inr ())), snd (svc_Delete demo_svc (demo_by_query ?q) demo_svc0))"
    using a by (metis prod.collapse)
  have c: "scache demo_svc0 = Some ?c" by code_simp
  have n: "cacheSize demo_svc ?c \<noteq> 0" "\<not> FilterMode (demo_by_query ?q)" by code_simp+
  have q: "RequestQuery (demo_by_query ?q) = Inr ?q" by (simp add: demo_by_query_def)
  have page: "fst (cachePage demo_svc (page_start ?q) (page_block ?q) ?q ?c) = Inr ([Some (demo_named ''o1'')], MdTotal (Some 1))"
    by code_simp
  have k: "demo_key (Some (demo_named ''o1'')) = Some ''o1''" by code_simp
  from delete_by_query_cache [OF demo_cache_laws c n(1,2) q page run] k show ?thesis by auto
qed

end
