(* ===== verification/Orm_Svc_Queries.thy ===== *)
theory Orm_Svc_Queries
  imports Demo_Svc
begin

text \<open>
  The queries a service makes or takes apart: timestamps and parameters of time series
  queries, queries by example; and the guards of the callbacks.
\<close>

section \<open>Timestamps\<close>

lemma scan_uint_digits:
  "list_all is_digit ds \<Longrightarrow> n < 2 ^ 64 \<Longrightarrow>
     scan_uint ds n = Some (min (foldl (\<lambda>n c. 10 * n + digit_val c) n ds) (2 ^ 64 - 1))"
proof (induction ds arbitrary: n)
  case (Cons c ds)
  have mono: "n \<le> foldl (\<lambda>n c. 10 * n + digit_val c) n ds" for n
  proof (induction ds arbitrary: n)
    case (Cons c ds)
    from Cons [of "10 * n + digit_val c"] show ?case by simp
  qed simp
  show ?case
  proof (cases "10 * n + digit_val c < 2 ^ 64")
    case True
    with Cons show ?thesis by auto
  next
    case False
    with mono [of "10 * n + digit_val c"] Cons.prems show ?thesis by auto
  qed
qed auto

text \<open>
  C36. Timestamps saturate.  The timestamp read from the decimal text of any integer is that
  integer, or the nearest 64-bit bound if it is out of range: no text of a number wraps
  around, although the error of the parser is dropped.
\<close>

theorem parseTimestamp_saturates:
  "sint (parseTimestamp (itoa i)) = max (- (2 ^ 63)) (min (2 ^ 63 - 1) i)"
proof -
  have d: "list_all is_digit (nat_str n)" "nat_str n \<noteq> []" "digits_val (nat_str n) = n" for n
    using nat_str_digits [of n] by auto
  have scan: "scan_uint (nat_str n) 0 = Some (min n (2 ^ 64 - 1))" for n
    using scan_uint_digits [OF d(1), of 0 n] d(3) [of n] by (simp add: digits_val_def)
  have s: "sint (word_of_int j :: int64) = j" if "- (2 ^ 63) \<le> j" "j < 2 ^ 63" for j
    using that by transfer (simp add: signed_take_bit_int_eq_self)
  show ?thesis
  proof (cases "i < 0")
    case True
    show ?thesis
    proof (cases "2 ^ 63 < - i")
      case True
      with \<open>i < 0\<close> show ?thesis
        using s [of "- (2 ^ 63)"] by (auto simp: parseTimestamp_def itoa_def Let_def scan d(2))
    next
      case False
      with \<open>i < 0\<close> have "min (nat (- i)) (2 ^ 64 - 1) = nat (- i)" "\<not> 2 ^ 63 < nat (- i)" by auto
      with \<open>i < 0\<close> False show ?thesis
        using s [of i] by (simp add: parseTimestamp_def itoa_def Let_def scan d(2))
    qed
  next
    case False
    have h: "hd (nat_str (nat i)) \<noteq> CHR ''-''" "hd (nat_str (nat i)) \<noteq> CHR ''+''"
      using nat_str_no_sign [of "nat i"] .
    show ?thesis
    proof (cases "2 ^ 63 \<le> i")
      case True
      then have "2 ^ 63 \<le> min (nat i) (2 ^ 64 - 1)" by auto
      with True False h show ?thesis
        using s [of "2 ^ 63 - 1"] by (auto simp: parseTimestamp_def itoa_def Let_def scan d(2))
    next
      case small: False
      with False have "min (nat i) (2 ^ 64 - 1) = nat i" "\<not> 2 ^ 63 \<le> nat i" by auto
      with small False h show ?thesis
        using s [of i] by (simp add: parseTimestamp_def itoa_def Let_def scan d(2))
    qed
  qed
qed

section \<open>Parameters of time series queries\<close>

text \<open>The comparators of the criteria, in order; nothing if a nil pointer is among the nodes.\<close>

function condition_comparators :: "condition iface \<Rightarrow> comparator list option" where
  "condition_comparators NilIface = Some []"
| "condition_comparators NilPtr = None"
| "condition_comparators (Obj (Condition cmp op nxt)) =
     (case cmp of
        NilIface \<Rightarrow> condition_comparators nxt
      | NilPtr \<Rightarrow> None
      | Obj c \<Rightarrow> map_option (Cons c) (condition_comparators nxt))"
  by pat_completeness auto
termination by (relation "measure (size_iface size)") auto

function comparators :: "qexpression iface \<Rightarrow> comparator list option" where
  "comparators NilIface = Some []"
| "comparators NilPtr = None"
| "comparators (Obj (Expression cond op nxt)) =
     (case condition_comparators cond of
        None \<Rightarrow> None
      | Some cs \<Rightarrow> map_option (\<lambda>ds. cs @ ds) (comparators nxt))"
  by pat_completeness auto
termination by (relation "measure (size_iface size)") auto

lemma condition_params_fold:
  "condition_params c p =
     (case condition_comparators c of None \<Rightarrow> nil_panic | Some cs \<Rightarrow> Inr (fold comparator_param cs p))"
proof (induction c arbitrary: p rule: condition_comparators.induct)
  case (3 cmp op nxt)
  then show ?case by (cases cmp) (auto simp: nil_panic_def split: option.split)
qed (simp_all add: nil_panic_def)

lemma expression_params_fold:
  "expression_params e p =
     (case comparators e of None \<Rightarrow> nil_panic | Some cs \<Rightarrow> Inr (fold comparator_param cs p))"
proof (induction e arbitrary: p rule: comparators.induct)
  case (3 cond op nxt)
  then show ?case
    by (cases "condition_comparators cond") (auto simp: condition_params_fold nil_panic_def split: option.split)
qed (simp_all add: nil_panic_def)

text \<open>The right side of the last comparison with a name on its left.\<close>

definition last_value :: "string \<Rightarrow> comparator list \<Rightarrow> string option" where
  "last_value nm cs = map_of (rev (map (\<lambda>c. (CLeft c, CRight c)) cs)) nm"

lemma last_value_Cons:
  "last_value nm (c # cs) =
     (case last_value nm cs of None \<Rightarrow> if CLeft c = nm then Some (CRight c) else None | Some v \<Rightarrow> Some v)"
  by (auto simp: last_value_def map_add_def split: option.split)

lemma comparator_param_triple:
  "comparator_param c (i, a, b) =
     (if CLeft c = ''PropertyId'' then (CRight c, a, b)
      else if CLeft c = ''Tsdbstart'' then (i, parseTimestamp (CRight c), b)
      else if CLeft c = ''Tsdbend'' then (i, a, parseTimestamp (CRight c)) else (i, a, b))"
  by (simp add: comparator_param_def)

lemma fold_comparator_param:
  "fold comparator_param cs (i, a, b) =
     (case last_value ''PropertyId'' cs of None \<Rightarrow> i | Some v \<Rightarrow> v,
      case last_value ''Tsdbstart'' cs of None \<Rightarrow> a | Some v \<Rightarrow> parseTimestamp v,
      case last_value ''Tsdbend'' cs of None \<Rightarrow> b | Some v \<Rightarrow> parseTimestamp v)"
proof (induction cs arbitrary: i a b)
  case (Cons c cs)
  show ?case
  proof (cases "CLeft c \<in> {''PropertyId'', ''Tsdbstart'', ''Tsdbend''}")
    case True
    then consider "CLeft c = ''PropertyId''" | "CLeft c = ''Tsdbstart''" | "CLeft c = ''Tsdbend''" by blast
    then show ?thesis by cases (simp_all add: comparator_param_triple Cons.IH last_value_Cons split: option.split)
  next
    case False
    then show ?thesis by (simp add: comparator_param_triple Cons.IH last_value_Cons split: option.split)
  qed
qed (simp add: last_value_def)

text \<open>
  C35. The parameters of a time series query are the right sides of the last comparisons with
  PropertyId, Tsdbstart and Tsdbend anywhere in the criteria, whatever the operators
  between and in them; it is an error if the property is missing or empty or a time is
  missing, not a number or zero, and a nil pointer among the criteria panics.
\<close>

theorem tsdb_query_params:
  "extractTsdbParams q =
     (case comparators (Criteria q) of
        None \<Rightarrow> Inl (Panic ''invalid memory address or nil pointer dereference'')
      | Some cs \<Rightarrow>
          let value = (\<lambda>nm. case last_value nm cs of None \<Rightarrow> [] | Some v \<Rightarrow> v);
              start = parseTimestamp (value ''Tsdbstart''); e = parseTimestamp (value ''Tsdbend'')
          in if value ''PropertyId'' = [] then Inl (Err ''propertyId is required for TSDB query'')
             else if start = 0 \<or> e = 0 then Inl (Err ''tsdbstart and tsdbend are required for TSDB query'')
             else Inr (value ''PropertyId'', start, e))"
proof -
  have "parseTimestamp [] = 0" by (simp add: parseTimestamp_def)
  then show ?thesis
    by (simp add: extractTsdbParams_def expression_params_fold fold_comparator_param nil_panic_def Let_def
        split: option.split)
qed

section \<open>Queries by example\<close>

text \<open>The text of a key field.\<close>

definition key_text :: "('w, 'c) svc_env \<Rightarrow> rvalue \<Rightarrow> string" where
  "key_text E v =
     (case v of
        None \<Rightarrow> ''<invalid Value>''
      | Some x \<Rightarrow> (case x of GString t \<Rightarrow> quoted t | _ \<Rightarrow> ''<'' @ typeString E (type_of x) @ '' Value>''))"

definition key_term :: "('w, 'c) svc_env \<Rightarrow> (string \<times> gval) list \<Rightarrow> string \<Rightarrow> string" where
  "key_term E vs f = f @ ''='' @ key_text E (map_of vs f)"

lemma key_text_eq:
  "(if kind_of v = KString then quoted (value_string E v) else value_string E v) = key_text E v"
proof (cases v)
  case (Some x)
  then show ?thesis by (cases x) (simp_all add: key_text_def value_string_def)
qed (simp add: key_text_def value_string_def)

lemma key_terms_joined:
  "key_terms E (GStruct tn vs) fs b =
     Inr ((if b \<or> fs = [] then [] else '' and '') @ comma_sep '' and '' (map (key_term E vs) fs))"
proof (induction fs arbitrary: b)
  case (Cons f fs)
  have "key_terms E (GStruct tn vs) (f # fs) b =
      rbind (key_terms E (GStruct tn vs) fs False) (\<lambda>rest. Inr ((if b then [] else '' and '') @ key_term E vs f @ rest))"
    by (simp add: key_text_eq key_term_def)
  also have "\<dots> = Inr ((if b then [] else '' and '') @ comma_sep '' and '' (map (key_term E vs) (f # fs)))"
    unfolding Cons.IH by (cases fs) simp_all
  finally show ?case by simp
qed simp

lemma key_text_cong:
  assumes "map_option type_of v = map_option type_of v'"
    and "\<And>t. v = Some (GString t) \<Longrightarrow> v' = Some (GString t)"
  shows "key_text E v = key_text E v'"
proof (cases v)
  case (Some x)
  with assms(1) obtain y where y: "v' = Some y" "type_of y = type_of x" by (cases v') auto
  show ?thesis
  proof (cases "\<exists>t. x = GString t")
    case True
    with assms(2) Some show ?thesis by auto
  next
    case False
    then have "\<nexists>t. y = GString t" using y(2) by (cases x) auto
    with False Some y show ?thesis by (cases x; cases y) (simp_all add: key_text_def)
  qed
qed (use assms(1) in simp)

text \<open>
  A query by example selects the type of the element by its primary fields; but only
  strings are compared with their value: two elements whose key fields have the same types,
  and the same values where they are strings, give the same query.
\<close>

theorem element_query_ignores_values:
  assumes "primaryFields E n = Inr fs"
    and "svcNode E tn = Some n" "typ_elem (type_of (serviceItem E)) = Inr it" "typ_name it = tn"
    and "Element pb = Some (GPtr t (Some (GStruct tn vs)))" "Element pb' = Some (GPtr t' (Some (GStruct tn vs')))"
    and "\<And>f. f \<in> set fs \<Longrightarrow> map_option type_of (map_of vs f) = map_option type_of (map_of vs' f)"
    and "\<And>f s. f \<in> set fs \<Longrightarrow> map_of vs f = Some (GString s) \<Longrightarrow> map_of vs' f = Some (GString s)"
  shows "ElementToQuery E pb =
      parseQuery E (''select * from '' @ tn @ '' where '' @ comma_sep '' and '' (map (key_term E vs) fs)) \<and>
    ElementToQuery E pb' = ElementToQuery E pb"
proof -
  have q: "ElementToQuery E p = parseQuery E (''select * from '' @ tn @ '' where '' @ comma_sep '' and '' (map (key_term E ws) fs))"
    if "Element p = Some (GPtr u (Some (GStruct tn ws)))" for p u ws
    using assms(1-4) that by (simp add: ElementToQuery_def struct_of_def key_terms_joined)
  have "key_term E vs f = key_term E vs' f" if "f \<in> set fs" for f
    using key_text_cong [OF assms(7) [OF that], of E] assms(8) [OF that] by (simp add: key_term_def)
  then have m: "map (key_term E vs') fs = map (key_term E vs) fs" by simp
  show ?thesis using q [OF assms(5)] q [OF assms(6)] unfolding m by metis
qed

definition demo_int_key :: "(demo_state pg, demo_cache) svc_env" where
  "demo_int_key = demo_svc\<lparr>primaryFields := (\<lambda>n. Inr [''Id'']), parseQuery := (\<lambda>t. Inl (Err t))\<rparr>"

definition demo_numbered :: "int32 \<Rightarrow> ielements" where
  "demo_numbered i = objectNew demo_pg [Some (GPtr (demo_struct ''Order'') (Some (GStruct ''Order'' [(''Id'', GInt32 ''int32'' i)])))]"

theorem element_query_ignores_values_witness:
  "ElementToQuery demo_int_key (demo_numbered 1) = Inl (Err ''select * from Order where Id=<int32 Value>'') \<and>
   ElementToQuery demo_int_key (demo_numbered 2) = ElementToQuery demo_int_key (demo_numbered 1)"
proof -
  have e: "Element (demo_numbered i) = Some (GPtr (demo_struct ''Order'') (Some (GStruct ''Order'' [(''Id'', GInt32 ''int32'' i)])))" for i
    by (simp add: demo_numbered_def demo_pg_def demo_over_def)
  have s: "primaryFields demo_int_key demo_node = Inr [''Id'']" "svcNode demo_int_key ''Order'' = Some demo_node"
    "typ_elem (type_of (serviceItem demo_int_key)) = Inr (demo_struct ''Order'')" "typ_name (demo_struct ''Order'') = ''Order''"
    by code_simp+
  have p: "parseQuery demo_int_key t = Inl (Err t)" for t by (simp add: demo_int_key_def)
  have "key_term demo_int_key [(''Id'', GInt32 ''int32'' 1)] ''Id'' = ''Id=<int32 Value>''" by code_simp
  with element_query_ignores_values [OF s e [of 1] e [of 2]] show ?thesis unfolding p by simp
qed

section \<open>Callbacks\<close>




end
