(* ===== verification/Spec2Isabelle.thy ===== *)
theory Spec2Isabelle
  imports Convert_Theorem Convert_Service Convert_Schema_Correct Sql_Stmt_Correct Sql_Query_Correct
    Pg_Index_Live Pg_Schema_Correct Pg_Write_Correct Pg_Read_Correct Pg_Tsdb_Correct Pg_Objects Pg_Paging Pg_Typing Type_Pointers
    Orm_Svc_Correct Orm_Svc_Cache Orm_Svc_Queries
begin

text \<open>
  l8orm, an object-relational mapper in Go (src/go/orm), as a shallow embedding.

  THE PROGRAM.  Package convert flattens trees of Go objects to relational data (tables of rows
  with a parent key and a record key, which spells the path of an object from its root) and
  rebuilds them.  Package stmt makes the SQL texts of a table and binds and scans rows.
  Package plugins/postgres creates and migrates tables, writes, deletes and reads relational
  data in transactions, keeps an index of the record keys of paged queries, and a table of
  time series.  Package persist is the service in front of a plugin: a cache, callbacks,
  queries by example, time series queries.  A write goes from a service handler
  (\<open>do_action\<close>) to the plugin (\<open>Write\<close>), which converts batches of elements
  (\<open>ConvertTo\<close>), verifies the tables (\<open>verifyTables\<close>) and runs one statement per
  row (\<open>writeData\<close>); a read goes from \<open>svc_Get\<close> over the cache to \<open>Read\<close>, which
  reads rows directly or page by page through the index, groups them (\<open>addRowToTable\<close>)
  and converts them back (\<open>ConvertFrom\<close>).

  THEORIES AND SOURCES.
  Orm_Prelude: results (a sum with the errors \<open>Err\<close> and \<open>Panic\<close>), loops over results, Go
  maps as association lists with an order per range loop, strings, decimal numbers.
  Go_Value: the part of package reflect that the program uses (values, types, fields, type
  nodes) and the environment \<open>env\<close> of the conversions.  Go_Utf8: strings as UTF-8.
  Rel_Data: types/l8orms and the row store (convert/ConvertTo.go, convert/ConvertFrom.go,
  Read.go addRowToTable), with the interface \<open>row_store\<close> of stores of rows at places.
  Convert_To, Convert_From, Convert_Service: convert/ConvertTo.go, ConvertFrom.go,
  ConvertService.go.  Convert_Frame: what a conversion does not touch.  Convert_Inv: one
  induction over \<open>convertTo\<close> for every invariant of the data (\<open>convertTo_invariant\<close>), and the
  invariant of the row store.  Convert_Roundtrip, Convert_Scalars, Convert_Correct,
  Convert_Main, Convert_Read, Convert_Theorem: the round trip of whole trees of objects, that
  is conforming objects (\<open>conf\<close>), the scalars of a row, the rows of the elements of a field,
  writing a tree, reading it, and the theorems.  Convert_Content: relational data as a map
  from the two keys of a row to its cells (\<open>content_of\<close>), and what it means that objects are
  in it (\<open>holds\<close>).  Convert_Typing: the types of what is read (\<open>built\<close>).
  Convert_Schema(_Correct): convert/Utils.go, the tables and columns of a query or a type.
  Sql_Stmt(_Correct): stmt/Statement.go, Insert.go, Update.go, Select.go; binding and scanning
  are inverse, parameters are numbered as they are bound.  Sql_Query(_Correct):
  stmt/QueryToSql.go, Delete.go, MetaData.go; what the texts mean, and injection safety.
  Pg_Index(_Correct): the index of paged queries of plugins/postgres (Postgres.go, Read.go),
  as a step relation of readers, writers and the cleaner; Pg_Index_Live its infinite runs.
  Pg_Session: the operations of database/sql as a record of actions, the deferred commit or
  rollback as \<open>bracket\<close>, the interface \<open>tx_body\<close> of transaction bodies.
  Type_Graph, Pg_Schema(_Correct): Postgres.go, tables of a type and their migration;
  Type_Pointers: the same search for tables over nodes linked by pointers, as the introspector
  makes them, on which it returns also when types contain themselves.
  Pg_Write(_Correct): Write.go, Delete.go.  Pg_Read(_Correct): Read.go, ReadAggregate.go.
  Pg_Tsdb(_Correct): Tsdb.go, ReadTsdb.go.
  Pg_Content, Pg_Store, Pg_Load, Pg_Remove, Pg_Objects: objects through the database.  The
  tables of the database carry a content (\<open>represents\<close>), so that it holds objects
  (\<open>db_holds\<close>); the statements of a write put the content of its data over the tables
  (\<open>overlays\<close>); what is selected under a condition (\<open>picked\<close>) presents the content again;
  a deletion takes the matching roots and all that is below them out of the content.
  Composed, these are the theorems on whole writes, on a write followed by a read, and on
  whole deletions.  Pg_Page, Pg_Paging: a page of record keys read as objects (\<open>page_result\<close>),
  and a client that asks for all pages of a query, which the index serves.  Pg_Typing: what is read is well-typed, whatever the
  database holds.
  Orm_Svc: persist/*.go; Orm_Svc_Correct has the interface \<open>orm_plugin\<close> of plugins and its
  interpretation by the Postgres plugin, Orm_Svc_Cache the cache, Orm_Svc_Queries the queries
  and callbacks.
  Demo_Env, Demo_Db, Demo_Svc: concrete environments at which the theorems are applied;
  Demo_Store has a database in memory that executes inserts, selects (also of pages) and
  deletions of a type.

  STATE.  A Go struct is a record of its fields (\<open>pg\<close>: the verified tables, the index, and
  the database it holds; \<open>svc\<close>: the cache, the attached plugins and the world behind
  them); a method is a function from the state to a result and the next state (\<open>act\<close>).
  Methods that run under the mutex of the plugin are one step; the index, which has its own
  lock taken several times in a read, is modelled by its critical sections.

  PARAMETERS, that is code outside of the repository: the serialiser and the string
  conversions, the introspector and its decorators, the type registry, the cache, the
  parser of queries, the callbacks of an application, the security provider, the database.
  What is asked of them are named hypotheses: \<open>orders_ok\<close> (a range loop visits every entry
  once), \<open>transactional\<close> (only a commit changes committed data), \<open>ddl_engine\<close> (tables and
  columns are created as told, and the name of a table identifies it), \<open>ts_engine\<close> (points are kept by property and stamp),
  \<open>cache_laws\<close> (elements are kept by primary key), \<open>conf\<close> and \<open>roots_ok\<close> (objects conform to
  their type, and their scalars survive serialisation), \<open>sql_ready\<close> (and the database types),
  \<open>store_ok\<close> (the insert upserts by the two keys, failures are reported as errors, commits
  succeed), \<open>delivers\<close> (a select gives the rows of the table that its condition is true of, in
  any order), \<open>delivers_pages\<close> (also the select of record keys, and of the rows of given record
  keys), \<open>deletes\<close> (LIKE and the condition of a deletion), \<open>registered\<close> (the
  registry makes pointers to structs of the type).  Each is shown to hold of the
  demonstration environments.

  BOUNDS.  Loops are structural or have a measure (sizes of type nodes and criteria, the
  elements left of a batch), so nothing needs fuel but \<open>collect_graph\<close>, whose stack
  has a frame for every type (\<open>collectTables_terminates\<close>).  A type node is a tree, the unfolding of
  the graph of the introspector: a type that contains itself is modelled in Type_Pointers only.
  Integers are words where the source has 32 or 64 bits: column numbers, pages and limits,
  stamps, cache keys.  Floats are their bits.

  SCOPE OF THE PROPERTIES.  Commits are supposed to succeed in the theorems on whole objects
  (\<open>store_ok\<close>), because Write and Delete report a failed one as success; deletions are exact
  for keys without quotes and characters special to LIKE (\<open>free_keys\<close>); hits of the index are
  fresh if no two invalidations fall into the same second (\<open>ix_reachable True\<close>); the clause of a
  criteria is the one expected if no comparison on the root table stands behind one on another
  (\<open>lead_ok\<close>); patterns mean the wildcards of values without characters special to LIKE.  Beside
  each stands a lemma or a finding that shows what happens without it.

  NOT MODELLED: the generated runtime code of orms.pb.go; loggers; the mutexes as such; the
  clock, which is an argument; opening a connection; the constant answers of the service
  interfaces; the package function that makes a service agreement; \<open>Rows.Close\<close> and
  \<open>Stmt.Close\<close>.
\<close>

end
